(* ===== verification/Prelude.thy ===== *)
theory Prelude
  imports Main "HOL-Library.AList" "HOL-Library.Word"
begin

text \<open>
  Shared vocabulary of the development: the JavaScript string operations the
  TypeScript sources use (indexing that may be out of range, \<open>startsWith\<close>,
  \<open>indexOf\<close>, \<open>slice\<close>, \<open>split\<close>), the character classes of their regular
  expressions, insertion-ordered \<open>Map\<close>s, and the generic lemmas on them.
  A string is a list of code units; every delimiter the sources look for is ASCII.
\<close>

named_theorems js_bounds \<open>bounds of the indices the search operations return\<close>
named_theorems js_map \<open>lookup laws of insertion-ordered maps\<close>

section \<open>Loops over an index\<close>

text \<open>Induction on a loop whose index grows and which works only below a bound.\<close>

lemma index_induct [case_names step]:
  fixes i n :: nat
  assumes step: "\<And>i. (\<And>j. i < j \<Longrightarrow> i < n \<Longrightarrow> P j) \<Longrightarrow> P i"
  shows "P i"
proof (induction "n - i" arbitrary: i rule: less_induct)
  case less
  show ?case by (rule step) (rule less, simp)
qed

section \<open>Characters\<close>

abbreviation NL :: char where "NL \<equiv> CHR 0x0A"
abbreviation CR :: char where "CR \<equiv> CHR 0x0D"
abbreviation BSL :: char where "BSL \<equiv> CHR 0x5C"
abbreviation SQ :: char where "SQ \<equiv> CHR 0x27"
abbreviation DQ :: char where "DQ \<equiv> CHR 0x22"

text \<open>\<open>[a-zA-Z]\<close>, \<open>[0-9]\<close>, \<open>\w\<close> and \<open>\s\<close> (the units below 256).\<close>

definition is_letter :: "char \<Rightarrow> bool" where
  "is_letter c \<longleftrightarrow> (let n = (of_char c :: nat) in 65 \<le> n \<and> n \<le> 90 \<or> 97 \<le> n \<and> n \<le> 122)"

definition is_digit :: "char \<Rightarrow> bool" where
  "is_digit c \<longleftrightarrow> (let n = (of_char c :: nat) in 48 \<le> n \<and> n \<le> 57)"

definition is_word_char :: "char \<Rightarrow> bool" where
  "is_word_char c \<longleftrightarrow> is_letter c \<or> is_digit c \<or> c = CHR ''_''"

definition is_js_space :: "char \<Rightarrow> bool" where
  "is_js_space c \<longleftrightarrow> (let n = (of_char c :: nat) in 9 \<le> n \<and> n \<le> 13 \<or> n = 32 \<or> n = 160)"

text \<open>ASCII lower-casing, as the \<open>i\<close> flag and \<open>toLowerCase\<close> do on these units.\<close>

definition lower :: "char \<Rightarrow> char" where
  "lower c = (let n = (of_char c :: nat) in if 65 \<le> n \<and> n \<le> 90 then char_of (n + 32) else c)"

section \<open>Strings\<close>

text \<open>\<open>s[i]\<close>: \<open>None\<close> is \<open>undefined\<close>.\<close>

definition char_at :: "string \<Rightarrow> nat \<Rightarrow> char option" where
  "char_at s i = (if i < length s then Some (s ! i) else None)"

text \<open>\<open>s.startsWith(p, i)\<close>.\<close>

definition starts_with_at :: "string \<Rightarrow> string \<Rightarrow> nat \<Rightarrow> bool" where
  "starts_with_at s p i \<longleftrightarrow> take (length p) (drop i s) = p"

text \<open>\<open>s.indexOf(p, i)\<close> for a non-empty \<open>p\<close>: \<open>None\<close> is \<open>-1\<close>.\<close>

function index_of :: "string \<Rightarrow> string \<Rightarrow> nat \<Rightarrow> nat option" where
  "index_of s p i =
     (if length s < i + length p then None
      else if starts_with_at s p i then Some i
      else index_of s p (Suc i))"
  by pat_completeness auto
termination
  by (relation "measure (\<lambda>(s, p, i). Suc (length s) - i)") auto

declare index_of.simps [simp del]

text \<open>\<open>s.slice(a, b)\<close> and \<open>s.slice(a)\<close> for indices that are not negative.\<close>

definition js_slice :: "string \<Rightarrow> nat \<Rightarrow> nat \<Rightarrow> string" where
  "js_slice s a b = take (b - a) (drop a s)"

text \<open>The index clamping of \<open>slice\<close> for any integer: negative ones count from the end.\<close>

definition clamp_index :: "nat \<Rightarrow> int \<Rightarrow> nat" where
  "clamp_index n k = (if k < 0 then nat (int n + k) else min (nat k) n)"

text \<open>\<open>s.split('\n')\<close>.\<close>

fun split_nl :: "string \<Rightarrow> string list" where
  "split_nl [] = [[]]"
| "split_nl (c # cs) =
     (if c = NL then [] # split_nl cs
      else (case split_nl cs of [] \<Rightarrow> [[c]] | l # ls \<Rightarrow> (c # l) # ls))"

subsection \<open>Facts\<close>

lemma char_at_Some [simp]: "char_at s i = Some c \<longleftrightarrow> i < length s \<and> s ! i = c"
  by (auto simp: char_at_def)

lemma char_at_None [simp]: "char_at s i = None \<longleftrightarrow> length s \<le> i"
  by (auto simp: char_at_def)

lemma starts_with_at_Nil [simp]: "starts_with_at s [] i"
  by (simp add: starts_with_at_def)

lemma starts_with_at_Cons [simp]:
  "starts_with_at s (c # p) i \<longleftrightarrow> char_at s i = Some c \<and> starts_with_at s p (Suc i)"
proof (cases "i < length s")
  case True
  then have "drop i s = s ! i # drop (Suc i) s" by (simp add: Cons_nth_drop_Suc)
  with True show ?thesis by (auto simp: starts_with_at_def)
qed (simp add: starts_with_at_def)

lemma starts_with_at_length: "starts_with_at s p i \<Longrightarrow> p \<noteq> [] \<Longrightarrow> i + length p \<le> length s"
proof -
  assume *: "starts_with_at s p i" and "p \<noteq> []"
  have "length (take (length p) (drop i s)) = length p"
    using * by (simp add: starts_with_at_def)
  with \<open>p \<noteq> []\<close> show ?thesis by (cases p) auto
qed

lemma starts_with_at_nth:
  assumes "starts_with_at s p i" and "k < length p"
  shows "s ! (i + k) = p ! k"
proof -
  from assms have "i + length p \<le> length s"
    by (intro starts_with_at_length) auto
  moreover have "take (length p) (drop i s) ! k = p ! k"
    using assms(1) by (simp add: starts_with_at_def)
  ultimately show ?thesis using assms(2) by simp
qed

lemma index_of_Some:
  "index_of s p i = Some j \<Longrightarrow>
     i \<le> j \<and> j + length p \<le> length s \<and> starts_with_at s p j
     \<and> (\<forall>k. i \<le> k \<and> k < j \<longrightarrow> \<not> starts_with_at s p k)"
proof (induction s p i rule: index_of.induct)
  case (1 s p i)
  show ?case
  proof (cases "length s < i + length p \<or> starts_with_at s p i")
    case True
    with "1.prems" show ?thesis by (auto simp: index_of.simps [of s p i] split: if_splits)
  next
    case False
    with "1.prems" have "index_of s p (Suc i) = Some j"
      by (simp add: index_of.simps [of s p i])
    with "1.IH" False have IH: "Suc i \<le> j \<and> j + length p \<le> length s \<and> starts_with_at s p j
        \<and> (\<forall>k. Suc i \<le> k \<and> k < j \<longrightarrow> \<not> starts_with_at s p k)" by simp
    have "\<not> starts_with_at s p k" if "i \<le> k" and "k < j" for k
      using that IH False by (cases "i = k") auto
    with IH show ?thesis by auto
  qed
qed

lemma index_of_None:
  assumes "index_of s p i = None" and "p \<noteq> []"
  shows "i \<le> k \<Longrightarrow> \<not> starts_with_at s p k"
  using assms
proof (induction s p i arbitrary: k rule: index_of.induct)
  case (1 s p i)
  show ?case
  proof (cases "length s < i + length p")
    case True
    with "1.prems" show ?thesis using starts_with_at_length [of s p k] by auto
  next
    case False
    with "1.prems" have ns: "\<not> starts_with_at s p i" and "index_of s p (Suc i) = None"
      by (auto simp: index_of.simps [of s p i] split: if_splits)
    with "1.IH" [of k] False "1.prems" show ?thesis by (cases "i = k") auto
  qed
qed

lemma index_of_bounds [js_bounds]:
  "index_of s p i = Some j \<Longrightarrow> i \<le> j \<and> j + length p \<le> length s"
  by (auto dest: index_of_Some)

lemma length_js_slice [simp]: "length (js_slice s a b) = min (b - a) (length s - a)"
  by (auto simp: js_slice_def)

lemma nth_js_slice [simp]: "i < b - a \<Longrightarrow> a + i < length s \<Longrightarrow> js_slice s a b ! i = s ! (a + i)"
  by (simp add: js_slice_def)

lemma clamp_index_le: "clamp_index n k \<le> n"
  by (auto simp: clamp_index_def)

lemma split_nl_not_Nil [simp]: "split_nl s \<noteq> []"
  by (induction s) (auto split: list.splits)

lemma length_split_nl: "length (split_nl s) = Suc (count_list s NL)"
  by (induction s) (auto split: list.splits)

section \<open>Insertion-ordered maps\<close>

text \<open>
  A \<open>Map\<close> is its list of entries in insertion order: \<open>set\<close> replaces the value of a
  present key in place and appends a new one (\<open>AList.update\<close>), \<open>delete\<close> removes it.
\<close>

type_synonym ('k, 'v) jsmap = "('k \<times> 'v) list"

abbreviation jm_get :: "('k, 'v) jsmap \<Rightarrow> 'k \<Rightarrow> 'v option" where
  "jm_get \<equiv> map_of"

abbreviation jm_set :: "'k \<Rightarrow> 'v \<Rightarrow> ('k, 'v) jsmap \<Rightarrow> ('k, 'v) jsmap" where
  "jm_set \<equiv> AList.update"

abbreviation jm_delete :: "'k \<Rightarrow> ('k, 'v) jsmap \<Rightarrow> ('k, 'v) jsmap" where
  "jm_delete \<equiv> AList.delete"

abbreviation jm_keys :: "('k, 'v) jsmap \<Rightarrow> 'k list" where
  "jm_keys m \<equiv> map fst m"

abbreviation jm_values :: "('k, 'v) jsmap \<Rightarrow> 'v list" where
  "jm_values m \<equiv> map snd m"

lemma jm_get_set [js_map, simp]: "jm_get (jm_set k v m) k' = (if k' = k then Some v else jm_get m k')"
  by (simp add: update_conv')

lemma jm_get_delete [js_map, simp]: "jm_get (jm_delete k m) k' = (if k' = k then None else jm_get m k')"
  by (simp add: delete_conv')

lemma distinct_jm_set: "distinct (jm_keys m) \<Longrightarrow> distinct (jm_keys (jm_set k v m))"
  by (rule distinct_update)

lemma distinct_jm_delete: "distinct (jm_keys m) \<Longrightarrow> distinct (jm_keys (jm_delete k m))"
  by (rule distinct_delete)

lemma jm_values_get:
  "distinct (jm_keys m) \<Longrightarrow> v \<in> set (jm_values m) \<longleftrightarrow> (\<exists>k. jm_get m k = Some v)"
  by (force simp: image_iff)

lemma js_slice_append: "a \<le> b \<Longrightarrow> b \<le> c \<Longrightarrow> js_slice s a b @ js_slice s b c = js_slice s a c"
  using take_add [of "b - a" "c - b" "drop a s"] by (simp add: js_slice_def)

end
