(* ===== verification/RegionScanner.thy ===== *)
theory RegionScanner
  imports Prelude
begin

text \<open>
  \<open>packages/highlighting-extension/src/common/jsp-region-scanner.ts\<close>: the JSP region
  scanner. A document is cut into a flat list of regions; the closing-delimiter
  searches, the tag scanner, the main loop and the offset-to-position translation
  follow the class method by method. An index of \<open>-1\<close> is \<open>None\<close>. Every loop over an
  index is a recursive function whose measure is the rest of the text.
\<close>

section \<open>Data model\<close>

datatype region_kind =
  JspComment | HtmlComment | JspDirective | JspDeclaration | JspExpression | JspScriptlet
| ElExpression | EmbeddedScript | EmbeddedStyle | Tag | PlainText

datatype embedded_language = LangJava | LangJavascript | LangCss | LangEl

datatype jsp_dialect = DialectJsp | DialectJspf | DialectJspx | DialectTag | DialectTagx

record jsp_region =
  rg_kind :: region_kind
  rg_startOffset :: nat
  rg_endOffset :: nat
  rg_startLine :: nat
  rg_startCol :: nat
  rg_endLine :: nat
  rg_endCol :: nat
  rg_embeddedLanguage :: "embedded_language option"
  rg_isClosed :: bool
  rg_innerStartOffset :: nat
  rg_innerEndOffset :: nat
  rg_tagName :: "string option"

datatype java_block_kind = BlockScriptlet | BlockExpression | BlockDeclaration | BlockDirective

record java_block =
  jb_start :: nat
  jb_end :: nat
  jb_kind :: java_block_kind

section \<open>Closing delimiters\<close>

subsection \<open>\<open>findScriptletClose\<close>\<close>

text \<open>
  The loop of \<open>findScriptletClose\<close> with its four flags, in the order the source
  declares them: \<open>inSingle\<close>, \<open>inDouble\<close>, \<open>inLineComment\<close>, \<open>inBlockComment\<close>.
\<close>

function scriptlet_close_loop ::
  "string \<Rightarrow> nat \<Rightarrow> bool \<Rightarrow> bool \<Rightarrow> bool \<Rightarrow> bool \<Rightarrow> nat option"
where
  "scriptlet_close_loop content idx inSingle inDouble inLineComment inBlockComment =
    (if idx + 1 < length content then
       let c = content ! idx; n = content ! (idx + 1) in
       if inLineComment then
         scriptlet_close_loop content (idx + 1) inSingle inDouble (c \<noteq> NL) inBlockComment
       else if inBlockComment then
         (if c = CHR ''*'' \<and> n = CHR ''/'' then
            scriptlet_close_loop content (idx + 2) inSingle inDouble inLineComment False
          else scriptlet_close_loop content (idx + 1) inSingle inDouble inLineComment inBlockComment)
       else if inSingle then
         (if c = BSL then
            scriptlet_close_loop content (idx + 2) inSingle inDouble inLineComment inBlockComment
          else scriptlet_close_loop content (idx + 1) (\<not> (c = SQ \<or> c = NL)) inDouble
                 inLineComment inBlockComment)
       else if inDouble then
         (if c = BSL then
            scriptlet_close_loop content (idx + 2) inSingle inDouble inLineComment inBlockComment
          else scriptlet_close_loop content (idx + 1) inSingle (\<not> (c = DQ \<or> c = NL))
                 inLineComment inBlockComment)
       else if c = CHR ''/'' \<and> n = CHR ''/'' then
         scriptlet_close_loop content (idx + 2) inSingle inDouble True inBlockComment
       else if c = CHR ''/'' \<and> n = CHR ''*'' then
         scriptlet_close_loop content (idx + 2) inSingle inDouble inLineComment True
       else if c = SQ then
         scriptlet_close_loop content (idx + 1) True inDouble inLineComment inBlockComment
       else if c = DQ then
         scriptlet_close_loop content (idx + 1) inSingle True inLineComment inBlockComment
       else if c = CHR ''%'' \<and> n = BSL \<and> idx + 2 < length content
               \<and> content ! (idx + 2) = CHR ''>'' then
         scriptlet_close_loop content (idx + 3) inSingle inDouble inLineComment inBlockComment
       else if c = CHR ''%'' \<and> n = CHR ''>'' then Some idx
       else scriptlet_close_loop content (idx + 1) inSingle inDouble inLineComment inBlockComment
     else None)"
  by pat_completeness auto
termination
  by (relation "measure (\<lambda>(content, idx, _). length content - idx)") auto

declare scriptlet_close_loop.simps [simp del]

definition findScriptletClose :: "string \<Rightarrow> nat \<Rightarrow> nat option" where
  "findScriptletClose content from = scriptlet_close_loop content from False False False False"

lemma scriptlet_close_loop_Some:
  "scriptlet_close_loop content idx a b c d = Some j \<Longrightarrow>
     idx \<le> j \<and> j + 1 < length content \<and> content ! j = CHR ''%'' \<and> content ! (j + 1) = CHR ''>''"
proof (induction idx arbitrary: a b c d rule: index_induct [where n = "length content"])
  case (step idx)
  have IH: "i \<le> j \<and> j + 1 < length content \<and> content ! j = CHR ''%'' \<and> content ! (j + 1) = CHR ''>''"
    if "scriptlet_close_loop content i a b c d = Some j" "idx < i" "idx < length content" for i a b c d
    using step.IH that by blast
  show ?case
    using step.prems
    by (subst (asm) scriptlet_close_loop.simps) (auto simp: Let_def split: if_splits dest: IH)
qed

lemma findScriptletClose_Some:
  assumes "findScriptletClose content from = Some j"
  shows "from \<le> j \<and> j + 2 \<le> length content
    \<and> content ! j = CHR ''%'' \<and> content ! (j + 1) = CHR ''>''"
  using scriptlet_close_loop_Some [OF assms [unfolded findScriptletClose_def]] by auto

subsection \<open>\<open>findElClose\<close>\<close>

function el_close_loop :: "string \<Rightarrow> nat \<Rightarrow> int \<Rightarrow> bool \<Rightarrow> bool \<Rightarrow> nat option" where
  "el_close_loop content i depth inDouble inSingle =
    (if i < length content then
       let c = content ! i in
       if inDouble then
         (if c = BSL then el_close_loop content (i + 2) depth inDouble inSingle
          else el_close_loop content (i + 1) depth (c \<noteq> DQ) inSingle)
       else if inSingle then
         (if c = BSL then el_close_loop content (i + 2) depth inDouble inSingle
          else el_close_loop content (i + 1) depth inDouble (c \<noteq> SQ))
       else if c = DQ then el_close_loop content (i + 1) depth True inSingle
       else if c = SQ then el_close_loop content (i + 1) depth inDouble True
       else if c = CHR ''{'' then el_close_loop content (i + 1) (depth + 1) inDouble inSingle
       else if c = CHR ''}'' \<and> depth - 1 = 0 then Some i
       else
         let depth' = (if c = CHR ''}'' then depth - 1 else depth) in
         if c = NL \<and> depth' > 5 then None
         else el_close_loop content (i + 1) depth' inDouble inSingle
     else None)"
  by pat_completeness auto
termination
  by (relation "measure (\<lambda>(content, i, _). length content - i)") auto

declare el_close_loop.simps [simp del]

definition findElClose :: "string \<Rightarrow> nat \<Rightarrow> nat option" where
  "findElClose content from = el_close_loop content from 1 False False"

lemma el_close_loop_Some:
  "el_close_loop content i d a b = Some j \<Longrightarrow>
     i \<le> j \<and> j < length content \<and> content ! j = CHR ''}''"
proof (induction i arbitrary: d a b rule: index_induct [where n = "length content"])
  case (step i)
  have IH: "k \<le> j \<and> j < length content \<and> content ! j = CHR ''}''"
    if "el_close_loop content k d a b = Some j" "i < k" "i < length content" for k d a b
    using step.IH that by blast
  show ?case
    using step.prems
    by (subst (asm) el_close_loop.simps) (auto simp: Let_def split: if_splits dest: IH)
qed

lemma findElClose_Some:
  assumes "findElClose content from = Some j"
  shows "from \<le> j \<and> j < length content \<and> content ! j = CHR ''}''"
  using el_close_loop_Some [OF assms [unfolded findElClose_def]] by auto

subsection \<open>\<open>findTagClose\<close> and \<open>findNextDelimiter\<close>\<close>

function tag_close_loop :: "string \<Rightarrow> nat \<Rightarrow> bool \<Rightarrow> bool \<Rightarrow> nat option" where
  "tag_close_loop content i inDouble inSingle =
    (if i < length content then
       let c = content ! i in
       if inDouble then tag_close_loop content (i + 1) (c \<noteq> DQ) inSingle
       else if inSingle then tag_close_loop content (i + 1) inDouble (c \<noteq> SQ)
       else if c = DQ then tag_close_loop content (i + 1) True inSingle
       else if c = SQ then tag_close_loop content (i + 1) inDouble True
       else
         case (if c = CHR ''<'' \<and> char_at content (i + 1) = Some (CHR ''%'')
               then findScriptletClose content (i + 2) else None) of
           Some closeJsp \<Rightarrow> tag_close_loop content (closeJsp + 2) inDouble inSingle
         | None \<Rightarrow>
             (case (if (c = CHR ''$'' \<or> c = CHR ''#'') \<and> char_at content (i + 1) = Some (CHR ''{'')
                    then findElClose content (i + 2) else None) of
                Some closeEl \<Rightarrow> tag_close_loop content (closeEl + 1) inDouble inSingle
              | None \<Rightarrow> if c = CHR ''>'' then Some i
                         else tag_close_loop content (i + 1) inDouble inSingle)
     else None)"
  by pat_completeness auto
termination
  by (relation "measure (\<lambda>(content, i, _). length content - i)")
    (auto split: if_splits dest: findScriptletClose_Some findElClose_Some)

declare tag_close_loop.simps [simp del]

definition findTagClose :: "string \<Rightarrow> nat \<Rightarrow> nat option" where
  "findTagClose content from = tag_close_loop content from False False"

function findNextDelimiter :: "string \<Rightarrow> nat \<Rightarrow> nat option" where
  "findNextDelimiter content i =
    (if i < length content then
       if content ! i = CHR ''<'' then Some i
       else if content ! i = CHR ''$'' \<and> char_at content (i + 1) = Some (CHR ''{'') then Some i
       else if content ! i = CHR ''#'' \<and> char_at content (i + 1) = Some (CHR ''{'') then Some i
       else findNextDelimiter content (i + 1)
     else None)"
  by pat_completeness auto
termination
  by (relation "measure (\<lambda>(content, i). length content - i)") auto

declare findNextDelimiter.simps [simp del]

lemma tag_close_loop_Some:
  "tag_close_loop content i a b = Some j \<Longrightarrow> i \<le> j \<and> j < length content \<and> content ! j = CHR ''>''"
proof (induction i arbitrary: a b rule: index_induct [where n = "length content"])
  case (step i)
  have IH: "k \<le> j \<and> j < length content \<and> content ! j = CHR ''>''"
    if "tag_close_loop content k a b = Some j" "i < k" "i < length content" for k a b
    using step.IH that by blast
  show ?case
    using step.prems
    by (subst (asm) tag_close_loop.simps)
      (auto simp: Let_def split: if_splits option.splits
        dest: IH dest!: findScriptletClose_Some findElClose_Some)
qed

lemma findNextDelimiter_Some:
  "findNextDelimiter content i = Some j \<Longrightarrow>
     i \<le> j \<and> j < length content \<and> content ! j \<in> {CHR ''<'', CHR ''$'', CHR ''#''}"
proof (induction i rule: index_induct [where n = "length content"])
  case (step i)
  have IH: "k \<le> j \<and> j < length content \<and> content ! j \<in> {CHR ''<'', CHR ''$'', CHR ''#''}"
    if "findNextDelimiter content k = Some j" "i < k" "i < length content" for k
    using step.IH that by blast
  show ?case
    using step.prems
    by (subst (asm) findNextDelimiter.simps) (auto split: if_splits dest: IH)
qed

section \<open>Positions\<close>

definition computeLineOffsets :: "string \<Rightarrow> nat list" where
  "computeLineOffsets content =
     fold (\<lambda>i offsets. if content ! i = NL then offsets @ [i + 1] else offsets)
       [0..<length content] [0]"

text \<open>The binary search of \<open>getPos\<close>; \<open>high\<close> may become \<open>-1\<close>.\<close>

function get_pos_loop :: "nat list \<Rightarrow> nat \<Rightarrow> int \<Rightarrow> int \<Rightarrow> nat \<times> nat" where
  "get_pos_loop lineOffsets off low high =
    (if low \<le> high then
       let mid = (low + high) div 2 in
       if lineOffsets ! nat mid \<le> off then
         if mid = int (length lineOffsets) - 1 \<or> lineOffsets ! nat (mid + 1) > off
         then (nat mid, off - lineOffsets ! nat mid)
         else get_pos_loop lineOffsets off (mid + 1) high
       else get_pos_loop lineOffsets off low (mid - 1)
     else (0, off))"
  by pat_completeness auto
termination
  by (relation "measure (\<lambda>(lineOffsets, off, low, high). nat (high - low + 1))") auto

declare get_pos_loop.simps [simp del]

definition getPos :: "nat list \<Rightarrow> nat \<Rightarrow> nat \<times> nat" where
  "getPos lineOffsets off = get_pos_loop lineOffsets off 0 (int (length lineOffsets) - 1)"

text \<open>The object literal every branch pushes, with its two calls of \<open>getPos\<close>.\<close>

definition mk_region ::
  "nat list \<Rightarrow> region_kind \<Rightarrow> nat \<Rightarrow> nat \<Rightarrow> embedded_language option \<Rightarrow> bool \<Rightarrow> nat \<Rightarrow> nat
     \<Rightarrow> string option \<Rightarrow> jsp_region"
where
  "mk_region lineOffsets kind startOffset endOffset lang closed innerStart innerEnd tag =
    \<lparr> rg_kind = kind, rg_startOffset = startOffset, rg_endOffset = endOffset,
      rg_startLine = fst (getPos lineOffsets startOffset),
      rg_startCol = snd (getPos lineOffsets startOffset),
      rg_endLine = fst (getPos lineOffsets endOffset),
      rg_endCol = snd (getPos lineOffsets endOffset),
      rg_embeddedLanguage = lang, rg_isClosed = closed,
      rg_innerStartOffset = innerStart, rg_innerEndOffset = innerEnd, rg_tagName = tag \<rparr>"

section \<open>\<open>scanTagWithEmbedded\<close>\<close>

text \<open>The \<open>'tag'\<close> chunk pushed before an embedded region, if it is not empty.\<close>

definition tag_chunk :: "nat list \<Rightarrow> nat \<Rightarrow> nat \<Rightarrow> nat \<Rightarrow> jsp_region list" where
  "tag_chunk lineOffsets offset tagChunkStart i =
    (if i > tagChunkStart then
       [mk_region lineOffsets Tag tagChunkStart i None True
          (if tagChunkStart = offset then offset + 1 else tagChunkStart) i None]
     else [])"

text \<open>The embedded \<open><% ... %>\<close> at \<open>i\<close> and the embedded EL expression at \<open>i\<close>.\<close>

definition embedded_jsp :: "nat list \<Rightarrow> string \<Rightarrow> nat \<Rightarrow> jsp_region" where
  "embedded_jsp lineOffsets content i =
    (let marker = char_at content (i + 2);
         kind = (if marker = Some (CHR ''='') then JspExpression
                 else if marker = Some (CHR ''!'') then JspDeclaration else JspScriptlet);
         innerStart = (if kind = JspScriptlet then i + 2 else i + 3)
     in case findScriptletClose content innerStart of
          Some closeIdx \<Rightarrow> mk_region lineOffsets kind i (closeIdx + 2) (Some LangJava) True
                             innerStart closeIdx None
        | None \<Rightarrow> mk_region lineOffsets kind i (length content) (Some LangJava) False
                    innerStart (length content) None)"

definition el_region :: "nat list \<Rightarrow> string \<Rightarrow> nat \<Rightarrow> jsp_region" where
  "el_region lineOffsets content i =
    (case findElClose content (i + 2) of
       Some closeIdx \<Rightarrow> mk_region lineOffsets ElExpression i (closeIdx + 1) (Some LangEl) True
                          (i + 2) closeIdx None
     | None \<Rightarrow> mk_region lineOffsets ElExpression i (length content) (Some LangEl) False
                 (i + 2) (length content) None)"

lemmas region_defs = mk_region_def tag_chunk_def embedded_jsp_def el_region_def

lemma embedded_jsp_end [js_bounds]:
  "i < length content \<Longrightarrow>
     i < rg_endOffset (embedded_jsp los content i)
     \<and> rg_endOffset (embedded_jsp los content i) \<le> length content"
  by (auto simp: region_defs Let_def split: option.splits dest!: findScriptletClose_Some)

lemma el_region_end [js_bounds]:
  "i < length content \<Longrightarrow>
     i < rg_endOffset (el_region los content i)
     \<and> rg_endOffset (el_region los content i) \<le> length content"
  by (auto simp: region_defs split: option.splits dest!: findElClose_Some)

function scan_tag_loop ::
  "nat list \<Rightarrow> string \<Rightarrow> nat \<Rightarrow> nat \<Rightarrow> bool \<Rightarrow> bool \<Rightarrow> nat \<Rightarrow> jsp_region list \<times> nat"
where
  "scan_tag_loop los content offset i inDouble inSingle tagChunkStart =
    (if i < length content then
       let c = content ! i; n = char_at content (i + 1) in
       if c = CHR ''<'' \<and> n = Some (CHR ''%'') then
         let r = embedded_jsp los content i;
             (rest, stop) = scan_tag_loop los content offset (rg_endOffset r) inDouble inSingle
                              (rg_endOffset r)
         in (tag_chunk los offset tagChunkStart i @ r # rest, stop)
       else if (c = CHR ''$'' \<or> c = CHR ''#'') \<and> n = Some (CHR ''{'') then
         let r = el_region los content i;
             (rest, stop) = scan_tag_loop los content offset (rg_endOffset r) inDouble inSingle
                              (rg_endOffset r)
         in (tag_chunk los offset tagChunkStart i @ r # rest, stop)
       else if inDouble then
         scan_tag_loop los content offset (i + 1) (c \<noteq> DQ) inSingle tagChunkStart
       else if inSingle then
         scan_tag_loop los content offset (i + 1) inDouble (c \<noteq> SQ) tagChunkStart
       else if c = DQ then scan_tag_loop los content offset (i + 1) True inSingle tagChunkStart
       else if c = SQ then scan_tag_loop los content offset (i + 1) inDouble True tagChunkStart
       else if c = CHR ''>'' then
         ((if i + 1 > tagChunkStart then
             [mk_region los Tag tagChunkStart (i + 1) None True
                (if tagChunkStart = offset then offset + 1 else tagChunkStart) i None]
           else []), i + 1)
       else scan_tag_loop los content offset (i + 1) inDouble inSingle tagChunkStart
     else
       ((if length content > tagChunkStart then
           [mk_region los Tag tagChunkStart (length content) None False
              (if tagChunkStart = offset then offset + 1 else tagChunkStart) (length content) None]
         else []), length content))"
  by pat_completeness auto
termination
  by (relation "measure (\<lambda>(los, content, offset, i, _). length content - i)")
    (auto dest: embedded_jsp_end el_region_end intro: diff_less_mono2)

declare scan_tag_loop.simps [simp del]

definition scanTagWithEmbedded :: "string \<Rightarrow> nat \<Rightarrow> nat list \<Rightarrow> jsp_region list \<times> nat" where
  "scanTagWithEmbedded content offset los = scan_tag_loop los content offset (offset + 1) False False offset"

section \<open>\<open><script>\<close> and \<open><style>\<close> elements\<close>

text \<open>Case-insensitive literal match of a lower-case \<open>p\<close> at \<open>i\<close>.\<close>

definition ci_match_at :: "string \<Rightarrow> string \<Rightarrow> nat \<Rightarrow> bool" where
  "ci_match_at s p i \<longleftrightarrow> map lower (take (length p) (drop i s)) = p"

text \<open>
  \<open>/^<name\b[^>]*>/i\<close> on \<open>content.slice(i)\<close>: the end of the match. After the literal
  the word boundary asks for a unit that is not a word character, and \<open>[^>]*>\<close> ends
  at the first \<open>>\<close>.
\<close>

definition open_tag_end :: "string \<Rightarrow> string \<Rightarrow> nat \<Rightarrow> nat option" where
  "open_tag_end content name i =
    (let p = CHR ''<'' # name; j = i + length p in
     if ci_match_at content p i
        \<and> (case char_at content j of None \<Rightarrow> True | Some c \<Rightarrow> \<not> is_word_char c)
     then map_option Suc (index_of content ''>'' j)
     else None)"

text \<open>\<open>/<\/name\s*>/i\<close>: start and end of the leftmost match from \<open>i\<close>.\<close>

function skip_spaces :: "string \<Rightarrow> nat \<Rightarrow> nat" where
  "skip_spaces s i = (if i < length s \<and> is_js_space (s ! i) then skip_spaces s (i + 1) else i)"
  by pat_completeness auto
termination
  by (relation "measure (\<lambda>(s, i). length s - i)") auto

declare skip_spaces.simps [simp del]

function close_tag_match :: "string \<Rightarrow> string \<Rightarrow> nat \<Rightarrow> (nat \<times> nat) option" where
  "close_tag_match content name i =
    (if i < length content then
       let p = ''</'' @ name; k = skip_spaces content (i + length p) in
       if ci_match_at content p i \<and> char_at content k = Some (CHR ''>'') then Some (i, k + 1)
       else close_tag_match content name (i + 1)
     else None)"
  by pat_completeness auto
termination
  by (relation "measure (\<lambda>(content, name, i). length content - i)") auto

declare close_tag_match.simps [simp del]

lemma skip_spaces_ge: "i \<le> skip_spaces s i"
proof (induction s i rule: skip_spaces.induct)
  case (1 s i)
  then show ?case by (subst skip_spaces.simps) auto
qed

lemma close_tag_match_Some:
  "close_tag_match content name i = Some (a, b) \<Longrightarrow>
     i \<le> a \<and> a + length name + 3 \<le> b \<and> b \<le> length content
     \<and> ci_match_at content (''</'' @ name) a \<and> content ! (b - 1) = CHR ''>''"
proof (induction i rule: index_induct [where n = "length content"])
  case (step i)
  have IH: "k \<le> a \<and> a + length name + 3 \<le> b \<and> b \<le> length content
      \<and> ci_match_at content (''</'' @ name) a \<and> content ! (b - 1) = CHR ''>''"
    if "close_tag_match content name k = Some (a, b)" "i < k" "i < length content" for k
    using step.IH that by blast
  show ?case
    using step.prems skip_spaces_ge [of "i + length (''</'' @ name)" content]
    by (subst (asm) close_tag_match.simps) (auto simp: Let_def split: if_splits dest: IH)
qed

lemma open_tag_end_Some:
  "open_tag_end content name i = Some e \<Longrightarrow> i + length name + 2 \<le> e \<and> e \<le> length content"
  by (auto simp: open_tag_end_def Let_def split: if_splits dest!: index_of_bounds)

definition embedded_element ::
  "nat list \<Rightarrow> string \<Rightarrow> region_kind \<Rightarrow> embedded_language \<Rightarrow> string \<Rightarrow> nat \<Rightarrow> nat \<Rightarrow> jsp_region"
where
  "embedded_element los content kind lang name offset innerStart =
    (case close_tag_match content name innerStart of
       Some (innerEnd, endOffset) \<Rightarrow>
         mk_region los kind offset endOffset (Some lang) True innerStart innerEnd (Some name)
     | None \<Rightarrow>
         mk_region los kind offset (length content) (Some lang) False innerStart (length content)
           (Some name))"

section \<open>\<open>scanRegions\<close>\<close>

text \<open>\<open><%-- ... --%>\<close> and \<open><!-- ... -->\<close> share their shape: opener of four units.\<close>

definition comment_region :: "nat list \<Rightarrow> string \<Rightarrow> region_kind \<Rightarrow> string \<Rightarrow> nat \<Rightarrow> jsp_region" where
  "comment_region los content kind closer offset =
    (case index_of content closer (offset + 4) of
       Some closeIdx \<Rightarrow> mk_region los kind offset (closeIdx + length closer) None True
                          (offset + 4) closeIdx None
     | None \<Rightarrow> mk_region los kind offset (length content) None False
                 (offset + 4) (length content) None)"

definition jsp_block :: "nat list \<Rightarrow> string \<Rightarrow> nat \<Rightarrow> jsp_region" where
  "jsp_block los content offset =
    (let marker = char_at content (offset + 2);
         kind = (if marker = Some (CHR ''@'') then JspDirective
                 else if marker = Some (CHR ''!'') then JspDeclaration
                 else if marker = Some (CHR ''='') then JspExpression else JspScriptlet);
         innerStart = (if kind = JspScriptlet then offset + 2 else offset + 3);
         lang = (if kind = JspDirective then None else Some LangJava)
     in case findScriptletClose content innerStart of
          Some closeIdx \<Rightarrow> mk_region los kind offset (closeIdx + 2) lang True innerStart closeIdx None
        | None \<Rightarrow> mk_region los kind offset (length content) lang False
                    innerStart (length content) None)"

definition text_region :: "nat list \<Rightarrow> string \<Rightarrow> nat \<Rightarrow> jsp_region" where
  "text_region los content offset =
    (let textEnd = (case findNextDelimiter content (offset + 1) of
                      Some d \<Rightarrow> d | None \<Rightarrow> length content)
     in mk_region los PlainText offset textEnd None True offset textEnd None)"

text \<open>\<open>/[a-zA-Z_!/?]/\<close>, the unit that makes a \<open><\<close> a tag.\<close>

definition is_tag_start :: "char \<Rightarrow> bool" where
  "is_tag_start c \<longleftrightarrow> is_letter c \<or> c \<in> {CHR ''_'', CHR ''!'', CHR ''/'', CHR ''?''}"

text \<open>One iteration of the main loop: the regions it pushes and the next offset.\<close>

definition single :: "jsp_region \<Rightarrow> jsp_region list \<times> nat" where
  "single r = ([r], rg_endOffset r)"

definition scan_step :: "nat list \<Rightarrow> string \<Rightarrow> bool \<Rightarrow> nat \<Rightarrow> jsp_region list \<times> nat" where
  "scan_step los content isXml offset =
    (if \<not> isXml \<and> starts_with_at content ''<%'' offset then
       (if starts_with_at content ''<%--'' offset
        then single (comment_region los content JspComment ''--%>'' offset)
        else single (jsp_block los content offset))
     else if starts_with_at content ''<!--'' offset then
       single (comment_region los content HtmlComment ''-->'' offset)
     else if starts_with_at content ''${'' offset \<or> starts_with_at content ''#{'' offset then
       single (el_region los content offset)
     else case open_tag_end content ''script'' offset of
       Some innerStart \<Rightarrow>
         single (embedded_element los content EmbeddedScript LangJavascript ''script'' offset innerStart)
     | None \<Rightarrow>
       (case open_tag_end content ''style'' offset of
          Some innerStart \<Rightarrow>
            single (embedded_element los content EmbeddedStyle LangCss ''style'' offset innerStart)
        | None \<Rightarrow>
          if content ! offset = CHR ''<'' \<and> offset + 1 < length content
             \<and> is_tag_start (content ! (offset + 1))
          then scanTagWithEmbedded content offset los
          else single (text_region los content offset)))"

section \<open>What a scan promises\<close>

text \<open>The regions tile an interval: each is non-empty and starts where the last one ended.\<close>

fun tiles :: "nat \<Rightarrow> jsp_region list \<Rightarrow> nat \<Rightarrow> bool" where
  "tiles a [] b \<longleftrightarrow> a = b"
| "tiles a (r # rs) b \<longleftrightarrow> rg_startOffset r = a \<and> a < rg_endOffset r \<and> tiles (rg_endOffset r) rs b"

lemma tiles_append [simp]: "tiles a (xs @ ys) c \<longleftrightarrow> (\<exists>b. tiles a xs b \<and> tiles b ys c)"
  by (induction xs arbitrary: a) auto

lemma tiles_le: "tiles a rs b \<Longrightarrow> a \<le> b"
  by (induction rs arbitrary: a) force+

text \<open>The delimiters a region of each kind has around its inner range.\<close>

fun opener_ok :: "string \<Rightarrow> region_kind \<Rightarrow> nat \<Rightarrow> bool" where
  "opener_ok s JspComment i = starts_with_at s ''<%--'' i"
| "opener_ok s HtmlComment i = starts_with_at s ''<!--'' i"
| "opener_ok s JspDirective i = starts_with_at s ''<%@'' i"
| "opener_ok s JspDeclaration i = starts_with_at s ''<%!'' i"
| "opener_ok s JspExpression i = starts_with_at s ''<%='' i"
| "opener_ok s JspScriptlet i = starts_with_at s ''<%'' i"
| "opener_ok s ElExpression i = (starts_with_at s ''${'' i \<or> starts_with_at s ''#{'' i)"
| "opener_ok s EmbeddedScript i = ci_match_at s ''<script'' i"
| "opener_ok s EmbeddedStyle i = ci_match_at s ''<style'' i"
| "opener_ok s Tag i = True"
| "opener_ok s PlainText i = True"

fun closer_ok :: "string \<Rightarrow> region_kind \<Rightarrow> nat \<Rightarrow> bool" where
  "closer_ok s JspComment i = starts_with_at s ''--%>'' i"
| "closer_ok s HtmlComment i = starts_with_at s ''-->'' i"
| "closer_ok s ElExpression i = starts_with_at s ''}'' i"
| "closer_ok s EmbeddedScript i = ci_match_at s ''</script'' i"
| "closer_ok s EmbeddedStyle i = ci_match_at s ''</style'' i"
| "closer_ok s Tag i = True"
| "closer_ok s PlainText i = True"
| "closer_ok s _ i = starts_with_at s ''%>'' i"

definition region_ok :: "string \<Rightarrow> jsp_region \<Rightarrow> bool" where
  "region_ok s r \<longleftrightarrow>
     rg_startOffset r \<le> rg_innerStartOffset r
   \<and> rg_innerStartOffset r \<le> rg_innerEndOffset r
   \<and> rg_innerEndOffset r \<le> rg_endOffset r
   \<and> rg_endOffset r \<le> length s
   \<and> (\<not> rg_isClosed r \<longrightarrow> rg_endOffset r = length s \<and> rg_innerEndOffset r = length s)
   \<and> opener_ok s (rg_kind r) (rg_startOffset r)
   \<and> (rg_isClosed r \<longrightarrow> closer_ok s (rg_kind r) (rg_innerEndOffset r))"

lemma mk_region_simps [simp]:
  "rg_kind (mk_region los k a b l c ia ib t) = k"
  "rg_startOffset (mk_region los k a b l c ia ib t) = a"
  "rg_endOffset (mk_region los k a b l c ia ib t) = b"
  "rg_isClosed (mk_region los k a b l c ia ib t) = c"
  "rg_innerStartOffset (mk_region los k a b l c ia ib t) = ia"
  "rg_innerEndOffset (mk_region los k a b l c ia ib t) = ib"
  "rg_embeddedLanguage (mk_region los k a b l c ia ib t) = l"
  by (simp_all add: mk_region_def)

text \<open>Each region builder keeps the promise.\<close>

lemma embedded_jsp_ok:
  assumes "i < length s" and "s ! i = CHR ''<''" and "char_at s (i + 1) = Some (CHR ''%'')"
  shows "region_ok s (embedded_jsp los s i)" and "rg_startOffset (embedded_jsp los s i) = i"
  using assms
  by (auto simp: embedded_jsp_def Let_def region_ok_def split: option.splits
      dest!: findScriptletClose_Some)

lemma jsp_block_ok:
  assumes "starts_with_at s ''<%'' i"
  shows "region_ok s (jsp_block los s i) \<and> rg_startOffset (jsp_block los s i) = i
    \<and> i < rg_endOffset (jsp_block los s i)"
  using assms
  by (auto simp: jsp_block_def Let_def region_ok_def split: option.splits
      dest!: findScriptletClose_Some)

lemma el_region_ok:
  assumes "starts_with_at s ''${'' i \<or> starts_with_at s ''#{'' i"
  shows "region_ok s (el_region los s i)" and "rg_startOffset (el_region los s i) = i"
  using assms
  by (auto simp: el_region_def region_ok_def split: option.splits dest!: findElClose_Some)

lemma comment_region_ok:
  assumes "kind = JspComment \<and> closer = ''--%>'' \<and> starts_with_at s ''<%--'' i
    \<or> kind = HtmlComment \<and> closer = ''-->'' \<and> starts_with_at s ''<!--'' i"
  shows "region_ok s (comment_region los s kind closer i)
    \<and> rg_startOffset (comment_region los s kind closer i) = i
    \<and> i < rg_endOffset (comment_region los s kind closer i)"
  using assms
  by (auto simp: comment_region_def region_ok_def split: option.splits dest!: index_of_Some)

lemma text_region_ok:
  assumes "i < length s"
  shows "region_ok s (text_region los s i) \<and> rg_startOffset (text_region los s i) = i
    \<and> i < rg_endOffset (text_region los s i)"
  using assms
  by (auto simp: text_region_def Let_def region_ok_def split: option.splits dest!: findNextDelimiter_Some)

lemma embedded_element_ok:
  assumes "open_tag_end s name i = Some j"
    and "kind = EmbeddedScript \<and> name = ''script'' \<or> kind = EmbeddedStyle \<and> name = ''style''"
  shows "region_ok s (embedded_element los s kind lang name i j)
    \<and> rg_startOffset (embedded_element los s kind lang name i j) = i
    \<and> i < rg_endOffset (embedded_element los s kind lang name i j)"
proof -
  have "ci_match_at s (CHR ''<'' # name) i"
    using assms(1) by (auto simp: open_tag_end_def Let_def split: if_splits)
  then show ?thesis
    using assms open_tag_end_Some [OF assms(1)]
    by (auto simp: embedded_element_def region_ok_def split: option.splits
        dest!: close_tag_match_Some)
qed

lemma tag_chunk_tiles:
  "chunk \<le> i \<Longrightarrow> offset < i \<Longrightarrow> i \<le> length s \<Longrightarrow>
     tiles chunk (tag_chunk los offset chunk i) i
     \<and> (\<forall>r\<in>set (tag_chunk los offset chunk i). region_ok s r)"
  by (auto simp: tag_chunk_def region_ok_def)

text \<open>The tag loop tiles from its chunk start to the offset it returns.\<close>

lemma scan_tag_loop_ok:
  "scan_tag_loop los s offset i a b chunk = (rs, stop) \<Longrightarrow>
     offset < i \<Longrightarrow> chunk \<le> i \<Longrightarrow> i \<le> length s \<Longrightarrow>
     tiles chunk rs stop \<and> i \<le> stop \<and> stop \<le> length s \<and> (\<forall>r\<in>set rs. region_ok s r)"
proof (induction i arbitrary: a b chunk rs stop rule: index_induct [where n = "length s"])
  case (step i)
  have IH: "tiles chunk rs stop \<and> k \<le> stop \<and> stop \<le> length s \<and> (\<forall>r\<in>set rs. region_ok s r)"
    if "scan_tag_loop los s offset k a b chunk = (rs, stop)" "i < k" "i < length s"
      "chunk \<le> k" "k \<le> length s" for k a b chunk rs stop
    using step.IH [OF that(2,3,1)] that step.prems(2) by simp
  have emb: ?case
    if "scan_tag_loop los s offset (rg_endOffset r) a b (rg_endOffset r) = (rest, stop)"
      "rs = tag_chunk los offset chunk i @ r # rest" "region_ok s r" "rg_startOffset r = i"
      "i < rg_endOffset r" "rg_endOffset r \<le> length s" for r rest
    using IH [OF that(1)] that tag_chunk_tiles [OF step.prems(3,2,4), of los] by auto
  show ?case
  proof (cases "i < length s")
    case False
    with step.prems show ?thesis
      by (subst (asm) scan_tag_loop.simps) (auto simp: region_ok_def)
  next
    case True
    note el = el_region_ok [of s i los] el_region_end [OF True, of los]
    note ej = embedded_jsp_ok [of i s los] embedded_jsp_end [OF True, of los]
    show ?thesis
    proof (cases "s ! i = CHR ''<'' \<and> char_at s (i + 1) = Some (CHR ''%'')")
      case j: True
      let ?r = "embedded_jsp los s i"
      obtain rest st where L: "scan_tag_loop los s offset (rg_endOffset ?r) a b (rg_endOffset ?r) = (rest, st)"
        by fastforce
      with step.prems(1) True j have "rs = tag_chunk los offset chunk i @ ?r # rest \<and> st = stop"
        by (simp add: Let_def scan_tag_loop.simps [of los s offset i a b chunk])
      with L j True ej show ?thesis by (intro emb [of ?r rest]) auto
    next
      case nj: False
      show ?thesis
      proof (cases "(s ! i = CHR ''$'' \<or> s ! i = CHR ''#'') \<and> char_at s (i + 1) = Some (CHR ''{'')")
        case e: True
        let ?r = "el_region los s i"
        obtain rest st where L: "scan_tag_loop los s offset (rg_endOffset ?r) a b (rg_endOffset ?r) = (rest, st)"
          by fastforce
        with step.prems(1) True nj e have "rs = tag_chunk los offset chunk i @ ?r # rest \<and> st = stop"
          by (simp add: Let_def scan_tag_loop.simps [of los s offset i a b chunk])
        with L e True el show ?thesis by (intro emb [of ?r rest]) auto
      next
        case False
        then show ?thesis using step.prems True nj
          by (subst (asm) scan_tag_loop.simps)
            (auto simp: Let_def region_ok_def split: if_splits dest: IH)
      qed
    qed
  qed
qed

lemma scan_step_ok:
  assumes "i < length s" and "scan_step los s x i = (rs, stop)"
  shows "tiles i rs stop \<and> i < stop \<and> stop \<le> length s \<and> (\<forall>r\<in>set rs. region_ok s r)"
proof -
  have one: "tiles i [r] (rg_endOffset r) \<and> i < rg_endOffset r \<and> rg_endOffset r \<le> length s
      \<and> (\<forall>q\<in>set [r]. region_ok s q)"
    if "region_ok s r \<and> rg_startOffset r = i \<and> i < rg_endOffset r" for r
    using that by (auto simp: region_ok_def)
  have tag: ?thesis if "scanTagWithEmbedded s i los = (rs, stop)" "i + 1 < length s"
    using scan_tag_loop_ok [OF that(1) [unfolded scanTagWithEmbedded_def]] that(2) by auto
  have el: "i < rg_endOffset (el_region los s i)"
    using el_region_end [OF assms(1)] by simp
  show ?thesis
    using assms(2) one [OF jsp_block_ok [of s i los]] one [OF text_region_ok [OF assms(1), of los]]
      one [OF comment_region_ok [of JspComment "''--%>''" s i los]]
      one [OF comment_region_ok [of HtmlComment "''-->''" s i los]]
      one [of "el_region los s i"] el el_region_ok [of s i los] tag
      one [OF embedded_element_ok [of s "''script''" i _ EmbeddedScript los LangJavascript]]
      one [OF embedded_element_ok [of s "''style''" i _ EmbeddedStyle los LangCss]]
    by (auto simp add: scan_step_def single_def simp del: tiles.simps starts_with_at_Cons
        split: if_splits option.splits)
qed

function scan_loop :: "nat list \<Rightarrow> string \<Rightarrow> bool \<Rightarrow> nat \<Rightarrow> jsp_region list" where
  "scan_loop los content isXml offset =
    (if offset < length content then
       let (rs, offset') = scan_step los content isXml offset
       in rs @ scan_loop los content isXml offset'
     else [])"
  by pat_completeness auto
termination
  by (relation "measure (\<lambda>(los, content, isXml, offset). length content - offset)")
    (auto dest: scan_step_ok [OF _ sym] intro: diff_less_mono2)

declare scan_loop.simps [simp del]

definition scanRegions :: "string \<Rightarrow> jsp_dialect \<Rightarrow> jsp_region list" where
  "scanRegions content dialect =
    scan_loop (computeLineOffsets content) content
      (dialect = DialectJspx \<or> dialect = DialectTagx) 0"

fun java_block_of :: "jsp_region \<Rightarrow> java_block option" where
  "java_block_of r =
    (case rg_kind r of
       JspScriptlet \<Rightarrow> Some \<lparr>jb_start = rg_innerStartOffset r, jb_end = rg_innerEndOffset r, jb_kind = BlockScriptlet\<rparr>
     | JspExpression \<Rightarrow> Some \<lparr>jb_start = rg_innerStartOffset r, jb_end = rg_innerEndOffset r, jb_kind = BlockExpression\<rparr>
     | JspDeclaration \<Rightarrow> Some \<lparr>jb_start = rg_innerStartOffset r, jb_end = rg_innerEndOffset r, jb_kind = BlockDeclaration\<rparr>
     | JspDirective \<Rightarrow> Some \<lparr>jb_start = rg_innerStartOffset r, jb_end = rg_innerEndOffset r, jb_kind = BlockDirective\<rparr>
     | _ \<Rightarrow> None)"

definition extractJavaBlocks :: "string \<Rightarrow> jsp_dialect \<Rightarrow> java_block list" where
  "extractJavaBlocks content dialect = List.map_filter java_block_of (scanRegions content dialect)"

lemma scan_loop_ok:
  "i \<le> length s \<Longrightarrow> tiles i (scan_loop los s x i) (length s)
     \<and> (\<forall>r\<in>set (scan_loop los s x i). region_ok s r)"
proof (induction i rule: index_induct [where n = "length s"])
  case (step i)
  show ?case
  proof (cases "i < length s")
    case False
    with step.prems have "i = length s" by simp
    then show ?thesis by (simp add: scan_loop.simps [of los s x "length s"])
  next
    case True
    obtain rs i' where R: "scan_step los s x i = (rs, i')" by fastforce
    with scan_step_ok [OF True R] step.IH [of i'] True show ?thesis
      by (auto simp: scan_loop.simps [of los s x i])
  qed
qed

end
