(* ===== verification/LineLexer.thy ===== *)
theory LineLexer
  imports RegionScanner
begin

text \<open>
  \<open>packages/highlighting-extension/src/common/lexer-state.ts\<close> and the line lexer of
  \<open>worker/incremental-tokenizer.ts\<close> (\<open>tokenizeSingleLine\<close> and the three private methods
  it uses). A method that appends to \<open>tokensBuilder\<close> returns what it appends; a token
  is its end offset with its kind, and \<open>new Uint32Array(tokensBuilder)\<close> packs them into
  32-bit words.
\<close>

section \<open>Lexer states\<close>

record lexer_state =
  ls_mode :: string
  ls_embeddedLanguage :: "string option"
  ls_embeddedStack :: "string list"
  ls_dialect :: "string option"
  ls_quote :: "string option"
  ls_depth :: int

definition new_lexer_state :: "string \<Rightarrow> string option \<Rightarrow> string list \<Rightarrow> string option \<Rightarrow> lexer_state" where
  "new_lexer_state mode lang stack dialect =
    \<lparr> ls_mode = mode, ls_embeddedLanguage = lang, ls_embeddedStack = stack,
      ls_dialect = dialect, ls_quote = None, ls_depth = 0 \<rparr>"

definition ls_clone :: "lexer_state \<Rightarrow> lexer_state" where
  "ls_clone s =
    \<lparr> ls_mode = ls_mode s, ls_embeddedLanguage = ls_embeddedLanguage s,
      ls_embeddedStack = ls_embeddedStack s, ls_dialect = ls_dialect s,
      ls_quote = ls_quote s, ls_depth = ls_depth s \<rparr>"

text \<open>\<open>equals\<close>: the scalar fields, then the two stacks by length and element by element.\<close>

fun same_elements :: "string list \<Rightarrow> string list \<Rightarrow> bool" where
  "same_elements (a # as) (b # bs) = (if a \<noteq> b then False else same_elements as bs)"
| "same_elements _ _ = True"

definition ls_equals :: "lexer_state \<Rightarrow> lexer_state \<Rightarrow> bool" where
  "ls_equals s other =
    (if ls_mode s \<noteq> ls_mode other then False
     else if ls_embeddedLanguage s \<noteq> ls_embeddedLanguage other then False
     else if ls_dialect s \<noteq> ls_dialect other then False
     else if ls_quote s \<noteq> ls_quote other then False
     else if ls_depth s \<noteq> ls_depth other then False
     else if length (ls_embeddedStack s) \<noteq> length (ls_embeddedStack other) then False
     else same_elements (ls_embeddedStack s) (ls_embeddedStack other))"

lemma ls_clone_id [simp]: "ls_clone s = s"
  by (simp add: ls_clone_def)

lemma same_elements_iff: "length xs = length ys \<Longrightarrow> same_elements xs ys \<longleftrightarrow> xs = ys"
  by (induction xs ys rule: same_elements.induct) auto

text \<open>
  \<open>from\<close> takes a value of unknown type. It looks at the types of six properties only, so an object
  is the record of what it finds there; a depth is a whole number and a stack an array of strings, as the
  lexer makes them.
\<close>

datatype js_property = StringValue string | NumberValue int | ArrayValue "string list" | OtherValue

record state_object =
  so_mode :: js_property
  so_embeddedLanguage :: js_property
  so_embeddedStack :: js_property
  so_dialect :: js_property
  so_quote :: js_property
  so_depth :: js_property

datatype state_value = StateInstance lexer_state | StateObject state_object | NoState

definition string_value :: "js_property \<Rightarrow> string option" where
  "string_value v = (case v of StringValue s \<Rightarrow> Some s | _ \<Rightarrow> None)"

definition ls_from :: "state_value \<Rightarrow> string option \<Rightarrow> lexer_state" where
  "ls_from state defaultDialect =
    (case state of
       StateInstance s \<Rightarrow> s
     | StateObject x \<Rightarrow>
         \<lparr> ls_mode = (case string_value (so_mode x) of Some m \<Rightarrow> m | None \<Rightarrow> ''root''),
           ls_embeddedLanguage = string_value (so_embeddedLanguage x),
           ls_embeddedStack = (case so_embeddedStack x of ArrayValue xs \<Rightarrow> xs | _ \<Rightarrow> []),
           ls_dialect = (case string_value (so_dialect x) of Some d \<Rightarrow> Some d | None \<Rightarrow> defaultDialect),
           ls_quote = string_value (so_quote x),
           ls_depth = (case so_depth x of NumberValue n \<Rightarrow> n | _ \<Rightarrow> 0) \<rparr>
     | NoState \<Rightarrow> new_lexer_state ''root'' None [] defaultDialect)"

text \<open>A state that lost its class, as by a structured clone, is restored.\<close>

definition optional_string :: "string option \<Rightarrow> js_property" where
  "optional_string v = (case v of Some s \<Rightarrow> StringValue s | None \<Rightarrow> OtherValue)"

definition plain_object :: "lexer_state \<Rightarrow> state_object" where
  "plain_object s =
    \<lparr> so_mode = StringValue (ls_mode s), so_embeddedLanguage = optional_string (ls_embeddedLanguage s),
      so_embeddedStack = ArrayValue (ls_embeddedStack s), so_dialect = optional_string (ls_dialect s),
      so_quote = optional_string (ls_quote s), so_depth = NumberValue (ls_depth s) \<rparr>"

lemma ls_from_plain_object:
  assumes "ls_dialect s \<noteq> None \<or> defaultDialect = None"
  shows "ls_from (StateObject (plain_object s)) defaultDialect = s"
proof -
  have "string_value (optional_string v) = v" for v
    by (simp add: string_value_def optional_string_def split: option.split)
  with assms show ?thesis by (auto simp: ls_from_def plain_object_def string_value_def split: option.split)
qed

section \<open>Tokens\<close>

type_synonym token = "nat \<times> nat"
type_synonym packed = "32 word list"

definition pack_tokens :: "token list \<Rightarrow> packed" where
  "pack_tokens ts = concat (map (\<lambda>(e, k). [word_of_nat e, word_of_nat k]) ts)"

section \<open>\<open>tokenizeJavaSnippet\<close>\<close>

definition java_keywords :: "string list" where
  "java_keywords =
    [''abstract'', ''assert'', ''boolean'', ''break'', ''byte'', ''case'', ''catch'', ''char'',
     ''class'', ''const'', ''continue'', ''default'', ''do'', ''double'', ''else'', ''enum'',
     ''extends'', ''final'', ''finally'', ''float'', ''for'', ''goto'', ''if'', ''implements'',
     ''import'', ''instanceof'', ''int'', ''interface'', ''long'', ''native'', ''new'', ''package'',
     ''private'', ''protected'', ''public'', ''return'', ''short'', ''static'', ''strictfp'', ''super'',
     ''switch'', ''synchronized'', ''this'', ''throw'', ''throws'', ''transient'', ''try'', ''void'',
     ''volatile'', ''while'', ''true'', ''false'', ''null'']"

text \<open>The scan of a string literal: its end and whether the closing quote was found.\<close>

function string_end :: "string \<Rightarrow> nat \<Rightarrow> nat \<times> bool" where
  "string_end code strEnd =
    (if strEnd < length code then
       if code ! strEnd = BSL then string_end code (strEnd + 2)
       else if code ! strEnd = DQ then (strEnd + 1, True)
       else string_end code (strEnd + 1)
     else (strEnd, False))"
  by pat_completeness auto
termination
  by (relation "measure (\<lambda>(code, e). length code - e)") auto

declare string_end.simps [simp del]

function word_end :: "string \<Rightarrow> nat \<Rightarrow> nat" where
  "word_end code endWord =
    (if endWord < length code \<and> (is_word_char (code ! endWord) \<or> code ! endWord = CHR ''$'')
     then word_end code (endWord + 1) else endWord)"
  by pat_completeness auto
termination
  by (relation "measure (\<lambda>(code, e). length code - e)") auto

declare word_end.simps [simp del]

lemma string_end_bounds:
  "string_end code e = (e', c) \<Longrightarrow> e \<le> Suc (length code) \<Longrightarrow>
     e \<le> e' \<and> e' \<le> Suc (length code) \<and> (c \<longrightarrow> e' \<le> length code)"
proof (induction e rule: index_induct [where n = "length code"])
  case (step e)
  show ?case
    using step.prems step.IH [of "e + 1"] step.IH [of "e + 2"]
    by (auto simp: string_end.simps [of code e] split: if_splits)
qed

lemma word_end_bounds: "e \<le> length code \<Longrightarrow> e \<le> word_end code e \<and> word_end code e \<le> length code"
proof (induction e rule: index_induct [where n = "length code"])
  case (step e)
  show ?case
    using step.prems step.IH [of "Suc e"] by (auto simp: word_end.simps [of code e])
qed

text \<open>The main loop: the tokens it pushes and whether it ended in a block comment.\<close>

function snippet_loop :: "string \<Rightarrow> nat \<Rightarrow> nat \<Rightarrow> token list \<times> bool" where
  "snippet_loop code baseOffset idx =
    (if idx < length code then
       let c = code ! idx; len = length code in
       if is_js_space c then snippet_loop code baseOffset (idx + 1)
       else if c = CHR ''/'' \<and> char_at code (idx + 1) = Some (CHR ''/'')
       then ([(baseOffset + len, 1)], False)
       else if c = CHR ''/'' \<and> char_at code (idx + 1) = Some (CHR ''*'') then
         (case index_of code ''*/'' (idx + 2) of
            Some close \<Rightarrow>
              let (ts, blk) = snippet_loop code baseOffset (close + 2)
              in ((baseOffset + close + 2, 1) # ts, blk)
          | None \<Rightarrow> ([(baseOffset + len, 1)], True))
       else if c = DQ then
         let (strEnd, closed) = string_end code (idx + 1);
             (ts, blk) = snippet_loop code baseOffset strEnd
         in ((baseOffset + strEnd, if closed then 7 else 8) # ts, blk)
       else if is_letter c \<or> c = CHR ''_'' \<or> c = CHR ''$'' then
         let endWord = word_end code (idx + 1);
             isKw = js_slice code idx endWord \<in> set java_keywords;
             (ts, blk) = snippet_loop code baseOffset endWord
         in ((baseOffset + endWord, if isKw then 9 else 10) # ts, blk)
       else
         let (ts, blk) = snippet_loop code baseOffset (idx + 1)
         in ((baseOffset + idx + 1, 11) # ts, blk)
     else ([], False))"
  by pat_completeness auto
termination
proof (relation "measure (\<lambda>(code, b, idx). length code - idx)", goal_cases)
  case (4 code b idx c len p e closed)
  then show ?case using string_end_bounds [of code "idx + 1" e closed] by auto
next
  case (5 code b idx c len e kw)
  then show ?case using word_end_bounds [of "idx + 1" code] by auto
qed (auto dest!: index_of_bounds)

declare snippet_loop.simps [simp del]

definition tokenizeJavaSnippet :: "string \<Rightarrow> nat \<Rightarrow> token list \<times> bool" where
  "tokenizeJavaSnippet code baseOffset = snippet_loop code baseOffset 0"

section \<open>\<open>tokenizeHtmlTagContent\<close>\<close>

text \<open>
  The loop returns the tokens it pushes with \<open>nextIdx\<close> and \<open>closed\<close>; \<open>inQuote\<close> is the
  quote the scan is in. The EL branch is the same inside and outside of a quote.
\<close>

function html_tag_loop :: "string \<Rightarrow> nat \<Rightarrow> nat \<Rightarrow> char option \<Rightarrow> token list \<times> nat \<times> bool" where
  "html_tag_loop lineText idx tagStart inQuote =
    (let len = length lineText in
     if idx < len then
       let c = lineText ! idx;
           elStart = ((c = CHR ''$'' \<or> c = CHR ''#'') \<and> char_at lineText (idx + 1) = Some (CHR ''{''))
       in
       if inQuote = Some c then html_tag_loop lineText (idx + 1) tagStart None
       else if inQuote = None \<and> (c = DQ \<or> c = SQ)
       then html_tag_loop lineText (idx + 1) tagStart (Some c)
       else if elStart then
         let pre = (if idx > tagStart then [(idx, 6)] else []) @ [(idx + 2, 4)] in
         (case findElClose lineText (idx + 2) of
            Some closeEl \<Rightarrow>
              let (ts, nextIdx, closed) = html_tag_loop lineText (closeEl + 1) (closeEl + 1) inQuote
              in (pre @ [(closeEl, 5), (closeEl + 1, 4)] @ ts, nextIdx, closed)
          | None \<Rightarrow> (pre @ [(len, 5)], len, False))
       else if inQuote = None \<and> c = CHR ''>'' then ([(idx + 1, 6)], idx + 1, True)
       else html_tag_loop lineText (idx + 1) tagStart inQuote
     else (if idx > tagStart then [(len, 6)] else [], len, False))"
  by pat_completeness auto
termination
  by (relation "measure (\<lambda>(lineText, idx, _). length lineText - idx)")
    (auto dest!: findElClose_Some)

declare html_tag_loop.simps [simp del]

definition tokenizeHtmlTagContent :: "string \<Rightarrow> nat \<Rightarrow> token list \<times> nat \<times> bool" where
  "tokenizeHtmlTagContent lineText fromIdx = html_tag_loop lineText fromIdx fromIdx None"

lemma html_tag_loop_next:
  "html_tag_loop s idx st q = (ts, n, closed) \<Longrightarrow> idx \<le> length s \<Longrightarrow>
     idx \<le> n \<and> n \<le> length s \<and> (closed \<longrightarrow> idx < n)"
proof (induction idx arbitrary: st q ts n closed rule: index_induct [where n = "length s"])
  case (step idx)
  have IH: "k \<le> n \<and> n \<le> length s \<and> (closed \<longrightarrow> k < n)"
    if "html_tag_loop s k st q = (ts, n, closed)" "idx < k" "idx < length s" "k \<le> length s"
    for k st q ts n closed
    using step.IH that by blast
  show ?case
    using step.prems
    by (auto simp: Let_def html_tag_loop.simps [of s idx st q]
        split: if_splits option.splits prod.splits dest: IH dest!: findElClose_Some)
qed

section \<open>\<open>tokenizeJavaLine\<close>\<close>

definition mode_java_comment :: string where "mode_java_comment = ''java-block-comment''"

definition tokenizeJavaLine :: "string \<Rightarrow> lexer_state \<Rightarrow> token list \<times> lexer_state" where
  "tokenizeJavaLine lineText state =
    (let len = length lineText; nextState = ls_clone state;
         rest = (\<lambda>pushed i.
           let (ts, blk) = tokenizeJavaSnippet (drop i lineText) i
           in (pushed @ ts,
               if blk then new_lexer_state mode_java_comment None [] (Some ''java'')
               else new_lexer_state ''root'' None [] (Some ''java'')))
     in if len = 0 then ([], nextState)
        else if ls_mode nextState = ''comment'' \<or> ls_mode nextState = mode_java_comment then
          (case index_of lineText ''*/'' 0 of
             Some close \<Rightarrow> rest [(close + 2, 1)] (close + 2)
           | None \<Rightarrow> ([(len, 1)], nextState))
        else rest [] 0)"

section \<open>\<open>tokenizeSingleLine\<close>\<close>

text \<open>Where the scan for the next interesting delimiter stops: step six of the loop.\<close>

function next_delim :: "string \<Rightarrow> nat \<Rightarrow> nat" where
  "next_delim lineText j =
    (if j < length lineText then
       let c = lineText ! j; n = char_at lineText (j + 1) in
       if c = CHR ''<'' \<or> c = CHR ''$'' \<and> n = Some (CHR ''{'') \<or> c = CHR ''#'' \<and> n = Some (CHR ''{'')
       then j else next_delim lineText (j + 1)
     else length lineText)"
  by pat_completeness auto
termination
  by (relation "measure (\<lambda>(s, j). length s - j)") auto

declare next_delim.simps [simp del]

lemma next_delim_bounds: "j \<le> length s \<Longrightarrow> j \<le> next_delim s j \<and> next_delim s j \<le> length s"
proof (induction j rule: index_induct [where n = "length s"])
  case (step j)
  show ?case
    using step.prems step.IH [of "Suc j"] by (auto simp: Let_def next_delim.simps [of s j])
qed

text \<open>The end of the opening \<open><%\<close>, \<open><%@\<close>, \<open><%=\<close> or \<open><%!\<close> at \<open>i\<close>.\<close>

definition jsp_tag_end :: "string \<Rightarrow> nat \<Rightarrow> nat" where
  "jsp_tag_end lineText i =
    (if char_at lineText (i + 2) \<in> {Some (CHR ''@''), Some (CHR ''=''), Some (CHR ''!'')}
     then i + 3 else i + 2)"

lemma jsp_tag_end_bounds:
  "starts_with_at s ''<%'' i \<Longrightarrow> i + 2 \<le> jsp_tag_end s i \<and> jsp_tag_end s i \<le> length s"
  by (auto simp: jsp_tag_end_def)

type_synonym line_result = "token list \<times> lexer_state"

text \<open>
  One iteration of the main loop at \<open>i\<close>, one definition per branch: \<open>Inl\<close> is a \<open>break\<close>
  with the tokens pushed and the \<open>nextState\<close> at the exit, \<open>Inr\<close> goes on at the next index.
\<close>

type_synonym step_result = "line_result + (token list \<times> nat)"

abbreviation fresh_state :: "string \<Rightarrow> string \<Rightarrow> string option \<Rightarrow> lexer_state" where
  "fresh_state dialect mode lang \<equiv> new_lexer_state mode lang [] (Some dialect)"

definition comment_step :: "string \<Rightarrow> string \<Rightarrow> nat \<Rightarrow> string \<Rightarrow> string \<Rightarrow> step_result" where
  "comment_step dialect lineText i closer mode =
    (case index_of lineText closer (i + 4) of
       Some close \<Rightarrow> Inr ([(close + length closer, 1)], close + length closer)
     | None \<Rightarrow> Inl ([(length lineText, 1)], fresh_state dialect mode None))"

definition jsp_step :: "string \<Rightarrow> string \<Rightarrow> nat \<Rightarrow> step_result" where
  "jsp_step dialect lineText i =
    (let marker = char_at lineText (i + 2); tagEnd = jsp_tag_end lineText i in
     case findScriptletClose lineText tagEnd of
       Some close \<Rightarrow>
         Inr ((tagEnd, 2)
              # (if marker \<noteq> Some (CHR ''@'')
                 then fst (tokenizeJavaSnippet (js_slice lineText tagEnd close) tagEnd)
                 else [(close, 3)])
              @ [(close + 2, 2)], close + 2)
     | None \<Rightarrow>
         if marker \<noteq> Some (CHR ''@'') then
           let (ts, blk) = tokenizeJavaSnippet (drop tagEnd lineText) tagEnd
           in Inl ((tagEnd, 2) # ts,
                   if blk then fresh_state dialect mode_java_comment (Some ''java'')
                   else fresh_state dialect ''scriptlet'' (Some ''java''))
         else Inl ([(tagEnd, 2), (length lineText, 3)], fresh_state dialect ''directive'' None))"

definition el_step :: "string \<Rightarrow> nat \<Rightarrow> lexer_state \<Rightarrow> step_result" where
  "el_step lineText i nextState =
    (case findElClose lineText (i + 2) of
       Some close \<Rightarrow> Inr ([(i + 2, 4), (close, 5), (close + 1, 4)], close + 1)
     | None \<Rightarrow> Inl ([(i + 2, 4), (length lineText, 5)], nextState))"

definition tag_step :: "string \<Rightarrow> string \<Rightarrow> nat \<Rightarrow> step_result" where
  "tag_step dialect lineText i =
    (let (ts, nextIdx, closed) = tokenizeHtmlTagContent lineText i
     in if closed then Inr (ts, nextIdx) else Inl (ts, fresh_state dialect ''html-tag'' None))"

definition text_step :: "string \<Rightarrow> nat \<Rightarrow> step_result" where
  "text_step lineText i =
    (let nextDelim = next_delim lineText (i + 1) in Inr ([(nextDelim, 0)], nextDelim))"

definition line_step :: "string \<Rightarrow> string \<Rightarrow> nat \<Rightarrow> lexer_state \<Rightarrow> step_result" where
  "line_step dialect lineText i nextState =
    (if starts_with_at lineText ''<%--'' i then comment_step dialect lineText i ''--%>'' ''jsp-comment''
     else if starts_with_at lineText ''<!--'' i then comment_step dialect lineText i ''-->'' ''html-comment''
     else if starts_with_at lineText ''<%'' i then jsp_step dialect lineText i
     else if starts_with_at lineText ''${'' i \<or> starts_with_at lineText ''#{'' i
     then el_step lineText i nextState
     else if lineText ! i = CHR ''<''
             \<and> (case char_at lineText (i + 1) of None \<Rightarrow> False | Some c \<Rightarrow> is_tag_start c)
     then tag_step dialect lineText i
     else text_step lineText i)"

text \<open>Whatever holds of all five branches holds of an iteration.\<close>

lemma line_step_cases:
  assumes "i < length s"
    and "\<And>closer mode. closer = ''--%>'' \<and> mode = ''jsp-comment''
      \<or> closer = ''-->'' \<and> mode = ''html-comment'' \<Longrightarrow> P (comment_step dialect s i closer mode)"
    and "starts_with_at s ''<%'' i \<Longrightarrow> P (jsp_step dialect s i)"
    and "i + 2 \<le> length s \<Longrightarrow> P (el_step s i st)"
    and "P (tag_step dialect s i)" and "P (text_step s i)"
  shows "P (line_step dialect s i st)"
proof -
  have "i + 2 \<le> length s" if "starts_with_at s ''${'' i \<or> starts_with_at s ''#{'' i"
    using that by auto
  with assms show ?thesis by (simp add: line_step_def del: starts_with_at_Cons)
qed

lemma tokenizeHtmlTagContent_next:
  "tokenizeHtmlTagContent s i = (ts, n, closed) \<Longrightarrow> i \<le> length s \<Longrightarrow>
     i \<le> n \<and> n \<le> length s \<and> (closed \<longrightarrow> i < n)"
  by (simp add: tokenizeHtmlTagContent_def html_tag_loop_next)

lemma line_step_progress:
  assumes "i < length s" and "line_step dialect s i st = Inr (ts, j)"
  shows "i < j \<and> j \<le> length s"
proof -
  have "line_step dialect s i st = Inr (ts, j) \<longrightarrow> i < j \<and> j \<le> length s"
  proof (rule line_step_cases [OF assms(1)], goal_cases)
    case (1 closer mode)
    then show ?case by (auto simp: comment_step_def split: option.splits dest!: index_of_bounds)
  next
    case 2
    then show ?case using jsp_tag_end_bounds [of s i]
      by (auto simp add: jsp_step_def Let_def simp del: starts_with_at_Cons
          split: option.splits if_splits prod.splits dest!: findScriptletClose_Some)
  next
    case 3
    then show ?case by (auto simp: el_step_def split: option.splits dest!: findElClose_Some)
  next
    case 4
    then show ?case using assms(1)
      by (auto simp: tag_step_def split: prod.splits if_splits dest!: tokenizeHtmlTagContent_next)
  next
    case 5
    then show ?case using next_delim_bounds [of "i + 1" s] assms(1)
      by (auto simp: text_step_def Let_def)
  qed
  with assms(2) show ?thesis by blast
qed

function line_loop :: "string \<Rightarrow> string \<Rightarrow> nat \<Rightarrow> lexer_state \<Rightarrow> line_result" where
  "line_loop dialect lineText i nextState =
    (if i < length lineText then
       case line_step dialect lineText i nextState of
         Inl result \<Rightarrow> result
       | Inr (pushed, i') \<Rightarrow>
           let (ts, endState) = line_loop dialect lineText i' nextState in (pushed @ ts, endState)
     else ([], nextState))"
  by pat_completeness auto
termination
proof (relation "measure (\<lambda>(dialect, lineText, i, s). length lineText - i)", goal_cases)
  case (2 dialect s i st x pushed i')
  with line_step_progress [of i s dialect st pushed i'] show ?case by auto
qed auto

declare line_loop.simps [simp del]

text \<open>
  The continuation of a construct the previous line left open: either the method
  returns (\<open>Inl\<close>), or it goes on to the main loop at \<open>i\<close> (\<open>Inr\<close>) with the tokens
  pushed so far and the current \<open>nextState\<close>.
\<close>

type_synonym resume_result = "line_result + (token list \<times> lexer_state \<times> nat)"

definition resume_comment :: "string \<Rightarrow> string \<Rightarrow> lexer_state \<Rightarrow> lexer_state \<Rightarrow> resume_result" where
  "resume_comment lineText closer endState nextState =
    (case index_of lineText closer 0 of
       Some close \<Rightarrow> Inr ([(close + length closer, 1)], endState, close + length closer)
     | None \<Rightarrow> Inl ([(length lineText, 1)], nextState))"

definition resume_directive :: "string \<Rightarrow> lexer_state \<Rightarrow> lexer_state \<Rightarrow> resume_result" where
  "resume_directive lineText root nextState =
    (case index_of lineText ''%>'' 0 of
       Some close \<Rightarrow> Inr ((if close > 0 then [(close, 3)] else []) @ [(close + 2, 2)], root, close + 2)
     | None \<Rightarrow> Inl ([(length lineText, 3)], nextState))"

definition resume_tag :: "string \<Rightarrow> lexer_state \<Rightarrow> lexer_state \<Rightarrow> resume_result" where
  "resume_tag lineText root nextState =
    (let (ts, nextIdx, closed) = tokenizeHtmlTagContent lineText 0
     in if closed then Inr (ts, root, nextIdx) else Inl (ts, nextState))"

definition resume_scriptlet :: "string \<Rightarrow> string \<Rightarrow> lexer_state \<Rightarrow> lexer_state \<Rightarrow> resume_result" where
  "resume_scriptlet dialect lineText root nextState =
    (case findScriptletClose lineText 0 of
       Some close \<Rightarrow>
         Inr (fst (tokenizeJavaSnippet (js_slice lineText 0 close) 0) @ [(close + 2, 2)],
              root, close + 2)
     | None \<Rightarrow>
         (let (ts, blk) = tokenizeJavaSnippet lineText 0
          in Inl (ts, if blk then fresh_state dialect mode_java_comment (Some ''java'') else nextState)))"

definition continue_line :: "string \<Rightarrow> string \<Rightarrow> lexer_state \<Rightarrow> resume_result" where
  "continue_line dialect lineText nextState =
    (let mode = ls_mode nextState; lang = ls_embeddedLanguage nextState;
         root = fresh_state dialect ''root'' None
     in
     if mode = ''jsp-comment'' then resume_comment lineText ''--%>'' root nextState
     else if mode = ''html-comment'' then resume_comment lineText ''-->'' root nextState
     else if mode = mode_java_comment then
       resume_comment lineText ''*/''
         (fresh_state dialect (if lang \<notin> {None, Some []} then ''scriptlet'' else ''root'') lang) nextState
     else if mode = ''directive'' then resume_directive lineText root nextState
     else if mode = ''html-tag'' then resume_tag lineText root nextState
     else if mode = ''scriptlet'' \<or> mode = ''java'' then
       resume_scriptlet dialect lineText root nextState
     else Inr ([], nextState, 0))"

definition single_line_tokens :: "string \<Rightarrow> string \<Rightarrow> string \<Rightarrow> lexer_state \<Rightarrow> line_result" where
  "single_line_tokens languageId dialect lineText state =
    (if languageId = ''java'' then tokenizeJavaLine lineText state
     else if lineText = [] then ([], ls_clone state)
     else case continue_line dialect lineText (ls_clone state) of
       Inl r \<Rightarrow> r
     | Inr (pushed, nextState, i) \<Rightarrow>
         (let (ts, endState) = line_loop dialect lineText i nextState in (pushed @ ts, endState)))"

definition tokenizeSingleLine ::
  "string \<Rightarrow> string \<Rightarrow> string \<Rightarrow> lexer_state \<Rightarrow> packed \<times> lexer_state"
where
  "tokenizeSingleLine languageId dialect lineText state =
    (let (ts, nextState) = single_line_tokens languageId dialect lineText state
     in (pack_tokens ts, nextState))"

section \<open>Well-formed token streams\<close>

text \<open>End offsets never go back and stay in an interval; kinds are those of the theme.\<close>

fun toks_ok :: "nat \<Rightarrow> nat \<Rightarrow> token list \<Rightarrow> bool" where
  "toks_ok lo hi [] \<longleftrightarrow> lo \<le> hi"
| "toks_ok lo hi ((e, k) # ts) \<longleftrightarrow> lo \<le> e \<and> k \<le> 11 \<and> toks_ok e hi ts"

lemma toks_ok_le: "toks_ok lo hi ts \<Longrightarrow> lo \<le> hi"
  by (induction lo hi ts rule: toks_ok.induct) auto

lemma toks_ok_mono: "toks_ok lo hi ts \<Longrightarrow> lo' \<le> lo \<Longrightarrow> hi \<le> hi' \<Longrightarrow> toks_ok lo' hi' ts"
  by (induction lo hi ts arbitrary: lo' rule: toks_ok.induct) auto

lemma toks_ok_append:
  "toks_ok lo mid xs \<Longrightarrow> toks_ok mid hi ys \<Longrightarrow> toks_ok lo hi (xs @ ys)"
proof (induction xs arbitrary: lo)
  case Nil
  then show ?case by (auto intro: toks_ok_mono)
next
  case (Cons x xs)
  then show ?case by (cases x) auto
qed

text \<open>
  A string literal cut off after a backslash runs one unit past the snippet; \<open>d\<close> is that
  unit, and is 0 where the snippet has no backslash.
\<close>

lemma string_end_no_bsl:
  "BSL \<notin> set code \<Longrightarrow> e \<le> length code \<Longrightarrow> fst (string_end code e) \<le> length code"
proof (induction e rule: index_induct [where n = "length code"])
  case (step e)
  show ?case
    using step.prems step.IH [of "Suc e"] nth_mem [of e code]
    by (auto simp: string_end.simps [of code e] simp del: nth_mem)
qed

lemma snippet_loop_ok:
  "BSL \<notin> set code \<or> 1 \<le> d \<Longrightarrow> idx \<le> length code + d \<Longrightarrow>
     toks_ok (b + idx) (b + length code + d) (fst (snippet_loop code b idx))"
proof (induction idx rule: index_induct [where n = "length code"])
  case (step idx)
  show ?case
  proof (cases "idx < length code")
    case False
    with step.prems show ?thesis by (simp add: snippet_loop.simps [of code b idx])
  next
    case True
    have IH: "toks_ok e (b + length code + d) (fst (snippet_loop code b k))"
      if "idx < k" "k \<le> length code + d" "e \<le> b + k" for k e
      using toks_ok_mono [OF step.IH [OF that(1) True step.prems(1) that(2)] that(3) order_refl] .
    obtain e c where se: "string_end code (idx + 1) = (e, c)" by fastforce
    have "idx < e \<and> e \<le> length code + d"
      using string_end_bounds [OF se] string_end_no_bsl [of code "idx + 1"] step.prems(1) se True
      by auto
    moreover have "idx < word_end code (idx + 1) \<and> word_end code (idx + 1) \<le> length code + d"
      using word_end_bounds [of "idx + 1" code] True by auto
    ultimately show ?thesis
      using True se
      by (auto simp: snippet_loop.simps [of code b idx] Let_def case_prod_beta
          intro!: IH split: option.splits dest!: index_of_bounds)
  qed
qed

lemma tokenizeJavaSnippet_ok:
  "BSL \<notin> set code \<or> 1 \<le> d \<Longrightarrow>
     toks_ok b (b + length code + d) (fst (tokenizeJavaSnippet code b))"
  using snippet_loop_ok [of code d 0 b] by (simp add: tokenizeJavaSnippet_def)

lemma html_tag_loop_ok:
  "html_tag_loop s idx st q = (ts, n, closed) \<Longrightarrow> idx \<le> length s \<Longrightarrow> st \<le> idx \<Longrightarrow> toks_ok st n ts"
proof (induction idx arbitrary: st q ts n closed rule: index_induct [where n = "length s"])
  case (step idx)
  show ?case
  proof (cases "idx < length s")
    case False
    with step.prems show ?thesis
      by (auto simp: Let_def html_tag_loop.simps [of s idx st q] split: if_splits)
  next
    case True
    have IH: "toks_ok st' n ts"
      if "html_tag_loop s k st q = (ts, n, closed)" "idx < k" "k \<le> length s" "st \<le> k" "st' \<le> st"
      for k st st' q ts n closed
      using toks_ok_mono [OF step.IH [OF that(2) True that(1,3,4)] that(5) order_refl] .
    have IHe: "toks_ok (Suc c) n ts \<and> Suc (Suc idx) \<le> c"
      if "findElClose s (Suc (Suc idx)) = Some c" "html_tag_loop s (Suc c) (Suc c) q = (ts, n, closed)"
      for c q ts n closed
      using IH [OF that(2)] findElClose_Some [OF that(1)] by auto
    show ?thesis
      using step.prems True
      by (auto simp: Let_def html_tag_loop.simps [of s idx st q]
          split: if_splits option.splits prod.splits intro: IH dest: IHe findElClose_Some)
  qed
qed

lemma tokenizeHtmlTagContent_ok:
  "tokenizeHtmlTagContent s i = (ts, n, closed) \<Longrightarrow> i \<le> length s \<Longrightarrow>
     toks_ok i n ts \<and> i \<le> n \<and> n \<le> length s"
  using html_tag_loop_ok [of s i i None ts n closed] html_tag_loop_next [of s i i None ts n closed]
  by (auto simp: tokenizeHtmlTagContent_def)

text \<open>The snippet between \<open>a\<close> and \<open>close\<close>, before the closing \<open>%>\<close>, and the one to the end.\<close>

lemma snippet_slice_ok:
  assumes "a \<le> close" and "close + 2 \<le> length s"
  shows "toks_ok a (close + 2) (fst (tokenizeJavaSnippet (js_slice s a close) a))"
  using tokenizeJavaSnippet_ok [of "js_slice s a close" 1 a] assms
  by (auto elim!: toks_ok_mono)

lemma snippet_drop_ok:
  assumes "BSL \<notin> set s \<or> 1 \<le> d" and "a \<le> length s"
  shows "toks_ok a (length s + d) (fst (tokenizeJavaSnippet (drop a s) a))"
  using tokenizeJavaSnippet_ok [of "drop a s" d a] assms
  by (auto elim!: toks_ok_mono dest: in_set_dropD)

lemma line_step_ok:
  assumes "BSL \<notin> set s \<or> 1 \<le> d" and "i < length s"
  shows "case line_step dialect s i st of
      Inl (ts, _) \<Rightarrow> toks_ok i (length s + d) ts
    | Inr (ts, j) \<Rightarrow> toks_ok i j ts"
proof (rule line_step_cases [OF assms(2)], goal_cases)
  case (1 closer mode)
  then show ?case using assms(2)
    by (auto simp: comment_step_def split: option.splits dest!: index_of_bounds)
next
  case 2
  define te where "te = jsp_tag_end s i"
  have te: "i \<le> te" "te \<le> length s" using jsp_tag_end_bounds [OF 2] by (simp_all add: te_def)
  have closed: "toks_ok te (c + 2) (fst (tokenizeJavaSnippet (js_slice s te c) te) @ [(c + 2, 2)])"
    "te \<le> c" if "findScriptletClose s te = Some c" for c
    using snippet_slice_ok [of te c s] findScriptletClose_Some [OF that]
    by (auto intro: toks_ok_append)
  show ?case
    using te closed snippet_drop_ok [OF assms(1) te(2)]
    by (auto simp: jsp_step_def Let_def te_def [symmetric] case_prod_beta split: option.splits)
next
  case 3
  then show ?case by (auto simp: el_step_def split: option.splits dest!: findElClose_Some)
next
  case 4
  then show ?case using assms(2)
    by (auto simp: tag_step_def split: prod.splits dest!: tokenizeHtmlTagContent_ok
        intro: toks_ok_mono)
next
  case 5
  then show ?case using next_delim_bounds [of "i + 1" s] assms(2)
    by (auto simp: text_step_def Let_def)
qed

lemma line_loop_ok:
  "BSL \<notin> set s \<or> 1 \<le> d \<Longrightarrow> i \<le> length s \<Longrightarrow>
     toks_ok i (length s + d) (fst (line_loop dialect s i st))"
proof (induction i rule: index_induct [where n = "length s"])
  case (step i)
  show ?case
  proof (cases "i < length s")
    case False
    with step.prems have "i = length s" by simp
    then show ?thesis by (simp add: line_loop.simps [of dialect s "length s" st])
  next
    case True
    note ok = line_step_ok [OF step.prems(1) True, of dialect st]
    show ?thesis
    proof (cases "line_step dialect s i st")
      case (Inl r)
      with ok True show ?thesis
        by (cases r) (simp add: line_loop.simps [of dialect s i st])
    next
      case (Inr r)
      obtain ts j where r: "r = (ts, j)" by (cases r)
      have j: "i < j \<and> j \<le> length s" using line_step_progress [OF True] Inr r by blast
      with step.IH [of j] True step.prems
      have "toks_ok j (length s + d) (fst (line_loop dialect s j st))" by simp
      with ok Inr r True show ?thesis
        by (auto simp: line_loop.simps [of dialect s i st] case_prod_beta intro: toks_ok_append)
    qed
  qed
qed

end
