(* ===== verification/TokenCache.thy ===== *)
theory TokenCache
  imports LineLexer
begin

text \<open>
  \<open>packages/highlighting-extension/src/common/token-cache.ts\<close>: the tokens and
  checkpoints of one model (\<open>ModelTokenCache\<close>) and the manager of the caches of all
  models (\<open>TokenCacheManager\<close>). The locale \<open>checkpoint_store\<close> states what the
  incremental tokenizer relies on; it is interpreted here on the model's operations.
\<close>

section \<open>\<open>ModelTokenCache\<close>\<close>

record checkpoint =
  cp_lineNumber :: nat
  cp_state :: lexer_state
  cp_documentVersion :: int

record token_cache =
  tc_modelInstanceId :: string
  tc_checkpoints :: "checkpoint list"
  tc_lineTokensMap :: "(nat, packed) jsmap"
  tc_completedLineCount :: nat
  tc_currentVersion :: int

definition CHECKPOINT_INTERVAL :: nat where "CHECKPOINT_INTERVAL = 256"

definition new_token_cache :: "string \<Rightarrow> token_cache" where
  "new_token_cache modelInstanceId =
    \<lparr> tc_modelInstanceId = modelInstanceId, tc_checkpoints = [], tc_lineTokensMap = [],
      tc_completedLineCount = 0, tc_currentVersion = 0 \<rparr>"

definition setVersion :: "int \<Rightarrow> token_cache \<Rightarrow> token_cache" where
  "setVersion version c =
    (if tc_currentVersion c \<noteq> version then c\<lparr>tc_currentVersion := version\<rparr> else c)"

definition setCompletedLineCount :: "nat \<Rightarrow> token_cache \<Rightarrow> token_cache" where
  "setCompletedLineCount count c = c\<lparr>tc_completedLineCount := count\<rparr>"

text \<open>\<open>findIndex\<close> of the checkpoint at a line, then replacement or append and sort.\<close>

fun replace_checkpoint :: "checkpoint \<Rightarrow> checkpoint list \<Rightarrow> checkpoint list option" where
  "replace_checkpoint cp [] = None"
| "replace_checkpoint cp (c # cs) =
     (if cp_lineNumber c = cp_lineNumber cp then Some (cp # cs)
      else map_option ((#) c) (replace_checkpoint cp cs))"

definition addCheckpoint :: "nat \<Rightarrow> lexer_state \<Rightarrow> int \<Rightarrow> token_cache \<Rightarrow> token_cache" where
  "addCheckpoint lineNumber state version c =
    (let cp = \<lparr> cp_lineNumber = lineNumber, cp_state = ls_clone state, cp_documentVersion = version \<rparr>
     in case replace_checkpoint cp (tc_checkpoints c) of
          Some cps \<Rightarrow> c\<lparr>tc_checkpoints := cps\<rparr>
        | None \<Rightarrow> c\<lparr>tc_checkpoints := sort_key cp_lineNumber (tc_checkpoints c @ [cp])\<rparr>)"

fun closest_loop :: "nat \<Rightarrow> checkpoint option \<Rightarrow> checkpoint list \<Rightarrow> checkpoint option" where
  "closest_loop targetLine best [] = best"
| "closest_loop targetLine best (cp # cps) =
     closest_loop targetLine
       (if cp_lineNumber cp < targetLine then
          (case best of
             None \<Rightarrow> Some cp
           | Some b \<Rightarrow> if cp_lineNumber cp > cp_lineNumber b then Some cp else best)
        else best) cps"

definition getClosestCheckpoint :: "nat \<Rightarrow> token_cache \<Rightarrow> checkpoint option" where
  "getClosestCheckpoint targetLine c = closest_loop targetLine None (tc_checkpoints c)"

definition invalidateFrom :: "nat \<Rightarrow> token_cache \<Rightarrow> token_cache" where
  "invalidateFrom fromLine c =
    c\<lparr> tc_checkpoints := filter (\<lambda>cp. cp_lineNumber cp < fromLine) (tc_checkpoints c),
       tc_completedLineCount :=
         (if tc_completedLineCount c \<ge> fromLine then fromLine - 1 else tc_completedLineCount c),
       tc_lineTokensMap := filter (\<lambda>(line, _). \<not> line \<ge> fromLine) (tc_lineTokensMap c) \<rparr>"

definition setLineTokens :: "nat \<Rightarrow> packed \<Rightarrow> token_cache \<Rightarrow> token_cache" where
  "setLineTokens lineNumber tokens c =
    c\<lparr>tc_lineTokensMap := jm_set lineNumber tokens (tc_lineTokensMap c)\<rparr>"

definition getLineTokens :: "nat \<Rightarrow> token_cache \<Rightarrow> packed option" where
  "getLineTokens lineNumber c = jm_get (tc_lineTokensMap c) lineNumber"

definition clear_cache :: "token_cache \<Rightarrow> token_cache" where
  "clear_cache c = c\<lparr>tc_checkpoints := [], tc_lineTokensMap := [], tc_completedLineCount := 0\<rparr>"

definition getByteSize :: "token_cache \<Rightarrow> nat" where
  "getByteSize c =
    fold (\<lambda>tokens bytes. bytes + 4 * length tokens) (jm_values (tc_lineTokensMap c)) 0
    + length (tc_checkpoints c) * 64"

definition getCheckpointCount :: "token_cache \<Rightarrow> nat" where
  "getCheckpointCount c = length (tc_checkpoints c)"

section \<open>\<open>TokenCacheManager\<close>\<close>

record cache_manager =
  tm_maxBytes :: nat
  tm_currentBytes :: int
  tm_caches :: "(string, token_cache) jsmap"

definition new_cache_manager :: "nat \<Rightarrow> cache_manager" where
  "new_cache_manager maxBytes = \<lparr> tm_maxBytes = maxBytes, tm_currentBytes = 0, tm_caches = [] \<rparr>"

definition getOrCreateCache :: "string \<Rightarrow> cache_manager \<Rightarrow> token_cache \<times> cache_manager" where
  "getOrCreateCache modelInstanceId m =
    (case jm_get (tm_caches m) modelInstanceId of
       Some cache \<Rightarrow> (cache, m)
     | None \<Rightarrow>
         let cache = new_token_cache modelInstanceId
         in (cache, m\<lparr>tm_caches := jm_set modelInstanceId cache (tm_caches m)\<rparr>))"

definition getCache :: "string \<Rightarrow> cache_manager \<Rightarrow> token_cache option" where
  "getCache modelInstanceId m = jm_get (tm_caches m) modelInstanceId"

definition removeCache :: "string \<Rightarrow> cache_manager \<Rightarrow> cache_manager" where
  "removeCache modelInstanceId m =
    (case jm_get (tm_caches m) modelInstanceId of
       None \<Rightarrow> m
     | Some cache \<Rightarrow>
         m\<lparr> tm_currentBytes := tm_currentBytes m - int (getByteSize cache),
            tm_caches := jm_delete modelInstanceId (tm_caches m) \<rparr>)"

definition getTotalBytes :: "cache_manager \<Rightarrow> nat \<times> cache_manager" where
  "getTotalBytes m =
    (let total = fold (\<lambda>cache total. total + getByteSize cache) (jm_values (tm_caches m)) 0
     in (total, m\<lparr>tm_currentBytes := int total\<rparr>))"

definition clearAll :: "cache_manager \<Rightarrow> cache_manager" where
  "clearAll m = m\<lparr>tm_caches := [], tm_currentBytes := 0\<rparr>"

text \<open>
  A cache got from the manager is a reference: an operation on it shows in the manager.
\<close>

definition with_cache :: "string \<Rightarrow> (token_cache \<Rightarrow> token_cache) \<Rightarrow> cache_manager \<Rightarrow> cache_manager" where
  "with_cache modelInstanceId f m =
    (let (cache, m') = getOrCreateCache modelInstanceId m
     in m'\<lparr>tm_caches := jm_set modelInstanceId (f cache) (tm_caches m')\<rparr>)"

section \<open>The contract with the incremental tokenizer\<close>

text \<open>
  \<open>cps\<close> and \<open>toks\<close> read a store as two partial maps from lines: the state after a line
  and the tokens of a line.
\<close>

locale checkpoint_store =
  fixes closest :: "nat \<Rightarrow> 'c \<Rightarrow> (nat \<times> 's) option"
    and add :: "nat \<Rightarrow> 's \<Rightarrow> 'c \<Rightarrow> 'c"
    and store :: "nat \<Rightarrow> 't \<Rightarrow> 'c \<Rightarrow> 'c"
    and invalidate :: "nat \<Rightarrow> 'c \<Rightarrow> 'c"
    and cps :: "'c \<Rightarrow> nat \<Rightarrow> 's option"
    and toks :: "'c \<Rightarrow> nat \<Rightarrow> 't option"
  assumes closest_Some: "closest n c = Some (k, s) \<Longrightarrow> k < n \<and> cps c k = Some s"
    and closest_last: "closest n c = Some (k, s) \<Longrightarrow> k < j \<Longrightarrow> j < n \<Longrightarrow> cps c j = None"
    and closest_None: "closest n c = None \<Longrightarrow> j < n \<Longrightarrow> cps c j = None"
    and cps_add: "cps (add k s c) = (cps c)(k \<mapsto> s)"
    and toks_add: "toks (add k s c) = toks c"
    and toks_store: "toks (store k t c) = (toks c)(k \<mapsto> t)"
    and cps_store: "cps (store k t c) = cps c"
    and cps_invalidate: "cps (invalidate n c) = cps c |` {..<n}"
    and toks_invalidate: "toks (invalidate n c) = toks c |` {..<n}"
begin

lemmas store_laws = cps_add toks_add toks_store cps_store cps_invalidate toks_invalidate

end

definition checkpoint_map :: "token_cache \<Rightarrow> nat \<Rightarrow> lexer_state option" where
  "checkpoint_map c = map_of (map (\<lambda>cp. (cp_lineNumber cp, cp_state cp)) (tc_checkpoints c))"

definition token_map :: "token_cache \<Rightarrow> nat \<Rightarrow> packed option" where
  "token_map c = (\<lambda>n. getLineTokens n c)"

abbreviation cp_assoc :: "checkpoint list \<Rightarrow> (nat \<times> lexer_state) list" where
  "cp_assoc \<equiv> map (\<lambda>cp. (cp_lineNumber cp, cp_state cp))"

lemma cp_assoc_filter:
  "map_of (cp_assoc cs) k = map_of (cp_assoc (filter (\<lambda>cp. cp_lineNumber cp = k) cs)) k"
  by (induction cs) auto

text \<open>The sort is stable, so the first checkpoint of a line stays the first.\<close>

lemma cp_assoc_sort [simp]: "map_of (cp_assoc (sort_key cp_lineNumber cs)) = map_of (cp_assoc cs)"
proof
  fix k
  have "filter (\<lambda>cp. cp_lineNumber cp = k) (sort_key cp_lineNumber cs)
      = filter (\<lambda>cp. cp_lineNumber cp = k) cs"
    by (rule sort_key_stable)
  then show "map_of (cp_assoc (sort_key cp_lineNumber cs)) k = map_of (cp_assoc cs) k"
    by (metis cp_assoc_filter)
qed

lemma cp_assoc_restrict:
  "map_of (cp_assoc (filter (\<lambda>cp. cp_lineNumber cp < n) cs)) = map_of (cp_assoc cs) |` {..<n}"
  by (induction cs) (auto simp: restrict_map_def fun_eq_iff)

lemma cp_assoc_append:
  "cp_lineNumber cp \<notin> cp_lineNumber ` set cs \<Longrightarrow>
     map_of (cp_assoc (cs @ [cp])) = (map_of (cp_assoc cs))(cp_lineNumber cp \<mapsto> cp_state cp)"
  by (induction cs) auto

lemma replace_checkpoint_None:
  "replace_checkpoint cp cs = None \<longleftrightarrow> cp_lineNumber cp \<notin> cp_lineNumber ` set cs"
  by (induction cs) auto

lemma replace_checkpoint_map:
  "replace_checkpoint cp cs = Some cs' \<Longrightarrow>
     map_of (cp_assoc cs') = (map_of (cp_assoc cs))(cp_lineNumber cp \<mapsto> cp_state cp)"
  by (induction cs arbitrary: cs') (auto split: if_splits)

lemma checkpoint_map_add:
  "checkpoint_map (addCheckpoint k s v c) = (checkpoint_map c)(k \<mapsto> s)"
  by (auto simp add: addCheckpoint_def checkpoint_map_def Let_def simp del: map_append
      split: option.splits dest: replace_checkpoint_map
      simp: cp_assoc_append replace_checkpoint_None)

lemma closest_loop_Some:
  "closest_loop n best cs = Some b \<Longrightarrow>
     (best = Some b \<or> cp_lineNumber b < n \<and> map_of (cp_assoc cs) (cp_lineNumber b) = Some (cp_state b)
        \<and> (\<forall>b0. best = Some b0 \<longrightarrow> cp_lineNumber b0 < cp_lineNumber b))
     \<and> (\<forall>cp\<in>set cs. cp_lineNumber cp < n \<longrightarrow> cp_lineNumber cp \<le> cp_lineNumber b)
     \<and> (\<forall>b0. best = Some b0 \<longrightarrow> cp_lineNumber b0 \<le> cp_lineNumber b)"
proof (induction cs arbitrary: best)
  case Nil
  then show ?case by simp
next
  case (Cons cp cs)
  then show ?case
    by (fastforce split: if_splits option.splits)
qed

lemma closest_loop_None:
  "closest_loop n best cs = None \<Longrightarrow> best = None \<and> (\<forall>cp\<in>set cs. n \<le> cp_lineNumber cp)"
proof (induction cs arbitrary: best)
  case Nil
  then show ?case by simp
next
  case (Cons cp cs)
  from Cons.IH [OF Cons.prems [unfolded closest_loop.simps]] show ?case
    by (auto split: if_splits option.splits)
qed

lemma cp_assoc_dom: "map_of (cp_assoc cs) k = Some s \<Longrightarrow> \<exists>cp\<in>set cs. cp_lineNumber cp = k"
  by (induction cs) (auto split: if_splits)

lemma token_map_filter:
  "map_of (filter (\<lambda>(line, _). \<not> (n :: nat) \<le> line) m) = map_of m |` {..<n}"
  by (induction m) (auto simp: restrict_map_def fun_eq_iff)

text \<open>The closest checkpoint as the pair of its line and state.\<close>

definition closest_pair :: "nat \<Rightarrow> token_cache \<Rightarrow> (nat \<times> lexer_state) option" where
  "closest_pair n c = map_option (\<lambda>cp. (cp_lineNumber cp, cp_state cp)) (getClosestCheckpoint n c)"

interpretation mtc: checkpoint_store closest_pair "\<lambda>k s. addCheckpoint k s v" setLineTokens
  invalidateFrom checkpoint_map token_map for v
proof (unfold_locales, goal_cases)
  case (1 n c k s)
  then show ?case
    by (auto simp: closest_pair_def getClosestCheckpoint_def checkpoint_map_def
        dest: closest_loop_Some)
next
  case (2 n c k s j)
  then obtain b where b: "closest_loop n None (tc_checkpoints c) = Some b" "cp_lineNumber b = k"
    by (auto simp: closest_pair_def getClosestCheckpoint_def)
  show ?case
    using closest_loop_Some [OF b(1)] b(2) 2(2,3)
    by (cases "checkpoint_map c j") (fastforce simp: checkpoint_map_def dest: cp_assoc_dom)+
next
  case (3 n c j)
  then show ?case
    by (cases "checkpoint_map c j")
      (fastforce simp: closest_pair_def getClosestCheckpoint_def checkpoint_map_def
        dest: closest_loop_None cp_assoc_dom)+
next
  case (4 k s c)
  show ?case by (rule checkpoint_map_add)
next
  case (5 k s c)
  show ?case by (simp add: token_map_def getLineTokens_def addCheckpoint_def Let_def split: option.split)
next
  case (6 k t c)
  show ?case by (auto simp: token_map_def getLineTokens_def setLineTokens_def fun_eq_iff)
next
  case (7 k t c)
  show ?case by (simp add: checkpoint_map_def setLineTokens_def)
next
  case (8 n c)
  show ?case by (simp add: checkpoint_map_def invalidateFrom_def cp_assoc_restrict)
next
  case (9 n c)
  show ?case
    by (simp add: token_map_def getLineTokens_def invalidateFrom_def token_map_filter)
qed

lemma clear_cache_maps [simp]:
  "checkpoint_map (clear_cache c) = Map.empty" "token_map (clear_cache c) = Map.empty"
  by (auto simp: clear_cache_def checkpoint_map_def token_map_def getLineTokens_def)

lemma new_token_cache_maps [simp]:
  "checkpoint_map (new_token_cache m) = Map.empty" "token_map (new_token_cache m) = Map.empty"
  by (auto simp: new_token_cache_def checkpoint_map_def token_map_def getLineTokens_def)

lemma setVersion_maps [simp]:
  "checkpoint_map (setVersion v c) = checkpoint_map c" "token_map (setVersion v c) = token_map c"
  by (auto simp: setVersion_def checkpoint_map_def token_map_def getLineTokens_def)

lemma setCompletedLineCount_maps [simp]:
  "checkpoint_map (setCompletedLineCount n c) = checkpoint_map c"
  "token_map (setCompletedLineCount n c) = token_map c"
  by (auto simp: setCompletedLineCount_def checkpoint_map_def token_map_def getLineTokens_def)

section \<open>Shape of a cache\<close>

text \<open>The checkpoints are in line order with one per line, and a line has one token array.\<close>

definition cache_wf :: "token_cache \<Rightarrow> bool" where
  "cache_wf c \<longleftrightarrow> sorted (map cp_lineNumber (tc_checkpoints c))
     \<and> distinct (map cp_lineNumber (tc_checkpoints c))
     \<and> distinct (jm_keys (tc_lineTokensMap c))"

lemma replace_checkpoint_lines:
  "replace_checkpoint cp cs = Some cs' \<Longrightarrow> map cp_lineNumber cs' = map cp_lineNumber cs"
  by (induction cs arbitrary: cs') (auto split: if_splits)

lemma cache_wf_ops [simp, intro]:
  "cache_wf (new_token_cache m)"
  "cache_wf c \<Longrightarrow> cache_wf (setVersion v c)"
  "cache_wf c \<Longrightarrow> cache_wf (setCompletedLineCount n c)"
  "cache_wf c \<Longrightarrow> cache_wf (setLineTokens k t c)"
  "cache_wf c \<Longrightarrow> cache_wf (invalidateFrom n c)"
  "cache_wf (clear_cache c)"
  by (auto simp: cache_wf_def new_token_cache_def setVersion_def setCompletedLineCount_def
      setLineTokens_def invalidateFrom_def clear_cache_def distinct_jm_set
      sorted_filter distinct_map_filter inj_on_def)

lemma distinct_sorted_lines [simp]:
  "distinct (map cp_lineNumber (sort_key cp_lineNumber xs)) \<longleftrightarrow> distinct (map cp_lineNumber xs)"
  by (simp only: distinct_map set_sort distinct_sort)

lemma cache_wf_add [simp, intro]:
  assumes "cache_wf c"
  shows "cache_wf (addCheckpoint k s v c)"
proof (cases "replace_checkpoint \<lparr>cp_lineNumber = k, cp_state = s, cp_documentVersion = v\<rparr> (tc_checkpoints c)")
  case None
  then have "k \<notin> cp_lineNumber ` set (tc_checkpoints c)"
    by (simp add: replace_checkpoint_None)
  then show ?thesis
    using assms None by (simp add: addCheckpoint_def cache_wf_def del: sort_key_simps)
next
  case (Some cs)
  with assms replace_checkpoint_lines [OF Some] show ?thesis
    by (simp add: addCheckpoint_def cache_wf_def)
qed

lemma getClosestCheckpoint_spec:
  "case getClosestCheckpoint n c of
      None \<Rightarrow> {..<n} \<inter> dom (checkpoint_map c) = {}
    | Some cp \<Rightarrow> cp_lineNumber cp < n
        \<and> checkpoint_map c (cp_lineNumber cp) = Some (cp_state cp)
        \<and> {cp_lineNumber cp<..<n} \<inter> dom (checkpoint_map c) = {}"
proof (cases "getClosestCheckpoint n c")
  case None
  then have "\<forall>cp\<in>set (tc_checkpoints c). n \<le> cp_lineNumber cp"
    using closest_loop_None by (auto simp: getClosestCheckpoint_def)
  with None show ?thesis by (fastforce simp: checkpoint_map_def dest: cp_assoc_dom)
next
  case (Some cp)
  from closest_loop_Some [OF this [unfolded getClosestCheckpoint_def]] Some show ?thesis
    by (fastforce simp: checkpoint_map_def dest: cp_assoc_dom)
qed

end
