(* ===== verification/TextLines.thy ===== *)
theory TextLines
  imports TokenCache "HOL-Library.Multiset"
begin

text \<open>
  The text mirror of \<open>worker/incremental-tokenizer.ts\<close>: how a document is cut into
  lines (\<open>rebuildFromFullText\<close>), which line holds an offset (\<open>getLineFromOffset\<close>) and
  how an edit is spliced in. The facts say which lines an edit leaves alone.
\<close>

section \<open>\<open>rebuildFromFullText\<close>\<close>

text \<open>The loop returns the lines from \<open>lineStart\<close> on and the line starts it pushes.\<close>

function rebuild_loop :: "string \<Rightarrow> nat \<Rightarrow> nat \<Rightarrow> string list \<times> nat list" where
  "rebuild_loop text i lineStart =
    (if i < length text then
       if text ! i = CR \<or> text ! i = NL then
         let i' = (if text ! i = CR \<and> char_at text (i + 1) = Some NL then i + 2 else i + 1);
             (lines, lineStarts) = rebuild_loop text i' i'
         in (js_slice text lineStart i # lines, i' # lineStarts)
       else rebuild_loop text (i + 1) lineStart
     else ([drop lineStart text], []))"
  by pat_completeness auto
termination
  by (relation "measure (\<lambda>(text, i, ls). length text - i)") auto

declare rebuild_loop.simps [simp del]

definition rebuild_lines :: "string \<Rightarrow> string list \<times> nat list" where
  "rebuild_lines text = (let (lines, lineStarts) = rebuild_loop text 0 0 in (lines, 0 # lineStarts))"

section \<open>\<open>getLineFromOffset\<close>\<close>

function line_search :: "nat list \<Rightarrow> int \<Rightarrow> int \<Rightarrow> int \<Rightarrow> int" where
  "line_search lineStarts offset low high =
    (if low \<le> high then
       let mid = (low + high) div 2 in
       if int (lineStarts ! nat mid) \<le> offset then line_search lineStarts offset (mid + 1) high
       else line_search lineStarts offset low (mid - 1)
     else max 1 (high + 1))"
  by pat_completeness auto
termination
  by (relation "measure (\<lambda>(ls, off, low, high). nat (high - low + 1))") auto

declare line_search.simps [simp del]

definition getLineFromOffset :: "nat list \<Rightarrow> int \<Rightarrow> int" where
  "getLineFromOffset lineStarts offset = line_search lineStarts offset 0 (int (length lineStarts) - 1)"

section \<open>Edits\<close>

record text_edit =
  te_rangeOffset :: int
  te_rangeLength :: int
  te_text :: string

definition splice_edit :: "text_edit \<Rightarrow> string \<Rightarrow> string" where
  "splice_edit c current =
    (if te_rangeOffset c < 0 \<or> te_rangeOffset c > int (length current) then current
     else let before = take (clamp_index (length current) (te_rangeOffset c)) current;
              after = drop (clamp_index (length current) (te_rangeOffset c + te_rangeLength c)) current
          in before @ te_text c @ after)"

definition apply_changes :: "text_edit list \<Rightarrow> string \<Rightarrow> string" where
  "apply_changes changes text = fold splice_edit (sort_key (\<lambda>c. - te_rangeOffset c) changes) text"

definition min_offset :: "text_edit list \<Rightarrow> int" where
  "min_offset changes = Min (te_rangeOffset ` set changes)"

section \<open>The lines of a text\<close>

text \<open>The reference: the structural split at \<open>\r\n\<close>, \<open>\r\<close> and \<open>\n\<close>, and the line starts.\<close>

fun lines_of :: "string \<Rightarrow> string list" where
  "lines_of [] = [[]]"
| "lines_of (c # cs) =
     (if c = CR \<and> cs \<noteq> [] \<and> hd cs = NL then [] # lines_of (tl cs)
      else if c = CR \<or> c = NL then [] # lines_of cs
      else (c # hd (lines_of cs)) # tl (lines_of cs))"

fun starts_of :: "string \<Rightarrow> nat list" where
  "starts_of [] = []"
| "starts_of (c # cs) =
     (if c = CR \<and> cs \<noteq> [] \<and> hd cs = NL then 2 # map ((+) 2) (starts_of (tl cs))
      else if c = CR \<or> c = NL then 1 # map ((+) 1) (starts_of cs)
      else map ((+) 1) (starts_of cs))"

lemma lines_of_not_Nil [simp]: "lines_of s \<noteq> []"
  by (cases s) auto

lemma length_lines_of: "length (lines_of s) = Suc (length (starts_of s))"
  by (induction s rule: lines_of.induct) auto

lemma starts_of_le: "k \<in> set (starts_of s) \<Longrightarrow> k \<le> length s"
  by (induction s arbitrary: k rule: starts_of.induct)
    (fastforce split: if_splits simp: neq_Nil_conv)+

lemma starts_of_pos: "k \<in> set (starts_of s) \<Longrightarrow> 0 < k"
  by (induction s arbitrary: k rule: starts_of.induct) (fastforce split: if_splits)+

lemma rebuild_loop_lines:
  "lineStart \<le> i \<Longrightarrow> i \<le> length text \<Longrightarrow>
     rebuild_loop text i lineStart =
       ((js_slice text lineStart i @ hd (lines_of (drop i text))) # tl (lines_of (drop i text)),
        map ((+) i) (starts_of (drop i text)))"
proof (induction i arbitrary: lineStart rule: index_induct [where n = "length text"])
  case (step i)
  note unfold = rebuild_loop.simps [of "text" i lineStart]
  show ?case
  proof (cases "i < length text")
    case False
    with step.prems have "i = length text" by simp
    then show ?thesis
      by (simp add: rebuild_loop.simps [of "text" "length text" lineStart] js_slice_def)
  next
    case True
    define c cs where "c = text ! i" and "cs = drop (Suc i) text"
    then have d: "drop i text = c # cs" using True by (simp add: Cons_nth_drop_Suc)
    have nl: "char_at text (i + 1) = Some NL \<longleftrightarrow> cs \<noteq> [] \<and> hd cs = NL"
      by (auto simp: cs_def hd_drop_conv_nth)
    have d2: "drop (i + 2) text = tl cs" if "cs \<noteq> []"
      by (simp add: cs_def tl_drop drop_Suc)
    have le2: "i + 2 \<le> length text" if "cs \<noteq> []"
      using that by (auto simp: cs_def)
    have empty: "js_slice text j j = []" for j by (simp add: js_slice_def)
    have slice_Suc: "js_slice text lineStart (Suc i) = js_slice text lineStart i @ [c]"
      using step.prems True by (simp add: js_slice_def c_def Suc_diff_le take_Suc_conv_app_nth)
    show ?thesis
      using step.IH [of "i + 1" "i + 1"] step.IH [of "i + 2" "i + 2"] step.IH [of "i + 1" lineStart]
        True step.prems nl d2 le2
      by (auto simp add: unfold Let_def d c_def [symmetric] cs_def [symmetric] empty slice_Suc comp_def
          simp del: drop_eq_Nil)
  qed
qed

lemma rebuild_lines_eq: "rebuild_lines text = (lines_of text, 0 # starts_of text)"
  by (simp add: rebuild_lines_def rebuild_loop_lines js_slice_def map_idI)

text \<open>A text that agrees up to the start of a line has the same lines before it.\<close>

lemma lines_of_prefix:
  "m < length (0 # starts_of s) \<Longrightarrow> p = (0 # starts_of s) ! m \<Longrightarrow> take p s' = take p s \<Longrightarrow>
     take m (lines_of s') = take m (lines_of s)"
proof (induction s arbitrary: m p s' rule: lines_of.induct)
  case 1
  then show ?case by simp
next
  case (2 c cs)
  show ?case
  proof (cases m)
    case 0
    then show ?thesis by simp
  next
    case (Suc m')
    then have p: "p = starts_of (c # cs) ! m'" and m': "m' < length (starts_of (c # cs))"
      using "2.prems"(1,2) by (simp_all del: starts_of.simps)
    have same: "\<exists>s2. s' = c # s2 \<and> take q s2 = take q cs" if "p = Suc q" for q
      using "2.prems"(3) that by (cases s') auto
    consider (crlf) cs2 where "c = CR" "cs = NL # cs2"
      | (eol) "\<not> (c = CR \<and> cs \<noteq> [] \<and> hd cs = NL)" "c = CR \<or> c = NL"
      | (char) "c \<noteq> CR" "c \<noteq> NL"
      by (cases cs) auto
    then show ?thesis
    proof cases
      case crlf
      then have p2: "p = Suc (Suc ((0 # starts_of cs2) ! m'))" and ms: "m' < length (0 # starts_of cs2)"
        using p m' by (cases m'; simp)+
      define q where "q = (0 # starts_of cs2) ! m'"
      from same [OF p2] obtain s1 where s1: "s' = c # s1" "take (Suc q) s1 = take (Suc q) cs"
        unfolding q_def by blast
      then obtain s2 where s': "s' = CR # NL # s2" and eq: "take q s2 = take q cs2"
        using crlf by (cases s1) auto
      have "take m' (lines_of s2) = take m' (lines_of cs2)"
        using "2.IH"(1) [of m' q s2] crlf ms q_def eq by simp
      with s' crlf Suc show ?thesis by simp
    next
      case eol
      then have p1: "p = Suc ((0 # starts_of cs) ! m')" and ms: "m' < length (0 # starts_of cs)"
        using p m' by (cases m'; auto)+
      from same [OF p1] obtain s2 where s': "s' = c # s2"
        and eq: "take ((0 # starts_of cs) ! m') s2 = take ((0 # starts_of cs) ! m') cs" by blast
      have IH: "take m' (lines_of s2) = take m' (lines_of cs)"
        using "2.IH"(2) [OF eol ms refl eq] .
      show ?thesis
      proof (cases m')
        case 0
        with s' eol Suc show ?thesis by auto
      next
        case (Suc k)
        then have "0 < (0 # starts_of cs) ! m'" using ms starts_of_pos [OF nth_mem, of k cs] by simp
        with eq have "s2 \<noteq> [] \<longleftrightarrow> cs \<noteq> []" "cs \<noteq> [] \<Longrightarrow> hd s2 = hd cs"
          by (cases s2; cases cs; force simp: gr0_conv_Suc)+
        with s' eol \<open>m = Suc m'\<close> IH show ?thesis by auto
      qed
    next
      case char
      then have p1: "p = Suc ((0 # starts_of cs) ! m)" and ms: "m < length (0 # starts_of cs)"
        using p m' Suc by auto
      from same [OF p1] obtain s2 where s': "s' = c # s2"
        and eq: "take ((0 # starts_of cs) ! m) s2 = take ((0 # starts_of cs) ! m) cs" by blast
      have IH: "take m (lines_of s2) = take m (lines_of cs)"
        using "2.IH"(3) [OF _ _ ms refl eq] char by auto
      obtain x xs y ys where "lines_of s2 = x # xs" "lines_of cs = y # ys"
        by (metis lines_of_not_Nil neq_Nil_conv)
      with IH s' char Suc show ?thesis by simp
    qed
  qed
qed

section \<open>Edits leave the lines before them alone\<close>

text \<open>The search returns a line that starts at or before the offset.\<close>

lemma line_search_sound:
  "0 \<le> low \<Longrightarrow> low \<le> high + 1 \<Longrightarrow> high < int (length ls) \<Longrightarrow>
     (0 < low \<longrightarrow> int (ls ! nat (low - 1)) \<le> off) \<Longrightarrow> r = line_search ls off low high \<Longrightarrow>
     1 \<le> r \<and> (1 < r \<longrightarrow> r \<le> int (length ls) \<and> int (ls ! nat (r - 1)) \<le> off)"
proof (induction ls off low high rule: line_search.induct)
  case (1 ls off low high)
  show ?case
  proof (cases "low \<le> high")
    case False
    with 1(3-7) have "low = high + 1" by simp
    with 1(3-7) show ?thesis by (auto simp: line_search.simps [of ls off "high + 1" high])
  next
    case True
    define mid where "mid = (low + high) div 2"
    have mid: "low \<le> mid" "mid \<le> high" using True by (auto simp: mid_def)
    show ?thesis
      using 1(1) [OF True mid_def] 1(2) [OF True mid_def] 1(3-7) True mid
      by (auto simp: line_search.simps [of ls off low high] mid_def [symmetric] split: if_splits)
  qed
qed

lemma getLineFromOffset_sound:
  assumes "ls \<noteq> []" and "r = getLineFromOffset ls off"
  shows "1 \<le> r \<and> (1 < r \<longrightarrow> r \<le> int (length ls) \<and> int (ls ! nat (r - 1)) \<le> off)"
proof -
  have "1 \<le> int (length ls)" using assms(1) by (cases ls) auto
  then show ?thesis
    using line_search_sound [of 0 "int (length ls) - 1" ls off r] assms(2)
    by (simp add: getLineFromOffset_def)
qed

lemma splice_edit_prefix:
  assumes "int p \<le> te_rangeOffset c" and "p \<le> length s"
  shows "take p (splice_edit c s) = take p s \<and> p \<le> length (splice_edit c s)"
  using assms by (auto simp: splice_edit_def Let_def clamp_index_def)

lemma fold_splice_prefix:
  "\<forall>c\<in>set cs. int p \<le> te_rangeOffset c \<Longrightarrow> p \<le> length s \<Longrightarrow>
     take p (fold splice_edit cs s) = take p s \<and> p \<le> length (fold splice_edit cs s)"
proof (induction cs arbitrary: s)
  case Nil
  then show ?case by simp
next
  case (Cons c cs)
  then show ?case using splice_edit_prefix [of p c s] Cons.IH [of "splice_edit c s"] by auto
qed

lemma apply_changes_prefix:
  assumes "int p \<le> min_offset changes" and "changes \<noteq> []" and "p \<le> length s"
  shows "take p (apply_changes changes s) = take p s"
proof -
  have "int p \<le> te_rangeOffset c" if "c \<in> set changes" for c
    using assms(1,2) that by (auto simp: min_offset_def Min_ge_iff)
  then show ?thesis
    using fold_splice_prefix [of "sort_key (\<lambda>c. - te_rangeOffset c) changes" p s] assms(3)
    by (simp add: apply_changes_def)
qed

section \<open>The line of an offset\<close>

text \<open>The binary search counts the line starts at or before the offset.\<close>

lemma line_search_count:
  "sorted_wrt (<) ls \<Longrightarrow> 0 \<le> low \<Longrightarrow> low \<le> high + 1 \<Longrightarrow> high < int (length ls) \<Longrightarrow>
     \<forall>i < nat low. int (ls ! i) \<le> off \<Longrightarrow> \<forall>i < length ls. high < int i \<longrightarrow> off < int (ls ! i) \<Longrightarrow>
     line_search ls off low high = max 1 (int (length (filter (\<lambda>p. int p \<le> off) ls)))"
proof (induction ls off low high rule: line_search.induct)
  case (1 ls off low high)
  have mono: "ls ! i < ls ! j" if "i < j" "j < length ls" for i j
    using "1.prems"(1) that by (simp add: sorted_wrt_nth_less)
  show ?case
  proof (cases "low \<le> high")
    case False
    then have h: "low = high + 1" using "1.prems" by simp
    have "filter (\<lambda>p. int p \<le> off) ls = take (nat low) ls"
    proof -
      have "filter (\<lambda>p. int p \<le> off) (take (nat low) ls) = take (nat low) ls"
        using "1.prems"(5) by (auto simp: in_set_conv_nth intro!: filter_True)
      moreover have "filter (\<lambda>p. int p \<le> off) (drop (nat low) ls) = []"
      proof -
        have "off < int (drop (nat low) ls ! i)" if "i < length (drop (nat low) ls)" for i
          using that "1.prems"(2,6) h by simp
        then show ?thesis by (force simp: filter_empty_conv set_conv_nth)
      qed
      ultimately show ?thesis
        using filter_append [of "\<lambda>p. int p \<le> off" "take (nat low) ls" "drop (nat low) ls"] by simp
    qed
    then show ?thesis
      using h "1.prems"(2,4) by (simp add: line_search.simps [of ls off "high + 1" high])
  next
    case True
    define mid where "mid = (low + high) div 2"
    have mid: "low \<le> mid" "mid \<le> high" "nat mid < length ls" "0 \<le> mid"
      using True "1.prems" by (auto simp: mid_def)
    show ?thesis
    proof (cases "int (ls ! nat mid) \<le> off")
      case le: True
      have "\<forall>i < nat (mid + 1). int (ls ! i) \<le> off"
      proof (intro allI impI)
        fix i assume "i < nat (mid + 1)"
        then have "i = nat mid \<or> ls ! i < ls ! nat mid" using mono [of i "nat mid"] mid by linarith
        with le show "int (ls ! i) \<le> off" by auto
      qed
      with "1.IH"(1) [OF True mid_def le] "1.prems" mid True le show ?thesis
        by (simp add: line_search.simps [of ls off low high] mid_def [symmetric])
    next
      case gt: False
      have "\<forall>i < length ls. mid - 1 < int i \<longrightarrow> off < int (ls ! i)"
      proof (intro allI impI)
        fix i assume "i < length ls" "mid - 1 < int i"
        then have "i = nat mid \<or> ls ! nat mid < ls ! i" using mono [of "nat mid" i] mid by linarith
        with gt show "off < int (ls ! i)" by auto
      qed
      with "1.IH"(2) [OF True mid_def gt] "1.prems" mid True gt show ?thesis
        by (simp add: line_search.simps [of ls off low high] mid_def [symmetric])
    qed
  qed
qed

lemma getLineFromOffset_count:
  assumes "sorted_wrt (<) ls"
  shows "getLineFromOffset ls off = max 1 (int (length (filter (\<lambda>p. int p \<le> off) ls)))"
  unfolding getLineFromOffset_def by (rule line_search_count [OF assms]) auto

lemma sorted_starts_of: "sorted_wrt (<) (0 # starts_of s)"
proof -
  have "sorted_wrt (<) (starts_of s)"
  proof (induction s rule: starts_of.induct)
    case 1
    show ?case by simp
  next
    case (2 c cs)
    have "sorted_wrt (<) (map ((+) k) xs)" if "sorted_wrt (<) xs" for k :: nat and xs
      using that by (simp add: sorted_wrt_map)
    with 2 show ?case by (auto dest: starts_of_pos)
  qed
  then show ?thesis by (auto dest: starts_of_pos)
qed

section \<open>Edits as one patch\<close>

text \<open>All changes of one event applied at once, in ascending order, to the old text.\<close>

fun patch :: "nat \<Rightarrow> text_edit list \<Rightarrow> string \<Rightarrow> string" where
  "patch pos [] s = drop pos s"
| "patch pos (c # cs) s =
     js_slice s pos (nat (te_rangeOffset c)) @ te_text c
       @ patch (nat (te_rangeOffset c + te_rangeLength c)) cs s"

text \<open>The edits do not overlap; two of them may touch, and edits at the same offset are in the order of their texts.\<close>

fun separate_edits :: "nat \<Rightarrow> text_edit list \<Rightarrow> nat \<Rightarrow> bool" where
  "separate_edits pos [] n \<longleftrightarrow> pos \<le> n"
| "separate_edits pos (c # cs) n \<longleftrightarrow>
     int pos \<le> te_rangeOffset c \<and> 0 \<le> te_rangeLength c
   \<and> separate_edits (nat (te_rangeOffset c + te_rangeLength c)) cs n"

lemma separate_edits_le: "separate_edits pos cs n \<Longrightarrow> pos \<le> n"
  by (induction cs arbitrary: pos) force+

lemma separate_edits_sorted: "separate_edits pos cs n \<Longrightarrow> sorted (map te_rangeOffset cs) \<and> (\<forall>c \<in> set cs. int pos \<le> te_rangeOffset c)"
  by (induction cs arbitrary: pos) force+

lemma fold_splice_patch:
  "separate_edits pos cs (length s) \<Longrightarrow>
     fold splice_edit (rev cs) s = take pos s @ patch pos cs s"
proof (induction cs arbitrary: pos)
  case Nil
  then show ?case by simp
next
  case (Cons c cs)
  define p l where "p = nat (te_rangeOffset c)" and "l = nat (te_rangeLength c)"
  have o: "te_rangeOffset c = int p" "te_rangeLength c = int l" "pos \<le> p"
    using Cons.prems by (auto simp: p_def l_def)
  have s: "separate_edits (p + l) cs (length s)"
    using Cons.prems o by (simp add: nat_add_distrib)
  then have e: "p + l \<le> length s" by (rule separate_edits_le)
  have "splice_edit c (take (p + l) s @ patch (p + l) cs s) = take p s @ te_text c @ patch (p + l) cs s"
    using o e by (simp add: splice_edit_def clamp_index_def Let_def nat_add_distrib)
  also have "take p s = take pos s @ js_slice s pos p"
    using o(3) by (simp add: js_slice_def take_add [symmetric])
  finally show ?case using Cons.IH [OF s] o by (simp add: nat_add_distrib)
qed

text \<open>The sort is stable: the edits of an event are spliced from the last to the first, those at the same offset in the order of
  the event.\<close>

definition descending :: "text_edit list \<Rightarrow> text_edit list" where
  "descending changes = sort_key (\<lambda>c. - te_rangeOffset c) changes"

lemma apply_changes_patch:
  assumes "separate_edits 0 (rev (descending changes)) (length s)"
  shows "apply_changes changes s = patch 0 (rev (descending changes)) s"
  using fold_splice_patch [OF assms] by (simp add: apply_changes_def descending_def)

text \<open>With distinct offsets the order of the event does not matter.\<close>

lemma descending_separate:
  assumes s: "separate_edits 0 cs n" and d: "distinct (map te_rangeOffset cs)" and m: "mset changes = mset cs"
  shows "rev (descending changes) = cs"
proof -
  have "inj_on (\<lambda>c. - te_rangeOffset c) (set changes)"
    using d mset_eq_setD [OF m] by (auto simp: distinct_map inj_on_def)
  moreover have "sorted (map (\<lambda>c. - te_rangeOffset c) (rev cs))"
    using separate_edits_sorted [OF s] by (induction cs) (auto simp: sorted_append)
  ultimately have "descending changes = rev cs"
    unfolding descending_def using m by (intro sort_key_inj_key_eq) simp_all
  then show ?thesis by simp
qed

end
