(* ===== verification/LexerFacts.thy ===== *)
theory LexerFacts
  imports LineLexer
begin

text \<open>
  What the line lexer guarantees for every line and every state: its tokens never go
  back and stay in the line (up to one unit after a trailing backslash), the modes it
  leaves are the seven it knows, and an open construct stays open until its closer.
\<close>

section \<open>Bounds of a line's tokens\<close>

lemma drop_tokens_ok:
  assumes "BSL \<notin> set s \<or> 1 \<le> d" and "a \<le> length s"
  shows "toks_ok a (length s + d) (fst (tokenizeJavaSnippet (drop a s) a))"
  using assms by (rule snippet_drop_ok)

lemma continue_line_ok:
  assumes "BSL \<notin> set s \<or> 1 \<le> d"
  shows "case continue_line dialect s st of
      Inl (ts, _) \<Rightarrow> toks_ok 0 (length s + d) ts
    | Inr (ts, _, i) \<Rightarrow> toks_ok 0 i ts \<and> i \<le> length s"
proof -
  let ?P = "\<lambda>r :: resume_result. case r of Inl (ts, _) \<Rightarrow> toks_ok 0 (length s + d) ts
    | Inr (ts, _, i) \<Rightarrow> toks_ok 0 i ts \<and> i \<le> length s"
  have comment: "?P (resume_comment s closer q st)" for closer q st
    by (auto simp: resume_comment_def split: option.splits dest!: index_of_bounds)
  have directive: "?P (resume_directive s q st)" for q st
    by (auto simp: resume_directive_def split: option.splits dest!: index_of_bounds)
  have tag: "?P (resume_tag s q st)" for q st
    by (auto simp: resume_tag_def split: prod.splits dest!: tokenizeHtmlTagContent_ok
        elim: toks_ok_mono)
  have "toks_ok 0 (length s + d) (fst (tokenizeJavaSnippet s 0))"
    using snippet_drop_ok [OF assms, of 0] by simp
  moreover have "toks_ok 0 (c + 2) (fst (tokenizeJavaSnippet (js_slice s 0 c) 0) @ [(c + 2, 2)])"
    "c + 2 \<le> length s" if "findScriptletClose s 0 = Some c" for c
    using snippet_slice_ok [of 0 c s] findScriptletClose_Some [OF that]
    by (auto intro!: toks_ok_append)
  ultimately have scriptlet: "?P (resume_scriptlet dialect s q st)" for q st
    by (auto simp: resume_scriptlet_def case_prod_beta split: option.splits)
  show ?thesis
    unfolding continue_line_def Let_def by (simp only: comment directive tag scriptlet split: if_split) simp
qed

lemma tokenizeJavaLine_ok:
  assumes "BSL \<notin> set s \<or> 1 \<le> d"
  shows "toks_ok 0 (length s + d) (fst (tokenizeJavaLine s st))"
  using snippet_drop_ok [OF assms, of 0] snippet_drop_ok [OF assms]
  by (auto simp: tokenizeJavaLine_def Let_def case_prod_beta split: option.splits
      dest!: index_of_bounds intro!: toks_ok_append)

lemma single_line_tokens_ok:
  assumes "BSL \<notin> set s \<or> 1 \<le> d"
  shows "toks_ok 0 (length s + d) (fst (single_line_tokens lang dialect s st))"
proof -
  show ?thesis
  proof (cases "lang = ''java'' \<or> s = []")
    case True
    then show ?thesis using tokenizeJavaLine_ok [OF assms] by (auto simp: single_line_tokens_def)
  next
    case False
    show ?thesis
    proof (cases "continue_line dialect s (ls_clone st)")
      case (Inl r)
      with False continue_line_ok [OF assms, of dialect "ls_clone st"] show ?thesis
        by (cases r) (simp add: single_line_tokens_def)
    next
      case (Inr r)
      obtain ts q i where r: "r = (ts, q, i)" by (cases r)
      with Inr continue_line_ok [OF assms, of dialect "ls_clone st"]
      have "toks_ok 0 i ts" "i \<le> length s" by simp_all
      with False Inr r line_loop_ok [OF assms, of i dialect q] show ?thesis
        by (auto simp: single_line_tokens_def case_prod_beta intro: toks_ok_append)
    qed
  qed
qed

section \<open>The modes of a line\<close>

definition lexer_modes :: "string set" where
  "lexer_modes = {''root'', ''jsp-comment'', ''html-comment'', mode_java_comment, ''directive'',
     ''html-tag'', ''scriptlet''}"

lemma new_lexer_state_mode [simp]: "ls_mode (new_lexer_state m l k d) = m"
  by (simp add: new_lexer_state_def)

lemma line_step_mode:
  assumes "ls_mode st \<in> lexer_modes" and "i < length s"
  shows "line_step dialect s i st = Inl (ts, st') \<longrightarrow> ls_mode st' \<in> lexer_modes"
  by (rule line_step_cases [OF assms(2)])
    (use assms(1) in \<open>auto simp: comment_step_def jsp_step_def el_step_def tag_step_def
      text_step_def lexer_modes_def Let_def split: option.splits prod.splits if_splits\<close>)

lemma line_loop_mode:
  "ls_mode st \<in> lexer_modes \<Longrightarrow> ls_mode (snd (line_loop dialect s i st)) \<in> lexer_modes"
proof (induction i rule: index_induct [where n = "length s"])
  case (step i)
  show ?case
  proof (cases "i < length s")
    case False
    with step.prems show ?thesis by (simp add: line_loop.simps [of dialect s i st])
  next
    case True
    show ?thesis
    proof (cases "line_step dialect s i st")
      case (Inl r)
      with True line_step_mode [OF step.prems True, of dialect "fst r" "snd r"] show ?thesis
        by (simp add: line_loop.simps [of dialect s i st])
    next
      case (Inr r)
      obtain ts j where r: "r = (ts, j)" by (cases r)
      with line_step_progress [OF True, of dialect st ts j] Inr step.IH [of j] True step.prems
      show ?thesis by (simp add: line_loop.simps [of dialect s i st] case_prod_beta)
    qed
  qed
qed

lemma tokenizeJavaLine_mode:
  "ls_mode st \<in> lexer_modes \<Longrightarrow> ls_mode (snd (tokenizeJavaLine s st)) \<in> lexer_modes"
  by (auto simp: tokenizeJavaLine_def Let_def case_prod_beta lexer_modes_def split: option.splits)

lemma continue_line_mode:
  assumes "ls_mode st \<in> lexer_modes"
  shows "case continue_line dialect s st of
      Inl (_, q) \<Rightarrow> ls_mode q \<in> lexer_modes | Inr (_, q, _) \<Rightarrow> ls_mode q \<in> lexer_modes"
proof -
  let ?P = "\<lambda>r :: resume_result. case r of Inl (_, q) \<Rightarrow> ls_mode q \<in> lexer_modes
    | Inr (_, q, _) \<Rightarrow> ls_mode q \<in> lexer_modes"
  have known: "''root'' \<in> lexer_modes" "''scriptlet'' \<in> lexer_modes" "mode_java_comment \<in> lexer_modes"
    by (simp_all add: lexer_modes_def)
  have resumed: "?P (resume_comment s c q st)" "?P (resume_directive s q st)" "?P (resume_tag s q st)"
    "?P (resume_scriptlet dialect s q st)" if "ls_mode q \<in> lexer_modes" for c q
    using assms that known
    by (auto simp: resume_comment_def resume_directive_def resume_tag_def resume_scriptlet_def
        split: option.splits prod.splits)
  show ?thesis
    unfolding continue_line_def Let_def using known assms
    by (simp only: resumed new_lexer_state_mode split: if_split) simp
qed

lemma single_line_tokens_mode:
  assumes "ls_mode st \<in> lexer_modes"
  shows "ls_mode (snd (single_line_tokens lang dialect s st)) \<in> lexer_modes"
  using assms tokenizeJavaLine_mode [OF assms] continue_line_mode [OF assms, of dialect s]
    line_loop_mode
  by (auto simp: single_line_tokens_def case_prod_beta split: sum.splits prod.splits)

section \<open>Constructs that stay open\<close>

text \<open>A comment or directive without its closer on the line: one token, the same state.\<close>

lemma open_construct_continues:
  assumes "s \<noteq> []" and "lang \<noteq> ''java''"
    and "(ls_mode st, closer, k) \<in> {(''jsp-comment'', ''--%>'', 1), (''html-comment'', ''-->'', 1),
           (mode_java_comment, ''*/'', 1), (''directive'', ''%>'', 3)}"
    and "\<And>i. \<not> starts_with_at s closer i"
  shows "single_line_tokens lang dialect s st = ([(length s, k)], st)"
proof -
  have "index_of s closer 0 = None"
    using assms(4) index_of_Some [of s closer 0] by (cases "index_of s closer 0") auto
  with assms(1-3) show ?thesis
    by (auto simp: single_line_tokens_def continue_line_def mode_java_comment_def
        resume_comment_def resume_directive_def)
qed

text \<open>
  After a block comment of a scriptlet ends, the rest of the line is read as page text
  and the state stays \<open>scriptlet\<close>, even when the scriptlet is closed on that line.
\<close>

lemma comment_then_close_stays_in_scriptlet:
  "snd (single_line_tokens ''jsp'' ''jsp'' ''*/ %>''
      (new_lexer_state mode_java_comment (Some ''java'') [] (Some ''jsp'')))
     = new_lexer_state ''scriptlet'' (Some ''java'') [] (Some ''jsp'')"
  "snd (single_line_tokens ''jsp'' ''jsp'' ''x; %>''
      (new_lexer_state ''scriptlet'' (Some ''java'') [] (Some ''jsp'')))
     = new_lexer_state ''root'' None [] (Some ''jsp'')"
  by code_simp+

text \<open>A literal cut off after a backslash has an end offset past the end of its line.\<close>

lemma trailing_backslash_token:
  "single_line_tokens ''java'' ''java'' [DQ, CHR ''a'', BSL]
      (new_lexer_state ''root'' None [] (Some ''java'')) =
     ([(4, 8)], new_lexer_state ''root'' None [] (Some ''java''))"
  by code_simp

end
