(* ===== verification/IncrementalTokenizer.thy ===== *)
theory IncrementalTokenizer
  imports TextLines LexerFacts
begin

text \<open>
  The class \<open>IncrementalTokenizer\<close> of \<open>worker/incremental-tokenizer.ts\<close>: its text
  mirror, its edits and its time-sliced tokenization from checkpoints. The reference is
  the run of the line lexer from the first line; the cache agrees with it after every
  operation, whatever the edits and wherever a slice is cut by the clock.
\<close>

section \<open>The class\<close>

record tokenizer =
  tk_modelInstanceId :: string
  tk_languageId :: string
  tk_dialect :: string
  tk_fullText :: string
  tk_lines :: "string list"
  tk_lineStarts :: "nat list"
  tk_version :: int
  tk_cache :: token_cache

definition new_tokenizer :: "string \<Rightarrow> string \<Rightarrow> string \<Rightarrow> tokenizer" where
  "new_tokenizer modelInstanceId languageId dialect =
    \<lparr> tk_modelInstanceId = modelInstanceId, tk_languageId = languageId, tk_dialect = dialect,
      tk_fullText = [], tk_lines = [], tk_lineStarts = [0], tk_version = 0,
      tk_cache = new_token_cache modelInstanceId \<rparr>"

definition getLineCount :: "tokenizer \<Rightarrow> nat" where
  "getLineCount t = length (tk_lines t)"

definition rebuildFromFullText :: "string \<Rightarrow> tokenizer \<Rightarrow> tokenizer" where
  "rebuildFromFullText newText t =
    (let (lines, lineStarts) = rebuild_lines newText
     in t\<lparr>tk_fullText := newText, tk_lines := lines, tk_lineStarts := lineStarts\<rparr>)"

definition setFullText :: "string \<Rightarrow> int \<Rightarrow> tokenizer \<Rightarrow> tokenizer" where
  "setFullText newText version t =
    (let t1 = rebuildFromFullText newText t
     in t1\<lparr>tk_version := version, tk_cache := setVersion version (clear_cache (tk_cache t1))\<rparr>)"

text \<open>\<open>applyEdits\<close> with \<open>fullTextFallback\<close> as an option; it returns the first dirty line.\<close>

definition applyEdits ::
  "text_edit list \<Rightarrow> int \<Rightarrow> string option \<Rightarrow> tokenizer \<Rightarrow> nat \<times> tokenizer"
where
  "applyEdits changes version fullTextFallback t =
    (case fullTextFallback of
       Some newText \<Rightarrow> (1, setFullText newText version t)
     | None \<Rightarrow>
         if changes = [] then
           (1, t\<lparr>tk_version := version, tk_cache := setVersion version (tk_cache t)\<rparr>)
         else
           let earliestDirtyLine =
                 nat (min (if tk_lines t = [] then 1 else int (length (tk_lines t)))
                       (getLineFromOffset (tk_lineStarts t) (min_offset changes)));
               t1 = rebuildFromFullText (apply_changes changes (tk_fullText t)) t
           in (earliestDirtyLine,
               t1\<lparr> tk_version := version,
                   tk_cache := invalidateFrom earliestDirtyLine (setVersion version (tk_cache t1)) \<rparr>))"

definition tk_lex :: "tokenizer \<Rightarrow> string \<Rightarrow> lexer_state \<Rightarrow> packed \<times> lexer_state" where
  "tk_lex t = tokenizeSingleLine (tk_languageId t) (tk_dialect t)"

definition tk_init :: "tokenizer \<Rightarrow> lexer_state" where
  "tk_init t = new_lexer_state ''root'' None [] (Some (tk_dialect t))"

record slice_result =
  sr_startLine :: nat
  sr_endLine :: nat
  sr_lineTokens :: "packed list"
  sr_endState :: "lexer_state option"
  sr_isCompleted :: bool
  sr_hasMore :: bool

text \<open>The fast-forward from a checkpoint: \<open>tokenizeLineStub\<close> on \<open>n\<close> lines.\<close>

fun fast_forward ::
  "(string \<Rightarrow> 's \<Rightarrow> 't \<times> 's) \<Rightarrow> string list \<Rightarrow> nat \<Rightarrow> nat \<Rightarrow> 's \<Rightarrow> 's"
where
  "fast_forward lexl lines currentLine 0 state = state"
| "fast_forward lexl lines currentLine (Suc n) state =
     fast_forward lexl lines (Suc currentLine) n (snd (lexl (lines ! (currentLine - 1)) state))"

text \<open>
  The slice loop. \<open>slow line\<close> says that the clock has used the time budget when \<open>line\<close>
  is about to be tokenized.
\<close>

function slice_loop ::
  "(string \<Rightarrow> lexer_state \<Rightarrow> packed \<times> lexer_state) \<Rightarrow> (nat \<Rightarrow> bool) \<Rightarrow> string list \<Rightarrow> int \<Rightarrow> nat
     \<Rightarrow> lexer_state \<Rightarrow> token_cache \<Rightarrow> packed list \<times> lexer_state \<times> nat \<times> token_cache"
where
  "slice_loop lexl slow lines endTarget line currentState cache =
    (if int line \<le> endTarget then
       let lineText = (if line - 1 < length lines then lines ! (line - 1) else []);
           (tokens, nextState) = lexl lineText currentState;
           cache1 = setLineTokens line tokens cache;
           cache2 = (if line mod CHECKPOINT_INTERVAL = 0
                     then addCheckpoint line nextState (tc_currentVersion cache1) cache1 else cache1)
       in if int (line + 1) \<le> endTarget \<and> slow (line + 1)
          then ([tokens], nextState, line + 1, cache2)
          else let (ts, st, stop, c) = slice_loop lexl slow lines endTarget (line + 1) nextState cache2
               in (tokens # ts, st, stop, c)
     else ([], currentState, line, cache))"
  by pat_completeness auto
termination
  by (relation "measure (\<lambda>(lexl, slow, lines, endTarget, line, _). nat (endTarget + 1 - int line))") auto

declare slice_loop.simps [simp del]

definition tokenizeSlice ::
  "int \<Rightarrow> int \<Rightarrow> (nat \<Rightarrow> bool) \<Rightarrow> tokenizer \<Rightarrow> slice_result \<times> tokenizer"
where
  "tokenizeSlice fromLine targetEndLine slow t =
    (let totalLines = length (tk_lines t) in
     if totalLines = 0 then
       (\<lparr> sr_startLine = 1, sr_endLine = 1, sr_lineTokens = [[]], sr_endState = None,
          sr_isCompleted = True, sr_hasMore = False \<rparr>, t)
     else
       let startLine = nat (max 1 (min fromLine (int totalLines)));
           endTarget = min targetEndLine (int totalLines);
           (currentLine, currentState) =
             (case getClosestCheckpoint startLine (tk_cache t) of
                Some cp \<Rightarrow> (cp_lineNumber cp + 1, ls_clone (cp_state cp))
              | None \<Rightarrow> (1, tk_init t));
           startState = fast_forward (tk_lex t) (tk_lines t) currentLine (startLine - currentLine)
                          currentState;
           (lineTokens, endState, stop, cache) =
             slice_loop (tk_lex t) slow (tk_lines t) endTarget startLine startState (tk_cache t);
           finishedLine = stop - 1;
           isCompleted = (finishedLine \<ge> totalLines);
           cache' = (if isCompleted then setCompletedLineCount totalLines cache
                     else if finishedLine > tc_completedLineCount cache
                     then setCompletedLineCount finishedLine cache else cache)
       in (\<lparr> sr_startLine = startLine, sr_endLine = finishedLine, sr_lineTokens = lineTokens,
             sr_endState = Some endState, sr_isCompleted = isCompleted,
             sr_hasMore = (finishedLine < totalLines) \<rparr>, t\<lparr>tk_cache := cache'\<rparr>))"

section \<open>The reference run\<close>

definition state_after :: "(string \<Rightarrow> 's \<Rightarrow> 't \<times> 's) \<Rightarrow> 's \<Rightarrow> string list \<Rightarrow> nat \<Rightarrow> 's" where
  "state_after lexl init ls n = foldl (\<lambda>s l. snd (lexl l s)) init (take n ls)"

definition line_tokens :: "(string \<Rightarrow> 's \<Rightarrow> 't \<times> 's) \<Rightarrow> 's \<Rightarrow> string list \<Rightarrow> nat \<Rightarrow> 't" where
  "line_tokens lexl init ls n = fst (lexl (ls ! (n - 1)) (state_after lexl init ls (n - 1)))"

text \<open>Two partial maps of states and tokens agree with the run on \<open>ls\<close>.\<close>

definition agrees ::
  "(string \<Rightarrow> 's \<Rightarrow> 't \<times> 's) \<Rightarrow> 's \<Rightarrow> string list \<Rightarrow> (nat \<Rightarrow> 's option) \<Rightarrow> (nat \<Rightarrow> 't option) \<Rightarrow> bool"
where
  "agrees lexl init ls cs ts \<longleftrightarrow>
     (\<forall>k s. cs k = Some s \<longrightarrow> k \<le> length ls \<and> s = state_after lexl init ls k)
   \<and> (\<forall>k t. ts k = Some t \<longrightarrow> 1 \<le> k \<and> k \<le> length ls \<and> t = line_tokens lexl init ls k)"

lemma state_after_0 [simp]: "state_after lexl init ls 0 = init"
  by (simp add: state_after_def)

lemma state_after_Suc:
  "n < length ls \<Longrightarrow>
     state_after lexl init ls (Suc n) = snd (lexl (ls ! n) (state_after lexl init ls n))"
  by (simp add: state_after_def take_Suc_conv_app_nth)

lemma state_after_cong: "take n ls = take n ls' \<Longrightarrow> state_after lexl init ls n = state_after lexl init ls' n"
  by (simp add: state_after_def)

lemma fast_forward_state:
  "1 \<le> k \<Longrightarrow> k + n - 1 \<le> length ls \<Longrightarrow>
     fast_forward lexl ls k n (state_after lexl init ls (k - 1)) = state_after lexl init ls (k + n - 1)"
proof (induction n arbitrary: k)
  case 0
  then show ?case by simp
next
  case (Suc n)
  have "snd (lexl (ls ! (k - 1)) (state_after lexl init ls (k - 1))) = state_after lexl init ls k"
    using Suc.prems state_after_Suc [of "k - 1" ls lexl init] by simp
  with Suc.IH [of "Suc k"] Suc.prems show ?case by simp
qed

text \<open>What a checkpoint store keeps of the agreement, for any line lexer.\<close>

locale incremental_lexing = checkpoint_store closest add store invalidate cps toks
  for closest :: "nat \<Rightarrow> 'c \<Rightarrow> (nat \<times> 's) option" and add :: "nat \<Rightarrow> 's \<Rightarrow> 'c \<Rightarrow> 'c"
    and store :: "nat \<Rightarrow> 't \<Rightarrow> 'c \<Rightarrow> 'c" and invalidate :: "nat \<Rightarrow> 'c \<Rightarrow> 'c"
    and cps :: "'c \<Rightarrow> nat \<Rightarrow> 's option" and toks :: "'c \<Rightarrow> nat \<Rightarrow> 't option" +
  fixes lexl :: "string \<Rightarrow> 's \<Rightarrow> 't \<times> 's" and init :: 's
begin

lemma agrees_add:
  assumes "agrees lexl init ls (cps c) (toks c)" and "k \<le> length ls"
  shows "agrees lexl init ls (cps (add k (state_after lexl init ls k) c))
           (toks (add k (state_after lexl init ls k) c))"
  using assms by (simp add: agrees_def store_laws)

lemma agrees_store:
  assumes "agrees lexl init ls (cps c) (toks c)" and "1 \<le> k" and "k \<le> length ls"
  shows "agrees lexl init ls (cps (store k (line_tokens lexl init ls k) c))
           (toks (store k (line_tokens lexl init ls k) c))"
  using assms by (simp add: agrees_def store_laws)

text \<open>Dropping everything from the first changed line on is enough.\<close>

lemma agrees_invalidate:
  assumes "agrees lexl init ls (cps c) (toks c)"
    and same: "take (n - 1) ls' = take (n - 1) ls" and "1 \<le> n" and "n - 1 \<le> length ls"
  shows "agrees lexl init ls' (cps (invalidate n c)) (toks (invalidate n c))"
proof -
  have len: "n - 1 \<le> length ls'"
    using arg_cong [OF same, of length] assms(4) by simp
  have st: "state_after lexl init ls' k = state_after lexl init ls k" if "k \<le> n - 1" for k
  proof (rule state_after_cong)
    have "take k (take (n - 1) ls') = take k (take (n - 1) ls)" using same by simp
    with that show "take k ls' = take k ls" by (simp add: min_absorb1)
  qed
  have nth: "ls' ! (k - 1) = ls ! (k - 1)" if "1 \<le> k" "k \<le> n - 1" for k
    using arg_cong [OF same, of "\<lambda>l. l ! (k - 1)"] that by simp
  have "line_tokens lexl init ls' k = line_tokens lexl init ls k" if "1 \<le> k" "k \<le> n - 1" for k
    using st [of "k - 1"] nth [OF that] that by (simp add: line_tokens_def)
  with st len assms(1,3) show ?thesis
    by (fastforce simp: agrees_def store_laws restrict_map_def split: if_splits)
qed

lemma closest_state:
  assumes "agrees lexl init ls (cps c) (toks c)" and "closest n c = Some (k, s)"
  shows "k < n \<and> k \<le> length ls \<and> s = state_after lexl init ls k"
  using assms(1) closest_Some [OF assms(2)] by (auto simp: agrees_def)

end

interpretation inc: incremental_lexing closest_pair "\<lambda>k s. addCheckpoint k s v" setLineTokens
  invalidateFrom checkpoint_map token_map "tokenizeSingleLine lang dialect"
  "new_lexer_state ''root'' None [] (Some dialect)" for v lang dialect
  by unfold_locales

section \<open>Slices compute the reference\<close>

abbreviation tk_agrees :: "tokenizer \<Rightarrow> token_cache \<Rightarrow> bool" where
  "tk_agrees t c \<equiv>
     agrees (tk_lex t) (tk_init t) (tk_lines t) (checkpoint_map c) (token_map c)"

text \<open>Storing the tokens of a line and, every 256 lines, the state after it.\<close>

lemma tk_agrees_record:
  assumes "tk_agrees t c" and "1 \<le> k" and "k \<le> length (tk_lines t)"
    and "tok = line_tokens (tk_lex t) (tk_init t) (tk_lines t) k"
    and "st = state_after (tk_lex t) (tk_init t) (tk_lines t) k"
  shows "tk_agrees t (setLineTokens k tok c)"
    and "tk_agrees t (addCheckpoint k st v (setLineTokens k tok c))"
proof -
  show a: "tk_agrees t (setLineTokens k tok c)"
    using inc.agrees_store [of "tk_languageId t" "tk_dialect t" "tk_lines t" c k] assms
    by (simp add: tk_lex_def tk_init_def)
  show "tk_agrees t (addCheckpoint k st v (setLineTokens k tok c))"
    using inc.agrees_add [of "tk_languageId t" "tk_dialect t" "tk_lines t" "setLineTokens k tok c" k v]
      a assms by (simp add: tk_lex_def tk_init_def)
qed

lemma slice_loop_correct:
  "tk_agrees t c \<Longrightarrow> endT \<le> int (length (tk_lines t)) \<Longrightarrow> 1 \<le> line \<Longrightarrow> int line \<le> endT + 1 \<Longrightarrow>
     st = state_after (tk_lex t) (tk_init t) (tk_lines t) (line - 1) \<Longrightarrow>
     slice_loop (tk_lex t) slow (tk_lines t) endT line st c = (ts, st', stop, c') \<Longrightarrow>
     line \<le> stop \<and> int stop \<le> endT + 1 \<and> (int line \<le> endT \<longrightarrow> line < stop)
     \<and> ts = map (line_tokens (tk_lex t) (tk_init t) (tk_lines t)) [line..<stop]
     \<and> st' = state_after (tk_lex t) (tk_init t) (tk_lines t) (stop - 1)
     \<and> tk_agrees t c'
     \<and> (cache_wf c \<longrightarrow> cache_wf c')
     \<and> (\<forall>k. token_map c k \<noteq> None \<or> line \<le> k \<and> k < stop \<longrightarrow> token_map c' k \<noteq> None)
     \<and> ((\<forall>l. \<not> slow l) \<longrightarrow> int stop = endT + 1)"
proof (induction "nat (endT + 1 - int line)" arbitrary: line st c ts rule: less_induct)
  case less
  let ?tok = "line_tokens (tk_lex t) (tk_init t) (tk_lines t)"
  let ?st = "state_after (tk_lex t) (tk_init t) (tk_lines t)"
  note unfold = slice_loop.simps [of "tk_lex t" slow "tk_lines t" endT line st c]
  show ?case
  proof (cases "int line \<le> endT")
    case False
    with less.prems(6) have "ts = [] \<and> st' = st \<and> stop = line \<and> c' = c" by (simp add: unfold)
    with False less.prems(1-5) show ?thesis by auto
  next
    case True
    have line: "line \<le> length (tk_lines t)" "line - 1 < length (tk_lines t)"
      using True less.prems by linarith+
    have lexed: "tk_lex t (tk_lines t ! (line - 1)) st = (?tok line, ?st line)"
      using state_after_Suc [of "line - 1" "tk_lines t" "tk_lex t" "tk_init t"] line less.prems
      by (simp add: line_tokens_def prod_eq_iff)
    define c1 where "c1 = setLineTokens line (?tok line) c"
    define c2 where "c2 = (if line mod CHECKPOINT_INTERVAL = 0
      then addCheckpoint line (?st line) (tc_currentVersion c1) c1 else c1)"
    have ag: "tk_agrees t c2"
      using tk_agrees_record [OF less.prems(1,3) line(1) refl refl] by (simp add: c1_def c2_def)
    have wf: "cache_wf c \<longrightarrow> cache_wf c2" by (simp add: c1_def c2_def)
    have tm: "token_map c2 = (token_map c)(line \<mapsto> ?tok line)"
      by (simp add: c1_def c2_def mtc.toks_add mtc.toks_store)
    show ?thesis
    proof (cases "int (line + 1) \<le> endT \<and> slow (line + 1)")
      case stop: True
      with less.prems(6) True line lexed
      have "ts = [?tok line]" "st' = ?st line" "stop = line + 1" "c' = c2"
        by (auto simp: unfold Let_def c1_def c2_def)
      with True stop ag wf tm show ?thesis by auto
    next
      case go: False
      have "slice_loop (tk_lex t) slow (tk_lines t) endT line st c
          = (let (ts, st, stop, c) = slice_loop (tk_lex t) slow (tk_lines t) endT (line + 1) (?st line) c2
             in (?tok line # ts, st, stop, c))"
        unfolding unfold c2_def c1_def using go True line lexed by (auto simp: Let_def)
      then obtain ts2 where rest: "slice_loop (tk_lex t) slow (tk_lines t) endT (line + 1) (?st line) c2
          = (ts2, st', stop, c')" and ts: "ts = ?tok line # ts2"
        using less.prems(6) by (auto simp: Let_def split: prod.splits)
      have IH: "line + 1 \<le> stop \<and> int stop \<le> endT + 1 \<and> (int (line + 1) \<le> endT \<longrightarrow> line + 1 < stop)
         \<and> ts2 = map ?tok [line + 1..<stop] \<and> st' = ?st (stop - 1) \<and> tk_agrees t c'
         \<and> (cache_wf c2 \<longrightarrow> cache_wf c')
         \<and> (\<forall>k. token_map c2 k \<noteq> None \<or> line + 1 \<le> k \<and> k < stop \<longrightarrow> token_map c' k \<noteq> None)
         \<and> ((\<forall>l. \<not> slow l) \<longrightarrow> int stop = endT + 1)"
        by (rule less.hyps [OF _ ag less.prems(2) _ _ _ rest]) (use True in auto)
      moreover have "ts = map ?tok [line..<stop]"
        using IH ts by (simp add: upt_conv_Cons)
      moreover have "token_map c' k \<noteq> None" if "token_map c k \<noteq> None \<or> line \<le> k \<and> k < stop" for k
        using IH that tm by (cases "k = line") auto
      ultimately show ?thesis using wf True by auto
    qed
  qed
qed

lemma slice_start_state:
  assumes "tk_agrees t (tk_cache t)" and "1 \<le> n" and "n \<le> length (tk_lines t)"
    and "(k, st) = (case getClosestCheckpoint n (tk_cache t) of
          Some cp \<Rightarrow> (cp_lineNumber cp + 1, ls_clone (cp_state cp)) | None \<Rightarrow> (1, tk_init t))"
  shows "fast_forward (tk_lex t) (tk_lines t) k (n - k) st
    = state_after (tk_lex t) (tk_init t) (tk_lines t) (n - 1)"
proof (cases "getClosestCheckpoint n (tk_cache t)")
  case None
  then show ?thesis
    using assms fast_forward_state [of 1 "n - 1" "tk_lines t" "tk_lex t" "tk_init t"] by simp
next
  case (Some cp)
  then have "closest_pair n (tk_cache t) = Some (cp_lineNumber cp, cp_state cp)"
    by (simp add: closest_pair_def)
  from inc.closest_state [OF _ this, of "tk_languageId t" "tk_dialect t" "tk_lines t"] assms(1)
  have "cp_lineNumber cp < n" and
    "cp_state cp = state_after (tk_lex t) (tk_init t) (tk_lines t) (cp_lineNumber cp)"
    by (simp_all add: tk_lex_def tk_init_def)
  with Some assms(2-4) fast_forward_state
    [of "cp_lineNumber cp + 1" "n - (cp_lineNumber cp + 1)" "tk_lines t" "tk_lex t" "tk_init t"]
  show ?thesis by simp
qed

text \<open>
  The lines are those of the text (or there are none yet), the line starts are theirs
  and the cache agrees with the run over them.
\<close>

definition tk_coherent :: "tokenizer \<Rightarrow> bool" where
  "tk_coherent t \<longleftrightarrow>
     (tk_lines t = lines_of (tk_fullText t) \<or> tk_lines t = [] \<and> tk_fullText t = [])
   \<and> tk_lineStarts t = 0 # starts_of (tk_fullText t)
   \<and> tk_agrees t (tk_cache t) \<and> cache_wf (tk_cache t)"

lemma tk_coherent_new [simp]: "tk_coherent (new_tokenizer m l d)"
  by (simp add: tk_coherent_def new_tokenizer_def agrees_def)

lemma rebuildFromFullText_simps [simp]:
  "tk_lines (rebuildFromFullText s t) = lines_of s"
  "tk_fullText (rebuildFromFullText s t) = s"
  "tk_lineStarts (rebuildFromFullText s t) = 0 # starts_of s"
  "tk_cache (rebuildFromFullText s t) = tk_cache t"
  "tk_lex (rebuildFromFullText s t) = tk_lex t"
  "tk_init (rebuildFromFullText s t) = tk_init t"
  by (simp_all add: rebuildFromFullText_def rebuild_lines_eq tk_lex_def tk_init_def)

lemma tk_lex_update [simp]:
  "tk_lex (t\<lparr>tk_version := v\<rparr>) = tk_lex t" "tk_init (t\<lparr>tk_version := v\<rparr>) = tk_init t"
  "tk_lex (t\<lparr>tk_cache := c\<rparr>) = tk_lex t" "tk_init (t\<lparr>tk_cache := c\<rparr>) = tk_init t"
  by (simp_all add: tk_lex_def tk_init_def)

lemma tk_coherent_setFullText: "tk_coherent (setFullText s v t)"
  by (simp add: tk_coherent_def setFullText_def Let_def agrees_def)

lemma tk_coherent_setVersion:
  "tk_coherent t \<Longrightarrow> tk_coherent (t\<lparr>tk_version := v, tk_cache := setVersion w (tk_cache t)\<rparr>)"
  by (simp add: tk_coherent_def)

text \<open>The lines before the first dirty line are the same after the edits.\<close>

lemma dirty_line_bounds:
  assumes "tk_coherent t" and "changes \<noteq> []"
    and d: "int d = min (if tk_lines t = [] then 1 else int (length (tk_lines t)))
                     (getLineFromOffset (tk_lineStarts t) (min_offset changes))"
  shows "1 \<le> d \<and> d - 1 \<le> length (tk_lines t)
     \<and> take (d - 1) (lines_of (apply_changes changes (tk_fullText t))) = take (d - 1) (tk_lines t)"
proof -
  define s where "s = tk_fullText t"
  define r where "r = getLineFromOffset (tk_lineStarts t) (min_offset changes)"
  have ls: "tk_lineStarts t = 0 # starts_of s" using assms(1) by (simp add: tk_coherent_def s_def)
  have r: "1 \<le> r" "1 < r \<Longrightarrow> r \<le> int (length (0 # starts_of s))
      \<and> int ((0 # starts_of s) ! nat (r - 1)) \<le> min_offset changes"
    using getLineFromOffset_sound [of "0 # starts_of s" r "min_offset changes"] ls
    by (simp_all add: r_def)
  have "1 \<le> (if tk_lines t = [] then 1 else int (length (tk_lines t)))"
    by (cases "tk_lines t") auto
  with d r(1) have d1: "1 \<le> d" "int d \<le> r" unfolding r_def by linarith+
  show ?thesis
  proof (cases "d = 1")
    case True
    then show ?thesis by simp
  next
    case False
    with d d1 have ne: "tk_lines t \<noteq> []" and dl: "d \<le> length (tk_lines t)" by (auto split: if_splits)
    then have lines: "tk_lines t = lines_of s" using assms(1) by (auto simp: tk_coherent_def s_def)
    have "1 < r" using False d1 by linarith
    note rr = r(2) [OF this]
    then have "int d = r" using d ne lines by (simp add: r_def length_lines_of)
    with rr have p: "int ((0 # starts_of s) ! (d - 1)) \<le> min_offset changes"
      and dm: "d - 1 < length (0 # starts_of s)"
      using d1 by (auto simp: nat_diff_distrib' le_nat_iff)
    let ?p = "(0 # starts_of s) ! (d - 1)"
    have "?p \<le> length s"
      using dm by (cases "d - 1") (auto intro: starts_of_le)
    then have "take ?p (apply_changes changes s) = take ?p s"
      by (intro apply_changes_prefix p assms(2))
    from lines_of_prefix [OF dm refl this] d1 dl lines show ?thesis
      by (simp add: s_def)
  qed
qed

lemma tk_coherent_applyEdits:
  assumes "tk_coherent t" and "applyEdits changes v fb t = (d, t')"
  shows "tk_coherent t' \<and> 1 \<le> d"
proof (cases "fb = None \<and> changes \<noteq> []")
  case False
  with assms tk_coherent_setFullText tk_coherent_setVersion [OF assms(1)] show ?thesis
    by (auto simp: applyEdits_def split: option.splits if_splits)
next
  case True
  define r where "r = min (if tk_lines t = [] then 1 else int (length (tk_lines t)))
    (getLineFromOffset (tk_lineStarts t) (min_offset changes))"
  let ?s = "apply_changes changes (tk_fullText t)"
  have "tk_lineStarts t \<noteq> []" using assms(1) by (simp add: tk_coherent_def)
  then have "1 \<le> r"
    using getLineFromOffset_sound [OF _ refl, of "tk_lineStarts t" "min_offset changes"]
    by (cases "tk_lines t") (auto simp: r_def)
  moreover have d: "d = nat r"
    using True assms(2) by (auto simp: applyEdits_def r_def Let_def)
  ultimately have "int d = r" by simp
  note b = dirty_line_bounds [OF assms(1) _ this [unfolded r_def]]
  have t': "t' = (rebuildFromFullText ?s t)\<lparr>tk_version := v,
      tk_cache := invalidateFrom d (setVersion v (tk_cache t))\<rparr>"
    using True assms(2) d by (auto simp: applyEdits_def r_def Let_def)
  have "agrees (tk_lex t) (tk_init t) (lines_of ?s)
      (checkpoint_map (invalidateFrom d (setVersion v (tk_cache t))))
      (token_map (invalidateFrom d (setVersion v (tk_cache t))))"
    using inc.agrees_invalidate [of "tk_languageId t" "tk_dialect t" "tk_lines t"
        "setVersion v (tk_cache t)" d "lines_of ?s"] b True assms(1)
    by (simp add: tk_coherent_def tk_lex_def tk_init_def)
  then show ?thesis
    using t' b True assms(1) by (simp add: tk_coherent_def)
qed

text \<open>What a slice returns and what it leaves in the cache.\<close>

lemma tokenizeSlice_correct:
  assumes co: "tk_coherent t" and ne: "tk_lines t \<noteq> []"
    and run: "tokenizeSlice fromLine target slow t = (r, t')"
  defines "start \<equiv> nat (max 1 (min fromLine (int (length (tk_lines t)))))"
  assumes target: "int start \<le> target + 1"
  shows "sr_startLine r = start
    \<and> start \<le> sr_endLine r + 1 \<and> (int start \<le> target \<longrightarrow> start \<le> sr_endLine r)
    \<and> int (sr_endLine r) \<le> min target (int (length (tk_lines t)))
    \<and> sr_lineTokens r = map (line_tokens (tk_lex t) (tk_init t) (tk_lines t)) [start..<Suc (sr_endLine r)]
    \<and> sr_endState r = Some (state_after (tk_lex t) (tk_init t) (tk_lines t) (sr_endLine r))
    \<and> (sr_isCompleted r \<longleftrightarrow> sr_endLine r = length (tk_lines t))
    \<and> tk_coherent t' \<and> t' = t\<lparr>tk_cache := tk_cache t'\<rparr>
    \<and> (\<forall>k. token_map (tk_cache t) k \<noteq> None \<or> start \<le> k \<and> k \<le> sr_endLine r
          \<longrightarrow> token_map (tk_cache t') k \<noteq> None)"
proof -
  let ?n = "length (tk_lines t)"
  have "1 \<le> ?n" using ne by (cases "tk_lines t") auto
  then have n: "1 \<le> start" "start \<le> ?n" unfolding start_def by linarith+
  obtain k st where kst: "(k, st) = (case getClosestCheckpoint start (tk_cache t) of
      Some cp \<Rightarrow> (cp_lineNumber cp + 1, ls_clone (cp_state cp)) | None \<Rightarrow> (1, tk_init t))"
    by (metis surj_pair)
  have ff: "fast_forward (tk_lex t) (tk_lines t) k (start - k) st
      = state_after (tk_lex t) (tk_init t) (tk_lines t) (start - 1)"
    by (rule slice_start_state [OF _ n kst]) (use co in \<open>simp add: tk_coherent_def\<close>)
  obtain ts st' stop c where loop: "slice_loop (tk_lex t) slow (tk_lines t) (min target (int ?n)) start
      (state_after (tk_lex t) (tk_init t) (tk_lines t) (start - 1)) (tk_cache t) = (ts, st', stop, c)"
    by (metis prod_cases4)
  have ag: "tk_agrees t (tk_cache t)" using co by (simp add: tk_coherent_def)
  have "int start \<le> min target (int ?n) + 1" using target n by linarith
  note L = slice_loop_correct [OF ag min.cobounded2 n(1) this refl loop]
  define c' where "c' = (if stop - 1 \<ge> ?n then setCompletedLineCount ?n c
    else if stop - 1 > tc_completedLineCount c then setCompletedLineCount (stop - 1) c else c)"
  have res: "r = \<lparr>sr_startLine = start, sr_endLine = stop - 1, sr_lineTokens = ts,
      sr_endState = Some st', sr_isCompleted = (stop - 1 \<ge> ?n), sr_hasMore = (stop - 1 < ?n)\<rparr>"
    and t': "t' = t\<lparr>tk_cache := c'\<rparr>"
    using run ne ff loop
    by (auto simp: tokenizeSlice_def Let_def start_def [symmetric] kst [symmetric] c'_def)
  have maps: "checkpoint_map c' = checkpoint_map c" "token_map c' = token_map c"
    "cache_wf c \<Longrightarrow> cache_wf c'" by (auto simp: c'_def)
  have "tk_coherent t'" using co L t' maps by (auto simp: tk_coherent_def)
  with L res t' maps n show ?thesis by (auto simp: le_diff_conv2)
qed

text \<open>A slice that asks for nothing leaves the tokenizer coherent too.\<close>

lemma tk_coherent_tokenizeSlice:
  assumes co: "tk_coherent t" and run: "tokenizeSlice fromLine target slow t = (r, t')"
  shows "tk_coherent t' \<and> t' = t\<lparr>tk_cache := tk_cache t'\<rparr>"
proof (cases "tk_lines t = [] \<or> int (nat (max 1 (min fromLine (int (length (tk_lines t)))))) \<le> target + 1")
  case True
  then show ?thesis
  proof
    assume "tk_lines t = []"
    with co run show ?thesis by (simp add: tokenizeSlice_def)
  next
    assume "int (nat (max 1 (min fromLine (int (length (tk_lines t)))))) \<le> target + 1"
    moreover have ?thesis if "tk_lines t = []" using that co run by (simp add: tokenizeSlice_def)
    ultimately show ?thesis using tokenizeSlice_correct [OF co _ run] by blast
  qed
next
  case False
  define start where "start = nat (max 1 (min fromLine (int (length (tk_lines t)))))"
  have "\<not> int start \<le> min target (int (length (tk_lines t)))"
    using False by (simp add: start_def)
  then have loop: "slice_loop (tk_lex t) slow (tk_lines t) (min target (int (length (tk_lines t)))) start st c
      = ([], st, start, c)" for st c
    unfolding slice_loop.simps [of "tk_lex t" slow "tk_lines t"
          "min target (int (length (tk_lines t)))" start st c] by (simp only: if_False)
  obtain n where "t' = t\<lparr>tk_cache := tk_cache t\<rparr> \<or> t' = t\<lparr>tk_cache := setCompletedLineCount n (tk_cache t)\<rparr>"
    using run False
    by (auto simp: tokenizeSlice_def Let_def start_def [symmetric] loop split: if_splits prod.splits)
  then show ?thesis using co by (auto simp: tk_coherent_def)
qed

section \<open>Any sequence of operations\<close>

datatype tk_op =
    SetFullText string int
  | ApplyEdits "text_edit list" int "string option"
  | TokenizeSlice int int "nat \<Rightarrow> bool"

fun tk_step :: "tokenizer \<Rightarrow> tk_op \<Rightarrow> tokenizer" where
  "tk_step t (SetFullText s v) = setFullText s v t"
| "tk_step t (ApplyEdits changes v fb) = snd (applyEdits changes v fb t)"
| "tk_step t (TokenizeSlice a b slow) = snd (tokenizeSlice a b slow t)"

definition tk_run :: "tokenizer \<Rightarrow> tk_op list \<Rightarrow> tokenizer" where
  "tk_run = foldl tk_step"

text \<open>The text a client has after the same operations.\<close>

fun text_step :: "string \<Rightarrow> tk_op \<Rightarrow> string" where
  "text_step s (SetFullText s' v) = s'"
| "text_step s (ApplyEdits changes v fb) =
     (case fb of Some s' \<Rightarrow> s' | None \<Rightarrow> apply_changes changes s)"
| "text_step s (TokenizeSlice a b slow) = s"

lemma apply_changes_Nil [simp]: "apply_changes [] s = s"
  by (simp add: apply_changes_def)

lemma setFullText_fields [simp]:
  "tk_fullText (setFullText s v t) = s" "tk_languageId (setFullText s v t) = tk_languageId t"
  "tk_dialect (setFullText s v t) = tk_dialect t" "tk_version (setFullText s v t) = v"
  "tk_lines (setFullText s v t) = lines_of s"
  by (simp_all add: setFullText_def rebuildFromFullText_def rebuild_lines_eq Let_def)

lemma applyEdits_fields:
  assumes "applyEdits changes v fb t = (d, t')"
  shows "tk_fullText t' = text_step (tk_fullText t) (ApplyEdits changes v fb)
    \<and> tk_languageId t' = tk_languageId t \<and> tk_dialect t' = tk_dialect t \<and> tk_version t' = v"
  using assms
  by (auto simp: applyEdits_def Let_def rebuildFromFullText_def split: option.splits if_splits prod.splits)

lemma tk_step_correct:
  assumes "tk_coherent t"
  shows "tk_coherent (tk_step t op) \<and> tk_fullText (tk_step t op) = text_step (tk_fullText t) op
    \<and> tk_languageId (tk_step t op) = tk_languageId t \<and> tk_dialect (tk_step t op) = tk_dialect t"
proof (cases op)
  case (SetFullText s v)
  then show ?thesis by (simp add: tk_coherent_setFullText)
next
  case (ApplyEdits changes v fb)
  obtain d t' where e: "applyEdits changes v fb t = (d, t')" by (metis surj_pair)
  show ?thesis
    using applyEdits_fields [OF e] tk_coherent_applyEdits [OF assms e] e ApplyEdits by simp
next
  case (TokenizeSlice a b slow)
  obtain r t' where s: "tokenizeSlice a b slow t = (r, t')" by (metis surj_pair)
  have t': "tk_coherent t'" "t' = t\<lparr>tk_cache := tk_cache t'\<rparr>"
    using tk_coherent_tokenizeSlice [OF assms s] by auto
  show ?thesis using t'(1) s TokenizeSlice arg_cong [OF t'(2), of tk_fullText]
      arg_cong [OF t'(2), of tk_languageId] arg_cong [OF t'(2), of tk_dialect] by simp
qed

lemma tk_run_correct:
  "tk_coherent t \<Longrightarrow>
     tk_coherent (tk_run t ops) \<and> tk_fullText (tk_run t ops) = foldl text_step (tk_fullText t) ops
     \<and> tk_languageId (tk_run t ops) = tk_languageId t \<and> tk_dialect (tk_run t ops) = tk_dialect t"
  unfolding tk_run_def
  by (induction ops arbitrary: t) (simp_all add: tk_step_correct)

lemma tk_coherent_tokens:
  assumes "tk_coherent t" and "getLineTokens n (tk_cache t) = Some p"
  shows "p = line_tokens (tokenizeSingleLine (tk_languageId t) (tk_dialect t)) (tk_init t)
    (lines_of (tk_fullText t)) n \<and> 1 \<le> n \<and> n \<le> length (lines_of (tk_fullText t))"
  using assms unfolding tk_coherent_def agrees_def tk_lex_def token_map_def by fastforce

end
