(* ===== verification/CoveredRanges.thy ===== *)
theory CoveredRanges
  imports Prelude
begin

text \<open>
  The covered line ranges of \<open>worker/highlighting-scheduler.ts\<close>: \<open>addCoveredRange\<close>,
  \<open>findUncoveredRange\<close> and the cut of \<open>updateContent\<close>. The interface \<open>line_cover\<close> states
  them over the set of covered lines.
\<close>

record line_range =
  rn_start :: int
  rn_end :: int

definition merge_push :: "line_range list \<Rightarrow> line_range \<Rightarrow> line_range list" where
  "merge_push merged r =
    (if merged = [] then [r]
     else let last_r = last merged in
       if rn_start r \<le> rn_end last_r + 1
       then butlast merged @ [last_r\<lparr>rn_end := max (rn_end last_r) (rn_end r)\<rparr>]
       else merged @ [r])"

definition addCoveredRange :: "int \<Rightarrow> int \<Rightarrow> line_range list \<Rightarrow> line_range list" where
  "addCoveredRange s e ranges =
    (if s > e then ranges
     else foldl merge_push [] (sort_key rn_start (ranges @ [\<lparr>rn_start = s, rn_end = e\<rparr>])))"

text \<open>The three loops of \<open>findUncoveredRange\<close> differ in their bounds only.\<close>

function uncovered_loop ::
  "line_range list \<Rightarrow> int \<Rightarrow> int \<Rightarrow> int \<Rightarrow> (int \<times> int) option"
where
  "uncovered_loop ranges maxSliceLines l hi =
    (if l \<le> hi then
       (case find (\<lambda>r. rn_start r \<le> l \<and> l \<le> rn_end r) ranges of
          Some covered \<Rightarrow> uncovered_loop ranges maxSliceLines (rn_end covered + 1) hi
        | None \<Rightarrow>
            let nextLimit = (case find (\<lambda>r. rn_start r > l) ranges of
                  Some nextCovered \<Rightarrow> rn_start nextCovered - 1 | None \<Rightarrow> hi)
            in Some (l, min hi (min nextLimit (l + maxSliceLines - 1))))
     else None)"
  by pat_completeness auto
termination
  by (relation "measure (\<lambda>(ranges, m, l, hi). nat (hi + 1 - l))") (auto simp: find_Some_iff)

declare uncovered_loop.simps [simp del]

definition findUncoveredRange ::
  "line_range list \<Rightarrow> int \<Rightarrow> int \<Rightarrow> int \<Rightarrow> int \<Rightarrow> (int \<times> int) option"
where
  "findUncoveredRange ranges preferredStart preferredEnd totalLines maxSliceLines =
    (if totalLines \<le> 0 then None
     else
       let prefStart = max 1 (min preferredStart totalLines);
           prefEnd = max prefStart (min preferredEnd totalLines)
       in case uncovered_loop ranges maxSliceLines prefStart prefEnd of
            Some r \<Rightarrow> Some r
          | None \<Rightarrow>
              (case uncovered_loop ranges maxSliceLines 1 (prefStart - 1) of
                 Some r \<Rightarrow> Some r
               | None \<Rightarrow> uncovered_loop ranges maxSliceLines (prefEnd + 1) totalLines))"

text \<open>What \<open>updateContent\<close> keeps: the lines before the first dirty one.\<close>

fun cutCovered :: "int \<Rightarrow> line_range list \<Rightarrow> line_range list" where
  "cutCovered dirtyLine [] = []"
| "cutCovered dirtyLine (r # rs) =
     (if rn_end r < dirtyLine then r # cutCovered dirtyLine rs
      else if rn_start r < dirtyLine
      then \<lparr>rn_start = rn_start r, rn_end = dirtyLine - 1\<rparr> # cutCovered dirtyLine rs
      else cutCovered dirtyLine rs)"

section \<open>The interface\<close>

locale line_cover =
  fixes covered :: "'c \<Rightarrow> int set"
    and valid :: "'c \<Rightarrow> bool"
    and empty :: 'c
    and add :: "int \<Rightarrow> int \<Rightarrow> 'c \<Rightarrow> 'c"
    and cut :: "int \<Rightarrow> 'c \<Rightarrow> 'c"
    and pick :: "'c \<Rightarrow> int \<Rightarrow> int \<Rightarrow> int \<Rightarrow> (int \<times> int) option"
  assumes covered_empty: "covered empty = {}" and valid_empty: "valid empty"
    and covered_add: "valid c \<Longrightarrow> covered (add a b c) = covered c \<union> {a..b}"
    and valid_add: "valid c \<Longrightarrow> valid (add a b c)"
    and covered_cut: "valid c \<Longrightarrow> covered (cut d c) = covered c \<inter> {..<d}"
    and valid_cut: "valid c \<Longrightarrow> valid (cut d c)"
    and pick_Some: "valid c \<Longrightarrow> pick c p q n = Some (a, b) \<Longrightarrow>
      1 \<le> a \<and> a \<le> b \<and> b \<le> n \<and> {a..b} \<inter> covered c = {}"
    and pick_None: "valid c \<Longrightarrow> pick c p q n = None \<Longrightarrow> {1..n} \<subseteq> covered c"
begin

definition left :: "int \<Rightarrow> 'c \<Rightarrow> nat" where
  "left n c = card ({1..n} - covered c)"

text \<open>Each picked range, or a non-empty part of it, makes progress; at 0 all is covered.\<close>

lemma left_add:
  assumes "valid c" and "pick c p q n = Some (a, b)" and "a \<le> e" and "e \<le> b"
  shows "left n (add a e c) < left n c"
  unfolding left_def
proof (rule psubset_card_mono)
  have "a \<in> {a..b}" "a \<in> {1..n}" using pick_Some [OF assms(1,2)] by auto
  then have "a \<in> {1..n} - covered c" "a \<in> covered (add a e c)"
    using pick_Some [OF assms(1,2)] assms(3) covered_add [OF assms(1), of a e] by auto
  then show "{1..n} - covered (add a e c) \<subset> {1..n} - covered c"
    unfolding covered_add [OF assms(1)] by blast
qed simp

lemma left_0: "left n c = 0 \<longleftrightarrow> {1..n} \<subseteq> covered c"
  by (simp add: left_def)

end

section \<open>The ranges are a cover\<close>

definition covered_lines :: "line_range list \<Rightarrow> int set" where
  "covered_lines rs = (\<Union>r\<in>set rs. {rn_start r..rn_end r})"

definition separated :: "line_range list \<Rightarrow> bool" where
  "separated rs \<longleftrightarrow>
     sorted_wrt (\<lambda>a b. rn_end a + 1 < rn_start b) rs \<and> (\<forall>r\<in>set rs. rn_start r \<le> rn_end r)"

lemma covered_lines_simps [simp]:
  "covered_lines [] = {}"
  "covered_lines (r # rs) = {rn_start r..rn_end r} \<union> covered_lines rs"
  "covered_lines (rs @ rs') = covered_lines rs \<union> covered_lines rs'"
  by (auto simp: covered_lines_def)

lemma covered_lines_sort [simp]: "covered_lines (sort_key f rs) = covered_lines rs"
  by (simp add: covered_lines_def)

lemma merge_push_snoc:
  "merge_push (xs @ [x]) r =
    (if rn_start r \<le> rn_end x + 1 then xs @ [x\<lparr>rn_end := max (rn_end x) (rn_end r)\<rparr>]
     else xs @ [x, r])"
  by (simp add: merge_push_def Let_def)

lemma separated_snoc:
  "separated (xs @ [x]) \<longleftrightarrow>
     separated xs \<and> rn_start x \<le> rn_end x \<and> (\<forall>y\<in>set xs. rn_end y + 1 < rn_start x)"
  by (auto simp: separated_def sorted_wrt_append)

lemma foldl_merge_push:
  "separated (xs @ [x]) \<Longrightarrow> sorted (map rn_start (x # rest)) \<Longrightarrow>
     \<forall>r\<in>set rest. rn_start r \<le> rn_end r \<Longrightarrow>
     separated (foldl merge_push (xs @ [x]) rest)
   \<and> covered_lines (foldl merge_push (xs @ [x]) rest) = covered_lines (xs @ x # rest)"
proof (induction rest arbitrary: xs x)
  case Nil
  then show ?case by simp
next
  case (Cons r rest)
  have xr: "rn_start x \<le> rn_start r" "rn_start r \<le> rn_end r" using Cons.prems by auto
  show ?case
  proof (cases "rn_start r \<le> rn_end x + 1")
    case True
    let ?x = "x\<lparr>rn_end := max (rn_end x) (rn_end r)\<rparr>"
    have "separated (xs @ [?x])" using Cons.prems(1) by (auto simp: separated_snoc)
    moreover have "sorted (map rn_start (?x # rest))" using Cons.prems(2) by auto
    ultimately have "separated (foldl merge_push (xs @ [?x]) rest)
      \<and> covered_lines (foldl merge_push (xs @ [?x]) rest) = covered_lines (xs @ ?x # rest)"
      by (rule Cons.IH) (use Cons.prems(3) in auto)
    moreover have "{rn_start ?x..rn_end ?x} = {rn_start x..rn_end x} \<union> {rn_start r..rn_end r}"
      using True xr by auto
    ultimately show ?thesis using True by (auto simp: merge_push_snoc)
  next
    case False
    then have "separated ((xs @ [x]) @ [r])"
      using Cons.prems(1) xr by (subst separated_snoc) (auto simp: separated_snoc)
    from Cons.IH [OF this] Cons.prems(2,3) False show ?thesis
      by (auto simp: merge_push_snoc)
  qed
qed

lemma addCoveredRange_merged:
  assumes "separated rs"
  shows "separated (addCoveredRange s e rs)
    \<and> covered_lines (addCoveredRange s e rs) = covered_lines rs \<union> {s..e}"
proof (cases "s > e")
  case True
  with assms show ?thesis by (simp add: addCoveredRange_def)
next
  case False
  define rs' where "rs' = sort_key rn_start (rs @ [\<lparr>rn_start = s, rn_end = e\<rparr>])"
  have c: "covered_lines rs' = covered_lines rs \<union> {s..e}" by (simp add: rs'_def)
  have v: "\<forall>r\<in>set rs'. rn_start r \<le> rn_end r" and so: "sorted (map rn_start rs')"
    using assms False by (auto simp: rs'_def separated_def)
  obtain x rest where x: "rs' = x # rest"
    by (cases rs') (auto simp: rs'_def dest: arg_cong [of _ _ length])
  have "separated (foldl merge_push ([] @ [x]) rest)
      \<and> covered_lines (foldl merge_push ([] @ [x]) rest) = covered_lines ([] @ x # rest)"
    by (rule foldl_merge_push) (use v so x in \<open>auto simp: separated_def\<close>)
  with c x False show ?thesis by (simp add: addCoveredRange_def rs'_def [symmetric] merge_push_def)
qed

lemma cutCovered_correct:
  assumes "separated rs"
  shows "separated (cutCovered d rs) \<and> covered_lines (cutCovered d rs) = covered_lines rs \<inter> {..<d}
    \<and> (\<forall>r\<in>set (cutCovered d rs). \<exists>r'\<in>set rs. rn_start r = rn_start r')"
  using assms
proof (induction rs)
  case Nil
  then show ?case by (simp add: separated_def)
next
  case (Cons r rs)
  then have IH: "separated (cutCovered d rs)" "covered_lines (cutCovered d rs) = covered_lines rs \<inter> {..<d}"
    "\<And>q. q \<in> set (cutCovered d rs) \<Longrightarrow> \<exists>q'\<in>set rs. rn_start q = rn_start q'"
    by (auto simp: separated_def)
  have r: "rn_start r \<le> rn_end r" "\<And>q. q \<in> set rs \<Longrightarrow> rn_end r + 1 < rn_start q"
    using Cons.prems by (auto simp: separated_def)
  have q: "rn_end r + 1 < rn_start q" if "q \<in> set (cutCovered d rs)" for q
    using IH(3) [OF that] r(2) by fastforce
  have "covered_lines (cutCovered d (r # rs)) = covered_lines (r # rs) \<inter> {..<d}"
    using IH(2) r by auto
  moreover have "separated (cutCovered d (r # rs))"
    using IH(1) r q by (fastforce simp: separated_def)
  ultimately show ?case using IH(3) by auto
qed

text \<open>The first later range in the list is the nearest one, because the list is sorted.\<close>

lemma find_later_first:
  assumes "separated rs" and "find (\<lambda>r. rn_start r > l) rs = Some n" and "r \<in> set rs" and "rn_start r > l"
  shows "rn_start n \<le> rn_start r"
  using assms
proof (induction rs)
  case Nil
  then show ?case by simp
next
  case (Cons x xs)
  show ?case
  proof (cases "rn_start x > l")
    case True
    with Cons.prems show ?thesis by (fastforce simp: separated_def)
  next
    case False
    with Cons show ?thesis by (auto simp: separated_def)
  qed
qed

lemma find_later_gap:
  assumes "separated rs" and "find (\<lambda>r. rn_start r \<le> l \<and> l \<le> rn_end r) rs = None"
    and "\<forall>n. find (\<lambda>r. rn_start r > l) rs = Some n \<longrightarrow> b < rn_start n"
  shows "{l..b} \<inter> covered_lines rs = {}"
proof -
  have False if r: "r \<in> set rs" "k \<in> {l..b}" "rn_start r \<le> k" "k \<le> rn_end r" for r k
  proof (cases "rn_start r > l")
    case True
    then obtain n where n: "find (\<lambda>r. rn_start r > l) rs = Some n"
      using r(1) by (cases "find (\<lambda>r. rn_start r > l) rs") (auto simp: find_None_iff)
    from find_later_first [OF assms(1) n r(1) True] assms(3) n r show False by auto
  next
    case False
    moreover have "l \<le> rn_end r" using r(2,4) by simp
    ultimately show False using assms(2) r(1) by (simp add: find_None_iff)
  qed
  then show ?thesis by (fastforce simp: covered_lines_def)
qed

lemma uncovered_loop_Some:
  "separated rs \<Longrightarrow> 1 \<le> m \<Longrightarrow> uncovered_loop rs m l hi = Some (a, b) \<Longrightarrow>
     l \<le> a \<and> a \<le> b \<and> b \<le> hi \<and> b - a < m \<and> {a..b} \<inter> covered_lines rs = {}"
proof (induction rs m l hi rule: uncovered_loop.induct)
  case (1 rs m l hi)
  have lhi: "l \<le> hi" using "1.prems"(3) by (simp add: uncovered_loop.simps [of rs m l hi] split: if_splits)
  show ?case
  proof (cases "find (\<lambda>r. rn_start r \<le> l \<and> l \<le> rn_end r) rs")
    case (Some r)
    then have "l \<le> rn_end r" by (auto simp: find_Some_iff)
    with "1.IH" [OF lhi Some "1.prems"(1,2)] "1.prems"(3) Some lhi show ?thesis
      by (simp add: uncovered_loop.simps [of rs m l hi])
  next
    case None
    define lim where "lim = (case find (\<lambda>r. rn_start r > l) rs of Some n \<Rightarrow> rn_start n - 1 | None \<Rightarrow> hi)"
    have ab: "a = l" "b = min hi (min lim (l + m - 1))"
      using "1.prems"(3) None lhi by (auto simp: uncovered_loop.simps [of rs m l hi] lim_def Let_def)
    have lim: "l \<le> lim" using lhi by (auto simp: lim_def find_Some_iff split: option.split)
    have "{l..b} \<inter> covered_lines rs = {}"
      by (rule find_later_gap [OF "1.prems"(1) None]) (use ab in \<open>auto simp: lim_def\<close>)
    with ab lim lhi "1.prems"(2) show ?thesis by auto
  qed
qed

lemma uncovered_loop_None:
  "uncovered_loop rs m l hi = None \<Longrightarrow> {l..hi} \<subseteq> covered_lines rs"
proof (induction rs m l hi rule: uncovered_loop.induct)
  case (1 rs m l hi)
  show ?case
  proof (cases "l \<le> hi")
    case False
    then show ?thesis by simp
  next
    case True
    with "1.prems" obtain r where r: "find (\<lambda>r. rn_start r \<le> l \<and> l \<le> rn_end r) rs = Some r"
      by (auto simp: uncovered_loop.simps [of rs m l hi] Let_def split: option.splits)
    have "{rn_end r + 1..hi} \<subseteq> covered_lines rs"
      using "1.IH" [OF True r] "1.prems" True r by (simp add: uncovered_loop.simps [of rs m l hi])
    moreover have "{l..rn_end r} \<subseteq> covered_lines rs"
      using r by (force simp: find_Some_iff covered_lines_def)
    moreover have "{l..hi} \<subseteq> {l..rn_end r} \<union> {rn_end r + 1..hi}" by auto
    ultimately show ?thesis by blast
  qed
qed

lemma findUncoveredRange_Some:
  assumes "separated rs" and "1 \<le> m" and "findUncoveredRange rs p q n m = Some (a, b)"
  shows "1 \<le> a \<and> a \<le> b \<and> b \<le> n \<and> b - a < m \<and> {a..b} \<inter> covered_lines rs = {}"
  using assms(3) uncovered_loop_Some [OF assms(1,2)]
  by (fastforce simp: findUncoveredRange_def Let_def split: if_splits option.splits)

lemma findUncoveredRange_None:
  assumes "findUncoveredRange rs p q n m = None"
  shows "{1..n} \<subseteq> covered_lines rs"
proof (cases "n \<le> 0")
  case True
  then show ?thesis by simp
next
  case False
  define ps where "ps = max 1 (min p n)"
  define pe where "pe = max ps (min q n)"
  have "{ps..pe} \<subseteq> covered_lines rs" "{1..ps - 1} \<subseteq> covered_lines rs" "{pe + 1..n} \<subseteq> covered_lines rs"
    using assms False uncovered_loop_None
    by (auto simp: findUncoveredRange_def Let_def ps_def [symmetric] pe_def [symmetric]
        split: option.splits)
  moreover have "{1..n} \<subseteq> {1..ps - 1} \<union> {ps..pe} \<union> {pe + 1..n}" by auto
  ultimately show ?thesis by blast
qed

interpretation ranges: line_cover covered_lines separated "[]" addCoveredRange cutCovered
  "\<lambda>c p q n. findUncoveredRange c p q n 500"
proof (unfold_locales, goal_cases)
  case 1
  show ?case by simp
next
  case 2
  show ?case by (simp add: separated_def)
next
  case (3 c a b)
  then show ?case by (simp add: addCoveredRange_merged)
next
  case (4 c a b)
  then show ?case by (simp add: addCoveredRange_merged)
next
  case (5 c d)
  then show ?case by (simp add: cutCovered_correct)
next
  case (6 c d)
  then show ?case by (simp add: cutCovered_correct)
next
  case (7 c p q n a b)
  then show ?case using findUncoveredRange_Some [of c 500 p q n a b] by simp
next
  case (8 c p q n)
  then show ?case using findUncoveredRange_None by blast
qed

text \<open>A cover of all lines is one range.\<close>

lemma full_cover_single:
  assumes "separated rs" and "{1..n} \<subseteq> covered_lines rs" and "1 \<le> n" and "covered_lines rs \<subseteq> {1..n}"
  shows "\<exists>r. rs = [r] \<and> rn_start r \<le> 1 \<and> n \<le> rn_end r"
proof -
  obtain r rest where rs: "rs = r # rest" using assms by (cases rs) auto
  have r: "rn_start r \<le> rn_end r" "\<And>q. q \<in> set rest \<Longrightarrow> rn_end r + 1 < rn_start q \<and> rn_start q \<le> rn_end q"
    using assms(1) rs by (auto simp: separated_def)
  have low: "rn_start r \<le> k" if "k \<in> covered_lines rs" for k
    using that r unfolding rs by (fastforce simp: covered_lines_def)
  have "rest = []"
  proof (rule ccontr)
    assume "rest \<noteq> []"
    then obtain q where q: "q \<in> set rest" by (cases rest) auto
    have "rn_start q \<in> covered_lines rs" using q r(2) [OF q] rs by (auto simp: covered_lines_def)
    moreover have "rn_start r \<in> covered_lines rs" using rs r by simp
    ultimately have "rn_end r + 1 \<in> {1..n}" using assms(4) r(2) [OF q] r(1) by auto
    then have "rn_end r + 1 \<in> covered_lines rs" using assms(2) by blast
    then obtain q' where "q' \<in> set rest" "rn_start q' \<le> rn_end r + 1"
      using rs r(1) by (auto simp: covered_lines_def)
    with r(2) [of q'] show False by simp
  qed
  moreover have "1 \<in> covered_lines rs" "n \<in> covered_lines rs" using assms(2,3) by auto
  ultimately show ?thesis using rs by auto
qed

end
