(* ===== verification/Scheduler.thy ===== *)
theory Scheduler
  imports IncrementalTokenizer CoveredRanges
begin

text \<open>
  The class \<open>HighlightingScheduler\<close> of \<open>worker/highlighting-scheduler.ts\<close>. Its
  \<open>Map\<close> of models is an association list in insertion order. \<open>setTimeout(runStep, 0)\<close>
  adds one callback to \<open>hs_timers\<close>, and the event \<open>RunStep\<close> takes one; the batches handed
  to \<open>onBatchCallback\<close> are collected in \<open>hs_batches\<close>, newest first. The clock of a slice is
  an argument of the event.
\<close>

section \<open>State\<close>

record model_task =
  mt_modelInstanceId :: string
  mt_tokenizer :: tokenizer
  mt_documentVersion :: int
  mt_viewportStart :: int
  mt_viewportEnd :: int
  mt_coveredRanges :: "line_range list"
  mt_isCompleted :: bool

record token_batch =
  tb_modelInstanceId :: string
  tb_documentVersion :: int
  tb_startLineNumber :: nat
  tb_endLineNumber :: nat
  tb_lineTokens :: "packed list"
  tb_endState :: "lexer_state option"
  tb_isCompleted :: bool

datatype scheduler_status = Idle | Busy | Stopped

record scheduler =
  hs_models :: "(string, model_task) jsmap"
  hs_isProcessing :: bool
  hs_activeModelId :: "string option"
  hs_status :: scheduler_status
  hs_timers :: nat
  hs_batches :: "token_batch list"

definition new_scheduler :: scheduler where
  "new_scheduler = \<lparr> hs_models = [], hs_isProcessing = False, hs_activeModelId = None,
     hs_status = Idle, hs_timers = 0, hs_batches = [] \<rparr>"

section \<open>Operations\<close>

definition triggerSchedule :: "scheduler \<Rightarrow> scheduler" where
  "triggerSchedule s =
    (if hs_isProcessing s then s
     else s\<lparr>hs_isProcessing := True, hs_status := Busy, hs_timers := Suc (hs_timers s)\<rparr>)"

definition registerModel ::
  "string \<Rightarrow> string \<Rightarrow> string \<Rightarrow> int \<Rightarrow> string \<Rightarrow> (int \<times> int) option \<Rightarrow> scheduler \<Rightarrow> scheduler"
where
  "registerModel modelInstanceId languageId dialect version txt viewport s =
    (let tk = setFullText txt version (new_tokenizer modelInstanceId languageId dialect);
         vpStart = (case viewport of Some (a, b) \<Rightarrow> a | None \<Rightarrow> 1);
         vpEnd = (case viewport of Some (a, b) \<Rightarrow> b | None \<Rightarrow> min 100 (int (getLineCount tk)))
     in triggerSchedule (s\<lparr>
          hs_models := jm_set modelInstanceId
            \<lparr> mt_modelInstanceId = modelInstanceId, mt_tokenizer = tk, mt_documentVersion = version,
              mt_viewportStart = vpStart, mt_viewportEnd = vpEnd, mt_coveredRanges = [],
              mt_isCompleted = False \<rparr> (hs_models s),
          hs_activeModelId := Some modelInstanceId \<rparr>))"

definition updateViewport :: "string \<Rightarrow> int \<Rightarrow> int \<Rightarrow> scheduler \<Rightarrow> scheduler" where
  "updateViewport modelInstanceId startLine endLine s =
    (case jm_get (hs_models s) modelInstanceId of
       None \<Rightarrow> s
     | Some state \<Rightarrow>
         triggerSchedule (s\<lparr>
           hs_models := jm_set modelInstanceId
             (state\<lparr>mt_viewportStart := startLine, mt_viewportEnd := endLine\<rparr>) (hs_models s),
           hs_activeModelId := Some modelInstanceId \<rparr>))"

definition updateContent ::
  "string \<Rightarrow> int \<Rightarrow> int \<Rightarrow> text_edit list \<Rightarrow> string option \<Rightarrow> scheduler \<Rightarrow> scheduler"
where
  "updateContent modelInstanceId beforeVersion afterVersion changes fullText s =
    (case jm_get (hs_models s) modelInstanceId of
       None \<Rightarrow> s
     | Some state \<Rightarrow>
         let (dirtyLine, tk) = applyEdits changes afterVersion fullText (mt_tokenizer state)
         in triggerSchedule (s\<lparr>
              hs_models := jm_set modelInstanceId
                (state\<lparr> mt_documentVersion := afterVersion, mt_isCompleted := False,
                   mt_tokenizer := tk,
                   mt_coveredRanges := cutCovered (int dirtyLine) (mt_coveredRanges state) \<rparr>)
                (hs_models s),
              hs_activeModelId := Some modelInstanceId \<rparr>))"

definition disposeModel :: "string \<Rightarrow> scheduler \<Rightarrow> scheduler" where
  "disposeModel modelInstanceId s =
    (let s1 = s\<lparr>hs_models := jm_delete modelInstanceId (hs_models s)\<rparr>
     in if hs_activeModelId s1 = Some modelInstanceId
        then s1\<lparr>hs_activeModelId :=
               (case jm_keys (hs_models s1) of [] \<Rightarrow> None | k # ks \<Rightarrow> Some k)\<rparr>
        else s1)"

definition hasPendingWork :: "scheduler \<Rightarrow> bool" where
  "hasPendingWork s = (\<exists>m\<in>set (jm_values (hs_models s)). \<not> mt_isCompleted m)"

text \<open>The active model if it is not completed (an empty id is no id), else the first that is not.\<close>

definition pickNextTarget :: "scheduler \<Rightarrow> model_task option" where
  "pickNextTarget s =
    (let others = find (\<lambda>m. \<not> mt_isCompleted m) (jm_values (hs_models s)) in
     case hs_activeModelId s of
       None \<Rightarrow> others
     | Some i \<Rightarrow>
         if i = [] then others
         else (case jm_get (hs_models s) i of
                 Some active \<Rightarrow> if \<not> mt_isCompleted active then Some active else others
               | None \<Rightarrow> others))"

definition put_task :: "model_task \<Rightarrow> scheduler \<Rightarrow> scheduler" where
  "put_task m s = s\<lparr>hs_models := jm_set (mt_modelInstanceId m) m (hs_models s)\<rparr>"

definition processNextSlice :: "(nat \<Rightarrow> bool) \<Rightarrow> scheduler \<Rightarrow> bool \<times> scheduler" where
  "processNextSlice slow s =
    (case pickNextTarget s of
       None \<Rightarrow> (False, s\<lparr>hs_status := Idle\<rparr>)
     | Some target \<Rightarrow>
         let totalLines = int (getLineCount (mt_tokenizer target));
             prefetchStart = max 1 (mt_viewportStart target - 300);
             prefetchEnd = min totalLines (mt_viewportEnd target + 300)
         in case findUncoveredRange (mt_coveredRanges target) prefetchStart prefetchEnd totalLines 500 of
              None \<Rightarrow>
                let s1 = put_task (target\<lparr>mt_isCompleted := True\<rparr>) s
                in (hasPendingWork s1, s1)
            | Some (a, b) \<Rightarrow>
                let (r, tk) = tokenizeSlice a b slow (mt_tokenizer target);
                    covered = addCoveredRange (int (sr_startLine r)) (int (sr_endLine r))
                                (mt_coveredRanges target);
                    isFullyDone = (length covered = 1 \<and> rn_start (hd covered) \<le> 1
                                   \<and> rn_end (hd covered) \<ge> totalLines);
                    target1 = target\<lparr> mt_tokenizer := tk, mt_coveredRanges := covered,
                                mt_isCompleted := (isFullyDone \<or> mt_isCompleted target) \<rparr>;
                    batch = \<lparr> tb_modelInstanceId = mt_modelInstanceId target1,
                              tb_documentVersion = mt_documentVersion target1,
                              tb_startLineNumber = sr_startLine r, tb_endLineNumber = sr_endLine r,
                              tb_lineTokens = sr_lineTokens r, tb_endState = sr_endState r,
                              tb_isCompleted = mt_isCompleted target1 \<rparr>;
                    s1 = (put_task target1 s)\<lparr>hs_batches := batch # hs_batches s\<rparr>
                in (hasPendingWork s1, s1))"

text \<open>The timer callback.\<close>

definition runStep :: "(nat \<Rightarrow> bool) \<Rightarrow> scheduler \<Rightarrow> scheduler" where
  "runStep slow s =
    (let (hasMore, s1) = processNextSlice slow (s\<lparr>hs_timers := hs_timers s - 1\<rparr>)
     in if hasMore then s1\<lparr>hs_timers := Suc (hs_timers s1)\<rparr>
        else s1\<lparr>hs_isProcessing := False, hs_status := Idle\<rparr>)"

datatype sched_event =
    Register string string string int string "(int \<times> int) option"
  | Viewport string int int
  | Content string int int "text_edit list" "string option"
  | Dispose string
  | RunStep "nat \<Rightarrow> bool"

fun sched_step :: "scheduler \<Rightarrow> sched_event \<Rightarrow> scheduler" where
  "sched_step s (Register i lang d v t vp) = registerModel i lang d v t vp s"
| "sched_step s (Viewport i a b) = updateViewport i a b s"
| "sched_step s (Content i v w cs t) = updateContent i v w cs t s"
| "sched_step s (Dispose i) = disposeModel i s"
| "sched_step s (RunStep slow) = (if hs_timers s = 0 then s else runStep slow s)"

definition sched_run :: "scheduler \<Rightarrow> sched_event list \<Rightarrow> scheduler" where
  "sched_run = foldl sched_step"

section \<open>Invariant\<close>

abbreviation task_lines :: "model_task \<Rightarrow> int" where
  "task_lines m \<equiv> int (length (tk_lines (mt_tokenizer m)))"

text \<open>
  A task covers lines of its text only, the cache has the tokens of every covered line,
  and a completed task covers all lines.
\<close>

definition task_ok :: "model_task \<Rightarrow> bool" where
  "task_ok m \<longleftrightarrow>
     tk_coherent (mt_tokenizer m) \<and> tk_lines (mt_tokenizer m) \<noteq> []
   \<and> tk_version (mt_tokenizer m) = mt_documentVersion m
   \<and> separated (mt_coveredRanges m)
   \<and> covered_lines (mt_coveredRanges m) \<subseteq> {1..task_lines m}
   \<and> (\<forall>k. int k \<in> covered_lines (mt_coveredRanges m) \<longrightarrow>
        token_map (tk_cache (mt_tokenizer m)) k \<noteq> None)
   \<and> (mt_isCompleted m \<longrightarrow> covered_lines (mt_coveredRanges m) = {1..task_lines m})"

text \<open>A batch carries the tokens of the text it was made for.\<close>

definition batch_for :: "model_task \<Rightarrow> token_batch \<Rightarrow> bool" where
  "batch_for m b \<longleftrightarrow>
     (let t = mt_tokenizer m in
      tb_modelInstanceId b = mt_modelInstanceId m
    \<and> tb_documentVersion b = tk_version t
    \<and> 1 \<le> tb_startLineNumber b \<and> tb_startLineNumber b \<le> tb_endLineNumber b
    \<and> tb_endLineNumber b \<le> length (lines_of (tk_fullText t))
    \<and> tb_lineTokens b
        = map (line_tokens (tokenizeSingleLine (tk_languageId t) (tk_dialect t)) (tk_init t)
                 (lines_of (tk_fullText t)))
            [tb_startLineNumber b..<Suc (tb_endLineNumber b)]
    \<and> tb_isCompleted b = mt_isCompleted m)"

definition tasks_ok :: "(string, model_task) jsmap \<Rightarrow> bool" where
  "tasks_ok ms \<longleftrightarrow>
     distinct (jm_keys ms)
   \<and> (\<forall>k m. jm_get ms k = Some m \<longrightarrow> mt_modelInstanceId m = k \<and> task_ok m)"

definition sched_ok :: "scheduler \<Rightarrow> bool" where
  "sched_ok s \<longleftrightarrow>
     tasks_ok (hs_models s)
   \<and> hs_timers s = (if hs_isProcessing s then 1 else 0)
   \<and> hs_status s = (if hs_isProcessing s then Busy else Idle)
   \<and> (hasPendingWork s \<longrightarrow> hs_isProcessing s)"

lemma tasks_ok_set:
  "tasks_ok ms \<Longrightarrow> mt_modelInstanceId m = k \<Longrightarrow> task_ok m \<Longrightarrow> tasks_ok (jm_set k m ms)"
  by (auto simp: tasks_ok_def distinct_jm_set)

lemma tasks_ok_delete: "tasks_ok ms \<Longrightarrow> tasks_ok (jm_delete k ms)"
  by (auto simp: tasks_ok_def distinct_jm_delete)

lemma tasks_ok_get: "tasks_ok ms \<Longrightarrow> jm_get ms k = Some m \<Longrightarrow> mt_modelInstanceId m = k \<and> task_ok m"
  by (auto simp: tasks_ok_def)

lemma hasPendingWork_get:
  "tasks_ok (hs_models s) \<Longrightarrow>
     hasPendingWork s \<longleftrightarrow> (\<exists>k m. jm_get (hs_models s) k = Some m \<and> \<not> mt_isCompleted m)"
  unfolding hasPendingWork_def Bex_def tasks_ok_def by (simp only: jm_values_get) blast

lemma sched_ok_new: "sched_ok new_scheduler"
  by (simp add: sched_ok_def new_scheduler_def tasks_ok_def hasPendingWork_def)

lemma sched_ok_trigger:
  assumes "sched_ok s" and "tasks_ok ms"
  shows "sched_ok (triggerSchedule (s\<lparr>hs_models := ms, hs_activeModelId := a\<rparr>))"
  using assms by (auto simp: sched_ok_def triggerSchedule_def hasPendingWork_def)

section \<open>Tasks\<close>

lemma task_ok_register:
  "task_ok \<lparr> mt_modelInstanceId = i, mt_tokenizer = setFullText s v t, mt_documentVersion = v,
     mt_viewportStart = a, mt_viewportEnd = b, mt_coveredRanges = [], mt_isCompleted = False \<rparr>"
  by (simp add: task_ok_def tk_coherent_setFullText ranges.valid_empty)

lemma task_ok_viewport:
  "task_ok m \<Longrightarrow> task_ok (m\<lparr>mt_viewportStart := a, mt_viewportEnd := b\<rparr>)"
  by (simp add: task_ok_def)

text \<open>An edit keeps the tokens and the lines before the first dirty one.\<close>

lemma applyEdits_keeps:
  assumes "tk_coherent t" and "tk_lines t \<noteq> []" and "applyEdits changes v fb t = (d, t')"
  shows "1 \<le> d \<and> tk_lines t' \<noteq> [] \<and> d \<le> Suc (length (tk_lines t'))
    \<and> (\<forall>k. k < d \<and> 1 \<le> k \<and> token_map (tk_cache t) k \<noteq> None \<longrightarrow> token_map (tk_cache t') k \<noteq> None)"
proof (cases "fb = None \<and> changes \<noteq> []")
  case False
  with assms show ?thesis
    by (auto simp: applyEdits_def split: option.splits if_splits)
next
  case True
  have d1: "1 \<le> d" using tk_coherent_applyEdits [OF assms(1,3)] by simp
  have d: "d = nat (min (if tk_lines t = [] then 1 else int (length (tk_lines t)))
      (getLineFromOffset (tk_lineStarts t) (min_offset changes)))"
    and t': "t' = (rebuildFromFullText (apply_changes changes (tk_fullText t)) t)\<lparr>tk_version := v,
      tk_cache := invalidateFrom d (setVersion v (tk_cache t))\<rparr>"
    using True assms(3) by (auto simp: applyEdits_def Let_def)
  have "int d = min (if tk_lines t = [] then 1 else int (length (tk_lines t)))
      (getLineFromOffset (tk_lineStarts t) (min_offset changes))"
    using d d1 by linarith
  note b = dirty_line_bounds [OF assms(1) _ this]
  have "length (take (d - 1) (lines_of (apply_changes changes (tk_fullText t)))) = d - 1"
    using b True by simp
  then have "d - 1 \<le> length (tk_lines t')" by (simp add: t')
  then show ?thesis
    using d1 by (auto simp: t' mtc.toks_invalidate restrict_map_def)
qed

lemma task_ok_content:
  assumes "task_ok m" and e: "applyEdits changes v fb (mt_tokenizer m) = (d, t')"
  shows "task_ok (m\<lparr> mt_documentVersion := v, mt_isCompleted := False, mt_tokenizer := t',
    mt_coveredRanges := cutCovered (int d) (mt_coveredRanges m) \<rparr>)"
proof -
  have m: "tk_coherent (mt_tokenizer m)" "tk_lines (mt_tokenizer m) \<noteq> []" "separated (mt_coveredRanges m)"
    using assms(1) by (auto simp: task_ok_def)
  note cut = cutCovered_correct [OF m(3), of "int d"]
  note k = applyEdits_keeps [OF m(1,2) e]
  have "covered_lines (mt_coveredRanges m) \<subseteq> {1..task_lines m}"
    using assms(1) by (simp add: task_ok_def)
  then have "covered_lines (cutCovered (int d) (mt_coveredRanges m)) \<subseteq> {1..int (length (tk_lines t'))}"
    using cut k by auto
  moreover have "token_map (tk_cache t') k \<noteq> None"
    if "int k \<in> covered_lines (cutCovered (int d) (mt_coveredRanges m))" for k
  proof -
    from that cut have "int k \<in> covered_lines (mt_coveredRanges m)" "k < d" by auto
    moreover from this assms(1) have "1 \<le> k" "token_map (tk_cache (mt_tokenizer m)) k \<noteq> None"
      by (auto simp: task_ok_def)
    ultimately show ?thesis using k by auto
  qed
  ultimately show ?thesis
    using cut k applyEdits_fields [OF e] tk_coherent_applyEdits [OF m(1) e]
    by (simp add: task_ok_def)
qed

text \<open>The work a task has left: its uncovered lines and its completion.\<close>

definition task_work :: "model_task \<Rightarrow> nat" where
  "task_work m = (if mt_isCompleted m then 0
     else Suc (ranges.left (task_lines m) (mt_coveredRanges m)))"

lemma task_ok_completed:
  assumes "task_ok m" and "findUncoveredRange (mt_coveredRanges m) p q (task_lines m) 500 = None"
  shows "task_ok (m\<lparr>mt_isCompleted := True\<rparr>)"
  using assms ranges.pick_None [of "mt_coveredRanges m" p q "task_lines m"]
  by (auto simp: task_ok_def)

lemma task_ok_slice:
  assumes ok: "task_ok m" and nc: "\<not> mt_isCompleted m"
    and pick: "findUncoveredRange (mt_coveredRanges m) p q (task_lines m) 500 = Some (a, b)"
    and run: "tokenizeSlice a b slow (mt_tokenizer m) = (r, t')"
    and cov: "covered = addCoveredRange (int (sr_startLine r)) (int (sr_endLine r)) (mt_coveredRanges m)"
    and fin: "done \<longleftrightarrow> length covered = 1 \<and> rn_start (hd covered) \<le> 1
                 \<and> rn_end (hd covered) \<ge> task_lines m"
    and m': "m' = m\<lparr>mt_tokenizer := t', mt_coveredRanges := covered, mt_isCompleted := done\<rparr>"
  shows "task_ok m' \<and> task_work m' < task_work m
    \<and> batch_for m' \<lparr> tb_modelInstanceId = mt_modelInstanceId m, tb_documentVersion = mt_documentVersion m,
        tb_startLineNumber = sr_startLine r, tb_endLineNumber = sr_endLine r,
        tb_lineTokens = sr_lineTokens r, tb_endState = sr_endState r, tb_isCompleted = done \<rparr>"
proof -
  let ?t = "mt_tokenizer m"
  have t: "tk_coherent ?t" "tk_lines ?t \<noteq> []" "separated (mt_coveredRanges m)"
    "covered_lines (mt_coveredRanges m) \<subseteq> {1..task_lines m}"
    using ok by (auto simp: task_ok_def)
  have ab: "1 \<le> a" "a \<le> b" "b \<le> task_lines m"
    using ranges.pick_Some [OF t(3) pick] by auto
  have st: "nat (max 1 (min a (task_lines m))) = nat a" using ab by simp
  note S = tokenizeSlice_correct [OF t(1,2) run, unfolded st]
  have "int (nat a) \<le> b + 1" using ab by simp
  note S = S [OF this]
  define e where "e = sr_endLine r"
  have r: "sr_startLine r = nat a" "nat a \<le> e" "int e \<le> b" using S ab by (auto simp: e_def)
  have same: "tk_lines t' = tk_lines ?t" "tk_fullText t' = tk_fullText ?t" "tk_version t' = tk_version ?t"
    "tk_languageId t' = tk_languageId ?t" "tk_dialect t' = tk_dialect ?t"
    using S by (metis tokenizer.select_convs(2-7) tokenizer.update_convs(8) tokenizer.surjective)+
  have c: "separated covered" "covered_lines covered = covered_lines (mt_coveredRanges m) \<union> {a..int e}"
    using addCoveredRange_merged [OF t(3)] cov r ab by (auto simp: e_def)
  have sub: "covered_lines covered \<subseteq> {1..task_lines m}" using c(2) t(4) ab r by auto
  have all: "covered_lines covered = {1..task_lines m}" if "done"
  proof -
    from that fin obtain x where "covered = [x]" "rn_start x \<le> 1" "rn_end x \<ge> task_lines m"
      by (cases covered) auto
    with sub show ?thesis by auto
  qed
  have tok: "token_map (tk_cache t') k \<noteq> None" if "int k \<in> covered_lines covered" for k
  proof -
    have "token_map (tk_cache ?t) k \<noteq> None \<or> nat a \<le> k \<and> k \<le> e"
      using that c(2) ok by (auto simp: task_ok_def)
    with S show ?thesis by (auto simp: e_def)
  qed
  have ok': "task_ok m'"
    using S ok same c sub all tok by (auto simp: task_ok_def m')
  have "ranges.left (task_lines m) covered < ranges.left (task_lines m) (mt_coveredRanges m)"
    using ranges.left_add [OF t(3) pick, of "int e"] r cov ab by (simp add: e_def)
  then have "task_work m' < task_work m" using nc same by (simp add: task_work_def m')
  moreover have "tk_lines ?t = lines_of (tk_fullText ?t)" using t(1,2) by (auto simp: tk_coherent_def)
  ultimately show ?thesis
    using ok' S r same ok ab
    by (simp add: batch_for_def m' e_def [symmetric] tk_lex_def tk_init_def task_ok_def Let_def)
qed

section \<open>Events\<close>

lemma pickNextTarget_Some:
  assumes "tasks_ok (hs_models s)" and "pickNextTarget s = Some m"
  shows "jm_get (hs_models s) (mt_modelInstanceId m) = Some m \<and> task_ok m \<and> \<not> mt_isCompleted m"
proof -
  have "m \<in> set (jm_values (hs_models s)) \<or> (\<exists>k. jm_get (hs_models s) k = Some m)" and nc: "\<not> mt_isCompleted m"
    using assms(2)
    by (auto simp: pickNextTarget_def Let_def find_Some_iff split: option.splits if_splits)
  then obtain k where "jm_get (hs_models s) k = Some m"
    using jm_values_get [of "hs_models s" m] assms(1) unfolding tasks_ok_def by blast
  with tasks_ok_get [OF assms(1) this] nc show ?thesis by auto
qed

lemma pickNextTarget_None:
  assumes "pickNextTarget s = None"
  shows "\<not> hasPendingWork s"
  using assms
  by (auto simp: pickNextTarget_def hasPendingWork_def Let_def find_None_iff split: option.splits if_splits)

definition sched_work :: "scheduler \<Rightarrow> nat" where
  "sched_work s = sum_list (map task_work (jm_values (hs_models s)))"

lemma sum_list_jm_set:
  fixes f :: "'v \<Rightarrow> nat"
  shows "distinct (jm_keys ms) \<Longrightarrow> jm_get ms k = Some m \<Longrightarrow>
    sum_list (map f (jm_values (jm_set k m' ms))) + f m = sum_list (map f (jm_values ms)) + f m'"
  by (induction ms) (auto split: if_splits)

lemma sched_work_put:
  assumes "tasks_ok (hs_models s)" and "jm_get (hs_models s) (mt_modelInstanceId m) = Some m"
    and "mt_modelInstanceId m' = mt_modelInstanceId m" and "task_work m' < task_work m"
  shows "sched_work (put_task m' s) < sched_work s"
proof -
  have "distinct (jm_keys (hs_models s))" using assms(1) by (simp add: tasks_ok_def)
  from sum_list_jm_set [OF this assms(2), of task_work m'] assms(4) show ?thesis
    unfolding sched_work_def put_task_def assms(3) by simp
qed

lemma sched_work_0:
  assumes "sched_work s = 0"
  shows "\<not> hasPendingWork s"
  using assms by (auto simp: sched_work_def hasPendingWork_def task_work_def split: if_splits)

text \<open>
  One slice: nothing to do, or less work than before; the models stay well-formed and
  only the target changes. A batch, if one is emitted, is for the target it leaves.
\<close>

lemma processNextSlice_correct:
  assumes ok: "tasks_ok (hs_models s)" and run: "processNextSlice slow s = (hasMore, s')"
  shows "tasks_ok (hs_models s') \<and> hasMore = hasPendingWork s'
    \<and> hs_timers s' = hs_timers s \<and> hs_isProcessing s' = hs_isProcessing s
    \<and> hs_activeModelId s' = hs_activeModelId s
    \<and> (hasPendingWork s \<longrightarrow> sched_work s' < sched_work s) \<and> (\<not> hasPendingWork s \<longrightarrow> \<not> hasMore)
    \<and> (hs_batches s' = hs_batches s
       \<or> (\<exists>m b. jm_get (hs_models s') (mt_modelInstanceId m) = Some m
            \<and> batch_for m b \<and> hs_batches s' = b # hs_batches s))"
proof (cases "pickNextTarget s")
  case None
  then have "s' = s\<lparr>hs_status := Idle\<rparr>" "\<not> hasMore" using run by (auto simp: processNextSlice_def)
  with pickNextTarget_None [OF None] ok show ?thesis by (simp add: hasPendingWork_def)
next
  case (Some m)
  note m = pickNextTarget_Some [OF ok Some]
  then have pending: "hasPendingWork s" using hasPendingWork_get [OF ok] by blast
  let ?p = "max 1 (mt_viewportStart m - 300)" and ?q = "min (task_lines m) (mt_viewportEnd m + 300)"
  show ?thesis
  proof (cases "findUncoveredRange (mt_coveredRanges m) ?p ?q (task_lines m) 500")
    case None
    let ?m = "m\<lparr>mt_isCompleted := True\<rparr>"
    have s': "s' = put_task ?m s" "hasMore = hasPendingWork s'"
      using run Some None by (auto simp: processNextSlice_def getLineCount_def Let_def)
    have "task_ok ?m" using task_ok_completed [OF _ None] m by simp
    then have "tasks_ok (hs_models s')" using ok by (simp add: s' put_task_def tasks_ok_set)
    moreover have "sched_work s' < sched_work s"
      unfolding s' by (rule sched_work_put [OF ok]) (use m in \<open>auto simp: task_work_def\<close>)
    ultimately show ?thesis using s' pending by (simp add: put_task_def)
  next
    case pick: (Some ab)
    obtain a b where ab: "ab = (a, b)" by (cases ab)
    note pick = pick [unfolded ab]
    obtain r t' where rt: "tokenizeSlice a b slow (mt_tokenizer m) = (r, t')" by (metis surj_pair)
    define covered where "covered =
      addCoveredRange (int (sr_startLine r)) (int (sr_endLine r)) (mt_coveredRanges m)"
    define fin where "fin \<longleftrightarrow> length covered = 1 \<and> rn_start (hd covered) \<le> 1
      \<and> rn_end (hd covered) \<ge> task_lines m"
    define m' where "m' = m\<lparr>mt_tokenizer := t', mt_coveredRanges := covered, mt_isCompleted := fin\<rparr>"
    define bt where "bt = \<lparr> tb_modelInstanceId = mt_modelInstanceId m, tb_documentVersion = mt_documentVersion m,
      tb_startLineNumber = sr_startLine r, tb_endLineNumber = sr_endLine r,
      tb_lineTokens = sr_lineTokens r, tb_endState = sr_endState r, tb_isCompleted = fin \<rparr>"
    have s': "s' = (put_task m' s)\<lparr>hs_batches := bt # hs_batches s\<rparr>" "hasMore = hasPendingWork s'"
      using run Some pick rt m
      by (auto simp: processNextSlice_def getLineCount_def Let_def m'_def bt_def fin_def covered_def)
    note T = task_ok_slice [OF _ _ pick rt covered_def fin_def m'_def]
    have id: "mt_modelInstanceId m' = mt_modelInstanceId m" by (simp add: m'_def)
    have T: "task_ok m'" "task_work m' < task_work m" "batch_for m' bt"
      using T m by (auto simp: bt_def)
    have "sched_work s' < sched_work s"
      using sched_work_put [OF ok _ id T(2)] m by (simp add: s' sched_work_def)
    then show ?thesis
      using s' T id tasks_ok_set [OF ok id T(1)] m pending
      by (auto simp: put_task_def id)
  qed
qed

lemma runStep_ok:
  assumes "sched_ok s" and "hs_timers s \<noteq> 0"
  shows "sched_ok (runStep slow s)"
    and "\<not> hasPendingWork s \<Longrightarrow> \<not> hasPendingWork (runStep slow s)"
    and "hasPendingWork s \<Longrightarrow> sched_work (runStep slow s) < sched_work s"
    and "hs_isProcessing (runStep slow s) = hasPendingWork (runStep slow s)"
proof -
  let ?s = "s\<lparr>hs_timers := hs_timers s - 1\<rparr>"
  obtain hasMore s1 where run: "processNextSlice slow ?s = (hasMore, s1)" by (metis surj_pair)
  have "tasks_ok (hs_models ?s)" using assms(1) by (simp add: sched_ok_def)
  note P = processNextSlice_correct [OF this run]
  have p: "hs_isProcessing s" "hs_timers s = 1" using assms by (auto simp: sched_ok_def split: if_splits)
  have w: "sched_work ?s = sched_work s" "hasPendingWork ?s = hasPendingWork s"
    by (simp_all add: sched_work_def hasPendingWork_def)
  have e: "runStep slow s = (if hasMore then s1\<lparr>hs_timers := Suc (hs_timers s1)\<rparr>
      else s1\<lparr>hs_isProcessing := False, hs_status := Idle\<rparr>)"
    unfolding runStep_def run by (simp add: Let_def)
  have h: "hasPendingWork (runStep slow s) = hasPendingWork s1" "sched_work (runStep slow s) = sched_work s1"
    by (simp_all add: e hasPendingWork_def sched_work_def)
  have b: "hs_status s1 = Busy" if "hasMore"
    using run that p assms(1)
    by (auto simp: processNextSlice_def Let_def put_task_def sched_ok_def split: option.splits prod.splits)
  show "sched_ok (runStep slow s)"
    using P p b h(1) by (auto simp: sched_ok_def e)
  show "\<not> hasPendingWork s \<Longrightarrow> \<not> hasPendingWork (runStep slow s)"
    using P w h by blast
  show "hasPendingWork s \<Longrightarrow> sched_work (runStep slow s) < sched_work s"
    using P w h by simp
  show "hs_isProcessing (runStep slow s) = hasPendingWork (runStep slow s)"
    using P p h(1) by (simp add: e)
qed

lemma sched_ok_step: "sched_ok s \<Longrightarrow> sched_ok (sched_step s e)"
proof (cases e)
  case (Register i lang d v tx vp)
  assume ok: "sched_ok s"
  show ?thesis
    unfolding Register sched_step.simps registerModel_def Let_def
    by (rule sched_ok_trigger [OF ok tasks_ok_set])
      (use ok in \<open>auto simp: sched_ok_def task_ok_register\<close>)
next
  case (Viewport i a b)
  assume ok: "sched_ok s"
  show ?thesis
  proof (cases "jm_get (hs_models s) i")
    case None
    with ok Viewport show ?thesis by (simp add: updateViewport_def)
  next
    case (Some m)
    have T: "tasks_ok (hs_models s)" using ok by (simp add: sched_ok_def)
    show ?thesis
      using sched_ok_trigger [OF ok tasks_ok_set [OF T]] tasks_ok_get [OF T Some] Viewport Some
      by (simp add: updateViewport_def task_ok_viewport)
  qed
next
  case (Content i v w cs tx)
  assume ok: "sched_ok s"
  show ?thesis
  proof (cases "jm_get (hs_models s) i")
    case None
    with ok Content show ?thesis by (simp add: updateContent_def)
  next
    case (Some m)
    have T: "tasks_ok (hs_models s)" using ok by (simp add: sched_ok_def)
    obtain d t' where e: "applyEdits cs w tx (mt_tokenizer m) = (d, t')" by (metis surj_pair)
    show ?thesis
      using sched_ok_trigger [OF ok tasks_ok_set [OF T]] tasks_ok_get [OF T Some] Content Some
        task_ok_content [OF _ e]
      by (simp add: updateContent_def e)
  qed
next
  case (Dispose i)
  assume ok: "sched_ok s"
  then have T: "tasks_ok (hs_models s)" by (simp add: sched_ok_def)
  have "tasks_ok (jm_delete i (hs_models s))" by (rule tasks_ok_delete [OF T])
  moreover have "hasPendingWork (s\<lparr>hs_models := jm_delete i (hs_models s)\<rparr>) \<Longrightarrow> hasPendingWork s"
    using hasPendingWork_get [OF T] calculation
      hasPendingWork_get [of "s\<lparr>hs_models := jm_delete i (hs_models s)\<rparr>"]
    by (auto split: if_splits)
  ultimately show ?thesis
    using ok Dispose by (auto simp: disposeModel_def Let_def sched_ok_def hasPendingWork_def)
next
  case (RunStep slow)
  assume "sched_ok s"
  with RunStep show ?thesis by (simp add: runStep_ok)
qed

lemma sched_ok_run: "sched_ok s \<Longrightarrow> sched_ok (sched_run s es)"
  unfolding sched_run_def by (induction es arbitrary: s) (simp_all add: sched_ok_step)

text \<open>As many timer callbacks as there is work complete every model and stop the timer.\<close>

lemma sched_drain:
  assumes "sched_ok s" and "sched_work s < length clocks"
  shows "\<not> hasPendingWork (sched_run s (map RunStep clocks))
    \<and> \<not> hs_isProcessing (sched_run s (map RunStep clocks))"
  using assms
proof (induction clocks arbitrary: s)
  case Nil
  then show ?case by simp
next
  case (Cons slow clocks)
  have stay: "sched_run s (map RunStep cs) = s" if "hs_timers s = 0" for s :: scheduler and cs
    using that unfolding sched_run_def by (induction cs) simp_all
  have run: "sched_run s (map RunStep (slow # clocks))
      = sched_run (sched_step s (RunStep slow)) (map RunStep clocks)"
    by (simp add: sched_run_def)
  show ?case
  proof (cases "hs_timers s = 0")
    case True
    with Cons.prems(1) stay [OF this, of "slow # clocks"] show ?thesis
      by (auto simp: sched_ok_def split: if_splits)
  next
    case False
    note R = runStep_ok [OF Cons.prems(1) False, of slow]
    show ?thesis
    proof (cases "hs_isProcessing (runStep slow s)")
      case True
      have "sched_work (runStep slow s) < length clocks"
        using R(2-4) True Cons.prems(2) by fastforce
      with Cons.IH [OF R(1)] run False show ?thesis by simp
    next
      case stop: False
      then have "hs_timers (runStep slow s) = 0" using R(1) by (simp add: sched_ok_def)
      with stay [OF this, of clocks] run False R(4) stop show ?thesis by simp
    qed
  qed
qed

text \<open>A completed task has the tokens of every line, and a batch is that of the model it names.\<close>

lemma completed_task_tokens:
  assumes "task_ok m" and "mt_isCompleted m" and "1 \<le> n"
    and "n \<le> length (lines_of (tk_fullText (mt_tokenizer m)))"
  shows "getLineTokens n (tk_cache (mt_tokenizer m)) =
    Some (line_tokens (tk_lex (mt_tokenizer m)) (tk_init (mt_tokenizer m))
      (lines_of (tk_fullText (mt_tokenizer m))) n)"
proof -
  let ?t = "mt_tokenizer m"
  have lines: "tk_lines ?t = lines_of (tk_fullText ?t)"
    using assms(1) by (auto simp: task_ok_def tk_coherent_def)
  have "int n \<in> covered_lines (mt_coveredRanges m)"
    using assms lines by (simp add: task_ok_def)
  then have "token_map (tk_cache ?t) n \<noteq> None" using assms(1) by (simp add: task_ok_def)
  then obtain p where "token_map (tk_cache ?t) n = Some p" by blast
  with assms(1) lines show ?thesis
    by (auto simp: task_ok_def tk_coherent_def agrees_def token_map_def)
qed

lemma runStep_batch:
  assumes ok: "sched_ok s" and "hs_timers s \<noteq> 0" and "hs_batches (runStep slow s) \<noteq> hs_batches s"
  shows "\<exists>m b. hs_batches (runStep slow s) = b # hs_batches s
    \<and> jm_get (hs_models (runStep slow s)) (tb_modelInstanceId b) = Some m
    \<and> tb_documentVersion b = mt_documentVersion m
    \<and> 1 \<le> tb_startLineNumber b \<and> tb_startLineNumber b \<le> tb_endLineNumber b
    \<and> tb_endLineNumber b \<le> length (lines_of (tk_fullText (mt_tokenizer m)))
    \<and> tb_lineTokens b = map (line_tokens (tk_lex (mt_tokenizer m)) (tk_init (mt_tokenizer m))
        (lines_of (tk_fullText (mt_tokenizer m)))) [tb_startLineNumber b..<Suc (tb_endLineNumber b)]"
proof -
  let ?s = "s\<lparr>hs_timers := hs_timers s - 1\<rparr>"
  obtain hasMore s1 where run: "processNextSlice slow ?s = (hasMore, s1)" by (metis surj_pair)
  have ok1: "tasks_ok (hs_models ?s)" using ok by (simp add: sched_ok_def)
  note P = processNextSlice_correct [OF ok1 run]
  have e: "hs_models (runStep slow s) = hs_models s1" "hs_batches (runStep slow s) = hs_batches s1"
    unfolding runStep_def run by (simp_all add: Let_def)
  with P assms(3) obtain m b where b: "hs_batches s1 = b # hs_batches s" "batch_for m b"
      "jm_get (hs_models s1) (mt_modelInstanceId m) = Some m" by auto
  moreover have "task_ok m" using P tasks_ok_get [OF _ b(3)] by blast
  ultimately show ?thesis
    using e by (auto simp: batch_for_def Let_def tk_lex_def task_ok_def intro!: exI [of _ m])
qed

end
