(* ===== verification/MonacoAdapter.thy ===== *)
theory MonacoAdapter
  imports Scheduler
begin

unbundle bit_operations_syntax

text \<open>
  \<open>browser/monaco-tokenization-adapter.ts\<close>: the theme metadata of a token kind, the two
  token layouts Monaco takes, and the adapter with its sessions. Monaco's token store is the
  list of calls the adapter makes on it. The classic \<open>tokenize\<close> is modelled with its scopes.
\<close>

section \<open>Metadata\<close>

text \<open>The bitwise operators of the source work on 32 bits; \<open>>>> 0\<close> makes the result unsigned.\<close>

definition packMonacoMetadata :: "32 word \<Rightarrow> 32 word \<Rightarrow> 32 word \<Rightarrow> 32 word \<Rightarrow> 32 word \<Rightarrow> 32 word" where
  "packMonacoMetadata languageId tokenType fontStyle foreground background =
     push_bit 0 (languageId AND 0xff) OR push_bit 8 (tokenType AND 0x03)
     OR push_bit 11 (fontStyle AND 0x0f) OR push_bit 15 (foreground AND 0x1ff)
     OR push_bit 24 (background AND 0xff)"

text \<open>The token type, font style and foreground the \<open>switch\<close> gives a kind.\<close>

definition kind_style :: "32 word \<Rightarrow> 32 word \<times> 32 word \<times> 32 word" where
  "kind_style kindId =
    (if kindId = 1 then (1, 1, 3)
     else if kindId = 2 then (0, 0, 4)
     else if kindId = 3 then (0, 0, 5)
     else if kindId = 4 then (0, 0, 6)
     else if kindId = 5 then (0, 0, 7)
     else if kindId = 6 then (0, 0, 8)
     else if kindId = 7 then (2, 0, 9)
     else if kindId = 8 then (2, 0, 10)
     else if kindId = 9 then (0, 2, 11)
     else if kindId = 10 then (0, 0, 12)
     else if kindId = 11 then (0, 0, 13)
     else (0, 0, 1))"

definition kindIdToMetadata :: "32 word \<Rightarrow> 32 word \<Rightarrow> 32 word" where
  "kindIdToMetadata kindId languageId =
    (let (tokenType, fontStyle, foreground) = kind_style kindId
     in packMonacoMetadata languageId tokenType fontStyle foreground 0)"

text \<open>
  The two conversions walk the array two by two. \<open>prev\<close> is the end offset before the
  current token; a missing last kind is not written.
\<close>

fun provider_loop :: "32 word \<Rightarrow> packed \<Rightarrow> 32 word \<Rightarrow> packed" where
  "provider_loop prev [] languageId = []"
| "provider_loop prev [e] languageId = [prev]"
| "provider_loop prev (e # k # rest) languageId =
     prev # kindIdToMetadata k languageId # provider_loop e rest languageId"

definition convertLexicalToProviderTokens :: "packed \<Rightarrow> 32 word \<Rightarrow> packed" where
  "convertLexicalToProviderTokens lexicalTokens languageId = provider_loop 0 lexicalTokens languageId"

fun convertLexicalToStoredTokens :: "packed \<Rightarrow> 32 word \<Rightarrow> packed" where
  "convertLexicalToStoredTokens [] languageId = []"
| "convertLexicalToStoredTokens [e] languageId = [e]"
| "convertLexicalToStoredTokens (e # k # rest) languageId =
     e # kindIdToMetadata k languageId # convertLexicalToStoredTokens rest languageId"

definition typeNumToScope :: "32 word \<Rightarrow> string" where
  "typeNumToScope typeNum =
    (if typeNum = 1 then ''comment.block.jsp''
     else if typeNum = 2 then ''delimiter.jsp''
     else if typeNum = 3 then ''tag.jsp-directive''
     else if typeNum = 4 then ''metatag.el''
     else if typeNum = 5 then ''identifier.el''
     else if typeNum = 6 then ''tag.html''
     else if typeNum = 7 then ''string.java''
     else if typeNum = 8 then ''string.invalid.java''
     else if typeNum = 9 then ''keyword.java''
     else if typeNum = 10 then ''identifier.java''
     else if typeNum = 11 then ''operator.java''
     else [])"

text \<open>The loop of \<open>tokenize\<close>: start index and scope of each token.\<close>

fun scope_loop :: "32 word \<Rightarrow> packed \<Rightarrow> (32 word \<times> string) list" where
  "scope_loop prev [] = []"
| "scope_loop prev [e] = [(prev, [])]"
| "scope_loop prev (e # k # rest) = (prev, typeNumToScope k) # scope_loop e rest"

section \<open>The adapter\<close>

datatype store_call =
    SetTokens nat "packed list"
  | SetEndState nat lexer_state
  | TokenizationFinished

record adapter_session =
  as_store :: "store_call list"
  as_isDisposed :: bool

record adapter =
  ad_languageId :: string
  ad_dialect :: string
  ad_sessions :: "(string, adapter_session) jsmap"

definition new_adapter :: "string \<Rightarrow> string \<Rightarrow> adapter" where
  "new_adapter languageId dialect =
    \<lparr> ad_languageId = languageId, ad_dialect = dialect, ad_sessions = [] \<rparr>"

definition getInitialState :: "adapter \<Rightarrow> lexer_state" where
  "getInitialState a = new_lexer_state ''root'' None [] (Some (ad_dialect a))"

text \<open>\<open>state\<close> is \<open>None\<close> when Monaco hands over something that is no \<open>LexerState\<close>.\<close>

definition lex_line :: "adapter \<Rightarrow> string \<Rightarrow> lexer_state option \<Rightarrow> packed \<times> lexer_state" where
  "lex_line a line state =
     tokenizeSingleLine (ad_languageId a) (ad_dialect a) line
       (case state of Some st \<Rightarrow> st | None \<Rightarrow> getInitialState a)"

definition tokenize_classic ::
  "adapter \<Rightarrow> string \<Rightarrow> lexer_state option \<Rightarrow> (32 word \<times> string) list \<times> lexer_state"
where
  "tokenize_classic a line state =
    (let (tokens, nextState) = lex_line a line state in (scope_loop 0 tokens, nextState))"

definition tokenizeEncoded ::
  "adapter \<Rightarrow> string \<Rightarrow> lexer_state option \<Rightarrow> packed \<times> lexer_state"
where
  "tokenizeEncoded a line state =
    (let (tokens, nextState) = lex_line a line state
     in (convertLexicalToProviderTokens tokens 1, nextState))"

text \<open>A new session of a model replaces the one its uri had.\<close>

definition createBackgroundTokenizer :: "string \<Rightarrow> adapter \<Rightarrow> adapter" where
  "createBackgroundTokenizer uri a =
    a\<lparr>ad_sessions := jm_set uri \<lparr>as_store = [], as_isDisposed = False\<rparr> (ad_sessions a)\<rparr>"

definition disposeSession :: "string \<Rightarrow> adapter \<Rightarrow> adapter" where
  "disposeSession uri a = a\<lparr>ad_sessions := jm_delete uri (ad_sessions a)\<rparr>"

text \<open>The calls an accepted batch makes; \<open>multiline\<close> says that Monaco's class was found.\<close>

definition batch_calls :: "bool \<Rightarrow> token_batch \<Rightarrow> store_call list" where
  "batch_calls multiline b =
     (if multiline \<and> tb_lineTokens b \<noteq> []
      then [SetTokens (tb_startLineNumber b)
              (map (\<lambda>l. convertLexicalToStoredTokens l 1) (tb_lineTokens b))]
      else [])
     @ (case tb_endState b of Some st \<Rightarrow> [SetEndState (tb_endLineNumber b) st] | None \<Rightarrow> [])
     @ (if tb_isCompleted b then [TokenizationFinished] else [])"

text \<open>\<open>currentVersion\<close> is what \<open>session.model.getVersionId()\<close> returns, \<open>None\<close> without a model.\<close>

definition applyTokenBatch ::
  "bool \<Rightarrow> int option \<Rightarrow> string \<Rightarrow> token_batch \<Rightarrow> adapter \<Rightarrow> adapter"
where
  "applyTokenBatch multiline currentVersion uri b a =
    (case jm_get (ad_sessions a) uri of
       None \<Rightarrow> a
     | Some session \<Rightarrow>
         if as_isDisposed session then a
         else if currentVersion \<noteq> None \<and> currentVersion \<noteq> Some (tb_documentVersion b) then a
         else a\<lparr>ad_sessions := jm_set uri
                (session\<lparr>as_store := as_store session @ batch_calls multiline b\<rparr>) (ad_sessions a)\<rparr>)"

section \<open>Facts\<close>

text \<open>Each field of the metadata can be read back, whatever the others are.\<close>

lemma metadata_fields:
  "packMonacoMetadata l t f g b AND 0xff = l AND 0xff"
  "drop_bit 8 (packMonacoMetadata l t f g b) AND 0x03 = t AND 0x03"
  "drop_bit 11 (packMonacoMetadata l t f g b) AND 0x0f = f AND 0x0f"
  "drop_bit 15 (packMonacoMetadata l t f g b) AND 0x1ff = g AND 0x1ff"
  "drop_bit 24 (packMonacoMetadata l t f g b) = b AND 0xff"
proof -
  have m: "(0xff :: 32 word) = mask 8" "(0x03 :: 32 word) = mask 2" "(0x0f :: 32 word) = mask 4"
    "(0x1ff :: 32 word) = mask 9" by (simp_all add: mask_eq_exp_minus_1)
  show "packMonacoMetadata l t f g b AND 0xff = l AND 0xff"
    "drop_bit 8 (packMonacoMetadata l t f g b) AND 0x03 = t AND 0x03"
    "drop_bit 11 (packMonacoMetadata l t f g b) AND 0x0f = f AND 0x0f"
    "drop_bit 15 (packMonacoMetadata l t f g b) AND 0x1ff = g AND 0x1ff"
    "drop_bit 24 (packMonacoMetadata l t f g b) = b AND 0xff"
    unfolding packMonacoMetadata_def m
    by (rule bit_word_eqI; auto simp: bit_simps)+
qed

lemma metadata_language: "kindIdToMetadata k l AND 0xff = l AND 0xff"
  by (simp add: kindIdToMetadata_def case_prod_beta metadata_fields)

lemma kinds_cases:
  assumes "k \<le> (11 :: 32 word)"
  shows "k \<in> {0, 1, 2, 3, 4, 5, 6, 7, 8, 9, 10, 11}"
proof -
  have "unat k \<le> 11" using assms by (simp add: word_le_nat_alt)
  then have "unat k = 0 \<or> unat k = 1 \<or> unat k = 2 \<or> unat k = 3 \<or> unat k = 4 \<or> unat k = 5
      \<or> unat k = 6 \<or> unat k = 7 \<or> unat k = 8 \<or> unat k = 9 \<or> unat k = 10 \<or> unat k = 11"
    by presburger
  moreover have "k = word_of_nat (unat k)" by simp
  ultimately show ?thesis by (elim disjE; simp)
qed

lemma metadata_kind:
  assumes "k \<le> 11" and "k' \<le> 11" and "kindIdToMetadata k l = kindIdToMetadata k' l'"
  shows "k = k'"
proof -
  have f: "drop_bit 15 (kindIdToMetadata k l) AND 0x1ff = snd (snd (kind_style k)) AND 0x1ff" for k l
    by (simp add: kindIdToMetadata_def case_prod_beta metadata_fields)
  have "snd (snd (kind_style k)) AND 0x1ff = snd (snd (kind_style k')) AND 0x1ff"
    using assms(3) f by metis
  with kinds_cases [OF assms(1)] kinds_cases [OF assms(2)] show ?thesis
    by (elim insertE emptyE; simp add: kind_style_def)
qed

text \<open>The two layouts of one line: a token starts where the one before it ended.\<close>

lemma provider_loop_pack:
  "provider_loop prev (pack_tokens ts) l
     = concat (map2 (\<lambda>s (e, k). [s, kindIdToMetadata (word_of_nat k) l])
         (prev # map (\<lambda>(e, k). word_of_nat e) ts) ts)"
  by (induction ts arbitrary: prev) (auto simp: pack_tokens_def)

lemma stored_pack:
  "convertLexicalToStoredTokens (pack_tokens ts) l
     = concat (map (\<lambda>(e, k). [word_of_nat e, kindIdToMetadata (word_of_nat k) l]) ts)"
  by (induction ts) (auto simp: pack_tokens_def)

lemma scope_loop_pack:
  "scope_loop prev (pack_tokens ts)
     = map2 (\<lambda>s (e, k). (s, typeNumToScope (word_of_nat k)))
         (prev # map (\<lambda>(e, k). word_of_nat e) ts) ts"
  by (induction ts arbitrary: prev) (auto simp: pack_tokens_def)

end
