(* ===== verification/LanguageCoverage.thy ===== *)
theory LanguageCoverage
  imports Prelude
begin

text \<open>
  \<open>common/language-coverage.ts\<close> (the language and dialect of a file name) and
  \<open>browser/tokenizer-owner-registry.ts\<close> (one owner of the tokenizer per language).
\<close>

section \<open>Languages\<close>

record dialect_info =
  di_languageId :: string
  di_dialect :: string
  di_isXmlSyntax :: bool
  di_supportsJspDirectives :: bool
  di_supportsScriptlets :: bool
  di_supportsEl :: bool

definition SUPPORTED_EXTENSIONS_MAP :: "(string \<times> string \<times> string) list" where
  "SUPPORTED_EXTENSIONS_MAP =
    [(''.jsp'', ''jsp'', ''jsp''), (''.jspf'', ''jsp'', ''jspf''), (''.jspx'', ''jsp'', ''jspx''),
     (''.tag'', ''jsp'', ''tag''), (''.tagx'', ''jsp'', ''tagx''), (''.java'', ''java'', ''java''),
     (''.xml'', ''xml'', ''xml''), (''.tld'', ''xml'', ''tld''), (''.dtd'', ''xml'', ''dtd''),
     (''.xsd'', ''xml'', ''xsd''), (''.wsdl'', ''xml'', ''wsdl''), (''.html'', ''html'', ''html''),
     (''.htm'', ''html'', ''html''), (''.js'', ''javascript'', ''javascript''),
     (''.cjs'', ''javascript'', ''javascript''), (''.mjs'', ''javascript'', ''javascript''),
     (''.css'', ''css'', ''css''), (''.json'', ''json'', ''json''), (''.jsonc'', ''jsonc'', ''jsonc''),
     (''.properties'', ''properties'', ''properties'')]"

text \<open>From the last dot on, or nothing.\<close>

fun extension_of :: "string \<Rightarrow> string" where
  "extension_of [] = []"
| "extension_of (c # cs) =
     (if c = CHR ''.'' \<and> CHR ''.'' \<notin> set cs then c # cs else extension_of cs)"

definition detectLanguageAndDialect :: "string \<Rightarrow> dialect_info" where
  "detectLanguageAndDialect uriOrFilename =
    (case map_of SUPPORTED_EXTENSIONS_MAP (extension_of (map lower uriOrFilename)) of
       Some (languageId, dialect) \<Rightarrow>
         \<lparr> di_languageId = languageId, di_dialect = dialect,
           di_isXmlSyntax = (dialect = ''jspx'' \<or> dialect = ''tagx'' \<or> languageId = ''xml''),
           di_supportsJspDirectives = (languageId = ''jsp''),
           di_supportsScriptlets = (languageId = ''jsp''),
           di_supportsEl = (languageId = ''jsp'' \<or> languageId = ''html'') \<rparr>
     | None \<Rightarrow>
         \<lparr> di_languageId = ''plaintext'', di_dialect = ''plaintext'', di_isXmlSyntax = False,
           di_supportsJspDirectives = False, di_supportsScriptlets = False, di_supportsEl = False \<rparr>)"

definition isJspFamily :: "string \<Rightarrow> string option \<Rightarrow> bool" where
  "isJspFamily languageId dialect \<longleftrightarrow>
     languageId = ''jsp''
   \<or> dialect \<in> {Some ''jsp'', Some ''jspf'', Some ''jspx'', Some ''tag'', Some ''tagx''}"

lemma extension_of_append [simp]:
  "extension_of (base @ CHR ''.'' # e) = (if CHR ''.'' \<in> set e then extension_of e else CHR ''.'' # e)"
  by (induction base) auto

lemma lower_dot [simp]: "lower c = CHR ''.'' \<longleftrightarrow> c = CHR ''.''"
proof -
  have False if "char_of (of_char c + 32 :: nat) = CHR ''.''" "65 \<le> (of_char c :: nat)" "(of_char c :: nat) \<le> 90"
    using arg_cong [OF that(1), of "of_char :: char \<Rightarrow> nat"] that(2,3) by simp
  then show ?thesis by (auto simp: lower_def Let_def)
qed

lemma dot_lower [simp]: "CHR ''.'' \<in> lower ` set s \<longleftrightarrow> CHR ''.'' \<in> set s"
  by (metis image_iff lower_dot)

lemma extension_of_lower [simp]: "extension_of (map lower s) = map lower (extension_of s)"
  by (induction s) simp_all

section \<open>Owners\<close>

text \<open>
  A registration is an object: \<open>tr_id\<close> tells two of them apart as \<open>===\<close> does. \<open>or_disposed\<close>
  records the ids whose \<open>disposer\<close> has run, in order.
\<close>

record registration =
  tr_id :: nat
  tr_languageId :: string
  tr_ownerId :: string
  tr_description :: string

record owner_registry =
  or_owners :: "(string, registration) jsmap"
  or_next :: nat
  or_disposed :: "nat list"

definition new_owner_registry :: owner_registry where
  "new_owner_registry = \<lparr>or_owners = [], or_next = 0, or_disposed = []\<rparr>"

text \<open>\<open>reg.dispose()\<close>: only the registration that is in place is removed and disposed.\<close>

definition dispose_registration :: "registration \<Rightarrow> owner_registry \<Rightarrow> owner_registry" where
  "dispose_registration reg r =
    (if map_option tr_id (jm_get (or_owners r) (tr_languageId reg)) = Some (tr_id reg)
     then r\<lparr> or_owners := jm_delete (tr_languageId reg) (or_owners r),
             or_disposed := or_disposed r @ [tr_id reg] \<rparr>
     else r)"

definition registerOwner ::
  "string \<Rightarrow> string \<Rightarrow> string \<Rightarrow> owner_registry \<Rightarrow> registration \<times> owner_registry"
where
  "registerOwner languageId ownerId description r =
    (let put = (\<lambda>r. let reg = \<lparr> tr_id = or_next r, tr_languageId = languageId,
                               tr_ownerId = ownerId, tr_description = description \<rparr>
                    in (reg, r\<lparr> or_owners := jm_set languageId reg (or_owners r),
                               or_next := Suc (or_next r) \<rparr>))
     in case jm_get (or_owners r) languageId of
          Some existing \<Rightarrow>
            if tr_ownerId existing = ownerId then (existing, r)
            else put (dispose_registration existing r)
        | None \<Rightarrow> put r)"

definition getOwner :: "string \<Rightarrow> owner_registry \<Rightarrow> registration option" where
  "getOwner languageId r = jm_get (or_owners r) languageId"

definition hasOwner :: "string \<Rightarrow> owner_registry \<Rightarrow> bool" where
  "hasOwner languageId r = (jm_get (or_owners r) languageId \<noteq> None)"

definition getAllOwners :: "owner_registry \<Rightarrow> registration list" where
  "getAllOwners r = jm_values (or_owners r)"

definition clear_owners :: "owner_registry \<Rightarrow> owner_registry" where
  "clear_owners r = (fold dispose_registration (jm_values (or_owners r)) r)\<lparr>or_owners := []\<rparr>"

text \<open>Every registration in place is live, keyed by its language and older than the next id.\<close>

definition registry_ok :: "owner_registry \<Rightarrow> bool" where
  "registry_ok r \<longleftrightarrow>
     distinct (jm_keys (or_owners r))
   \<and> (\<forall>k reg. jm_get (or_owners r) k = Some reg \<longrightarrow>
        tr_languageId reg = k \<and> tr_id reg < or_next r \<and> tr_id reg \<notin> set (or_disposed r))
   \<and> distinct (or_disposed r) \<and> (\<forall>i\<in>set (or_disposed r). i < or_next r)
   \<and> (\<forall>k k' q q'. jm_get (or_owners r) k = Some q \<longrightarrow> jm_get (or_owners r) k' = Some q' \<longrightarrow>
        tr_id q = tr_id q' \<longrightarrow> k = k')"

declare map_of_eq_Some_iff [simp del] Some_eq_map_of_iff [simp del]

lemma dispose_registration_simps [simp]:
  "or_next (dispose_registration reg r) = or_next r"
  by (simp add: dispose_registration_def)

lemma registry_ok_dispose:
  assumes "registry_ok r"
  shows "registry_ok (dispose_registration reg r)"
proof (cases "map_option tr_id (jm_get (or_owners r) (tr_languageId reg)) = Some (tr_id reg)")
  case False
  then show ?thesis using assms unfolding dispose_registration_def if_not_P [OF False] by blast
next
  case True
  then obtain q where q: "jm_get (or_owners r) (tr_languageId reg) = Some q" "tr_id q = tr_id reg"
    by auto
  have "tr_id reg' \<noteq> tr_id reg" if "k \<noteq> tr_languageId reg" "jm_get (or_owners r) k = Some reg'" for k reg'
    using that q assms unfolding registry_ok_def by metis
  moreover have "tr_id reg < or_next r" "tr_id reg \<notin> set (or_disposed r)"
    using q assms unfolding registry_ok_def by metis+
  ultimately show ?thesis
    using assms True by (auto simp: dispose_registration_def registry_ok_def distinct_jm_delete)
qed

lemma registry_ok_put:
  assumes "registry_ok r" and "tr_languageId reg = k" and "tr_id reg = or_next r"
  shows "registry_ok (r\<lparr>or_owners := jm_set k reg (or_owners r), or_next := Suc (or_next r)\<rparr>)"
proof -
  have "tr_id q \<noteq> or_next r" "or_next r \<noteq> tr_id q" if "jm_get (or_owners r) k = Some q" for k q
    using that assms(1) unfolding registry_ok_def by fastforce+
  with assms show ?thesis
    by (auto simp: registry_ok_def less_Suc_eq distinct_jm_set split: if_splits)
qed

lemma registerOwner_ok:
  assumes "registry_ok r" and "registerOwner l own d r = (reg, r')"
  shows "registry_ok r' \<and> jm_get (or_owners r') l = Some reg
    \<and> tr_ownerId reg = own \<and> tr_languageId reg = l
    \<and> (\<forall>k. k \<noteq> l \<longrightarrow> jm_get (or_owners r') k = jm_get (or_owners r) k)
    \<and> or_disposed r' = or_disposed r @
        (case jm_get (or_owners r) l of
           Some q \<Rightarrow> if tr_ownerId q = own then [] else [tr_id q] | None \<Rightarrow> [])"
proof (cases "jm_get (or_owners r) l")
  case None
  then show ?thesis
    using assms registry_ok_put [OF assms(1), of _ l] by (auto simp: registerOwner_def Let_def)
next
  case (Some q)
  have q: "tr_languageId q = l" using assms(1) Some by (simp add: registry_ok_def)
  show ?thesis
  proof (cases "tr_ownerId q = own")
    case True
    with assms Some q show ?thesis by (auto simp: registerOwner_def Let_def)
  next
    case False
    have "registry_ok (dispose_registration q r)" by (rule registry_ok_dispose [OF assms(1)])
    from registry_ok_put [OF this, of _ l] show ?thesis
      using assms Some q False
      by (auto simp: registerOwner_def Let_def) (auto simp: dispose_registration_def)
  qed
qed

text \<open>Disposing a registration twice, or after it was replaced, does nothing.\<close>

lemma dispose_stale:
  assumes "registry_ok r" and "tr_id reg \<in> set (or_disposed r)"
  shows "dispose_registration reg r = r"
proof (cases "jm_get (or_owners r) (tr_languageId reg)")
  case None
  then show ?thesis by (simp add: dispose_registration_def)
next
  case (Some q)
  then have "tr_id q \<notin> set (or_disposed r)" using assms(1) by (simp add: registry_ok_def)
  with assms(2) Some show ?thesis by (auto simp: dispose_registration_def)
qed

section \<open>What a name says\<close>

lemma detect_extension:
  assumes "CHR ''.'' \<notin> set e"
  shows "detectLanguageAndDialect (base @ CHR ''.'' # e) = detectLanguageAndDialect (CHR ''.'' # map lower e)
    \<and> (isJspFamily (di_languageId (detectLanguageAndDialect (base @ CHR ''.'' # e)))
          (Some (di_dialect (detectLanguageAndDialect (base @ CHR ''.'' # e))))
        \<longleftrightarrow> map lower e \<in> {''jsp'', ''jspf'', ''jspx'', ''tag'', ''tagx''})"
proof -
  have ll: "lower (lower c) = lower c" for c
    by (auto simp: lower_def Let_def)
  have "lower CHR ''.'' = CHR ''.''" by simp
  note ll = ll this
  have "extension_of (map lower (base @ CHR ''.'' # e)) = CHR ''.'' # map lower e"
    "extension_of (map lower (CHR ''.'' # map lower e)) = CHR ''.'' # map lower e"
    using assms by (simp_all add: ll comp_def)
  then show ?thesis
    by (auto simp: detectLanguageAndDialect_def isJspFamily_def SUPPORTED_EXTENSIONS_MAP_def)
qed

end
