(* ===== verification/HighlightingService.thy ===== *)
theory HighlightingService
  imports MonacoAdapter LanguageCoverage
begin

text \<open>
  \<open>worker/highlighting-worker-core.ts\<close> (messages to the scheduler) and
  \<open>browser/highlighting-service.ts\<close> (Monaco's models, the worker and the adapters). Monaco is
  the environment: its models are in \<open>sv_models\<close> and its events drive the service; of a content
  change the service relies on what \<open>monaco_change\<close> says. The well-typed messages of the
  protocol raise nothing in the scheduler, so the \<open>error\<close> message is not sent.
\<close>

section \<open>The worker\<close>

datatype worker_message =
    SnapshotMessage string string "string option" int string "(int \<times> int) option"
  | EditMessage string int int "text_edit list" "(int \<times> int) option"
  | ViewportMessage string int int
  | DisposeMessage string

fun handleMessage :: "worker_message \<Rightarrow> scheduler \<Rightarrow> scheduler" where
  "handleMessage (SnapshotMessage modelInstanceId languageId dialect version txt viewport) w =
     registerModel modelInstanceId languageId
       (case dialect of Some d \<Rightarrow> d | None \<Rightarrow> languageId) version txt viewport w"
| "handleMessage (EditMessage modelInstanceId beforeVersion afterVersion changes viewport) w =
     (let w1 = updateContent modelInstanceId beforeVersion afterVersion changes None w
      in case viewport of Some (a, b) \<Rightarrow> updateViewport modelInstanceId a b w1 | None \<Rightarrow> w1)"
| "handleMessage (ViewportMessage modelInstanceId startLine endLine) w =
     updateViewport modelInstanceId startLine endLine w"
| "handleMessage (DisposeMessage modelInstanceId) w = disposeModel modelInstanceId w"

section \<open>The service\<close>

record monaco_model =
  mm_languageId :: string
  mm_versionId :: int
  mm_text :: string

text \<open>\<open>sv_tracked\<close> maps a tracked uri to the \<open>lastVersion\<close> of its change listener.\<close>

record hl_service =
  sv_worker :: scheduler
  sv_adapters :: "(string, adapter) jsmap"
  sv_tracked :: "(string, int) jsmap"
  sv_models :: "(string, monaco_model) jsmap"

definition onStart :: hl_service where
  "onStart = \<lparr> sv_worker = new_scheduler,
     sv_adapters = [(''jsp'', new_adapter ''jsp'' ''jsp''), (''java'', new_adapter ''java'' ''java'')],
     sv_tracked = [], sv_models = [] \<rparr>"

definition send :: "worker_message \<Rightarrow> hl_service \<Rightarrow> hl_service" where
  "send msg s = s\<lparr>sv_worker := handleMessage msg (sv_worker s)\<rparr>"

definition snapshot_of :: "string \<Rightarrow> string \<Rightarrow> monaco_model \<Rightarrow> worker_message" where
  "snapshot_of uri langId m =
     SnapshotMessage uri langId (Some (di_dialect (detectLanguageAndDialect uri)))
       (mm_versionId m) (mm_text m) None"

definition trackModel :: "string \<Rightarrow> monaco_model \<Rightarrow> hl_service \<Rightarrow> hl_service" where
  "trackModel uri m s =
    (if jm_get (sv_tracked s) uri \<noteq> None then s
     else
       let langId = mm_languageId m;
           dialect = di_dialect (detectLanguageAndDialect uri)
       in if \<not> isJspFamily langId (Some dialect) \<and> langId \<noteq> ''java'' then s
          else send (snapshot_of uri langId m)
                 (s\<lparr>sv_tracked := jm_set uri (mm_versionId m) (sv_tracked s)\<rparr>))"

definition onDidCreateModel :: "string \<Rightarrow> monaco_model \<Rightarrow> hl_service \<Rightarrow> hl_service" where
  "onDidCreateModel uri m s = trackModel uri m (s\<lparr>sv_models := jm_set uri m (sv_models s)\<rparr>)"

text \<open>The listeners of a tracked model; Monaco has changed the model when it calls them.\<close>

definition onDidChangeContent ::
  "string \<Rightarrow> text_edit list \<Rightarrow> monaco_model \<Rightarrow> hl_service \<Rightarrow> hl_service"
where
  "onDidChangeContent uri changes m s =
    (let s1 = s\<lparr>sv_models := jm_set uri m (sv_models s)\<rparr>
     in case jm_get (sv_tracked s) uri of
          None \<Rightarrow> s1
        | Some lastVersion \<Rightarrow>
            (send (EditMessage uri lastVersion (mm_versionId m) changes None) s1)
              \<lparr>sv_tracked := jm_set uri (mm_versionId m) (sv_tracked s)\<rparr>)"

definition onDidChangeLanguage :: "string \<Rightarrow> monaco_model \<Rightarrow> hl_service \<Rightarrow> hl_service" where
  "onDidChangeLanguage uri m s =
    (let s1 = s\<lparr>sv_models := jm_set uri m (sv_models s)\<rparr>
     in if jm_get (sv_tracked s) uri \<noteq> None
           \<and> (isJspFamily (mm_languageId m) None \<or> mm_languageId m = ''java'')
        then send (snapshot_of uri (mm_languageId m) m) s1 else s1)"

definition untrackModel :: "string \<Rightarrow> hl_service \<Rightarrow> hl_service" where
  "untrackModel uri s =
    (if jm_get (sv_tracked s) uri = None then s
     else (send (DisposeMessage uri) s)
            \<lparr> sv_tracked := jm_delete uri (sv_tracked s),
              sv_adapters := map (\<lambda>(l, a). (l, disposeSession uri a)) (sv_adapters s) \<rparr>)"

definition onWillDisposeModel :: "string \<Rightarrow> hl_service \<Rightarrow> hl_service" where
  "onWillDisposeModel uri s =
     (untrackModel uri s)\<lparr>sv_models := jm_delete uri (sv_models s)\<rparr>"

text \<open>The listeners of the service and of the tracked models are gone after \<open>onStop\<close>; the worker is not told.\<close>

definition onStop :: "hl_service \<Rightarrow> hl_service" where
  "onStop s = s\<lparr>sv_tracked := []\<rparr>"

text \<open>Monaco attaches a background tokenizer and asks it for tokens; the editor scrolls.\<close>

definition attachTokenizer :: "string \<Rightarrow> string \<Rightarrow> hl_service \<Rightarrow> hl_service" where
  "attachTokenizer lang uri s =
    (case jm_get (sv_adapters s) lang of
       None \<Rightarrow> s
     | Some a \<Rightarrow> s\<lparr>sv_adapters := jm_set lang (createBackgroundTokenizer uri a) (sv_adapters s)\<rparr>)"

definition requestTokens :: "string \<Rightarrow> string \<Rightarrow> int \<Rightarrow> int \<Rightarrow> hl_service \<Rightarrow> hl_service" where
  "requestTokens lang uri a b s =
    (case jm_get (sv_adapters s) lang of
       None \<Rightarrow> s
     | Some ad \<Rightarrow>
         (case jm_get (ad_sessions ad) uri of
            None \<Rightarrow> s
          | Some session \<Rightarrow>
              if as_isDisposed session then s else send (ViewportMessage uri a b) s))"

definition updateActiveViewport :: "string \<Rightarrow> int \<Rightarrow> int \<Rightarrow> hl_service \<Rightarrow> hl_service" where
  "updateActiveViewport uri a b s = send (ViewportMessage uri a b) s"

definition handleWorkerMessage :: "bool \<Rightarrow> token_batch \<Rightarrow> hl_service \<Rightarrow> hl_service" where
  "handleWorkerMessage multiline batch s =
    (let uri = tb_modelInstanceId batch in
     if jm_get (sv_tracked s) uri = None then s
     else
       case jm_get (sv_models s) uri of
         None \<Rightarrow> s
       | Some m \<Rightarrow>
           (case jm_get (sv_adapters s) (mm_languageId m) of
              None \<Rightarrow> s
            | Some a \<Rightarrow>
                s\<lparr>sv_adapters := jm_set (mm_languageId m)
                    (applyTokenBatch multiline (Some (mm_versionId m)) uri batch a) (sv_adapters s)\<rparr>))"

text \<open>A timer callback of the worker: its batch is handled before the callback returns.\<close>

definition timerFires :: "bool \<Rightarrow> (nat \<Rightarrow> bool) \<Rightarrow> hl_service \<Rightarrow> hl_service" where
  "timerFires multiline slow s =
    (let w = sched_step ((sv_worker s)\<lparr>hs_batches := []\<rparr>) (RunStep slow)
     in fold (handleWorkerMessage multiline) (rev (hs_batches w)) (s\<lparr>sv_worker := w\<rparr>))"

section \<open>Reachable states\<close>

text \<open>
  What Monaco documents of a content change: the changes do not overlap, though they may touch, their offsets are
  those of the old text, and the new text has all of them applied; of changes at the same offset the one
  whose text comes last is the first of the event.
\<close>

definition monaco_change :: "string \<Rightarrow> text_edit list \<Rightarrow> string \<Rightarrow> bool" where
  "monaco_change old changes new \<longleftrightarrow>
     (let cs = rev (descending changes)
      in changes \<noteq> [] \<and> separate_edits 0 cs (length old) \<and> new = patch 0 cs old)"

inductive hl_reach :: "hl_service \<Rightarrow> bool" where
  start: "hl_reach onStart"
| create: "hl_reach s \<Longrightarrow> jm_get (sv_models s) uri = None \<Longrightarrow> hl_reach (onDidCreateModel uri m s)"
| content: "hl_reach s \<Longrightarrow> jm_get (sv_models s) uri = Some m \<Longrightarrow>
    monaco_change (mm_text m) changes (mm_text m') \<Longrightarrow> mm_languageId m' = mm_languageId m \<Longrightarrow>
    hl_reach (onDidChangeContent uri changes m' s)"
| language: "hl_reach s \<Longrightarrow> jm_get (sv_models s) uri = Some m \<Longrightarrow>
    m' = m\<lparr>mm_languageId := lang\<rparr> \<Longrightarrow> hl_reach (onDidChangeLanguage uri m' s)"
| dispose: "hl_reach s \<Longrightarrow> hl_reach (onWillDisposeModel uri s)"
| attach: "hl_reach s \<Longrightarrow> hl_reach (attachTokenizer lang uri s)"
| request: "hl_reach s \<Longrightarrow> hl_reach (requestTokens lang uri a b s)"
| scroll: "hl_reach s \<Longrightarrow> hl_reach (updateActiveViewport uri a b s)"
| timer: "hl_reach s \<Longrightarrow> hl_reach (timerFires multiline slow s)"

section \<open>The worker mirrors the models\<close>

text \<open>What the worker has of a model, and what of it the scheduler's operations change.\<close>

definition task_view :: "model_task \<Rightarrow> string \<times> string \<times> string \<times> int" where
  "task_view m = (tk_fullText (mt_tokenizer m), tk_languageId (mt_tokenizer m),
     tk_dialect (mt_tokenizer m), mt_documentVersion m)"

definition view :: "scheduler \<Rightarrow> string \<Rightarrow> (string \<times> string \<times> string \<times> int) option" where
  "view w uri = map_option task_view (jm_get (hs_models w) uri)"

lemma triggerSchedule_models [simp]:
  "hs_models (triggerSchedule w) = hs_models w" "hs_batches (triggerSchedule w) = hs_batches w"
  by (simp_all add: triggerSchedule_def)

lemma view_register:
  "view (registerModel i lang d v tx vp w) = (view w)(i \<mapsto> (tx, lang, d, v))"
  by (auto simp: view_def registerModel_def Let_def task_view_def fun_eq_iff new_tokenizer_def)

lemma view_viewport: "view (updateViewport i a b w) = view w"
  by (auto simp: view_def updateViewport_def task_view_def fun_eq_iff split: option.split)

lemma view_content:
  "view (updateContent i v v' changes None w) =
     (case view w i of None \<Rightarrow> view w
      | Some (tx, lang, d, _) \<Rightarrow> (view w)(i \<mapsto> (apply_changes changes tx, lang, d, v')))"
proof (cases "jm_get (hs_models w) i")
  case None
  then show ?thesis by (simp add: view_def updateContent_def)
next
  case (Some m)
  obtain d t' where e: "applyEdits changes v' None (mt_tokenizer m) = (d, t')" by (metis surj_pair)
  from applyEdits_fields [OF e] Some e show ?thesis
    by (auto simp: view_def updateContent_def task_view_def fun_eq_iff)
qed

lemma view_dispose: "view (disposeModel i w) = (view w)(i := None)"
  by (auto simp: view_def disposeModel_def Let_def fun_eq_iff)

lemma view_processNextSlice:
  assumes ok: "tasks_ok (hs_models w)"
  shows "view (snd (processNextSlice slow w)) = view w"
proof (cases "pickNextTarget w")
  case None
  then show ?thesis by (simp add: processNextSlice_def view_def fun_eq_iff)
next
  case (Some m)
  note m = pickNextTarget_Some [OF ok Some]
  have t: "tk_fullText t' = tk_fullText (mt_tokenizer m)"
      "tk_languageId t' = tk_languageId (mt_tokenizer m)" "tk_dialect t' = tk_dialect (mt_tokenizer m)"
    if "tokenizeSlice a b slow (mt_tokenizer m) = (r, t')" for t' a b r
  proof -
    have "t' = (mt_tokenizer m)\<lparr>tk_cache := tk_cache t'\<rparr>"
      using tk_coherent_tokenizeSlice [OF _ that] m by (simp add: task_ok_def)
    then show "tk_fullText t' = tk_fullText (mt_tokenizer m)"
      "tk_languageId t' = tk_languageId (mt_tokenizer m)" "tk_dialect t' = tk_dialect (mt_tokenizer m)"
      by (metis tokenizer.select_convs(2,3,4) tokenizer.surjective tokenizer.update_convs(8))+
  qed
  have put: "view (put_task m' w) = view w" if "mt_modelInstanceId m' = mt_modelInstanceId m"
      "task_view m' = task_view m" for m'
    using that m by (auto simp: view_def put_task_def fun_eq_iff)
  have batches: "view (w\<lparr>hs_batches := bs\<rparr>) = view w" for w bs
    by (simp add: view_def fun_eq_iff)
  show ?thesis
    using Some by (auto simp: processNextSlice_def Let_def batches task_view_def
        split: option.split prod.split intro!: put dest: t)
qed

lemma view_RunStep:
  assumes "sched_ok w"
  shows "view (sched_step (w\<lparr>hs_batches := []\<rparr>) (RunStep slow)) = view w"
proof -
  let ?w = "w\<lparr>hs_batches := [], hs_timers := hs_timers w - 1\<rparr>"
  have "tasks_ok (hs_models ?w)" using assms by (simp add: sched_ok_def)
  from view_processNextSlice [OF this, of slow] show ?thesis
    by (cases "processNextSlice slow ?w") (auto simp: runStep_def Let_def view_def fun_eq_iff)
qed

text \<open>
  Tracked uris are those the worker has; for each of them the worker has Monaco's text and
  version and the dialect of the uri, and Monaco's language if it is one of the adapters'.
\<close>

definition mirror_of :: "string \<Rightarrow> monaco_model \<Rightarrow> string \<times> string \<times> string \<times> int \<Rightarrow> bool" where
  "mirror_of uri m = (\<lambda>(tx, lang, d, v). tx = mm_text m \<and> v = mm_versionId m
     \<and> d = di_dialect (detectLanguageAndDialect uri)
     \<and> (mm_languageId m \<in> {''jsp'', ''java''} \<longrightarrow> lang = mm_languageId m))"

definition hl_ok :: "hl_service \<Rightarrow> bool" where
  "hl_ok s \<longleftrightarrow> sched_ok (sv_worker s)
   \<and> (\<forall>uri. case view (sv_worker s) uri of
        None \<Rightarrow> jm_get (sv_tracked s) uri = None
      | Some q \<Rightarrow> \<exists>m. jm_get (sv_models s) uri = Some m \<and> mirror_of uri m q
                 \<and> jm_get (sv_tracked s) uri = Some (mm_versionId m))"

lemma hl_okI:
  assumes "sched_ok (sv_worker s)"
    and "\<And>uri. view (sv_worker s) uri = None \<Longrightarrow> jm_get (sv_tracked s) uri = None"
    and "\<And>uri q. view (sv_worker s) uri = Some q \<Longrightarrow>
      \<exists>m. jm_get (sv_models s) uri = Some m \<and> mirror_of uri m q
        \<and> jm_get (sv_tracked s) uri = Some (mm_versionId m)"
  shows "hl_ok s"
  using assms by (auto simp: hl_ok_def split: option.split)

lemma hl_okD:
  assumes "hl_ok s"
  shows "sched_ok (sv_worker s)"
    and "view (sv_worker s) uri = None \<longleftrightarrow> jm_get (sv_tracked s) uri = None"
    and "view (sv_worker s) uri = Some q \<Longrightarrow>
      \<exists>m. jm_get (sv_models s) uri = Some m \<and> mirror_of uri m q
        \<and> jm_get (sv_tracked s) uri = Some (mm_versionId m)"
proof -
  show "sched_ok (sv_worker s)" using assms by (simp add: hl_ok_def)
  have u: "case view (sv_worker s) uri of
        None \<Rightarrow> jm_get (sv_tracked s) uri = None
      | Some q \<Rightarrow> \<exists>m. jm_get (sv_models s) uri = Some m \<and> mirror_of uri m q
                 \<and> jm_get (sv_tracked s) uri = Some (mm_versionId m)"
    using assms by (simp add: hl_ok_def)
  show "view (sv_worker s) uri = None \<longleftrightarrow> jm_get (sv_tracked s) uri = None"
    using u by (auto split: option.splits)
  show "view (sv_worker s) uri = Some q \<Longrightarrow>
      \<exists>m. jm_get (sv_models s) uri = Some m \<and> mirror_of uri m q
        \<and> jm_get (sv_tracked s) uri = Some (mm_versionId m)"
    using u by simp
qed

lemma sched_ok_handleMessage: "sched_ok w \<Longrightarrow> sched_ok (handleMessage msg w)"
proof (cases msg)
  case (SnapshotMessage i lang d v tx vp)
  assume "sched_ok w"
  from sched_ok_step [OF this, of "Register i lang (case d of Some d \<Rightarrow> d | None \<Rightarrow> lang) v tx vp"]
  show ?thesis by (simp add: SnapshotMessage)
next
  case (EditMessage i v v' cs vp)
  assume "sched_ok w"
  from sched_ok_step [OF this, of "Content i v v' cs None"]
  have "sched_ok (updateContent i v v' cs None w)" by simp
  with sched_ok_step [OF this, of "Viewport i (fst (the vp)) (snd (the vp))"] show ?thesis
    by (auto simp: EditMessage Let_def split: option.split)
next
  case (ViewportMessage i a b)
  assume "sched_ok w"
  from sched_ok_step [OF this, of "Viewport i a b"] show ?thesis by (simp add: ViewportMessage)
next
  case (DisposeMessage i)
  assume "sched_ok w"
  from sched_ok_step [OF this, of "Dispose i"] show ?thesis by (simp add: DisposeMessage)
qed

text \<open>Sending a snapshot of a tracked model.\<close>

lemma hl_ok_snapshot:
  assumes "hl_ok s" and "jm_get (sv_models s') uri = Some m"
    and "jm_get (sv_tracked s') uri = Some (mm_versionId m)"
    and "\<And>u. u \<noteq> uri \<Longrightarrow> jm_get (sv_models s') u = jm_get (sv_models s) u
      \<and> jm_get (sv_tracked s') u = jm_get (sv_tracked s) u"
    and "sv_worker s' = sv_worker s"
  shows "hl_ok (send (snapshot_of uri (mm_languageId m) m) s')"
proof (rule hl_okI)
  let ?w = "sv_worker (send (snapshot_of uri (mm_languageId m) m) s')"
  show "sched_ok ?w" using hl_okD(1) [OF assms(1)] assms(5) by (simp add: send_def sched_ok_handleMessage)
  have v: "view ?w = (view (sv_worker s))(uri \<mapsto>
      (mm_text m, mm_languageId m, di_dialect (detectLanguageAndDialect uri), mm_versionId m))"
    by (simp add: send_def snapshot_of_def view_register assms(5))
  show "jm_get (sv_tracked (send (snapshot_of uri (mm_languageId m) m) s')) u = None" if "view ?w u = None" for u
    using that v assms(4) hl_okD(2) [OF assms(1), of u] by (auto simp: send_def split: if_splits)
  show "\<exists>m'. jm_get (sv_models (send (snapshot_of uri (mm_languageId m) m) s')) u = Some m' \<and> mirror_of u m' q
        \<and> jm_get (sv_tracked (send (snapshot_of uri (mm_languageId m) m) s')) u = Some (mm_versionId m')"
    if "view ?w u = Some q" for u q
    using that v assms(2-4) hl_okD(3) [OF assms(1), of u q]
    by (auto simp: send_def mirror_of_def split: if_splits)
qed

text \<open>A step that leaves the worker's views, the tracked uris and the models alone.\<close>

lemma hl_ok_frame:
  assumes "hl_ok s" and "sched_ok (sv_worker s')" and "view (sv_worker s') = view (sv_worker s)"
    and "sv_tracked s' = sv_tracked s" and "sv_models s' = sv_models s"
  shows "hl_ok s'"
  using assms hl_okD [OF assms(1)] by (intro hl_okI) auto

lemma handleWorkerMessage_frame [simp]:
  "sv_worker (handleWorkerMessage ml b s) = sv_worker s"
  "sv_tracked (handleWorkerMessage ml b s) = sv_tracked s"
  "sv_models (handleWorkerMessage ml b s) = sv_models s"
  by (simp_all add: handleWorkerMessage_def Let_def split: option.split)

lemma fold_handleWorkerMessage_frame [simp]:
  "sv_worker (fold (handleWorkerMessage ml) bs s) = sv_worker s"
  "sv_tracked (fold (handleWorkerMessage ml) bs s) = sv_tracked s"
  "sv_models (fold (handleWorkerMessage ml) bs s) = sv_models s"
  by (induction bs arbitrary: s) simp_all

lemma sched_ok_batches [simp]: "sched_ok (w\<lparr>hs_batches := bs\<rparr>) = sched_ok w"
  by (simp add: sched_ok_def hasPendingWork_def)

lemma monaco_change_apply:
  assumes "monaco_change old changes new"
  shows "apply_changes changes old = new \<and> changes \<noteq> []"
  using assms apply_changes_patch [of changes old]
  by (simp add: monaco_change_def Let_def)

lemma hl_ok_content:
  assumes "hl_ok s" and m: "jm_get (sv_models s) uri = Some m"
    and ch: "monaco_change (mm_text m) changes (mm_text m')" and l: "mm_languageId m' = mm_languageId m"
  shows "hl_ok (onDidChangeContent uri changes m' s)"
proof (cases "jm_get (sv_tracked s) uri")
  case None
  then have "view (sv_worker s) uri = None" using hl_okD(2) [OF assms(1)] by simp
  with None hl_okD [OF assms(1)] show ?thesis
    by (intro hl_okI) (auto simp: onDidChangeContent_def Let_def dest!: hl_okD(3) [OF assms(1)])
next
  case (Some lastv)
  then obtain q where q: "view (sv_worker s) uri = Some q"
    using hl_okD(2) [OF assms(1), of uri] by auto
  then have mir: "mirror_of uri m q" using hl_okD(3) [OF assms(1) q] m by auto
  let ?s = "onDidChangeContent uri changes m' s"
  obtain tx lang d v where qq: "q = (tx, lang, d, v)" by (cases q)
  have v: "view (sv_worker ?s) = (view (sv_worker s))(uri \<mapsto> (mm_text m', lang, d, mm_versionId m'))"
    using Some q qq mir monaco_change_apply [OF ch]
    by (simp add: onDidChangeContent_def Let_def send_def view_content mirror_of_def)
  show ?thesis
  proof (rule hl_okI)
    show "sched_ok (sv_worker ?s)"
      using hl_okD(1) [OF assms(1)] sched_ok_handleMessage
      by (simp add: onDidChangeContent_def Let_def send_def Some del: handleMessage.simps)
    show "jm_get (sv_tracked ?s) u = None" if "view (sv_worker ?s) u = None" for u
      using that v hl_okD(2) [OF assms(1), of u] Some
      by (auto simp: onDidChangeContent_def Let_def split: if_splits)
    show "\<exists>m. jm_get (sv_models ?s) u = Some m \<and> mirror_of u m q'
        \<and> jm_get (sv_tracked ?s) u = Some (mm_versionId m)" if "view (sv_worker ?s) u = Some q'" for u q'
      using that v hl_okD(3) [OF assms(1), of u q'] Some mir qq l
      by (auto simp: onDidChangeContent_def Let_def send_def mirror_of_def split: if_splits)
  qed
qed

lemma hl_ok_reach: "hl_reach s \<Longrightarrow> hl_ok s"
proof (induction rule: hl_reach.induct)
  case start
  show ?case
  proof -
    have "view new_scheduler u = None" for u by (simp add: view_def new_scheduler_def)
    then show ?thesis by (intro hl_okI) (simp_all add: onStart_def sched_ok_new)
  qed
next
  case (create s uri m)
  have "jm_get (sv_tracked s) uri = None"
    using hl_okD(2) [OF create.IH, of uri] hl_okD(3) [OF create.IH, of uri] create.hyps(2) by (cases "view (sv_worker s) uri") auto
  then have v: "view (sv_worker s) uri = None" using hl_okD(2) [OF create.IH] by simp
  have plain: "hl_ok (s\<lparr>sv_models := jm_set uri m (sv_models s)\<rparr>)"
    using hl_okD [OF create.IH] v by (intro hl_okI) (auto dest!: hl_okD(3) [OF create.IH])
  show ?case
    using plain hl_ok_snapshot [OF create.IH, of _ uri m]
    by (simp add: onDidCreateModel_def trackModel_def Let_def \<open>jm_get (sv_tracked s) uri = None\<close>)
next
  case (content s uri m changes m')
  then show ?case by (intro hl_ok_content)
next
  case (language s uri m m' lang)
  show ?case
  proof (cases "jm_get (sv_tracked s) uri \<noteq> None
      \<and> (isJspFamily (mm_languageId m') None \<or> mm_languageId m' = ''java'')")
    case True
    then obtain q where "view (sv_worker s) uri = Some q"
      using hl_okD(2) [OF language.IH, of uri] by auto
    with hl_okD(3) [OF language.IH this] language.hyps
    have "jm_get (sv_tracked s) uri = Some (mm_versionId m')" by auto
    with hl_ok_snapshot [OF language.IH, of _ uri m'] True show ?thesis
      by (simp add: onDidChangeLanguage_def Let_def)
  next
    case False
    have "mirror_of uri m' q" if "mirror_of uri m q" "jm_get (sv_tracked s) uri \<noteq> None" for q
      using that False language.hyps(3) by (auto simp: mirror_of_def isJspFamily_def)
    with False hl_okD [OF language.IH] language.hyps show ?thesis
      by (intro hl_okI) (auto simp: onDidChangeLanguage_def Let_def dest!: hl_okD(3) [OF language.IH])
  qed
next
  case (dispose s uri)
  have w: "sched_ok (sv_worker (onWillDisposeModel uri s))"
    using hl_okD(1) [OF dispose.IH] sched_ok_handleMessage [of "sv_worker s" "DisposeMessage uri"]
    by (simp add: onWillDisposeModel_def untrackModel_def send_def)
  have v: "view (sv_worker (onWillDisposeModel uri s)) = (view (sv_worker s))(uri := None)"
    using hl_okD(2) [OF dispose.IH, of uri]
    by (auto simp: onWillDisposeModel_def untrackModel_def send_def view_dispose fun_eq_iff)
  show ?case
    using w v hl_okD(2,3) [OF dispose.IH]
    by (intro hl_okI) (auto simp: onWillDisposeModel_def untrackModel_def split: if_splits)
next
  case (attach s lang uri)
  then show ?case
    by (intro hl_ok_frame [OF attach.IH])
      (auto simp: attachTokenizer_def hl_okD(1) split: option.split)
next
  case (request s lang uri a b)
  show ?case
    using hl_okD(1) [OF request.IH] sched_ok_handleMessage [of "sv_worker s" "ViewportMessage uri a b"]
    by (intro hl_ok_frame [OF request.IH])
      (auto simp: requestTokens_def send_def view_viewport split: option.split)
next
  case (scroll s uri a b)
  show ?case
    using hl_okD(1) [OF scroll.IH] sched_ok_handleMessage [of "sv_worker s" "ViewportMessage uri a b"]
    by (intro hl_ok_frame [OF scroll.IH]) (auto simp: updateActiveViewport_def send_def view_viewport)
next
  case (timer s multiline slow)
  have "sched_ok (sched_step ((sv_worker s)\<lparr>hs_batches := []\<rparr>) (RunStep slow))"
    using hl_okD(1) [OF timer.IH] by (intro sched_ok_step) simp
  then show ?case
    using view_RunStep [OF hl_okD(1) [OF timer.IH], of slow]
    by (intro hl_ok_frame [OF timer.IH]) (simp_all add: timerFires_def Let_def)
qed

section \<open>What reaches Monaco's token store\<close>

lemma adapters_reach: "hl_reach s \<Longrightarrow> jm_get (sv_adapters s) l \<noteq> None \<Longrightarrow> l = ''jsp'' \<or> l = ''java''"
proof (induction arbitrary: l rule: hl_reach.induct)
  case start
  then show ?case by (auto simp: onStart_def split: if_splits)
next
  case (create s uri m)
  then show ?case by (auto simp: onDidCreateModel_def trackModel_def send_def Let_def split: if_splits)
next
  case (content s uri m changes m')
  then show ?case by (auto simp: onDidChangeContent_def send_def Let_def split: option.splits)
next
  case (language s uri m m' lang)
  then show ?case by (auto simp: onDidChangeLanguage_def send_def Let_def split: if_splits)
next
  case (dispose s uri)
  have map_get: "jm_get (map (\<lambda>(l, a). (l, disposeSession uri a)) xs) l \<noteq> None \<longleftrightarrow> jm_get xs l \<noteq> None"
    for xs :: "(string, adapter) jsmap" and l by (induction xs) auto
  show ?case
    using dispose.prems dispose.IH [of l]
    by (simp add: onWillDisposeModel_def untrackModel_def send_def map_get del: not_None_eq split: if_splits)
next
  case (attach s lang uri)
  then show ?case by (auto simp: attachTokenizer_def split: option.splits if_splits)
next
  case (request s lang uri a b)
  then show ?case by (auto simp: requestTokens_def send_def split: option.splits if_splits)
next
  case (scroll s uri a b)
  then show ?case by (simp add: updateActiveViewport_def send_def)
next
  case (timer s multiline slow)
  have one: "jm_get (sv_adapters (handleWorkerMessage multiline b s)) l \<noteq> None \<longleftrightarrow> jm_get (sv_adapters s) l \<noteq> None"
    for b s l by (auto simp: handleWorkerMessage_def Let_def split: option.split)
  have "jm_get (sv_adapters (fold (handleWorkerMessage multiline) bs s)) l \<noteq> None
      \<longleftrightarrow> jm_get (sv_adapters s) l \<noteq> None" for bs s l
    by (induction bs arbitrary: s) (simp_all add: one del: not_None_eq)
  with timer show ?case by (simp add: timerFires_def Let_def del: not_None_eq)
qed

text \<open>The batch a timer callback hands over, with what it carries.\<close>

lemma RunStep_batches:
  assumes "hl_ok s" and "w = sched_step ((sv_worker s)\<lparr>hs_batches := []\<rparr>) (RunStep slow)"
  shows "hs_batches w = [] \<or> (\<exists>b m lang. hs_batches w = [b]
    \<and> jm_get (sv_models s) (tb_modelInstanceId b) = Some m \<and> tb_documentVersion b = mm_versionId m
    \<and> (mm_languageId m \<in> {''jsp'', ''java''} \<longrightarrow> lang = mm_languageId m)
    \<and> 1 \<le> tb_startLineNumber b \<and> tb_startLineNumber b \<le> tb_endLineNumber b
    \<and> tb_endLineNumber b \<le> length (lines_of (mm_text m))
    \<and> tb_lineTokens b = map (line_tokens
          (tokenizeSingleLine lang (di_dialect (detectLanguageAndDialect (tb_modelInstanceId b))))
          (new_lexer_state ''root'' None []
             (Some (di_dialect (detectLanguageAndDialect (tb_modelInstanceId b)))))
          (lines_of (mm_text m))) [tb_startLineNumber b..<Suc (tb_endLineNumber b)])"
proof (cases "hs_timers (sv_worker s) = 0 \<or> hs_batches w = []")
  case True
  with assms(2) show ?thesis by auto
next
  case False
  let ?w = "(sv_worker s)\<lparr>hs_batches := []\<rparr>"
  have ok: "sched_ok ?w" using hl_okD(1) [OF assms(1)] by simp
  have w: "w = runStep slow ?w" and t: "hs_timers ?w \<noteq> 0" and ch: "hs_batches (runStep slow ?w) \<noteq> hs_batches ?w"
    using False assms(2) by auto
  from runStep_batch [OF ok t ch] obtain m b where b:
      "hs_batches w = [b]" "jm_get (hs_models w) (tb_modelInstanceId b) = Some m"
      "tb_documentVersion b = mt_documentVersion m" "1 \<le> tb_startLineNumber b"
      "tb_startLineNumber b \<le> tb_endLineNumber b"
      "tb_endLineNumber b \<le> length (lines_of (tk_fullText (mt_tokenizer m)))"
      "tb_lineTokens b = map (line_tokens (tk_lex (mt_tokenizer m)) (tk_init (mt_tokenizer m))
        (lines_of (tk_fullText (mt_tokenizer m)))) [tb_startLineNumber b..<Suc (tb_endLineNumber b)]"
    unfolding w by auto
  have "view w (tb_modelInstanceId b) = Some (task_view m)" using b(2) by (simp add: view_def)
  moreover have "view w = view (sv_worker s)"
    using view_RunStep [OF hl_okD(1) [OF assms(1)], of slow] assms(2) by simp
  ultimately obtain mm where "jm_get (sv_models s) (tb_modelInstanceId b) = Some mm"
      "mirror_of (tb_modelInstanceId b) mm (task_view m)"
    using hl_okD(3) [OF assms(1)] by fastforce
  with b show ?thesis
    by (intro disjI2 exI [of _ b] exI [of _ mm] exI [of _ "tk_languageId (mt_tokenizer m)"])
      (auto simp: mirror_of_def task_view_def tk_lex_def tk_init_def)
qed

lemma applyTokenBatch_session:
  assumes "jm_get (ad_sessions (applyTokenBatch ml v u b a)) uri = Some ss'"
  shows "\<exists>ss. jm_get (ad_sessions a) uri = Some ss
    \<and> (as_store ss' = as_store ss \<or> uri = u \<and> as_store ss' = as_store ss @ batch_calls ml b)"
  using assms by (auto simp: applyTokenBatch_def split: option.splits if_splits)

lemma timerFires_store:
  assumes r: "hl_reach s" and a': "jm_get (sv_adapters (timerFires ml slow s)) l = Some a'"
    and ss': "jm_get (ad_sessions a') uri = Some ss'"
  shows "\<exists>a ss. jm_get (sv_adapters s) l = Some a \<and> jm_get (ad_sessions a) uri = Some ss
    \<and> (as_store ss' = as_store ss
      \<or> (\<exists>m b. jm_get (sv_models s) uri = Some m \<and> mm_languageId m = l
          \<and> as_store ss' = as_store ss @ batch_calls ml b
          \<and> 1 \<le> tb_startLineNumber b \<and> tb_startLineNumber b \<le> tb_endLineNumber b
          \<and> tb_endLineNumber b \<le> length (lines_of (mm_text m))
          \<and> tb_lineTokens b = map (line_tokens
                (tokenizeSingleLine l (di_dialect (detectLanguageAndDialect uri)))
                (new_lexer_state ''root'' None [] (Some (di_dialect (detectLanguageAndDialect uri))))
                (lines_of (mm_text m))) [tb_startLineNumber b..<Suc (tb_endLineNumber b)]))"
proof -
  define w where "w = sched_step ((sv_worker s)\<lparr>hs_batches := []\<rparr>) (RunStep slow)"
  let ?s = "s\<lparr>sv_worker := w\<rparr>"
  have t: "timerFires ml slow s = fold (handleWorkerMessage ml) (rev (hs_batches w)) ?s"
    by (simp add: timerFires_def w_def Let_def)
  from RunStep_batches [OF hl_ok_reach [OF r] w_def] show ?thesis
  proof (elim disjE exE conjE)
    assume "hs_batches w = []"
    with t a' ss' show ?thesis by auto
  next
    fix b m lang
    assume b: "hs_batches w = [b]" "jm_get (sv_models s) (tb_modelInstanceId b) = Some m"
      and lang: "mm_languageId m \<in> {''jsp'', ''java''} \<longrightarrow> lang = mm_languageId m"
      and rest: "1 \<le> tb_startLineNumber b" "tb_startLineNumber b \<le> tb_endLineNumber b"
        "tb_endLineNumber b \<le> length (lines_of (mm_text m))"
        "tb_lineTokens b = map (line_tokens
          (tokenizeSingleLine lang (di_dialect (detectLanguageAndDialect (tb_modelInstanceId b))))
          (new_lexer_state ''root'' None []
             (Some (di_dialect (detectLanguageAndDialect (tb_modelInstanceId b)))))
          (lines_of (mm_text m))) [tb_startLineNumber b..<Suc (tb_endLineNumber b)]"
    have t: "timerFires ml slow s = handleWorkerMessage ml b ?s" using t b by simp
    show ?thesis
    proof (cases "jm_get (sv_adapters s) (mm_languageId m) = None \<or> mm_languageId m \<noteq> l
        \<or> jm_get (sv_tracked s) (tb_modelInstanceId b) = None")
      case True
      with t a' b(2) have "jm_get (sv_adapters s) l = Some a'"
        by (auto simp: handleWorkerMessage_def Let_def split: option.splits if_splits)
      with ss' show ?thesis by auto
    next
      case False
      then obtain a where a: "jm_get (sv_adapters s) l = Some a" "mm_languageId m = l" by auto
      have ll: "lang = l" using adapters_reach [OF r, of l] a lang by auto
      have "a' = applyTokenBatch ml (Some (mm_versionId m)) (tb_modelInstanceId b) b a"
        using t a' a b False by (auto simp: handleWorkerMessage_def Let_def)
      with applyTokenBatch_session ss' a b(2) rest ll show ?thesis by fastforce
    qed
  qed
qed

text \<open>After \<open>onStop\<close> the timers of the worker go on, but nothing reaches the adapters any more.\<close>

lemma stopped_timers:
  "sv_tracked (timerFires ml slow (onStop s)) = [] \<and> sv_adapters (timerFires ml slow (onStop s)) = sv_adapters s"
proof -
  have "handleWorkerMessage ml b u = u" if "sv_tracked u = []" for b u
    using that by (simp add: handleWorkerMessage_def)
  then have "fold (handleWorkerMessage ml) bs u = u" if "sv_tracked u = []" for bs u
    using that by (induction bs) simp_all
  then show ?thesis by (simp add: timerFires_def Let_def onStop_def)
qed

end
