(* ===== verification/ScannerFacts.thy ===== *)
theory ScannerFacts
  imports RegionScanner "HOL-Library.Sublist"
begin

text \<open>
  What the region scanner guarantees: the binary search of \<open>getPos\<close> computes the
  line and column reached by walking the text, the regions tile the document and carry
  their delimiters, and the four-flag search for \<open>%>\<close> is the one of a small lexer.
\<close>

section \<open>Positions\<close>

text \<open>The line and column reached by walking over the units before an offset.\<close>

definition pos_step :: "nat \<times> nat \<Rightarrow> char \<Rightarrow> nat \<times> nat" where
  "pos_step p c = (if c = NL then (Suc (fst p), 0) else (fst p, Suc (snd p)))"

definition pos_of :: "string \<Rightarrow> nat \<Rightarrow> nat \<times> nat" where
  "pos_of s off = foldl pos_step (0, 0) (take off s)"

lemma fold_line_offsets:
  "fold (\<lambda>i offsets. if s ! i = NL then offsets @ [i + 1] else offsets) is acc
     = acc @ map Suc (filter (\<lambda>i. s ! i = NL) is)"
  by (induction "is" arbitrary: acc) auto

lemma computeLineOffsets_eq:
  "computeLineOffsets s = 0 # map Suc (filter (\<lambda>i. s ! i = NL) [0..<length s])"
  by (simp add: computeLineOffsets_def fold_line_offsets)

text \<open>The three facts about a table of line starts that the search needs.\<close>

definition line_table :: "string \<Rightarrow> nat list \<Rightarrow> bool" where
  "line_table s los \<longleftrightarrow> los \<noteq> [] \<and> los ! 0 = 0 \<and> sorted_wrt (<) los
     \<and> set los = insert 0 {Suc i | i. i < length s \<and> s ! i = NL}"

lemma line_table_computeLineOffsets: "line_table s (computeLineOffsets s)"
proof -
  have "sorted_wrt (<) (map Suc (filter (\<lambda>i. s ! i = NL) [0..<length s]))"
    by (simp add: sorted_wrt_map sorted_wrt_filter)
  then show ?thesis
    by (auto simp: line_table_def computeLineOffsets_eq)
qed

lemma sorted_nth_less:
  assumes "sorted_wrt (<) (xs :: nat list)" and "i < length xs" and "j < length xs"
  shows "xs ! i < xs ! j \<longleftrightarrow> i < j"
proof (cases i j rule: linorder_cases)
  case less
  with assms show ?thesis by (simp add: sorted_wrt_nth_less)
next
  case greater
  with assms have "xs ! j < xs ! i" by (simp add: sorted_wrt_nth_less)
  with greater show ?thesis by simp
qed simp

text \<open>The answer of the search is characterised by the line that holds the offset.\<close>

definition line_of :: "nat list \<Rightarrow> nat \<Rightarrow> nat \<Rightarrow> bool" where
  "line_of los off k \<longleftrightarrow> k < length los \<and> los ! k \<le> off
     \<and> (Suc k < length los \<longrightarrow> off < los ! Suc k)"

lemma get_pos_loop_finds:
  assumes sorted: "sorted_wrt (<) los" and k: "line_of los off k"
  shows "0 \<le> low \<Longrightarrow> low \<le> int k \<Longrightarrow> int k \<le> high \<Longrightarrow> high < int (length los) \<Longrightarrow>
    get_pos_loop los off low high = (k, off - los ! k)"
proof (induction "nat (high - low + 1)" arbitrary: low high rule: less_induct)
  case less
  have mono: "los ! i \<le> los ! j" if "i \<le> j" "j < length los" for i j
    using sorted_nth_less [OF sorted, of j i] that by auto
  define m where "m = nat ((low + high) div 2)"
  have mid: "(low + high) div 2 = int m" "low \<le> int m" "int m \<le> high" "m < length los"
    using less.prems by (auto simp: m_def)
  have kl: "k < length los" "los ! k \<le> off" using k by (auto simp: line_of_def)
  note unfold = get_pos_loop.simps [of los off low high]
  show ?case
  proof (cases "los ! m \<le> off")
    case True
    have "m \<le> k"
      using k True mono [of "Suc k" m] mid(4) by (force simp: line_of_def not_less_eq_eq [symmetric])
    show ?thesis
    proof (cases "Suc m = length los \<or> off < los ! Suc m")
      case stop: True
      have "k = m"
        using stop \<open>m \<le> k\<close> kl mono [of "Suc m" k] by (cases "m = k") auto
      with stop True mid less.prems show ?thesis
        by (auto simp: unfold Let_def nat_add_distrib)
    next
      case go: False
      then have "m \<noteq> k" using k mid(4) by (auto simp: line_of_def)
      with \<open>m \<le> k\<close> have "get_pos_loop los off (int m + 1) high = (k, off - los ! k)"
        using less.prems mid by (intro less.hyps) auto
      with go True mid less.prems show ?thesis
        by (auto simp: unfold Let_def nat_add_distrib)
    qed
  next
    case False
    then have "k < m" using mono [of m k] kl by (cases "m \<le> k") auto
    then have "get_pos_loop los off low (int m - 1) = (k, off - los ! k)"
      using less.prems mid by (intro less.hyps) auto
    with False mid less.prems show ?thesis by (auto simp: unfold Let_def)
  qed
qed

text \<open>Walking one unit further moves the line that holds the offset as \<open>pos_step\<close> says.\<close>

lemma pos_of_Suc: "off < length s \<Longrightarrow> pos_of s (Suc off) = pos_step (pos_of s off) (s ! off)"
  by (simp add: pos_of_def take_Suc_conv_app_nth)

lemma line_of_walk:
  assumes los: "line_table s los"
  shows "off \<le> length s \<Longrightarrow>
    line_of los off (fst (pos_of s off)) \<and> off - los ! fst (pos_of s off) = snd (pos_of s off)"
proof (induction off)
  case 0
  have "0 < los ! Suc 0" if "Suc 0 < length los"
    using los sorted_nth_less [of los 0 "Suc 0"] that by (auto simp: line_table_def)
  then show ?case using los by (auto simp: pos_of_def line_of_def line_table_def)
next
  case (Suc off)
  let ?k = "fst (pos_of s off)"
  have sorted: "sorted_wrt (<) los" using los by (simp add: line_table_def)
  from Suc have lt: "off < length s" and k: "line_of los off ?k"
    and col: "off - los ! ?k = snd (pos_of s off)" by auto
  have mem: "Suc off \<in> set los \<longleftrightarrow> s ! off = NL"
    using los lt by (auto simp: line_table_def)
  show ?case
  proof (cases "s ! off = NL")
    case True
    with mem obtain m where m: "m < length los" "los ! m = Suc off"
      by (auto simp: in_set_conv_nth)
    have km: "?k < m"
      using sorted_nth_less [OF sorted, of ?k m] k m by (auto simp: line_of_def)
    have "los ! Suc ?k = Suc off"
      using km m k sorted_nth_less [OF sorted, of "Suc ?k" m]
      by (cases "Suc ?k = m") (auto simp: line_of_def)
    moreover have "Suc off < los ! Suc (Suc ?k)" if "Suc (Suc ?k) < length los"
      using sorted_nth_less [OF sorted, of "Suc ?k" "Suc (Suc ?k)"] that calculation by simp
    ultimately show ?thesis
      using True km m lt by (auto simp: pos_of_Suc pos_step_def line_of_def)
  next
    case False
    have "los ! Suc ?k \<noteq> Suc off" if "Suc ?k < length los"
      using mem False that nth_mem [of "Suc ?k" los] by metis
    with k col False lt show ?thesis
      by (auto simp: pos_of_Suc pos_step_def line_of_def)
  qed
qed

lemma getPos_line_table:
  assumes "line_table s los" and "off \<le> length s"
  shows "getPos los off = pos_of s off"
proof -
  note w = line_of_walk [OF assms]
  have "getPos los off = (fst (pos_of s off), off - los ! fst (pos_of s off))"
    unfolding getPos_def using w assms(1)
    by (intro get_pos_loop_finds) (auto simp: line_table_def line_of_def)
  with w show ?thesis by (simp add: prod_eq_iff)
qed

text \<open>Every region is pushed with the positions \<open>getPos\<close> gives for its two offsets.\<close>

definition placed :: "nat list \<Rightarrow> jsp_region \<Rightarrow> bool" where
  "placed los r \<longleftrightarrow> (rg_startLine r, rg_startCol r) = getPos los (rg_startOffset r)
     \<and> (rg_endLine r, rg_endCol r) = getPos los (rg_endOffset r)"

lemma placed_mk_region [simp]: "placed los (mk_region los k a b l c ia ib t)"
  by (simp add: placed_def mk_region_def)

lemma placed_builders [simp]:
  "placed los (embedded_jsp los s i)" "placed los (el_region los s i)"
  "placed los (jsp_block los s i)" "placed los (comment_region los s k cl i)"
  "placed los (text_region los s i)" "placed los (embedded_element los s k l nm i j)"
  "\<forall>r\<in>set (tag_chunk los off ch i). placed los r"
  by (auto simp: embedded_jsp_def el_region_def jsp_block_def comment_region_def text_region_def
      embedded_element_def tag_chunk_def Let_def split: option.splits)

lemma placed_scan_tag_loop:
  "scan_tag_loop los s offset i a b ch = (rs, stop) \<Longrightarrow> r \<in> set rs \<Longrightarrow> placed los r"
proof (induction i arbitrary: a b ch rs stop rule: index_induct [where n = "length s"])
  case (step i)
  show ?case
  proof (cases "i < length s")
    case False
    with step.prems show ?thesis
      by (auto simp: scan_tag_loop.simps [of los s offset i a b ch] split: if_splits)
  next
    case True
    have IH: "placed los r"
      if "scan_tag_loop los s offset k a b ch = (rs, stop)" "r \<in> set rs" "i < k" for k a b ch rs stop
      using step.IH that True by blast
    show ?thesis
      using step.prems True embedded_jsp_end [OF True, of los] el_region_end [OF True, of los]
        placed_builders(7) [of los offset ch i]
      by (auto simp: Let_def scan_tag_loop.simps [of los s offset i a b ch]
          split: if_splits prod.splits dest: IH)
  qed
qed

lemma placed_scan_step:
  "scan_step los s x i = (rs, stop) \<Longrightarrow> r \<in> set rs \<Longrightarrow> placed los r"
  by (auto simp add: scan_step_def single_def scanTagWithEmbedded_def
      simp del: starts_with_at_Cons
      split: if_splits option.splits dest: placed_scan_tag_loop)

lemma placed_scan_loop: "r \<in> set (scan_loop los s x i) \<Longrightarrow> placed los r"
proof (induction i rule: index_induct [where n = "length s"])
  case (step i)
  show ?case
  proof (cases "i < length s")
    case False
    with step.prems show ?thesis by (simp add: scan_loop.simps [of los s x i])
  next
    case True
    obtain rs i' where R: "scan_step los s x i = (rs, i')" by fastforce
    have "r \<in> set rs \<or> r \<in> set (scan_loop los s x i')"
      using step.prems True R by (simp add: scan_loop.simps [of los s x i])
    with placed_scan_step [OF R] step.IH [of i'] scan_step_ok [OF True R] True
    show ?thesis by blast
  qed
qed

section \<open>The search for \<open>%>\<close> as a lexer\<close>

text \<open>
  At most one of the four flags of \<open>findScriptletClose\<close> is set: the search is a lexer
  with five modes over the rest of the text, which returns the distance to the first
  \<open>%>\<close> read in code.
\<close>

datatype lex_mode = InCode | InSingleQuotes | InDoubleQuotes | InLineComment | InBlockComment

fun close_distance :: "lex_mode \<Rightarrow> string \<Rightarrow> nat option" where
  "close_distance m (c # n # cs) =
    (case m of
       InLineComment \<Rightarrow>
         map_option Suc (close_distance (if c = NL then InCode else InLineComment) (n # cs))
     | InBlockComment \<Rightarrow>
         if c = CHR ''*'' \<and> n = CHR ''/'' then map_option ((+) 2) (close_distance InCode cs)
         else map_option Suc (close_distance InBlockComment (n # cs))
     | InSingleQuotes \<Rightarrow>
         if c = BSL then map_option ((+) 2) (close_distance InSingleQuotes cs)
         else map_option Suc
                (close_distance (if c = SQ \<or> c = NL then InCode else InSingleQuotes) (n # cs))
     | InDoubleQuotes \<Rightarrow>
         if c = BSL then map_option ((+) 2) (close_distance InDoubleQuotes cs)
         else map_option Suc
                (close_distance (if c = DQ \<or> c = NL then InCode else InDoubleQuotes) (n # cs))
     | InCode \<Rightarrow>
         if c = CHR ''/'' \<and> n = CHR ''/'' then map_option ((+) 2) (close_distance InLineComment cs)
         else if c = CHR ''/'' \<and> n = CHR ''*'' then map_option ((+) 2) (close_distance InBlockComment cs)
         else if c = SQ then map_option Suc (close_distance InSingleQuotes (n # cs))
         else if c = DQ then map_option Suc (close_distance InDoubleQuotes (n # cs))
         else if c = CHR ''%'' \<and> n = BSL \<and> cs \<noteq> [] \<and> hd cs = CHR ''>''
         then map_option ((+) 3) (close_distance InCode (tl cs))
         else if c = CHR ''%'' \<and> n = CHR ''>'' then Some 0
         else map_option Suc (close_distance InCode (n # cs)))"
| "close_distance m _ = None"

lemma close_distance_short: "length xs < 2 \<Longrightarrow> close_distance m xs = None"
  by (cases xs; cases "tl xs") auto

lemma map_option_add [simp]:
  "map_option ((+) (a :: nat)) (map_option ((+) b) x) = map_option ((+) (a + b)) x"
  "map_option ((+) a) (map_option Suc x) = map_option ((+) (Suc a)) x"
  by (cases x; simp)+

lemma close_loop_is_lexer:
  "scriptlet_close_loop s i (m = InSingleQuotes) (m = InDoubleQuotes) (m = InLineComment)
     (m = InBlockComment) = map_option ((+) i) (close_distance m (drop i s))"
proof (induction i arbitrary: m rule: index_induct [where n = "length s"])
  case (step i)
  show ?case
  proof (cases "i + 1 < length s")
    case False
    then have "close_distance m (drop i s) = None"
      by (intro close_distance_short) simp
    with False show ?thesis
      by (simp add: scriptlet_close_loop.simps [of s i])
  next
    case True
    define c n cs where "c = s ! i" and "n = s ! Suc i" and "cs = drop (Suc (Suc i)) s"
    then have d1: "drop (Suc i) s = n # cs" and d: "drop i s = c # n # cs"
      using True by (simp_all add: Cons_nth_drop_Suc)
    have d3: "drop (i + 3) s = tl cs"
      by (simp add: cs_def tl_drop [symmetric] drop_Suc numeral_3_eq_3)
    have c2: "i + 2 < length s \<and> s ! (i + 2) = CHR ''>'' \<longleftrightarrow> cs \<noteq> [] \<and> hd cs = CHR ''>''"
      by (auto simp: cs_def hd_drop_conv_nth)
    have lt: "i < length s" using True by simp
    have IHs: "scriptlet_close_loop s k False False False False = map_option ((+) k) (close_distance InCode (drop k s))"
      "scriptlet_close_loop s k True False False False = map_option ((+) k) (close_distance InSingleQuotes (drop k s))"
      "scriptlet_close_loop s k False True False False = map_option ((+) k) (close_distance InDoubleQuotes (drop k s))"
      "scriptlet_close_loop s k False False True False = map_option ((+) k) (close_distance InLineComment (drop k s))"
      "scriptlet_close_loop s k False False False True = map_option ((+) k) (close_distance InBlockComment (drop k s))"
      if "i < k" for k
      using step.IH [OF that lt, of InCode] step.IH [OF that lt, of InSingleQuotes]
        step.IH [OF that lt, of InDoubleQuotes] step.IH [OF that lt, of InLineComment]
        step.IH [OF that lt, of InBlockComment] by simp_all
    show ?thesis
    proof (cases m)
      case InCode
      show ?thesis
        using True c2 InCode
        by (simp add: scriptlet_close_loop.simps [of s i] d d1 d3 IHs c_def [symmetric]
            n_def [symmetric] cs_def [symmetric])
    next
      case InSingleQuotes
      then show ?thesis using True
        by (auto simp add: scriptlet_close_loop.simps [of s i] d d1 IHs c_def [symmetric]
            n_def [symmetric] cs_def [symmetric])
    next
      case InDoubleQuotes
      then show ?thesis using True
        by (simp add: scriptlet_close_loop.simps [of s i] d d1 IHs c_def [symmetric]
            n_def [symmetric] cs_def [symmetric])
    next
      case InLineComment
      then show ?thesis using True
        by (simp add: scriptlet_close_loop.simps [of s i] d d1 IHs c_def [symmetric]
            n_def [symmetric] cs_def [symmetric])
    next
      case InBlockComment
      then show ?thesis using True
        by (simp add: scriptlet_close_loop.simps [of s i] d d1 IHs c_def [symmetric]
            n_def [symmetric] cs_def [symmetric])
    qed
  qed
qed

section \<open>The lexemes of Java code\<close>

text \<open>
  A reference for the search that knows no flags. A lexeme of code that may hide a \<open>%>\<close> is a literal, which a quote or
  the end of the line ends and in which a backslash takes the next character with it; a comment; or the
  escape \<open>%\>\<close>. Where no lexeme can begin, code goes on by one character.
\<close>

inductive literal_rest :: "char \<Rightarrow> string \<Rightarrow> bool" for q where
  literal_ends: "c = q \<or> c = NL \<Longrightarrow> literal_rest q [c]"
| literal_escape: "literal_rest q t \<Longrightarrow> literal_rest q (BSL # c # t)"
| literal_char: "c \<noteq> q \<Longrightarrow> c \<noteq> NL \<Longrightarrow> c \<noteq> BSL \<Longrightarrow> literal_rest q t \<Longrightarrow> literal_rest q (c # t)"

definition java_lexeme :: "string \<Rightarrow> bool" where
  "java_lexeme t \<longleftrightarrow>
    (\<exists>q r. (q = SQ \<or> q = DQ) \<and> t = q # r \<and> literal_rest q r)
    \<or> (\<exists>r. t = ''//'' @ r @ [NL] \<and> NL \<notin> set r)
    \<or> (\<exists>r. t = ''/*'' @ r @ ''*/'' \<and> \<not> sublist ''*/'' r)
    \<or> t = [CHR ''%'', BSL, CHR ''>'']"

definition lexeme_begins :: "string \<Rightarrow> bool" where
  "lexeme_begins s \<longleftrightarrow> (\<exists>p \<in> {[SQ], [DQ], ''//'', ''/*'', [CHR ''%'', BSL, CHR ''>'']}. prefix p s)"

text \<open>The \<open>%>\<close> that ends the code at the beginning of a text is at this distance.\<close>

inductive code_ends :: "string \<Rightarrow> nat \<Rightarrow> bool" where
  code_close: "code_ends (''%>'' @ r) 0"
| code_lexeme: "java_lexeme t \<Longrightarrow> code_ends r n \<Longrightarrow> code_ends (t @ r) (length t + n)"
| code_char: "\<not> lexeme_begins (c # r) \<Longrightarrow> \<not> prefix ''%>'' (c # r) \<Longrightarrow> code_ends r n \<Longrightarrow> code_ends (c # r) (Suc n)"

lemma literal_step:
  assumes "(m, q) = (InSingleQuotes, SQ) \<or> (m, q) = (InDoubleQuotes, DQ)"
  shows "close_distance m (c # d # cs) =
    (if c = BSL then map_option ((+) 2) (close_distance m cs)
     else map_option Suc (close_distance (if c = q \<or> c = NL then InCode else m) (d # cs)))"
  using assms by (elim disjE) simp_all

lemma literal_rest_nonempty: "literal_rest q t \<Longrightarrow> t \<noteq> []"
  by (induction rule: literal_rest.induct) simp_all

lemma read_literal:
  assumes "literal_rest q t" and m: "(m, q) = (InSingleQuotes, SQ) \<or> (m, q) = (InDoubleQuotes, DQ)"
  shows "close_distance m (t @ r) = map_option ((+) (length t)) (close_distance InCode r)"
  using assms(1)
proof (induction rule: literal_rest.induct)
  case (literal_ends c)
  have q: "c \<noteq> BSL" using literal_ends m by auto
  show ?case
  proof (cases r)
    case (Cons n cs)
    show ?thesis unfolding Cons append_Cons append_Nil literal_step [OF m]
      using q literal_ends by (simp add: map_option_case split: option.splits)
  qed (simp add: close_distance_short)
next
  case (literal_escape t c)
  show ?case unfolding append_Cons literal_step [OF m]
    by (cases "close_distance InCode r") (simp_all add: literal_escape.IH)
next
  case (literal_char c t)
  obtain n cs where t: "t = n # cs" using literal_rest_nonempty [OF literal_char.hyps(4)] by (cases t) simp_all
  have "close_distance m (c # n # cs @ r) = map_option Suc (close_distance m (n # cs @ r))"
    unfolding literal_step [OF m] using literal_char.hyps by simp
  also have "\<dots> = map_option Suc (map_option ((+) (length t)) (close_distance InCode r))"
    using literal_char.IH unfolding t by (simp only: append_Cons)
  also have "\<dots> = map_option ((+) (length (c # t))) (close_distance InCode r)"
    by (cases "close_distance InCode r") simp_all
  finally show ?case unfolding t by (simp only: append_Cons)
qed

lemma read_line_comment:
  "NL \<notin> set t \<Longrightarrow> close_distance InLineComment (t @ NL # r) = map_option ((+) (Suc (length t))) (close_distance InCode r)"
proof (induction t)
  case Nil
  show ?case by (cases r) (simp_all add: map_option_case split: option.splits)
next
  case (Cons c t)
  then show ?case by (cases t; cases "close_distance InCode r") auto
qed

lemma read_block_comment:
  "\<not> sublist ''*/'' t \<Longrightarrow>
     close_distance InBlockComment (t @ ''*/'' @ r) = map_option ((+) (Suc (Suc (length t)))) (close_distance InCode r)"
proof (induction t)
  case Nil
  show ?case by (simp add: map_option_case split: option.splits)
next
  case (Cons c t)
  have "\<not> sublist ''*/'' t" using Cons.prems by (auto simp: sublist_Cons_right)
  moreover have "\<not> (c = CHR ''*'' \<and> take 1 t = ''/'')"
    using Cons.prems by (cases t) (auto simp: sublist_Cons_right)
  ultimately show ?case using Cons.IH by (cases t; cases "close_distance InCode r") auto
qed

lemma java_lexemeE:
  assumes "java_lexeme t"
  obtains q r where "q = SQ \<or> q = DQ" and "t = q # r" and "literal_rest q r"
  | r where "t = ''//'' @ r @ [NL]" and "NL \<notin> set r"
  | r where "t = ''/*'' @ r @ ''*/''" and "\<not> sublist ''*/'' r"
  | "t = [CHR ''%'', BSL, CHR ''>'']"
  using assms unfolding java_lexeme_def by metis

lemma read_lexeme:
  assumes "java_lexeme t"
  shows "close_distance InCode (t @ r) = map_option ((+) (length t)) (close_distance InCode r)"
  using assms
proof (cases rule: java_lexemeE)
  case (1 q u)
  obtain n cs where u: "u = n # cs" using literal_rest_nonempty [OF 1(3)] by (cases u) simp_all
  show ?thesis
  proof (cases "q = SQ")
    case True
    have "close_distance InCode (t @ r) = map_option Suc (close_distance InSingleQuotes (u @ r))"
      unfolding 1(2) u using True by simp
    also have "\<dots> = map_option Suc (map_option ((+) (length u)) (close_distance InCode r))"
      by (subst read_literal [OF 1(3)]) (simp_all add: True)
    finally show ?thesis using 1(2) by (cases "close_distance InCode r") simp_all
  next
    case False
    then have q: "q = DQ" using 1(1) by simp
    have "close_distance InCode (t @ r) = map_option Suc (close_distance InDoubleQuotes (u @ r))"
      unfolding 1(2) u using q by simp
    also have "\<dots> = map_option Suc (map_option ((+) (length u)) (close_distance InCode r))"
      by (subst read_literal [OF 1(3)]) (simp_all add: q)
    finally show ?thesis using 1(2) by (cases "close_distance InCode r") simp_all
  qed
next
  case (2 u)
  then show ?thesis using read_line_comment [of u r] by (cases "close_distance InCode r") simp_all
next
  case (3 u)
  then show ?thesis using read_block_comment [of u r] by (cases "close_distance InCode r") simp_all
next
  case 4
  then show ?thesis by (cases "close_distance InCode r") simp_all
qed

lemma found_literal:
  assumes "close_distance m xs = Some n" and m: "(m, q) = (InSingleQuotes, SQ) \<or> (m, q) = (InDoubleQuotes, DQ)"
  shows "\<exists>t r k. xs = t @ r \<and> literal_rest q t \<and> n = length t + k \<and> close_distance InCode r = Some k"
  using assms(1)
proof (induction xs arbitrary: n rule: length_induct)
  case (1 xs)
  obtain c xs' where "xs = c # xs'" using 1(2) by (cases xs) auto
  moreover obtain d cs where "xs' = d # cs" using 1(2) calculation by (cases xs') auto
  ultimately have xs: "xs = c # d # cs" by simp
  show ?case
  proof (cases "c = BSL")
    case True
    then obtain k where k: "close_distance m cs = Some k" "n = 2 + k"
      using 1(2) unfolding xs literal_step [OF m] by auto
    then obtain t r j where "cs = t @ r" "literal_rest q t" "k = length t + j" "close_distance InCode r = Some j"
      using 1(1) xs by (metis length_Cons less_Suc_eq)
    then show ?thesis using k True xs literal_escape [of q t d]
      by (intro exI [of _ "BSL # d # t"] exI [of _ r] exI [of _ j]) simp
  next
    case c: False
    show ?thesis
    proof (cases "c = q \<or> c = NL")
      case True
      then obtain k where "close_distance InCode (d # cs) = Some k" "n = Suc k"
        using 1(2) c unfolding xs literal_step [OF m] by auto
      then show ?thesis using xs literal_ends [OF True]
        by (intro exI [of _ "[c]"] exI [of _ "d # cs"] exI [of _ k]) simp
    next
      case False
      then obtain k where k: "close_distance m (d # cs) = Some k" "n = Suc k"
        using 1(2) c unfolding xs literal_step [OF m] by auto
      then obtain t r j where "d # cs = t @ r" "literal_rest q t" "k = length t + j" "close_distance InCode r = Some j"
        using 1(1) xs by (metis length_Cons lessI)
      then show ?thesis using k c False xs literal_char [of c q t]
        by (intro exI [of _ "c # t"] exI [of _ r] exI [of _ j]) simp
    qed
  qed
qed

lemma found_line_comment:
  "close_distance InLineComment xs = Some n \<Longrightarrow>
     \<exists>t r k. xs = t @ NL # r \<and> NL \<notin> set t \<and> n = Suc (length t) + k \<and> close_distance InCode r = Some k"
proof (induction xs arbitrary: n)
  case (Cons c xs)
  obtain d cs where xs: "xs = d # cs" using Cons.prems by (cases xs) auto
  show ?case
  proof (cases "c = NL")
    case True
    then obtain k where "close_distance InCode xs = Some k" "n = Suc k" using Cons.prems xs by auto
    then show ?thesis using True by (intro exI [of _ "[]"] exI [of _ xs] exI [of _ k]) simp
  next
    case False
    then obtain k where "close_distance InLineComment xs = Some k" "n = Suc k" using Cons.prems xs by auto
    then obtain t r j where "xs = t @ NL # r" "NL \<notin> set t" "k = Suc (length t) + j" "close_distance InCode r = Some j"
      using Cons.IH by blast
    then show ?thesis using False \<open>n = Suc k\<close> by (intro exI [of _ "c # t"] exI [of _ r] exI [of _ j]) simp
  qed
qed simp

lemma found_block_comment:
  "close_distance InBlockComment xs = Some n \<Longrightarrow>
     \<exists>t r k. xs = t @ ''*/'' @ r \<and> \<not> sublist ''*/'' t \<and> n = Suc (Suc (length t)) + k \<and> close_distance InCode r = Some k"
proof (induction xs arbitrary: n)
  case (Cons c xs)
  obtain d cs where xs: "xs = d # cs" using Cons.prems by (cases xs) auto
  show ?case
  proof (cases "c = CHR ''*'' \<and> d = CHR ''/''")
    case True
    then obtain k where "close_distance InCode cs = Some k" "n = 2 + k" using Cons.prems xs by auto
    then show ?thesis using True xs by (intro exI [of _ "[]"] exI [of _ cs] exI [of _ k]) simp
  next
    case False
    then obtain k where "close_distance InBlockComment xs = Some k" "n = Suc k" using Cons.prems xs by (auto split: if_splits)
    then obtain t r j where t: "xs = t @ ''*/'' @ r" "\<not> sublist ''*/'' t" "k = Suc (Suc (length t)) + j" "close_distance InCode r = Some j"
      using Cons.IH by blast
    moreover have "\<not> sublist ''*/'' (c # t)" using False t(1,2) xs by (cases t) (auto simp: sublist_Cons_right)
    ultimately show ?thesis using \<open>n = Suc k\<close> by (intro exI [of _ "c # t"] exI [of _ r] exI [of _ j]) simp
  qed
qed simp

lemma lexeme_beginsI:
  "lexeme_begins (SQ # r)" "lexeme_begins (DQ # r)" "lexeme_begins (CHR ''/'' # CHR ''/'' # r)"
  "lexeme_begins (CHR ''/'' # CHR ''*'' # r)" "lexeme_begins (CHR ''%'' # BSL # CHR ''>'' # r)"
  unfolding lexeme_begins_def by simp_all

lemma close_distance_plain:
  assumes "\<not> lexeme_begins (c # d # cs)" and "\<not> prefix ''%>'' (c # d # cs)"
  shows "close_distance InCode (c # d # cs) = map_option Suc (close_distance InCode (d # cs))"
proof -
  have l: "c \<noteq> SQ" "c \<noteq> DQ" "\<not> (c = CHR ''/'' \<and> d = CHR ''/'')" "\<not> (c = CHR ''/'' \<and> d = CHR ''*'')"
    using assms(1) lexeme_beginsI by blast+
  have l5: "\<not> (c = CHR ''%'' \<and> d = BSL \<and> cs \<noteq> [] \<and> hd cs = CHR ''>'')"
    using assms(1) lexeme_beginsI(5) [of "tl cs"] by (metis list.collapse)
  have "\<not> (c = CHR ''%'' \<and> d = CHR ''>'')" using assms(2) by auto
  then show ?thesis
    unfolding close_distance.simps(1) lex_mode.case if_not_P [OF l(3)] if_not_P [OF l(4)] if_not_P [OF l(1)]
      if_not_P [OF l(2)] if_not_P [OF l5] by (rule if_not_P)
qed

lemma close_distance_found: "code_ends s n \<Longrightarrow> close_distance InCode s = Some n"
proof (induction rule: code_ends.induct)
  case (code_lexeme t r n)
  then show ?case by (simp add: read_lexeme)
next
  case (code_char c r n)
  then obtain d cs where r: "r = d # cs" by (cases r) auto
  then show ?case using code_char close_distance_plain [of c d cs] by simp
qed simp

lemma close_distance_comment:
  "close_distance InCode (CHR ''/'' # CHR ''/'' # cs) = map_option ((+) 2) (close_distance InLineComment cs)"
  "close_distance InCode (CHR ''/'' # CHR ''*'' # cs) = map_option ((+) 2) (close_distance InBlockComment cs)"
  by simp_all

lemma close_distance_quote:
  "close_distance InCode (SQ # d # cs) = map_option Suc (close_distance InSingleQuotes (d # cs))"
  "close_distance InCode (DQ # d # cs) = map_option Suc (close_distance InDoubleQuotes (d # cs))"
  by simp_all

lemma close_distance_escape:
  "close_distance InCode (CHR ''%'' # BSL # CHR ''>'' # cs) = map_option ((+) 3) (close_distance InCode cs)"
  by simp

lemma lexeme_beginsE:
  assumes "lexeme_begins s"
  obtains r where "s = SQ # r" | r where "s = DQ # r" | r where "s = CHR ''/'' # CHR ''/'' # r"
  | r where "s = CHR ''/'' # CHR ''*'' # r" | r where "s = CHR ''%'' # BSL # CHR ''>'' # r"
  using assms unfolding lexeme_begins_def prefix_def by (elim bexE) auto

text \<open>A lexeme that begins at a place from which the end is found is complete, and the end is found after it.\<close>

lemma lexeme_found:
  assumes "lexeme_begins s" and "close_distance InCode s = Some n"
  shows "\<exists>t r k. java_lexeme t \<and> s = t @ r \<and> n = length t + k \<and> close_distance InCode r = Some k"
  using assms(1)
proof (cases rule: lexeme_beginsE)
  case (1 xs)
  obtain d cs where xs: "xs = d # cs" using assms(2) 1 by (cases xs) auto
  obtain k where k: "close_distance InSingleQuotes xs = Some k" "n = Suc k"
    using assms(2) unfolding 1 xs close_distance_quote by auto
  obtain t r j where "xs = t @ r" "literal_rest SQ t" "k = length t + j" "close_distance InCode r = Some j"
    using found_literal [OF k(1), of SQ] by auto
  then show ?thesis using 1 k by (intro exI [of _ "SQ # t"] exI [of _ r] exI [of _ j]) (simp add: java_lexeme_def)
next
  case (2 xs)
  obtain d cs where xs: "xs = d # cs" using assms(2) 2 by (cases xs) auto
  obtain k where k: "close_distance InDoubleQuotes xs = Some k" "n = Suc k"
    using assms(2) unfolding 2 xs close_distance_quote by auto
  obtain t r j where "xs = t @ r" "literal_rest DQ t" "k = length t + j" "close_distance InCode r = Some j"
    using found_literal [OF k(1), of DQ] by auto
  then show ?thesis using 2 k by (intro exI [of _ "DQ # t"] exI [of _ r] exI [of _ j]) (simp add: java_lexeme_def)
next
  case (3 xs)
  obtain k where k: "close_distance InLineComment xs = Some k" "n = 2 + k"
    using assms(2) unfolding 3 close_distance_comment by auto
  obtain t r j where "xs = t @ NL # r" "NL \<notin> set t" "k = Suc (length t) + j" "close_distance InCode r = Some j"
    using found_line_comment [OF k(1)] by blast
  then show ?thesis using 3 k
    by (intro exI [of _ "''//'' @ t @ [NL]"] exI [of _ r] exI [of _ j]) (auto simp: java_lexeme_def)
next
  case (4 xs)
  obtain k where k: "close_distance InBlockComment xs = Some k" "n = 2 + k"
    using assms(2) unfolding 4 close_distance_comment by auto
  obtain t r j where t: "xs = t @ ''*/'' @ r" "\<not> sublist ''*/'' t" "k = Suc (Suc (length t)) + j" "close_distance InCode r = Some j"
    using found_block_comment [OF k(1)] by blast
  have "java_lexeme (''/*'' @ t @ ''*/'')" unfolding java_lexeme_def using t(2) by blast
  then show ?thesis using 4 k t by (intro exI [of _ "''/*'' @ t @ ''*/''"] exI [of _ r] exI [of _ j]) simp
next
  case (5 xs)
  obtain k where k: "close_distance InCode xs = Some k" "n = 3 + k"
    using assms(2) unfolding 5 close_distance_escape by auto
  then show ?thesis using 5
    by (intro exI [of _ "[CHR ''%'', BSL, CHR ''>'']"] exI [of _ xs] exI [of _ k]) (simp add: java_lexeme_def)
qed

lemma close_distance_code_ends: "close_distance InCode s = Some n \<Longrightarrow> code_ends s n"
proof (induction s arbitrary: n rule: length_induct)
  case (1 s)
  consider "lexeme_begins s" | "\<not> lexeme_begins s" "prefix ''%>'' s" | "\<not> lexeme_begins s" "\<not> prefix ''%>'' s" by blast
  then show ?case
  proof cases
    case 1
    obtain t r k where t: "java_lexeme t" "s = t @ r" "n = length t + k" "close_distance InCode r = Some k"
      using lexeme_found [OF 1 "1.prems"] by blast
    then have "t \<noteq> []" by (auto simp: java_lexeme_def)
    then have "code_ends r k" using "1.IH" t by simp
    then show ?thesis using code_lexeme t by blast
  next
    case 2
    then obtain r where s: "s = CHR ''%'' # CHR ''>'' # r" by (auto simp: prefix_def)
    then have "n = 0" using "1.prems" by simp
    then show ?thesis using code_close [of r] s by simp
  next
    case 3
    obtain c xs where c: "s = c # xs" using "1.prems" by (cases s) auto
    obtain d cs where xs: "xs = d # cs" using "1.prems" c by (cases xs) auto
    have "map_option Suc (close_distance InCode xs) = Some n"
      using "1.prems" close_distance_plain [OF 3 [unfolded c xs]] unfolding c xs by (simp only:)
    then obtain k where k: "close_distance InCode xs = Some k" "n = Suc k" by auto
    then have "code_ends xs k" using "1.IH" c by simp
    then show ?thesis using code_char [of c xs k] 3 k(2) unfolding c by simp
  qed
qed

lemma code_ends_iff: "code_ends s n \<longleftrightarrow> close_distance InCode s = Some n"
  using close_distance_found close_distance_code_ends by blast

text \<open>An unescaped \<open>%>\<close> inside a Java comment or string does not end the scriptlet.\<close>

lemma close_distance_line_comment:
  "NL \<notin> set cs \<Longrightarrow> close_distance InLineComment cs = None"
proof (induction "InLineComment" cs rule: close_distance.induct)
  case (1 c n cs)
  then show ?case by auto
qed auto

section \<open>The regions are the text\<close>

lemma tiles_concat:
  "tiles a rs b \<Longrightarrow> b \<le> length s \<Longrightarrow>
     concat (map (\<lambda>r. js_slice s (rg_startOffset r) (rg_endOffset r)) rs) = js_slice s a b"
proof (induction rs arbitrary: a)
  case Nil
  then show ?case by (simp add: js_slice_def)
next
  case (Cons r rs)
  have "rg_endOffset r \<le> b" using Cons.prems tiles_le by auto
  with Cons js_slice_append [of a "rg_endOffset r" b s] show ?case by auto
qed

text \<open>The Java blocks keep the order of their regions and the bounds of their inner ranges.\<close>

lemma java_block_of_ok:
  assumes "java_block_of r = Some b" and "region_ok s r"
  shows "rg_startOffset r \<le> jb_start b \<and> jb_start b \<le> jb_end b \<and> jb_end b \<le> rg_endOffset r
    \<and> jb_end b \<le> length s \<and> (jb_end b = length s \<or> starts_with_at s ''%>'' (jb_end b))"
  using assms by (auto simp: region_ok_def split: region_kind.splits)

lemma java_blocks_of_tiles:
  "tiles a rs n \<Longrightarrow> \<forall>r\<in>set rs. region_ok s r \<Longrightarrow>
     sorted_wrt (\<lambda>a b. jb_end a \<le> jb_start b) (List.map_filter java_block_of rs)
   \<and> (\<forall>b\<in>set (List.map_filter java_block_of rs). a \<le> jb_start b)
   \<and> (\<forall>b\<in>set (List.map_filter java_block_of rs). jb_start b \<le> jb_end b
        \<and> jb_end b \<le> length s \<and> (jb_end b = length s \<or> starts_with_at s ''%>'' (jb_end b)))"
proof (induction rs arbitrary: a)
  case Nil
  then show ?case by (simp add: List.map_filter_def)
next
  case (Cons r rs)
  let ?M = "List.map_filter java_block_of rs"
  have "tiles (rg_endOffset r) rs n" "\<forall>r\<in>set rs. region_ok s r" using Cons.prems by simp_all
  note IH0 = Cons.IH [OF this]
  note IH = IH0 [THEN conjunct1] IH0 [THEN conjunct2, THEN conjunct1] IH0 [THEN conjunct2, THEN conjunct2]
  have a: "rg_startOffset r = a" "a < rg_endOffset r" using Cons.prems by simp_all
  have lo: "\<forall>b\<in>set ?M. a \<le> jb_start b" using IH(2) a(2) by fastforce
  show ?case
  proof (cases "java_block_of r")
    case None
    then have "List.map_filter java_block_of (r # rs) = ?M"
      by (simp only: List.map_filter_simps option.case)
    with IH lo show ?thesis by (simp only: simp_thms)
  next
    case (Some b)
    have b: "a \<le> jb_start b" "jb_start b \<le> jb_end b" "jb_end b \<le> rg_endOffset r" "jb_end b \<le> length s"
      "jb_end b = length s \<or> starts_with_at s ''%>'' (jb_end b)"
      using java_block_of_ok [OF Some, of s] Cons.prems(2) a by simp_all
    have m: "List.map_filter java_block_of (r # rs) = b # ?M"
      using Some by (simp only: List.map_filter_simps option.case)
    have "\<forall>q\<in>set ?M. jb_end b \<le> jb_start q" using IH(2) b(3) by fastforce
    with IH lo b show ?thesis unfolding m by (simp only: sorted_wrt.simps list.set ball_simps simp_thms)
  qed
qed

end
