(* ===== verification/Positions.thy ===== *)
theory Positions
  imports Prelude
begin

text \<open>
  Lines and columns of a text, shared by the JSP theories: what \<open>split('\n')\<close> gives for a
  concatenation, the line and column of an offset, and the way back.
\<close>

section \<open>Splitting a concatenation\<close>

definition join_nl :: "string list \<Rightarrow> string" where
  "join_nl ls = (case ls of [] \<Rightarrow> [] | l # r \<Rightarrow> l @ concat (map (\<lambda>x. NL # x) r))"

lemma split_nl_append:
  "split_nl (a @ b) = butlast (split_nl a) @ (last (split_nl a) @ hd (split_nl b)) # tl (split_nl b)"
proof (induction a)
  case Nil
  then show ?case by (cases "split_nl b") simp_all
next
  case (Cons c a)
  show ?case
  proof (cases "c = NL")
    case True
    with Cons show ?thesis by simp
  next
    case False
    obtain l ls where l: "split_nl a = l # ls" by (cases "split_nl a") simp_all
    with Cons False show ?thesis by (cases ls) simp_all
  qed
qed

lemma split_nl_single: "NL \<notin> set s \<Longrightarrow> split_nl s = [s]"
  by (induction s) auto

lemma split_nl_NL: "split_nl (a @ NL # b) = split_nl a @ split_nl b"
proof -
  have "split_nl (a @ NL # b) = butlast (split_nl a) @ last (split_nl a) # split_nl b"
    by (subst split_nl_append) simp
  then show ?thesis using append_butlast_last_id [of "split_nl a"] by simp
qed

lemma no_NL_in_line: "l \<in> set (split_nl s) \<Longrightarrow> NL \<notin> set l"
  by (induction s arbitrary: l) (fastforce split: list.splits if_splits)+

lemma join_nl_simps [simp]:
  "join_nl [l] = l" "join_nl (l # l' # ls) = l @ NL # join_nl (l' # ls)"
  by (simp_all add: join_nl_def)

lemma split_join: "ls \<noteq> [] \<Longrightarrow> split_nl (join_nl ls) = concat (map split_nl ls)"
proof (induction ls rule: induct_list012)
  case (3 l l' ls)
  then show ?case by (simp add: split_nl_NL)
qed simp_all

lemma split_join_lines: "ls \<noteq> [] \<Longrightarrow> \<forall>l\<in>set ls. NL \<notin> set l \<Longrightarrow> split_nl (join_nl ls) = ls"
  by (induction ls rule: induct_list012) (simp_all add: split_nl_single split_nl_NL)

lemma sum_split_nl: "sum_list (map (Suc \<circ> length) (split_nl s)) = Suc (length s)"
  by (induction s) (auto split: list.splits)

section \<open>The line and column of an offset\<close>

definition line_at :: "string \<Rightarrow> nat \<Rightarrow> nat" where
  "line_at s i = length (split_nl (take i s)) - 1"

definition col_at :: "string \<Rightarrow> nat \<Rightarrow> nat" where
  "col_at s i = length (last (split_nl (take i s)))"

definition line_start :: "string \<Rightarrow> nat \<Rightarrow> nat" where
  "line_start s l = sum_list (map (Suc \<circ> length) (take l (split_nl s)))"

lemma line_at_0 [simp]: "line_at s 0 = 0" and col_at_0 [simp]: "col_at s 0 = 0"
  by (simp_all add: line_at_def col_at_def)

text \<open>The lines of a text around the offset \<open>i\<close>.\<close>

lemma split_at:
  "split_nl s = butlast (split_nl (take i s)) @
     (last (split_nl (take i s)) @ hd (split_nl (drop i s))) # tl (split_nl (drop i s))"
  using split_nl_append [of "take i s" "drop i s"] by simp

lemma line_at_less: "line_at s i < length (split_nl s)"
  by (subst split_at [of s i]) (simp add: line_at_def)

lemma nth_line_at:
  "split_nl s ! line_at s i = last (split_nl (take i s)) @ hd (split_nl (drop i s))"
  by (subst split_at [of s i]) (simp add: line_at_def nth_append)

lemma col_at_le: "col_at s i \<le> length (split_nl s ! line_at s i)"
  by (simp add: nth_line_at col_at_def)

lemma char_at_line_col:
  assumes "i < length s" and "s ! i \<noteq> NL"
  shows "col_at s i < length (split_nl s ! line_at s i)"
    and "split_nl s ! line_at s i ! col_at s i = s ! i"
proof -
  obtain l ls where "split_nl (drop (Suc i) s) = l # ls" by (cases "split_nl (drop (Suc i) s)") simp_all
  with assms have "hd (split_nl (drop i s)) = s ! i # l"
    by (simp add: Cons_nth_drop_Suc [symmetric])
  then show "col_at s i < length (split_nl s ! line_at s i)"
    "split_nl s ! line_at s i ! col_at s i = s ! i"
    by (simp_all add: nth_line_at col_at_def)
qed

lemma line_start_at:
  assumes "i \<le> length s"
  shows "line_start s (line_at s i) + col_at s i = i"
proof -
  have "take (line_at s i) (split_nl s) = butlast (split_nl (take i s))"
    by (subst split_at [of s i]) (simp add: line_at_def)
  moreover have "sum_list (map (Suc \<circ> length) (butlast (split_nl (take i s)))) + col_at s i = i"
    using sum_split_nl [of "take i s"] assms
    by (cases "split_nl (take i s)" rule: rev_cases) (simp_all add: col_at_def)
  ultimately show ?thesis by (simp add: line_start_def)
qed

text \<open>Walking on: the position of \<open>i + k\<close> from those of \<open>i\<close> and of \<open>k\<close> in the rest.\<close>

lemma position_add:
  assumes "i \<le> length s"
  shows "line_at s (i + k) = line_at s i + line_at (drop i s) k"
    and "col_at s (i + k) = (if line_at (drop i s) k = 0 then col_at s i + col_at (drop i s) k
                             else col_at (drop i s) k)"
proof -
  let ?a = "split_nl (take i s)" and ?b = "split_nl (take k (drop i s))"
  have e: "split_nl (take (i + k) s) = butlast ?a @ (last ?a @ hd ?b) # tl ?b"
    by (simp add: take_add split_nl_append)
  obtain b bs where b: "?b = b # bs" by (cases ?b) simp_all
  have "0 < length ?a" by simp
  then show "line_at s (i + k) = line_at s i + line_at (drop i s) k"
    unfolding line_at_def e b by simp
  show "col_at s (i + k) = (if line_at (drop i s) k = 0 then col_at s i + col_at (drop i s) k
                             else col_at (drop i s) k)"
    unfolding line_at_def col_at_def e b by simp
qed

lemma position_take:
  "k \<le> n \<Longrightarrow> line_at (take n s) k = line_at s k" "k \<le> n \<Longrightarrow> col_at (take n s) k = col_at s k"
  by (simp_all add: line_at_def col_at_def min_def)

lemma line_at_mono: "i \<le> j \<Longrightarrow> j \<le> length s \<Longrightarrow> line_at s i \<le> line_at s j"
  using position_add(1) [of i s "j - i"] by simp

lemma length_join_nl: "ls \<noteq> [] \<Longrightarrow> Suc (length (join_nl ls)) = sum_list (map (Suc \<circ> length) ls)"
  by (induction ls rule: induct_list012) simp_all

section \<open>Positions are ordered as offsets are\<close>

definition pos_le :: "nat \<times> nat \<Rightarrow> nat \<times> nat \<Rightarrow> bool" where
  "pos_le p q \<longleftrightarrow> fst p < fst q \<or> fst p = fst q \<and> snd p \<le> snd q"

definition pos_at :: "string \<Rightarrow> nat \<Rightarrow> nat \<times> nat" where
  "pos_at s i = (line_at s i, col_at s i)"

lemma pos_at_le_iff:
  assumes "i \<le> length s" and "j \<le> length s"
  shows "pos_le (pos_at s i) (pos_at s j) \<longleftrightarrow> i \<le> j"
proof -
  have le: "pos_le (pos_at s i) (pos_at s j)" if "i \<le> j" "j \<le> length s" for i j
    using position_add [of i s "j - i"] that by (simp add: pos_le_def pos_at_def)
  have eq: "i = j" if "pos_at s i = pos_at s j" "i \<le> length s" "j \<le> length s" for i j
    using that by (metis prod.inject pos_at_def line_start_at)
  have anti: "p = q" if "pos_le p q" "pos_le q p" for p q
    using that by (cases p; cases q) (auto simp: pos_le_def)
  show ?thesis
  proof
    assume p: "pos_le (pos_at s i) (pos_at s j)"
    show "i \<le> j"
    proof (rule ccontr)
      assume "\<not> i \<le> j"
      with le [of j i] assms p eq [of i j] anti show False by fastforce
    qed
  qed (use le assms in blast)
qed

end
