(* ===== verification/JsRegex.thy ===== *)
theory JsRegex
  imports Prelude
begin

text \<open>
  JavaScript regular expressions as the sources use them: a backtracking matcher that returns
  the end positions and captures of all matches at an index in the order in which the engine
  tries them, so that the first one is the match; \<open>exec\<close> from \<open>lastIndex\<close>; and the loop over all
  matches of a \<open>g\<close> expression. \<open>ci\<close> is the \<open>i\<close> flag. With it \<open>trim\<close> and \<open>split\<close> on one unit.
\<close>

section \<open>The matcher\<close>

datatype regex =
    Empty
  | Chr char
  | OneOf string
  | NoneOf string
  | Space
  | Word
  | Boundary
  | AtStart
  | AtEnd
  | Then regex regex
  | Or regex regex
  | Star regex
  | Capture nat regex

type_synonym match_state = "nat \<times> (nat \<times> string) list"

definition same_char :: "bool \<Rightarrow> char \<Rightarrow> char \<Rightarrow> bool" where
  "same_char ci a b \<longleftrightarrow> (if ci then lower a = lower b else a = b)"

definition one_char :: "string \<Rightarrow> (char \<Rightarrow> bool) \<Rightarrow> match_state \<Rightarrow> match_state list" where
  "one_char s p st =
    (if fst st < length s \<and> p (s ! fst st) then [(Suc (fst st), snd st)] else [])"

text \<open>Greedy iteration; an iteration that consumes nothing is not repeated.\<close>

fun star_matches :: "(match_state \<Rightarrow> match_state list) \<Rightarrow> nat \<Rightarrow> match_state \<Rightarrow> match_state list" where
  "star_matches m 0 st = [st]"
| "star_matches m (Suc n) st =
     concat (map (\<lambda>u. if fst st < fst u then star_matches m n u else []) (m st)) @ [st]"

definition word_at :: "string \<Rightarrow> nat \<Rightarrow> bool" where
  "word_at s i \<longleftrightarrow> i < length s \<and> is_word_char (s ! i)"

primrec rmatch :: "bool \<Rightarrow> string \<Rightarrow> regex \<Rightarrow> match_state \<Rightarrow> match_state list" where
  "rmatch ci s Empty st = [st]"
| "rmatch ci s (Chr c) st = one_char s (same_char ci c) st"
| "rmatch ci s (OneOf cs) st = one_char s (\<lambda>c. list_ex (same_char ci c) cs) st"
| "rmatch ci s (NoneOf cs) st = one_char s (\<lambda>c. \<not> list_ex (same_char ci c) cs) st"
| "rmatch ci s Space st = one_char s is_js_space st"
| "rmatch ci s Word st = one_char s is_word_char st"
| "rmatch ci s Boundary st =
     (if (0 < fst st \<and> word_at s (fst st - 1)) \<noteq> word_at s (fst st) then [st] else [])"
| "rmatch ci s AtStart st = (if fst st = 0 then [st] else [])"
| "rmatch ci s AtEnd st = (if fst st = length s then [st] else [])"
| "rmatch ci s (Then a b) st = concat (map (rmatch ci s b) (rmatch ci s a st))"
| "rmatch ci s (Or a b) st = rmatch ci s a st @ rmatch ci s b st"
| "rmatch ci s (Star a) st = star_matches (rmatch ci s a) (length s - fst st) st"
| "rmatch ci s (Capture n a) st =
     map (\<lambda>u. (fst u, AList.update n (js_slice s (fst st) (fst u)) (snd u))) (rmatch ci s a st)"

definition Plus :: "regex \<Rightarrow> regex" where "Plus r = Then r (Star r)"

definition Opt :: "regex \<Rightarrow> regex" where "Opt r = Or r Empty"

definition re_seq :: "regex list \<Rightarrow> regex" where "re_seq rs = foldr Then rs Empty"

definition re_lit :: "string \<Rightarrow> regex" where "re_lit cs = re_seq (map Chr cs)"

section \<open>\<open>exec\<close>\<close>

text \<open>The start, the end and the captures of the first match at or after \<open>i\<close>.\<close>

definition exec :: "bool \<Rightarrow> regex \<Rightarrow> string \<Rightarrow> nat \<Rightarrow> (nat \<times> nat \<times> (nat \<times> string) list) option" where
  "exec ci r s i =
    (case find (\<lambda>j. rmatch ci s r (j, []) \<noteq> []) [i..<Suc (length s)] of
       None \<Rightarrow> None
     | Some j \<Rightarrow> Some (j, hd (rmatch ci s r (j, []))))"

lemma exec_Some: "exec ci r s i = Some (j, e, cs) \<Longrightarrow> i \<le> j \<and> j \<le> length s"
  by (auto simp: exec_def find_Some_iff nth_append less_Suc_eq_le split: option.splits simp del: upt_Suc)

text \<open>
  All matches from \<open>i\<close> on. An empty match would not move \<open>lastIndex\<close>: the loop would not
  end, and the list here stops; \<open>min_length\<close> shows that it does not happen.
\<close>

function exec_all :: "bool \<Rightarrow> regex \<Rightarrow> string \<Rightarrow> nat \<Rightarrow> (nat \<times> nat \<times> (nat \<times> string) list) list" where
  "exec_all ci r s i =
    (case exec ci r s i of
       None \<Rightarrow> []
     | Some m \<Rightarrow> m # (if i < fst (snd m) then exec_all ci r s (fst (snd m)) else []))"
  by pat_completeness auto
termination
  by (relation "measure (\<lambda>(_, _, s, i). Suc (length s) - i)") (auto dest: exec_Some)

declare exec_all.simps [simp del]

definition capture :: "nat \<Rightarrow> nat \<times> nat \<times> (nat \<times> string) list \<Rightarrow> string" where
  "capture n m = (case map_of (snd (snd m)) n of Some t \<Rightarrow> t | None \<Rightarrow> [])"

section \<open>Strings\<close>

definition trim :: "string \<Rightarrow> string" where
  "trim s = rev (dropWhile is_js_space (rev (dropWhile is_js_space s)))"

fun split_on :: "'a \<Rightarrow> 'a list \<Rightarrow> 'a list list" where
  "split_on d [] = [[]]"
| "split_on d (c # cs) =
     (if c = d then [] # split_on d cs
      else (case split_on d cs of [] \<Rightarrow> [[c]] | l # ls \<Rightarrow> (c # l) # ls))"

lemma split_on_not_Nil [simp]: "split_on d s \<noteq> []"
  by (induction s) (auto split: list.splits)

fun join_with :: "'a list \<Rightarrow> 'a list list \<Rightarrow> 'a list" where
  "join_with sep [] = []"
| "join_with sep [s] = s"
| "join_with sep (s # t # ss) = s @ sep @ join_with sep (t # ss)"

abbreviation slashes :: "string \<Rightarrow> string" where
  "slashes \<equiv> map (\<lambda>c. if c = BSL then CHR ''/'' else c)"

text \<open>\<open>s.lastIndexOf(p)\<close>.\<close>

definition last_index_of :: "string \<Rightarrow> string \<Rightarrow> nat option" where
  "last_index_of s p = find (starts_with_at s p) (rev [0..<Suc (length s)])"

definition ends_with :: "string \<Rightarrow> string \<Rightarrow> bool" where
  "ends_with s p \<longleftrightarrow> length p \<le> length s \<and> drop (length s - length p) s = p"

section \<open>Facts\<close>

lemma one_char_mem: "u \<in> set (one_char s p st) \<Longrightarrow> fst u = Suc (fst st) \<and> fst u \<le> length s"
  by (auto simp: one_char_def split: if_splits)

lemma star_matches_mem:
  assumes "\<And>st u. fst st \<le> n \<Longrightarrow> u \<in> set (m st) \<Longrightarrow> fst st \<le> fst u \<and> fst u \<le> n"
  shows "fst st \<le> n \<Longrightarrow> u \<in> set (star_matches m k st) \<Longrightarrow> fst st \<le> fst u \<and> fst u \<le> n"
proof (induction k arbitrary: st)
  case (Suc k)
  then consider "u = st" | v where "v \<in> set (m st)" "u \<in> set (star_matches m k v)"
    by (auto split: if_splits)
  then show ?case
  proof cases
    case 2
    with assms [OF Suc.prems(1), of v] Suc.IH [of v] show ?thesis by auto
  qed (use Suc.prems in simp)
qed simp

text \<open>The shortest text an expression can match.\<close>

primrec min_length :: "regex \<Rightarrow> nat" where
  "min_length Empty = 0"
| "min_length (Chr c) = 1"
| "min_length (OneOf cs) = 1"
| "min_length (NoneOf cs) = 1"
| "min_length Space = 1"
| "min_length Word = 1"
| "min_length Boundary = 0"
| "min_length AtStart = 0"
| "min_length AtEnd = 0"
| "min_length (Then a b) = min_length a + min_length b"
| "min_length (Or a b) = min (min_length a) (min_length b)"
| "min_length (Star a) = 0"
| "min_length (Capture n a) = min_length a"

lemma rmatch_bounds:
  "fst st \<le> length s \<Longrightarrow> u \<in> set (rmatch ci s r st) \<Longrightarrow>
     fst st + min_length r \<le> fst u \<and> fst u \<le> length s"
proof (induction r arbitrary: st u)
  case (Then a b)
  from Then.prems(2) obtain v where v: "v \<in> set (rmatch ci s a st)" "u \<in> set (rmatch ci s b v)" by auto
  with Then.IH(1) [OF Then.prems(1) v(1)] Then.IH(2) [of v u] show ?case by simp
next
  case (Or a b)
  from Or.prems(2) have "u \<in> set (rmatch ci s a st) \<or> u \<in> set (rmatch ci s b st)" by simp
  with Or.IH(1) [OF Or.prems(1), of u] Or.IH(2) [OF Or.prems(1), of u] show ?case by (simp, linarith)
next
  case (Star a)
  have "fst v \<le> fst w \<and> fst w \<le> length s"
    if "fst v \<le> length s" "w \<in> set (rmatch ci s a v)" for v w
    using Star.IH [OF that] by simp
  from star_matches_mem [of "length s" "rmatch ci s a", OF this] Star.prems show ?case by simp
next
  case (Capture n a)
  from Capture.prems(2) obtain v where "v \<in> set (rmatch ci s a st)" "fst u = fst v" by auto
  with Capture.IH [OF Capture.prems(1), of v] show ?case by simp
qed (auto dest: one_char_mem split: if_splits)

lemma exec_mem:
  assumes "exec ci r s i = Some (j, e, cs)"
  shows "(e, cs) \<in> set (rmatch ci s r (j, []))"
proof -
  from assms have "rmatch ci s r (j, []) \<noteq> []" "(e, cs) = hd (rmatch ci s r (j, []))"
    by (auto simp: exec_def find_Some_iff split: option.splits simp del: upt_Suc)
  then show ?thesis by simp
qed

lemma exec_bounds:
  assumes "exec ci r s i = Some (j, e, cs)"
  shows "i \<le> j" and "j + min_length r \<le> e" and "e \<le> length s"
proof -
  have j: "i \<le> j \<and> j \<le> length s" by (rule exec_Some [OF assms])
  from rmatch_bounds [OF _ exec_mem [OF assms]] j show "i \<le> j" "j + min_length r \<le> e" "e \<le> length s" by auto
qed

text \<open>A search with an expression that matches no empty text goes on after every match.\<close>

lemma exec_all_step:
  assumes "0 < min_length r" and "exec ci r s i = Some (j, e, cs)"
  shows "exec_all ci r s i = (j, e, cs) # exec_all ci r s e"
  using exec_bounds [OF assms(2)] assms by (subst exec_all.simps) simp

lemma exec_all_bounds:
  assumes "0 < min_length r"
  shows "(j, e, cs) \<in> set (exec_all ci r s i) \<Longrightarrow> i \<le> j \<and> j < e \<and> e \<le> length s"
proof (induction "Suc (length s) - i" arbitrary: i rule: less_induct)
  case less
  show ?case
  proof (cases "exec ci r s i")
    case None
    with less.prems show ?thesis by (simp add: exec_all.simps [of ci r s i])
  next
    case (Some m)
    obtain j' e' cs' where m: "m = (j', e', cs')" by (cases m)
    have e: "i \<le> j'" "j' < e'" "e' \<le> length s" using exec_bounds [OF Some [unfolded m]] assms by auto
    from less.prems exec_all_step [OF assms Some [unfolded m]]
    consider "(j, e, cs) = (j', e', cs')" | "(j, e, cs) \<in> set (exec_all ci r s e')" by auto
    then show ?thesis
    proof cases
      case 2
      with less.hyps [of e'] e have "e' \<le> j \<and> j < e \<and> e \<le> length s" by linarith
      with e show ?thesis by linarith
    qed (use e in simp)
  qed
qed

lemma exec_all_sorted:
  assumes "0 < min_length r"
  shows "sorted_wrt (\<lambda>a b. fst (snd a) \<le> fst b) (exec_all ci r s i)"
proof (induction "Suc (length s) - i" arbitrary: i rule: less_induct)
  case less
  show ?case
  proof (cases "exec ci r s i")
    case None
    then show ?thesis by (simp add: exec_all.simps [of ci r s i])
  next
    case (Some m)
    obtain j e cs where m: "m = (j, e, cs)" by (cases m)
    have e: "i \<le> j" "j < e" "e \<le> length s" using exec_bounds [OF Some [unfolded m]] assms by auto
    with less [of e] exec_all_step [OF assms Some [unfolded m]] show ?thesis
      by (auto dest: exec_all_bounds [OF assms])
  qed
qed

lemma split_on_no: "l \<in> set (split_on d s) \<Longrightarrow> d \<notin> set l"
  by (induction s arbitrary: l) (fastforce split: list.splits if_splits)+

lemma set_split_on: "l \<in> set (split_on d s) \<Longrightarrow> set l \<subseteq> set s"
  by (induction s arbitrary: l) (fastforce split: list.splits if_splits)+

lemma ends_with_iff: "ends_with s p \<longleftrightarrow> (\<exists>x. s = x @ p)"
proof
  assume "ends_with s p"
  then have "s = take (length s - length p) s @ p"
    unfolding ends_with_def by (metis append_take_drop_id)
  then show "\<exists>x. s = x @ p" by blast
qed (auto simp: ends_with_def)

lemma set_trim: "set (trim s) \<subseteq> set s"
  unfolding trim_def by (auto dest!: set_dropWhileD)

lemma trim_trim [simp]: "trim (trim s) = trim s"
proof -
  have drop: "dropWhile P (rev (dropWhile P (rev (dropWhile P xs)))) = rev (dropWhile P (rev (dropWhile P xs)))" for P :: "char \<Rightarrow> bool" and xs
  proof (cases "dropWhile P (rev (dropWhile P xs)) = []")
    case False
    then have "rev (dropWhile P (rev (dropWhile P xs))) \<noteq> []" by simp
    moreover have "hd (rev (dropWhile P (rev (dropWhile P xs)))) = hd (dropWhile P xs)"
    proof -
      have "\<exists>ys. rev (dropWhile P xs) = ys @ dropWhile P (rev (dropWhile P xs))" by (metis takeWhile_dropWhile_id)
      then obtain ys where "dropWhile P xs = rev (dropWhile P (rev (dropWhile P xs))) @ rev ys"
        by (metis rev_append rev_rev_ident)
      then show ?thesis using calculation by (metis hd_append2)
    qed
    moreover have "\<not> P (hd (dropWhile P xs))" using False by (metis dropWhile.simps(1) hd_dropWhile rev.simps(1))
    ultimately show ?thesis by (metis dropWhile_eq_self_iff)
  qed (simp only: rev.simps dropWhile.simps)
  show ?thesis unfolding trim_def drop by simp
qed

end
