(* ===== verification/JspJavaNav.thy ===== *)
theory JspJavaNav
  imports RegionScanner Positions JsRegex
begin

text \<open>
  \<open>jsp-extension/src/browser/jsp-java-nav.ts\<close>: the parser of the JSP tools. It finds the Java
  blocks of a page, its imports and the word at an offset, and converts offsets and positions.
  \<open>-1\<close> and \<open>null\<close> are \<open>None\<close>.
\<close>

section \<open>The end of a scriptlet\<close>

function closing_loop :: "string \<Rightarrow> nat \<Rightarrow> bool \<Rightarrow> bool \<Rightarrow> bool \<Rightarrow> bool \<Rightarrow> nat option" where
  "closing_loop content i inSingle inDouble inLineComment inBlockComment =
    (if i + 1 < length content then
       let c = content ! i; n = content ! (i + 1) in
       if inLineComment then
         closing_loop content (i + 1) inSingle inDouble (c \<noteq> NL) inBlockComment
       else if inBlockComment then
         (if c = CHR ''*'' \<and> n = CHR ''/'' then
            closing_loop content (i + 2) inSingle inDouble inLineComment False
          else closing_loop content (i + 1) inSingle inDouble inLineComment inBlockComment)
       else if inSingle then
         (if c = BSL then closing_loop content (i + 2) inSingle inDouble inLineComment inBlockComment
          else closing_loop content (i + 1) (c \<noteq> SQ) inDouble inLineComment inBlockComment)
       else if inDouble then
         (if c = BSL then closing_loop content (i + 2) inSingle inDouble inLineComment inBlockComment
          else closing_loop content (i + 1) inSingle (c \<noteq> DQ) inLineComment inBlockComment)
       else if c = CHR ''/'' \<and> n = CHR ''/'' then
         closing_loop content (i + 2) inSingle inDouble True inBlockComment
       else if c = CHR ''/'' \<and> n = CHR ''*'' then
         closing_loop content (i + 2) inSingle inDouble inLineComment True
       else if c = SQ then closing_loop content (i + 1) True inDouble inLineComment inBlockComment
       else if c = DQ then closing_loop content (i + 1) inSingle True inLineComment inBlockComment
       else if c = CHR ''%'' \<and> n = CHR ''>'' then Some i
       else closing_loop content (i + 1) inSingle inDouble inLineComment inBlockComment
     else None)"
  by pat_completeness auto
termination
  by (relation "measure (\<lambda>(content, i, _). length content - i)") auto

declare closing_loop.simps [simp del]

definition findClosingScriptlet :: "string \<Rightarrow> nat \<Rightarrow> nat option" where
  "findClosingScriptlet content from = closing_loop content from False False False False"

lemma closing_loop_Some:
  "closing_loop content i a b c d = Some j \<Longrightarrow> i \<le> j \<and> starts_with_at content ''%>'' j"
proof (induction i arbitrary: a b c d rule: index_induct [where n = "length content"])
  case (step i)
  have IH: "k \<le> j \<and> starts_with_at content ''%>'' j"
    if "closing_loop content k a b c d = Some j" "i < k" "i < length content" for k a b c d
    using step.IH that by blast
  show ?case
    using step.prems
    by (subst (asm) closing_loop.simps) (auto simp: Let_def split: if_splits dest: IH)
qed

text \<open>The two scriptlet searches of the repository agree on a line without \<open>%\>\<close>.\<close>

lemma closing_loop_scanner:
  assumes "NL \<notin> set content" and "\<And>k. \<not> starts_with_at content [CHR ''%'', BSL, CHR ''>''] k"
  shows "closing_loop content i a b c d = scriptlet_close_loop content i a b c d"
proof (induction i arbitrary: a b c d rule: index_induct [where n = "length content"])
  case (step i)
  show ?case
  proof (cases "i + 1 < length content")
    case True
    have IH: "closing_loop content k a b c d = scriptlet_close_loop content k a b c d"
      if "i < k" for k a b c d
      using step.IH [OF that] True by simp
    have "content ! i \<noteq> NL" using True assms(1) by (metis Suc_eq_plus1 Suc_lessD nth_mem)
    moreover have "\<not> (content ! i = CHR ''%'' \<and> content ! (i + 1) = BSL
        \<and> i + 2 < length content \<and> content ! (i + 2) = CHR ''>'')"
      using assms(2) [of i] by auto
    ultimately show ?thesis
      using True
      by (subst closing_loop.simps, subst scriptlet_close_loop.simps) (auto simp: Let_def IH)
  next
    case False
    then show ?thesis by (simp add: closing_loop.simps [of content i] scriptlet_close_loop.simps [of content i])
  qed
qed

section \<open>The Java blocks\<close>

datatype nav_kind = NScriptlet | NExpression | NDeclaration | NDirective

record nav_block =
  nb_start :: nat
  nb_end :: nat
  nb_kind :: nav_kind

definition nav_opener :: "string \<Rightarrow> nat \<Rightarrow> nav_kind \<times> nat" where
  "nav_opener content opn =
    (let marker = char_at content (opn + 2) in
     if marker = Some (CHR ''!'') then (NDeclaration, opn + 3)
     else if marker = Some (CHR ''='') then (NExpression, opn + 3)
     else if marker = Some (CHR ''@'') then (NDirective, opn + 3)
     else (NScriptlet, opn + 2))"

lemma nav_opener_cases:
  obtains k where "nav_opener content opn = (k, opn + (if k = NScriptlet then 2 else 3))"
proof -
  have "snd (nav_opener content opn) = opn + (if fst (nav_opener content opn) = NScriptlet then 2 else 3)"
    by (simp add: nav_opener_def Let_def)
  with that show thesis by (metis prod.collapse)
qed

lemma nav_opener_start: "opn + 2 \<le> snd (nav_opener content opn)"
  by (simp add: nav_opener_def Let_def)

function find_blocks_loop :: "string \<Rightarrow> nat \<Rightarrow> nav_block list" where
  "find_blocks_loop content i =
    (if i < length content then
       case index_of content ''<%'' i of
         None \<Rightarrow> []
       | Some opn \<Rightarrow>
           if starts_with_at content ''<%--'' opn then
             (case index_of content ''--%>'' (opn + 4) of
                None \<Rightarrow> []
              | Some closeComment \<Rightarrow> find_blocks_loop content (closeComment + 4))
           else
             (case findClosingScriptlet content (snd (nav_opener content opn)) of
                None \<Rightarrow> []
              | Some closeIdx \<Rightarrow>
                  \<lparr> nb_start = snd (nav_opener content opn), nb_end = closeIdx,
                    nb_kind = fst (nav_opener content opn) \<rparr> # find_blocks_loop content (closeIdx + 2))
     else [])"
  by pat_completeness auto
termination
proof (relation "measure (\<lambda>(content, i). length content - i)", goal_cases)
  case (3 content i opn closeIdx)
  then have "i \<le> opn" "snd (nav_opener content opn) \<le> closeIdx"
    by (auto simp: findClosingScriptlet_def dest: index_of_Some closing_loop_Some)
  with 3 nav_opener_start [of opn content] show ?case by simp
qed (auto dest!: index_of_bounds)

declare find_blocks_loop.simps [simp del]

definition findJavaBlocks :: "string \<Rightarrow> nav_block list" where
  "findJavaBlocks content = sort_key nb_start (find_blocks_loop content 0)"

definition block_ok :: "string \<Rightarrow> nat \<Rightarrow> nav_block \<Rightarrow> bool" where
  "block_ok content i b \<longleftrightarrow>
     i + 2 \<le> nb_start b \<and> nb_start b \<le> nb_end b \<and> starts_with_at content ''%>'' (nb_end b)
   \<and> (let opn = nb_start b - (if nb_kind b = NScriptlet then 2 else 3)
      in starts_with_at content ''<%'' opn \<and> nav_opener content opn = (nb_kind b, nb_start b))"

lemma block_ok_mono: "block_ok content i b \<Longrightarrow> j \<le> i \<Longrightarrow> block_ok content j b"
  by (simp add: block_ok_def)

lemma find_blocks_ok:
  "(\<forall>b\<in>set (find_blocks_loop content i). block_ok content i b)
   \<and> sorted_wrt (\<lambda>a b. nb_end a + 4 \<le> nb_start b) (find_blocks_loop content i)"
proof (induction content i rule: find_blocks_loop.induct)
  case (1 content i)
  let ?r = "find_blocks_loop content"
  consider (stop) "?r i = []"
    | (comment) opn e where "i < length content" "index_of content ''<%'' i = Some opn"
        "starts_with_at content ''<%--'' opn" "index_of content ''--%>'' (opn + 4) = Some e"
        "?r i = ?r (e + 4)"
    | (block) opn e where "i < length content" "index_of content ''<%'' i = Some opn"
        "\<not> starts_with_at content ''<%--'' opn"
        "findClosingScriptlet content (snd (nav_opener content opn)) = Some e"
        "?r i = \<lparr> nb_start = snd (nav_opener content opn), nb_end = e, nb_kind = fst (nav_opener content opn) \<rparr>
           # ?r (e + 2)"
    using find_blocks_loop.simps [of content i] by (auto split: if_splits option.splits)
  then show ?case
  proof cases
    case comment
    then have "i \<le> e + 4" by (auto dest!: index_of_bounds)
    with comment "1.IH"(1) [OF comment(1-4)] show ?thesis by (auto intro: block_ok_mono)
  next
    case block
    note IH = "1.IH"(2) [OF block(1-4)]
    have o: "i \<le> opn" "starts_with_at content ''<%'' opn" using index_of_Some [OF block(2)] by auto
    have e: "snd (nav_opener content opn) \<le> e" "starts_with_at content ''%>'' e"
      using block(4) closing_loop_Some by (auto simp: findClosingScriptlet_def)
    have "nb_start b \<ge> e + 4" if "b \<in> set (?r (e + 2))" for b
      using IH that by (auto simp: block_ok_def)
    moreover have "i \<le> e + 2" using o e nav_opener_start [of opn content] by simp
    moreover have "block_ok content i \<lparr> nb_start = snd (nav_opener content opn), nb_end = e,
        nb_kind = fst (nav_opener content opn) \<rparr>"
      using o e by (cases rule: nav_opener_cases [of content opn]) (simp add: block_ok_def)
    ultimately show ?thesis using IH block(5) by (auto intro: block_ok_mono)
  qed simp
qed

text \<open>The blocks are found in order: the sort changes nothing.\<close>

lemma findJavaBlocks_loop: "findJavaBlocks content = find_blocks_loop content 0"
proof -
  have "sorted_wrt (\<lambda>a b. nb_start a \<le> nb_start b) (find_blocks_loop content 0)"
    using find_blocks_ok [of content 0]
    by (auto elim!: sorted_wrt_mono_rel [rotated] simp: block_ok_def)
  then show ?thesis
    by (simp add: findJavaBlocks_def sorted_wrt_map sort_key_id_if_sorted)
qed

definition findBlockAt :: "nav_block list \<Rightarrow> nat \<Rightarrow> nav_block option" where
  "findBlockAt blocks offset = find (\<lambda>b. nb_start b \<le> offset \<and> offset < nb_end b) blocks"

section \<open>Imports\<close>

abbreviation quotes :: string where "quotes \<equiv> [DQ, SQ]"

text \<open>\<open>/<%@\s+page\s+[^%]*\bimport\s*=\s*"([^"]*)"[^%]*%>/gi\<close>\<close>

definition importRegex :: "string \<Rightarrow> regex" where
  "importRegex q = re_seq
    [re_lit ''<%@'', Plus Space, re_lit ''page'', Plus Space, Star (NoneOf ''%''), Boundary,
     re_lit ''import'', Star Space, Chr (CHR ''=''), Star Space, OneOf q,
     Capture 1 (Star (NoneOf q)), OneOf q, Star (NoneOf ''%''), re_lit ''%>'']"

definition import_item :: "(string, string) jsmap \<Rightarrow> string \<Rightarrow> (string, string) jsmap" where
  "import_item imports cls =
    (let fqn = trim cls; simple = last (split_on (CHR ''.'') fqn)
     in if fqn = [] \<or> simple = [] \<or> jm_get imports simple \<noteq> None then imports
        else jm_set simple fqn imports)"

definition parseImports :: "string \<Rightarrow> (string, string) jsmap" where
  "parseImports content =
    foldl import_item [] (concat (map (\<lambda>m. split_on (CHR '','') (capture 1 m))
      (exec_all True (importRegex [DQ]) content 0)))"

lemma parseImports_ok:
  "distinct (jm_keys (parseImports content))
   \<and> (\<forall>simple fqn. jm_get (parseImports content) simple = Some fqn \<longrightarrow>
        simple = last (split_on (CHR ''.'') fqn) \<and> simple \<noteq> [])"
proof -
  define ok where "ok m \<longleftrightarrow> distinct (jm_keys m)
    \<and> (\<forall>simple fqn. jm_get m simple = Some fqn \<longrightarrow> simple = last (split_on (CHR ''.'') fqn) \<and> simple \<noteq> [])"
    for m :: "(string, string) jsmap"
  have "ok (import_item m cls)" if "ok m" for m cls
    using that by (simp add: import_item_def Let_def ok_def distinct_jm_set del: map_of_eq_Some_iff)
  then have "ok (foldl import_item m xs)" if "ok m" for m xs
    using that by (induction xs arbitrary: m) simp_all
  from this [of "[]"] show ?thesis by (simp add: parseImports_def ok_def)
qed

section \<open>Words and positions\<close>

definition isJavaIdentChar :: "char \<Rightarrow> bool" where
  "isJavaIdentChar c \<longleftrightarrow>
    (let code = (of_char c :: nat)
     in 0x41 \<le> code \<and> code \<le> 0x5a \<or> 0x61 \<le> code \<and> code \<le> 0x7a \<or> 0x30 \<le> code \<and> code \<le> 0x39
      \<or> code = 0x5f \<or> code = 0x24)"

fun word_start :: "string \<Rightarrow> nat \<Rightarrow> nat" where
  "word_start content 0 = 0"
| "word_start content (Suc start) =
     (if isJavaIdentChar (content ! start) then word_start content start else Suc start)"

function ident_end :: "string \<Rightarrow> nat \<Rightarrow> nat" where
  "ident_end content e =
    (if e < length content \<and> isJavaIdentChar (content ! e) then ident_end content (e + 1) else e)"
  by pat_completeness auto
termination
  by (relation "measure (\<lambda>(content, e). length content - e)") auto

declare ident_end.simps [simp del]

definition getWordAt :: "string \<Rightarrow> int \<Rightarrow> (string \<times> nat \<times> nat) option" where
  "getWordAt content offset =
    (if offset < 0 \<or> int (length content) \<le> offset then None
     else if \<not> isJavaIdentChar (content ! nat offset) then None
     else
       let start = word_start content (nat offset);
           e = ident_end content (nat offset);
           word = js_slice content start e
       in if word = [] then None else Some (word, start, e))"

definition nav_positionToOffset :: "string \<Rightarrow> nat \<Rightarrow> nat \<Rightarrow> nat" where
  "nav_positionToOffset content line column =
    foldl (\<lambda>offset l. offset + length l + 1) 0 (take line (split_nl content)) + column"

definition offsetToPosition :: "string \<Rightarrow> int \<Rightarrow> nat \<times> nat" where
  "offsetToPosition content offset =
    (let safe = max 0 (min offset (int (length content)));
         parts = split_nl (take (nat safe) content)
     in (length parts - 1, length (last parts)))"

lemma offsetToPosition_at:
  "i \<le> length content \<Longrightarrow> offsetToPosition content (int i) = (line_at content i, col_at content i)"
  by (simp add: offsetToPosition_def line_at_def col_at_def Let_def)

lemma foldl_lines: "foldl (\<lambda>offset l. offset + length l + 1) k ls = k + sum_list (map (Suc \<circ> length) ls)"
  by (induction ls arbitrary: k) simp_all

lemma nav_positionToOffset_start: "nav_positionToOffset content l c = line_start content l + c"
  by (simp only: nav_positionToOffset_def foldl_lines line_start_def)

lemma word_start_ok:
  "word_start s i \<le> i \<and> (\<forall>k. word_start s i \<le> k \<and> k < i \<longrightarrow> isJavaIdentChar (s ! k))
   \<and> (0 < word_start s i \<longrightarrow> \<not> isJavaIdentChar (s ! (word_start s i - 1)))"
  by (induction i) (auto simp: less_Suc_eq)

lemma ident_end_ok:
  "i \<le> length s \<Longrightarrow> i \<le> ident_end s i \<and> ident_end s i \<le> length s
   \<and> (\<forall>k. i \<le> k \<and> k < ident_end s i \<longrightarrow> isJavaIdentChar (s ! k))
   \<and> (ident_end s i < length s \<longrightarrow> \<not> isJavaIdentChar (s ! ident_end s i))"
proof (induction s i rule: ident_end.induct)
  case (1 s i)
  show ?case
  proof (cases "i < length s \<and> isJavaIdentChar (s ! i)")
    case True
    then have "ident_end s i = ident_end s (i + 1)" by (simp add: ident_end.simps [of s i])
    moreover have "isJavaIdentChar (s ! k)" if "i \<le> k" "k < ident_end s (i + 1)" for k
      using that 1 True by (cases "k = i") simp_all
    ultimately show ?thesis using 1 True by simp
  next
    case False
    with 1 show ?thesis by (auto simp: ident_end.simps [of s i])
  qed
qed

end
