(* ===== verification/JspVirtualJava.thy ===== *)
theory JspVirtualJava
  imports JspJavaNav
begin

text \<open>
  \<open>jsp-extension/src/browser/jsp-virtual-java.ts\<close>: the virtual Java file around one block of a
  page, its URI, and the positions of the block in it. Numbers stay below the precision of a
  double: \<open>parseInt\<close> gives the integer its digits denote.
\<close>

section \<open>Virtual URIs\<close>

definition JSP_VIRTUAL_URI_PREFIX :: string where
  "JSP_VIRTUAL_URI_PREFIX = ''jsp-scriptlet:''"

definition digit :: "nat \<Rightarrow> char" where
  "digit n = char_of (48 + n)"

fun decimal :: "nat \<Rightarrow> string" where
  "decimal n = (if n < 10 then [digit n] else decimal (n div 10) @ [digit (n mod 10)])"

declare decimal.simps [simp del]

definition digits_value :: "string \<Rightarrow> nat" where
  "digits_value ds = foldl (\<lambda>v c. v * 10 + (of_char c - 48)) 0 ds"

text \<open>\<open>Number.parseInt(s, 10)\<close>: \<open>None\<close> is \<open>NaN\<close>.\<close>

definition parseInt10 :: "string \<Rightarrow> int option" where
  "parseInt10 s =
    (let t = dropWhile is_js_space s;
         neg = (t \<noteq> [] \<and> hd t = CHR ''-'');
         u = (if t \<noteq> [] \<and> (hd t = CHR ''-'' \<or> hd t = CHR ''+'') then tl t else t);
         ds = takeWhile is_digit u
     in if ds = [] then None else Some ((if neg then -1 else 1) * int (digits_value ds)))"

definition virtualUriForBlock :: "string \<Rightarrow> nat \<Rightarrow> string" where
  "virtualUriForBlock jspUri blockIndex =
    JSP_VIRTUAL_URI_PREFIX @ ''//'' @ jspUri @ ''#block'' @ decimal blockIndex"

definition virtualUriForPage :: "string \<Rightarrow> string" where
  "virtualUriForPage jspUri = JSP_VIRTUAL_URI_PREFIX @ ''//'' @ jspUri @ ''#page''"

record parsed_uri =
  pu_jspUri :: string
  pu_blockIndex :: "int option"
  pu_isPage :: bool

definition parseVirtualUri :: "string \<Rightarrow> parsed_uri option" where
  "parseVirtualUri virtualUri =
    (if \<not> starts_with_at virtualUri (JSP_VIRTUAL_URI_PREFIX @ ''//'') 0 then None
     else
       let rest = drop (length JSP_VIRTUAL_URI_PREFIX + 2) virtualUri in
       if ends_with rest ''#page'' then
         Some \<lparr> pu_jspUri = take (length rest - length ''#page'') rest, pu_blockIndex = None, pu_isPage = True \<rparr>
       else
         (case last_index_of rest ''#block'' of
            None \<Rightarrow> None
          | Some hashIdx \<Rightarrow>
              (case parseInt10 (drop (hashIdx + length ''#block'') rest) of
                 None \<Rightarrow> None
               | Some n \<Rightarrow>
                   Some \<lparr> pu_jspUri = take hashIdx rest, pu_blockIndex = Some n, pu_isPage = False \<rparr>)))"

section \<open>The virtual file\<close>

datatype virtual_kind = VScriptlet | VExpression | VDeclaration

definition JSP_EXPRESSION_PREFIX :: string where
  "JSP_EXPRESSION_PREFIX = ''Object __expr = ''"

definition IMPLICIT_FIELDS :: "string list" where
  "IMPLICIT_FIELDS =
    [''javax.servlet.http.HttpServletRequest request;'',
     ''javax.servlet.http.HttpServletResponse response;'',
     ''javax.servlet.jsp.JspWriter out;'',
     ''javax.servlet.http.HttpSession session;'',
     ''javax.servlet.ServletContext application;'',
     ''javax.servlet.jsp.PageContext pageContext;'',
     ''javax.servlet.ServletConfig config;'',
     ''java.lang.Object page;'',
     ''java.lang.Throwable exception;'']"

text \<open>\<open>content.replace(/;?\s*$/, '')\<close>.\<close>

definition strip_semicolon :: "string \<Rightarrow> string" where
  "strip_semicolon s =
    (case exec False (re_seq [Opt (Chr (CHR '';'')), Star Space, AtEnd]) s 0 of
       None \<Rightarrow> s
     | Some (j, e, _) \<Rightarrow> take j s @ drop e s)"

definition field_lines :: "string list" where
  "field_lines = map (\<lambda>f. ''    '' @ f) IMPLICIT_FIELDS"

definition buildVirtualJavaFile :: "string \<Rightarrow> virtual_kind \<Rightarrow> string" where
  "buildVirtualJavaFile blockContent kind =
    (let fields = join_nl field_lines in
     if kind = VDeclaration then
       join_nl [''class _JspVirtual {'', fields, blockContent, ''}'']
     else
       let body = (if kind = VExpression
                   then JSP_EXPRESSION_PREFIX @ strip_semicolon blockContent @ '';''
                   else blockContent)
       in join_nl [''class _JspVirtual {'', fields, ''    void _m() throws Exception {'', body, ''    }'', ''}''])"

definition virtualWrapperLineCount :: "virtual_kind \<Rightarrow> nat" where
  "virtualWrapperLineCount kind = (if kind = VDeclaration then 10 else 11)"

definition mapOffsetToVirtualPosition :: "string \<Rightarrow> int \<Rightarrow> virtual_kind \<Rightarrow> nat \<times> nat" where
  "mapOffsetToVirtualPosition blockContent offsetInBlock kind =
    (let wrapperLines = virtualWrapperLineCount kind;
         safe = nat (max 0 (min offsetInBlock (int (length blockContent))));
         parts = split_nl (take safe blockContent);
         lineInBlock = length parts - 1;
         character = length (last parts)
     in if kind = VExpression \<and> lineInBlock = 0
        then (wrapperLines, length JSP_EXPRESSION_PREFIX + character)
        else (wrapperLines + lineInBlock, character))"

definition mapVirtualPositionToBlockOffset ::
  "string \<Rightarrow> int \<Rightarrow> int \<Rightarrow> virtual_kind \<Rightarrow> (nat \<times> int) option"
where
  "mapVirtualPositionToBlockOffset blockContent virtualLine virtualCharacter kind =
    (let lineInBlock = virtualLine - int (virtualWrapperLineCount kind) in
     if lineInBlock < 0 \<or> int (length (split_nl blockContent)) \<le> lineInBlock then None
     else Some (nat lineInBlock,
       if kind = VExpression \<and> lineInBlock = 0
       then max 0 (virtualCharacter - int (length JSP_EXPRESSION_PREFIX)) else virtualCharacter))"

section \<open>URIs come back\<close>

lemma digit_value: "n < 10 \<Longrightarrow> of_char (digit n) - 48 = n" "n < 10 \<Longrightarrow> is_digit (digit n)"
  by (simp_all add: digit_def is_digit_def of_char_of)

lemma decimal_ok: "decimal n \<noteq> [] \<and> list_all is_digit (decimal n) \<and> digits_value (decimal n) = n"
proof (induction n rule: decimal.induct)
  case (1 n)
  show ?case
  proof (cases "n < 10")
    case True
    then show ?thesis by (simp add: decimal.simps [of n] digits_value_def digit_value)
  next
    case False
    with 1 digit_value [of "n mod 10"] show ?thesis
      by (simp add: decimal.simps [of n] digits_value_def)
  qed
qed

lemma parseInt10_decimal: "parseInt10 (decimal n) = Some (int n)"
proof -
  have d: "takeWhile is_digit (decimal n) = decimal n" "decimal n \<noteq> []"
    using decimal_ok [of n] by (auto simp: list_all_iff takeWhile_eq_all_conv)
  have "is_digit (hd (decimal n))" using decimal_ok [of n] by (cases "decimal n") auto
  then have "\<not> is_js_space (hd (decimal n))" "hd (decimal n) \<noteq> CHR ''-''" "hd (decimal n) \<noteq> CHR ''+''"
    by (auto simp: is_digit_def is_js_space_def Let_def)
  moreover from this(1) d(2) have "dropWhile is_js_space (decimal n) = decimal n"
    by (cases "decimal n") simp_all
  ultimately show ?thesis using decimal_ok [of n] by (simp add: parseInt10_def Let_def d(1))
qed

lemma find_rev_upt:
  assumes "j < n" and "P j" and "\<And>k. j < k \<Longrightarrow> k < n \<Longrightarrow> \<not> P k"
  shows "find P (rev [0..<n]) = Some j"
  using assms
proof (induction n)
  case (Suc n)
  then show ?case by (cases "j = n") simp_all
qed simp

lemma last_index_of_append:
  assumes "p \<noteq> []" and "hd p \<notin> set (tl p)" and "hd p \<notin> set b"
  shows "last_index_of (a @ p @ b) p = Some (length a)"
  unfolding last_index_of_def
proof (rule find_rev_upt)
  show "length a < Suc (length (a @ p @ b))" by simp
  show "starts_with_at (a @ p @ b) p (length a)" by (simp add: starts_with_at_def)
next
  fix k assume k: "length a < k" "k < Suc (length (a @ p @ b))"
  obtain x q where p: "p = x # q" using assms(1) by (cases p) simp_all
  have e: "a @ p @ b = (a @ [x]) @ q @ b" by (simp add: p)
  show "\<not> starts_with_at (a @ p @ b) p k"
  proof
    assume "starts_with_at (a @ p @ b) p k"
    then have "k < length (a @ p @ b)" "(a @ p @ b) ! k = x" by (simp_all add: p)
    then have "k - length (a @ [x]) < length (q @ b)" "(q @ b) ! (k - length (a @ [x])) = x"
      using k unfolding e by (auto simp only: nth_append length_append list.size split: if_splits)
    then have "x \<in> set (q @ b)" by (metis nth_mem)
    with assms p show False by simp
  qed
qed

lemma parse_block_uri:
  "parseVirtualUri (virtualUriForBlock u n) =
     Some \<lparr> pu_jspUri = u, pu_blockIndex = Some (int n), pu_isPage = False \<rparr>"
proof -
  let ?r = "u @ ''#block'' @ decimal n"
  have d: "decimal n \<noteq> []" "\<forall>c\<in>set (decimal n). is_digit c"
    using decimal_ok [of n] by (auto simp: list_all_iff)
  have p: "starts_with_at (virtualUriForBlock u n) (JSP_VIRTUAL_URI_PREFIX @ ''//'') 0"
    by (simp add: virtualUriForBlock_def starts_with_at_def)
  have r: "drop (length JSP_VIRTUAL_URI_PREFIX + 2) (virtualUriForBlock u n) = ?r"
    by (simp add: virtualUriForBlock_def)
  have e: "\<not> ends_with ?r ''#page''"
  proof
    assume "ends_with ?r ''#page''"
    then obtain x where x: "?r = x @ ''#page''" unfolding ends_with_iff by blast
    have "last ?r = CHR ''e''" unfolding x by simp
    moreover have "is_digit (last ?r)" using d by simp
    ultimately show False by (simp add: is_digit_def)
  qed
  have "CHR ''#'' \<notin> set (decimal n)" using d by (auto simp: is_digit_def)
  then have "last_index_of ?r ''#block'' = Some (length u)" by (intro last_index_of_append) simp_all
  with p r e show ?thesis unfolding parseVirtualUri_def by (simp add: Let_def parseInt10_decimal)
qed

lemma parse_page_uri:
  "parseVirtualUri (virtualUriForPage u) =
     Some \<lparr> pu_jspUri = u, pu_blockIndex = None, pu_isPage = True \<rparr>"
  by (simp add: parseVirtualUri_def virtualUriForPage_def JSP_VIRTUAL_URI_PREFIX_def ends_with_def)

section \<open>Positions in the virtual file\<close>

lemma strip_semicolon_prefix: obtains j where "strip_semicolon s = take j s" and "j \<le> length s"
proof (cases "exec False (re_seq [Opt (Chr (CHR '';'')), Star Space, AtEnd]) s 0")
  case None
  then show thesis using that [of "length s"] by (simp add: strip_semicolon_def)
next
  case (Some m)
  obtain j e cs where m: "m = (j, e, cs)" by (cases m)
  have "e = length s" using exec_mem [OF Some [unfolded m]] by (auto simp: re_seq_def split: if_splits)
  then show thesis using that [of j] exec_Some [OF Some [unfolded m]] Some m by (simp add: strip_semicolon_def)
qed

definition body_of :: "string \<Rightarrow> virtual_kind \<Rightarrow> string" where
  "body_of c kind = (if kind = VExpression then JSP_EXPRESSION_PREFIX @ strip_semicolon c @ '';'' else c)"

lemma wrapper_lines:
  "\<exists>before after. split_nl (buildVirtualJavaFile c kind) = before @ split_nl (body_of c kind) @ after
     \<and> length before = virtualWrapperLineCount kind"
proof -
  have f: "split_nl (join_nl field_lines) = field_lines"
    by (rule split_join_lines) (simp_all add: field_lines_def IMPLICIT_FIELDS_def)
  have l: "length field_lines = 9" by (simp add: field_lines_def IMPLICIT_FIELDS_def)
  show ?thesis
  proof (cases "kind = VDeclaration")
    case True
    then have "split_nl (buildVirtualJavaFile c kind) =
        (''class _JspVirtual {'' # field_lines) @ split_nl (body_of c kind) @ [''}'']"
      by (simp add: buildVirtualJavaFile_def body_of_def Let_def split_join f split_nl_single
          del: join_nl_simps(2))
    moreover have "length (''class _JspVirtual {'' # field_lines) = virtualWrapperLineCount kind"
      using True l by (simp add: virtualWrapperLineCount_def)
    ultimately show ?thesis by blast
  next
    case False
    then have "split_nl (buildVirtualJavaFile c kind) =
        (''class _JspVirtual {'' # field_lines @ [''    void _m() throws Exception {''])
        @ split_nl (body_of c kind) @ [''    }'', ''}'']"
      by (simp add: buildVirtualJavaFile_def body_of_def Let_def split_join f split_nl_single
          del: join_nl_simps(2))
    moreover have "length (''class _JspVirtual {'' # field_lines @ [''    void _m() throws Exception {''])
        = virtualWrapperLineCount kind"
      using False l by (simp add: virtualWrapperLineCount_def)
    ultimately show ?thesis by blast
  qed
qed

lemma mapOffset_at:
  assumes "i \<le> length c"
  shows "mapOffsetToVirtualPosition c (int i) kind =
    (virtualWrapperLineCount kind + line_at c i,
     (if kind = VExpression \<and> line_at c i = 0 then length JSP_EXPRESSION_PREFIX else 0) + col_at c i)"
  using assms by (simp add: mapOffsetToVirtualPosition_def Let_def line_at_def col_at_def)

lemma virtual_roundtrip:
  assumes "i \<le> length c"
  shows "case mapOffsetToVirtualPosition c (int i) kind of (l, ch) \<Rightarrow>
      mapVirtualPositionToBlockOffset c (int l) (int ch) kind = Some (line_at c i, int (col_at c i))"
  using line_at_less [of c i]
  by (simp add: mapOffset_at [OF assms] mapVirtualPositionToBlockOffset_def)

lemma virtual_holds:
  assumes i: "i < length c" "c ! i \<noteq> NL" and s: "kind = VExpression \<Longrightarrow> i < length (strip_semicolon c)"
  shows "case mapOffsetToVirtualPosition c (int i) kind of (l, ch) \<Rightarrow>
      l < length (split_nl (buildVirtualJavaFile c kind))
      \<and> char_at (split_nl (buildVirtualJavaFile c kind) ! l) ch = Some (c ! i)"
proof -
  obtain before after where w: "split_nl (buildVirtualJavaFile c kind) = before @ split_nl (body_of c kind) @ after"
    "length before = virtualWrapperLineCount kind" using wrapper_lines by blast
  let ?p = "if kind = VExpression then length JSP_EXPRESSION_PREFIX else 0"
  have p: "?p + i < length (body_of c kind)" "body_of c kind ! (?p + i) = c ! i"
    "line_at (body_of c kind) (?p + i) = line_at c i"
    "col_at (body_of c kind) (?p + i) = (if line_at c i = 0 then ?p else 0) + col_at c i"
  proof -
    obtain j where j: "strip_semicolon c = take j c" "j \<le> length c" by (rule strip_semicolon_prefix)
    have e: "split_nl (take (?p + i) (body_of c kind)) =
        (if kind = VExpression then (JSP_EXPRESSION_PREFIX @ hd (split_nl (take i c))) # tl (split_nl (take i c))
         else split_nl (take i c))"
    proof (cases "kind = VExpression")
      case True
      then have "take (?p + i) (body_of c kind) = JSP_EXPRESSION_PREFIX @ take i c"
        using s j by (simp add: body_of_def)
      with True show ?thesis
        by (simp only: split_nl_append) (simp add: split_nl_single JSP_EXPRESSION_PREFIX_def)
    qed (simp add: body_of_def)
    obtain l ls where l: "split_nl (take i c) = l # ls" by (cases "split_nl (take i c)") simp_all
    show "?p + i < length (body_of c kind)" using i(1) s by (auto simp: body_of_def)
    show "body_of c kind ! (?p + i) = c ! i" using i s j by (simp add: body_of_def nth_append)
    show "line_at (body_of c kind) (?p + i) = line_at c i"
      "col_at (body_of c kind) (?p + i) = (if line_at c i = 0 then ?p else 0) + col_at c i"
      unfolding line_at_def col_at_def e l by simp_all
  qed
  have n: "body_of c kind ! (?p + i) \<noteq> NL" using p(2) i(2) by simp
  have b: "line_at c i < length (split_nl (body_of c kind))"
    using line_at_less [of "body_of c kind" "?p + i"] p(3) by simp
  have "char_at (split_nl (body_of c kind) ! line_at c i) ((if line_at c i = 0 then ?p else 0) + col_at c i)
      = Some (c ! i)"
    using char_at_line_col [OF p(1) n] p by simp
  moreover have "split_nl (buildVirtualJavaFile c kind) ! (virtualWrapperLineCount kind + line_at c i)
      = split_nl (body_of c kind) ! line_at c i"
    using w b by (simp add: nth_append)
  ultimately show ?thesis
    using i b w by (simp add: mapOffset_at split: if_splits)
qed

end
