(* ===== verification/JspSourceMap.thy ===== *)
theory JspSourceMap
  imports Positions
begin

text \<open>
  \<open>jsp-extension/src/browser/jsp-sourcemap.ts\<close>: spans that pair a range of a JSP page with a
  range of the virtual Java file, and the translation of positions in both directions. Lines,
  columns and offsets are natural numbers; the interpolated offsets of the fallbacks are integers,
  with \<open>Math.round (a / t)\<close> as \<open>(2 a + t) div (2 t)\<close>.
\<close>

section \<open>Data\<close>

datatype span_kind = SpImport | SpDeclaration | SpScriptlet | SpExpression | SpSynthetic

record source_span =
  sp_sourceUri :: string
  sp_sourceStartLine :: nat
  sp_sourceStartCol :: nat
  sp_sourceStartOffset :: nat
  sp_sourceEndLine :: nat
  sp_sourceEndCol :: nat
  sp_sourceEndOffset :: nat
  sp_virtualStartLine :: nat
  sp_virtualStartCol :: nat
  sp_virtualStartOffset :: nat
  sp_virtualEndLine :: nat
  sp_virtualEndCol :: nat
  sp_virtualEndOffset :: nat
  sp_kind :: span_kind
  sp_prefixLength :: "nat option"
  sp_sourceContent :: "string option"
  sp_virtualContent :: "string option"

record mapped_position =
  mp_line :: nat
  mp_character :: nat
  mp_offset :: int
  mp_span :: source_span

record mapped_jsp_position = mapped_position +
  mj_sourceUri :: string
  mj_inUserCode :: bool

definition computeLineStarts :: "string \<Rightarrow> nat list" where
  "computeLineStarts s = 0 # map Suc (filter (\<lambda>i. s ! i = NL) [0..<length s])"

record source_map =
  sm_spans :: "source_span list"
  sm_virtualLineStarts :: "nat list option"
  sm_sourceLineStartsMap :: "(string, nat list) jsmap"

definition new_source_map :: "source_span list \<Rightarrow> source_map" where
  "new_source_map spans = \<lparr> sm_spans = spans, sm_virtualLineStarts = None, sm_sourceLineStartsMap = [] \<rparr>"

definition setVirtualText :: "string \<Rightarrow> source_map \<Rightarrow> source_map" where
  "setVirtualText virtualJava m = m\<lparr>sm_virtualLineStarts := Some (computeLineStarts virtualJava)\<rparr>"

definition setSourceText :: "string \<Rightarrow> string \<Rightarrow> source_map \<Rightarrow> source_map" where
  "setSourceText uri sourceText m =
    m\<lparr>sm_sourceLineStartsMap := jm_set uri (computeLineStarts sourceText) (sm_sourceLineStartsMap m)\<rparr>"

definition addSpan :: "source_span \<Rightarrow> source_map \<Rightarrow> source_map" where
  "addSpan span m = m\<lparr>sm_spans := sm_spans m @ [span]\<rparr>"

definition prefix_of :: "source_span \<Rightarrow> nat" where
  "prefix_of span = (case sp_prefixLength span of Some n \<Rightarrow> n | None \<Rightarrow> 0)"

text \<open>A content that is absent or empty is falsy.\<close>

definition truthy :: "string option \<Rightarrow> bool" where
  "truthy c \<longleftrightarrow> c \<noteq> None \<and> c \<noteq> Some []"

definition content_line_offset :: "nat \<Rightarrow> string option \<Rightarrow> nat \<Rightarrow> nat" where
  "content_line_offset start c n =
    foldl (\<lambda>offset l. offset + length l + 1) start (take n (split_nl (case c of Some t \<Rightarrow> t | None \<Rightarrow> [])))"

definition js_round_div :: "int \<Rightarrow> int \<Rightarrow> int" where
  "js_round_div a t = (2 * a + t) div (2 * t)"

section \<open>From the page to the virtual file\<close>

definition in_source :: "string \<Rightarrow> nat \<Rightarrow> nat \<Rightarrow> source_span \<Rightarrow> bool" where
  "in_source sourceUri jspLine jspChar span \<longleftrightarrow>
     sp_sourceUri span = sourceUri \<and> sp_kind span \<noteq> SpSynthetic
   \<and> \<not> (jspLine < sp_sourceStartLine span \<or> sp_sourceEndLine span < jspLine)
   \<and> \<not> (jspLine = sp_sourceStartLine span \<and> jspChar < sp_sourceStartCol span)
   \<and> \<not> (jspLine = sp_sourceEndLine span \<and> sp_sourceEndCol span < jspChar)"

definition virtual_offset_fallback :: "source_span \<Rightarrow> nat \<Rightarrow> nat \<Rightarrow> nat \<Rightarrow> int" where
  "virtual_offset_fallback span lineOffset jspChar targetVirtualCol =
    (if truthy (sp_virtualContent span) then
       int (content_line_offset (sp_virtualStartOffset span) (sp_virtualContent span) lineOffset + targetVirtualCol)
     else if lineOffset = 0 then
       int (sp_virtualStartOffset span + prefix_of span + (jspChar - sp_sourceStartCol span))
     else
       let totalLines = max 1 (int (sp_sourceEndLine span) - int (sp_sourceStartLine span));
           lineBase = int (sp_virtualStartOffset span) +
             js_round_div ((int (sp_virtualEndOffset span) - int (sp_virtualStartOffset span)) * int lineOffset) totalLines
       in min (int (sp_virtualEndOffset span)) (lineBase + int targetVirtualCol))"

definition virtual_offset :: "source_map \<Rightarrow> source_span \<Rightarrow> nat \<Rightarrow> nat \<Rightarrow> nat \<Rightarrow> nat \<Rightarrow> int" where
  "virtual_offset m span lineOffset jspChar targetVirtualLine targetVirtualCol =
    (case sm_virtualLineStarts m of
       Some starts \<Rightarrow>
         if targetVirtualLine < length starts then int (starts ! targetVirtualLine + targetVirtualCol)
         else virtual_offset_fallback span lineOffset jspChar targetVirtualCol
     | None \<Rightarrow> virtual_offset_fallback span lineOffset jspChar targetVirtualCol)"

definition to_virtual :: "source_map \<Rightarrow> nat \<Rightarrow> nat \<Rightarrow> source_span \<Rightarrow> mapped_position" where
  "to_virtual m jspLine jspChar span =
    (let lineOffset = jspLine - sp_sourceStartLine span;
         targetVirtualLine = sp_virtualStartLine span + lineOffset;
         targetVirtualCol =
           (if lineOffset = 0 then sp_virtualStartCol span + prefix_of span + (jspChar - sp_sourceStartCol span)
            else sp_virtualStartCol span + jspChar)
     in \<lparr> mp_line = targetVirtualLine, mp_character = targetVirtualCol,
          mp_offset = virtual_offset m span lineOffset jspChar targetVirtualLine targetVirtualCol,
          mp_span = span \<rparr>)"

definition mapJspPositionToVirtual :: "source_map \<Rightarrow> string \<Rightarrow> nat \<Rightarrow> nat \<Rightarrow> mapped_position option" where
  "mapJspPositionToVirtual m sourceUri jspLine jspChar =
    map_option (to_virtual m jspLine jspChar) (find (in_source sourceUri jspLine jspChar) (sm_spans m))"

section \<open>From the virtual file to the page\<close>

definition in_virtual :: "nat \<Rightarrow> nat \<Rightarrow> source_span \<Rightarrow> bool" where
  "in_virtual virtualLine virtualChar span \<longleftrightarrow>
     \<not> (virtualLine < sp_virtualStartLine span \<or> sp_virtualEndLine span < virtualLine)
   \<and> \<not> (virtualLine = sp_virtualStartLine span \<and> virtualChar < sp_virtualStartCol span)
   \<and> \<not> (virtualLine = sp_virtualEndLine span \<and> sp_virtualEndCol span < virtualChar)"

definition span_start :: "source_span \<Rightarrow> mapped_jsp_position" where
  "span_start span =
    \<lparr> mp_line = sp_sourceStartLine span, mp_character = sp_sourceStartCol span,
      mp_offset = int (sp_sourceStartOffset span), mp_span = span,
      mj_sourceUri = sp_sourceUri span, mj_inUserCode = False \<rparr>"

definition source_offset_fallback :: "source_span \<Rightarrow> nat \<Rightarrow> nat \<Rightarrow> int" where
  "source_offset_fallback span lineOffset targetSourceCol =
    (if truthy (sp_sourceContent span) then
       int (content_line_offset (sp_sourceStartOffset span) (sp_sourceContent span) lineOffset + targetSourceCol)
     else if lineOffset = 0 then
       int (sp_sourceStartOffset span + (targetSourceCol - sp_sourceStartCol span))
     else
       let totalLines = max 1 (int (sp_virtualEndLine span) - int (sp_virtualStartLine span));
           lineBase = int (sp_sourceStartOffset span) +
             js_round_div ((int (sp_sourceEndOffset span) - int (sp_sourceStartOffset span)) * int lineOffset) totalLines
       in min (int (sp_sourceEndOffset span)) (lineBase + int targetSourceCol))"

definition source_offset :: "source_map \<Rightarrow> source_span \<Rightarrow> nat \<Rightarrow> nat \<Rightarrow> nat \<Rightarrow> int" where
  "source_offset m span lineOffset targetSourceLine targetSourceCol =
    (case jm_get (sm_sourceLineStartsMap m) (sp_sourceUri span) of
       Some starts \<Rightarrow>
         if targetSourceLine < length starts then int (starts ! targetSourceLine + targetSourceCol)
         else source_offset_fallback span lineOffset targetSourceCol
     | None \<Rightarrow> source_offset_fallback span lineOffset targetSourceCol)"

definition to_source :: "source_map \<Rightarrow> nat \<Rightarrow> nat \<Rightarrow> source_span \<Rightarrow> mapped_jsp_position" where
  "to_source m virtualLine virtualChar span =
    (let lineOffset = virtualLine - sp_virtualStartLine span;
         targetSourceLine = sp_sourceStartLine span + lineOffset
     in if sp_kind span = SpSynthetic then span_start span
        else if lineOffset = 0 \<and> virtualChar < sp_virtualStartCol span + prefix_of span then span_start span
        else
          let targetSourceCol =
            (if lineOffset = 0
             then sp_sourceStartCol span + (virtualChar - sp_virtualStartCol span - prefix_of span)
             else virtualChar - sp_virtualStartCol span)
          in \<lparr> mp_line = targetSourceLine, mp_character = targetSourceCol,
               mp_offset = source_offset m span lineOffset targetSourceLine targetSourceCol,
               mp_span = span, mj_sourceUri = sp_sourceUri span, mj_inUserCode = True \<rparr>)"

definition mapVirtualPositionToJsp :: "source_map \<Rightarrow> nat \<Rightarrow> nat \<Rightarrow> mapped_jsp_position option" where
  "mapVirtualPositionToJsp m virtualLine virtualChar =
    map_option (to_source m virtualLine virtualChar) (find (in_virtual virtualLine virtualChar) (sm_spans m))"

section \<open>Line starts\<close>

lemma computeLineStarts_Cons:
  "computeLineStarts (c # s) =
    (if c = NL then 0 # map Suc (computeLineStarts s) else 0 # map Suc (tl (computeLineStarts s)))"
proof -
  have "filter (\<lambda>i. (c # s) ! i = NL) [0..<length (c # s)] =
      (if c = NL then [0] else []) @ map Suc (filter (\<lambda>i. s ! i = NL) [0..<length s])"
    by (simp only: length_Cons upt_conv_Cons [OF zero_less_Suc] map_Suc_upt [symmetric])
      (simp add: filter_map comp_def)
  then show ?thesis by (simp add: computeLineStarts_def)
qed

lemma computeLineStarts_lines:
  "length (computeLineStarts s) = length (split_nl s)
   \<and> (\<forall>l < length (split_nl s). computeLineStarts s ! l = line_start s l)"
proof (induction s)
  case Nil
  then show ?case by (simp add: computeLineStarts_def line_start_def)
next
  case (Cons c s)
  obtain l ls where l: "split_nl s = l # ls" by (cases "split_nl s") simp_all
  obtain n ns where n: "computeLineStarts s = n # ns" "n = 0" by (simp add: computeLineStarts_def)
  show ?case
  proof (cases "c = NL")
    case True
    have "computeLineStarts (c # s) ! k = line_start (c # s) k" if "k < length (split_nl (c # s))" for k
      using Cons that True by (cases k) (simp_all add: computeLineStarts_Cons line_start_def)
    with True Cons show ?thesis by (simp add: computeLineStarts_Cons)
  next
    case False
    have "ns ! k = line_start s (Suc k)" if "k < length ls" for k
      using Cons that n l by (metis length_Cons Suc_less_eq nth_Cons_Suc)
    then have "computeLineStarts (c # s) ! k = line_start (c # s) k" if "k < length (split_nl (c # s))" for k
      using Cons that False n by (cases k) (simp_all add: computeLineStarts_Cons line_start_def l)
    with False Cons n show ?thesis by (simp add: computeLineStarts_Cons l)
  qed
qed

section \<open>A span that describes a piece of a page\<close>

text \<open>
  The span covers the offsets \<open>b\<close> to \<open>e\<close> of the page \<open>content\<close>, and the lines of \<open>vlines\<close> from its
  virtual start hold the text of \<open>b\<close> to \<open>b + n\<close>, indented, the first line after \<open>pre\<close>.
\<close>

definition span_holds :: "string \<Rightarrow> string list \<Rightarrow> nat \<Rightarrow> nat \<Rightarrow> nat \<Rightarrow> source_span \<Rightarrow> bool" where
  "span_holds content vlines b n e span \<longleftrightarrow>
     b + n \<le> e \<and> e \<le> length content \<and> sp_kind span \<noteq> SpSynthetic
   \<and> sp_sourceStartOffset span = b
   \<and> (sp_sourceStartLine span, sp_sourceStartCol span) = pos_at content b
   \<and> (sp_sourceEndLine span, sp_sourceEndCol span) = pos_at content e
   \<and> (let ls = split_nl (take n (drop b content)) in
        sp_virtualEndLine span = sp_virtualStartLine span + length ls - 1
      \<and> sp_virtualEndCol span =
          sp_virtualStartCol span + (if length ls = 1 then prefix_of span else 0) + length (last ls)
      \<and> sp_virtualEndLine span < length vlines
      \<and> (\<forall>l < length ls. \<exists>pre post. vlines ! (sp_virtualStartLine span + l) = pre @ ls ! l @ post
           \<and> length pre = sp_virtualStartCol span + (if l = 0 then prefix_of span else 0)))"

lemma in_source_iff:
  assumes "(sp_sourceStartLine span, sp_sourceStartCol span) = pos_at s b"
    and "(sp_sourceEndLine span, sp_sourceEndCol span) = pos_at s e"
    and "b \<le> length s" and "e \<le> length s" and "i \<le> length s" and "sp_kind span \<noteq> SpSynthetic"
  shows "in_source uri (line_at s i) (col_at s i) span \<longleftrightarrow> sp_sourceUri span = uri \<and> b \<le> i \<and> i \<le> e"
proof -
  have "in_source uri (line_at s i) (col_at s i) span \<longleftrightarrow> sp_sourceUri span = uri
      \<and> pos_le (pos_at s b) (pos_at s i) \<and> pos_le (pos_at s i) (pos_at s e)"
    using assms(6) unfolding assms(1,2) [symmetric] by (auto simp: in_source_def pos_le_def pos_at_def)
  then show ?thesis using assms(3-5) by (simp add: pos_at_le_iff)
qed

text \<open>The position that the span gives to an offset of its text holds the unit of that offset.\<close>

lemma to_virtual_holds:
  fixes m :: source_map
  assumes h: "span_holds s vlines b n e span" and i: "b \<le> i" "i < b + n" "s ! i \<noteq> NL"
  defines "p \<equiv> to_virtual m (line_at s i) (col_at s i) span"
  shows "mp_line p < length vlines"
    and "char_at (vlines ! mp_line p) (mp_character p) = Some (s ! i)"
    and "in_virtual (mp_line p) (mp_character p) span"
    and "mp_line p = sp_virtualStartLine span + (line_at s i - sp_sourceStartLine span)"
proof -
  let ?t = "take n (drop b s)" and ?k = "i - b"
  let ?ls = "split_nl ?t" and ?l = "line_at ?t ?k" and ?c = "col_at ?t ?k"
  have n: "b + n \<le> length s" using h by (simp add: span_holds_def)
  have k: "?k < length ?t" "?t ! ?k = s ! i" using i n by simp_all
  have tk: "line_at (drop b s) ?k = ?l" "col_at (drop b s) ?k = ?c" using i by (simp_all add: position_take)
  have pos: "line_at s i = line_at s b + ?l" "col_at s i = (if ?l = 0 then col_at s b + ?c else ?c)"
    using position_add [of b s ?k] i n tk by simp_all
  have start: "sp_sourceStartLine span = line_at s b" "sp_sourceStartCol span = col_at s b"
    using h by (simp_all add: span_holds_def pos_at_def)
  have p: "mp_line p = sp_virtualStartLine span + ?l"
    "mp_character p = sp_virtualStartCol span + (if ?l = 0 then prefix_of span else 0) + ?c"
    by (simp_all add: p_def to_virtual_def Let_def start pos)
  have l: "?l < length ?ls" by (rule line_at_less)
  have nl: "length ?ls = 1 \<Longrightarrow> ?l = 0" using l by simp
  have c: "?c < length (?ls ! ?l)" "?ls ! ?l ! ?c = s ! i"
    using char_at_line_col [OF k(1)] k i(3) by simp_all
  have v: "sp_virtualEndLine span = sp_virtualStartLine span + length ?ls - 1"
    "sp_virtualEndLine span < length vlines"
    "sp_virtualEndCol span = sp_virtualStartCol span + (if length ?ls = 1 then prefix_of span else 0) + length (last ?ls)"
    using h by (simp_all add: span_holds_def Let_def)
  obtain pre post where "vlines ! (sp_virtualStartLine span + ?l) = pre @ ?ls ! ?l @ post"
    "length pre = sp_virtualStartCol span + (if ?l = 0 then prefix_of span else 0)"
    using h l unfolding span_holds_def Let_def by blast
  with c p show "char_at (vlines ! mp_line p) (mp_character p) = Some (s ! i)" by (simp add: nth_append)
  show "mp_line p < length vlines" using p v l by simp
  have "?ls ! ?l = last ?ls" if "?l = length ?ls - 1" using that by (simp add: last_conv_nth)
  moreover have "?l = length ?ls - 1" if "mp_line p = sp_virtualEndLine span" using that p(1) v(1) l by linarith
  ultimately have "mp_line p = sp_virtualEndLine span \<Longrightarrow> mp_character p \<le> sp_virtualEndCol span"
    using p(2) v(3) c(1) l by (cases "length ?ls = 1") simp_all
  moreover have "sp_virtualStartLine span \<le> mp_line p" "mp_line p \<le> sp_virtualEndLine span"
    "sp_virtualStartCol span \<le> mp_character p"
    using p v(1) l by linarith+
  ultimately show "in_virtual (mp_line p) (mp_character p) span"
    by (simp add: in_virtual_def not_less)
  show "mp_line p = sp_virtualStartLine span + (line_at s i - sp_sourceStartLine span)"
    using p pos start by simp
qed

text \<open>And the way back gives the position of the offset, in user code.\<close>

lemma to_source_holds:
  fixes m m' :: source_map
  assumes h: "span_holds s vlines b n e span" and i: "b \<le> i" "i < b + n"
    and m: "jm_get (sm_sourceLineStartsMap m) (sp_sourceUri span) = Some (computeLineStarts s)"
  defines "p \<equiv> to_virtual m' (line_at s i) (col_at s i) span"
  shows "to_source m (mp_line p) (mp_character p) span =
    \<lparr> mp_line = line_at s i, mp_character = col_at s i, mp_offset = int i, mp_span = span,
      mj_sourceUri = sp_sourceUri span, mj_inUserCode = True \<rparr>"
proof -
  let ?l = "line_at (drop b s) (i - b)" and ?c = "col_at (drop b s) (i - b)"
  have n: "b + n \<le> length s" "sp_kind span \<noteq> SpSynthetic" using h by (simp_all add: span_holds_def)
  have pos: "line_at s i = line_at s b + ?l" "col_at s i = (if ?l = 0 then col_at s b + ?c else ?c)"
    using position_add [of b s "i - b"] i n by simp_all
  have start: "sp_sourceStartLine span = line_at s b" "sp_sourceStartCol span = col_at s b"
    using h by (simp_all add: span_holds_def pos_at_def)
  have "computeLineStarts s ! line_at s i + col_at s i = i"
    using computeLineStarts_lines [of s] line_at_less [of s i] line_start_at [of i s] i n by simp
  then have o: "source_offset m span k (line_at s i) (col_at s i) = int i" for k
    using computeLineStarts_lines [of s] line_at_less [of s i] by (simp add: source_offset_def m)
  show ?thesis
  proof (cases "?l = 0")
    case True
    then have e: "line_at s i = line_at s b" "col_at s i = col_at s b + ?c" using pos by simp_all
    then have "mp_line p = sp_virtualStartLine span"
      "mp_character p = sp_virtualStartCol span + prefix_of span + ?c"
      by (simp_all add: p_def to_virtual_def Let_def start)
    then show ?thesis unfolding to_source_def Let_def using n(2) o [of 0] by (simp add: start e)
  next
    case False
    then have e: "col_at s i = ?c" using pos(2) by simp
    have l: "line_at s i - line_at s b = ?l" using pos(1) by simp
    have "mp_line p = sp_virtualStartLine span + ?l" "mp_character p = sp_virtualStartCol span + ?c"
      using False by (simp_all add: p_def to_virtual_def Let_def start l e)
    then show ?thesis
      unfolding to_source_def Let_def using n(2) o [of ?l] False by (simp add: start pos(1) e)
  qed
qed

lemma find_unique:
  assumes "x \<in> set xs" and "P x" and "\<And>y. y \<in> set xs \<Longrightarrow> P y \<Longrightarrow> y = x"
  shows "find P xs = Some x"
proof (cases "find P xs")
  case None
  with assms(1,2) show ?thesis by (simp add: find_None_iff)
next
  case (Some y)
  then have "y \<in> set xs" "P y" by (auto simp: find_Some_iff)
  with assms(3) Some show ?thesis by simp
qed

end
