(* ===== verification/JspPageModel.thy ===== *)
theory JspPageModel
  imports JspVirtualJava JspSourceMap
begin

text \<open>
  \<open>jsp-extension/src/browser/jsp-page-model.ts\<close>: a page and its static includes become one
  virtual Java file with a source map. The include resolver is a parameter: \<open>resolver file uri\<close>
  is the text of the included file, or nothing. \<open>resolveIncludeTree\<close> has no bound on its recursion, so
  it takes fuel and gives \<open>None\<close> when the fuel ends; the recursion that collects the blocks
  stops at depth 20.
\<close>

section \<open>One page\<close>

record include_directive =
  in_file :: string
  in_startOffset :: nat
  in_endOffset :: nat

record parsed_page =
  pg_uri :: string
  pg_content :: string
  pg_imports :: "string list"
  pg_includes :: "include_directive list"
  pg_declarations :: "nav_block list"
  pg_bodyBlocks :: "nav_block list"

definition add_new :: "'a \<Rightarrow> 'a list \<Rightarrow> 'a list" where
  "add_new x xs = (if x \<in> set xs then xs else xs @ [x])"

definition import_names :: "string \<Rightarrow> string list" where
  "import_names content =
    concat (map (\<lambda>m. map trim (split_on (CHR '','') (capture 1 m))) (exec_all True (importRegex quotes) content 0))"

text \<open>\<open>/<%@\s+include\s+file\s*=\s*["']([^"']+)["'][^%]*%>/gi\<close>\<close>

definition includeRegex :: regex where
  "includeRegex = re_seq
    [re_lit ''<%@'', Plus Space, re_lit ''include'', Plus Space, re_lit ''file'', Star Space, Chr (CHR ''=''),
     Star Space, OneOf quotes, Capture 1 (Plus (NoneOf quotes)), OneOf quotes, Star (NoneOf ''%''),
     re_lit ''%>'']"

definition parsePage :: "string \<Rightarrow> string \<Rightarrow> parsed_page" where
  "parsePage uri content =
    (let blocks = findJavaBlocks content in
     \<lparr> pg_uri = uri, pg_content = content,
       pg_imports = fold (\<lambda>t ts. if t \<noteq> [] then add_new t ts else ts) (import_names content) [],
       pg_includes = map (\<lambda>m. \<lparr> in_file = trim (capture 1 m), in_startOffset = fst m, in_endOffset = fst (snd m) \<rparr>)
         (exec_all True includeRegex content 0),
       pg_declarations = filter (\<lambda>b. nb_kind b = NDeclaration) blocks,
       pg_bodyBlocks = filter (\<lambda>b. nb_kind b = NScriptlet \<or> nb_kind b = NExpression) blocks \<rparr>)"

definition web_root_base :: "string \<Rightarrow> string option" where
  "web_root_base parentUri =
    (case find (\<lambda>root. index_of parentUri root 0 \<noteq> None)
            [''/src/main/webapp'', ''/WebContent'', ''/webapp'', ''/web''] of
       None \<Rightarrow> None
     | Some root \<Rightarrow> Some (take (the (index_of parentUri root 0) + length root) parentUri))"

text \<open>\<open>slice(0, -1)\<close> drops the last unit: this is what a missing slash after \<open>//\<close> gives.\<close>

definition resolveRelativeUri :: "string \<Rightarrow> string \<Rightarrow> string" where
  "resolveRelativeUri parentUri relativePath =
    (let cleanPath = map (\<lambda>c. if c = BSL then CHR ''/'' else c) relativePath in
     if starts_with_at cleanPath ''/'' 0 then
       (case web_root_base parentUri of
          Some base \<Rightarrow> base @ cleanPath
        | None \<Rightarrow>
            (case last_index_of parentUri ''//'' of
               Some idx \<Rightarrow>
                 (case index_of parentUri ''/'' (idx + 2) of
                    Some e \<Rightarrow> take e parentUri
                  | None \<Rightarrow> butlast parentUri) @ cleanPath
             | None \<Rightarrow> cleanPath))
     else
       (case last_index_of parentUri ''/'' of
          Some lastSlash \<Rightarrow> take (lastSlash + 1) parentUri @ cleanPath
        | None \<Rightarrow> parentUri @ ''/'' @ cleanPath))"

section \<open>Includes\<close>

type_synonym include_resolver = "string \<Rightarrow> string \<Rightarrow> string option"

definition sequence_opt :: "'a option list \<Rightarrow> 'a list option" where
  "sequence_opt xs = (if None \<in> set xs then None else Some (map the xs))"

fun traverse_pages :: "nat \<Rightarrow> include_resolver \<Rightarrow> string list \<Rightarrow> string \<Rightarrow> string \<Rightarrow> parsed_page list option" where
  "traverse_pages 0 resolver callStack uri content = None"
| "traverse_pages (Suc n) resolver callStack uri content =
     (if uri \<in> set callStack then Some []
      else
        let parsed = parsePage uri content in
        map_option (\<lambda>children. parsed # concat children)
          (sequence_opt (map (\<lambda>inc.
             case resolver (in_file inc) uri of
               None \<Rightarrow> Some []
             | Some incContent \<Rightarrow>
                 traverse_pages n resolver (uri # callStack) (resolveRelativeUri uri (in_file inc)) incContent)
             (pg_includes parsed))))"

definition resolveIncludeTree :: "nat \<Rightarrow> include_resolver \<Rightarrow> string \<Rightarrow> string \<Rightarrow> parsed_page list option" where
  "resolveIncludeTree fuel resolver rootUri rootContent = traverse_pages fuel resolver [] rootUri rootContent"

record body_block =
  bb_block :: nav_block
  bb_pageUri :: string
  bb_pageContent :: string

datatype page_event = BlockEvent nav_block | IncludeEvent include_directive

fun event_offset :: "page_event \<Rightarrow> nat" where
  "event_offset (BlockEvent b) = nb_start b"
| "event_offset (IncludeEvent inc) = in_startOffset inc"

definition page_events :: "parsed_page \<Rightarrow> page_event list" where
  "page_events parsed =
    sort_key event_offset (map BlockEvent (pg_bodyBlocks parsed) @ map IncludeEvent (pg_includes parsed))"

text \<open>The number is how many more levels may be entered: 21 at the root, since depth 20 is the last.\<close>

fun traverse_blocks :: "nat \<Rightarrow> include_resolver \<Rightarrow> string list \<Rightarrow> string \<Rightarrow> string \<Rightarrow> body_block list" where
  "traverse_blocks 0 resolver callStack uri content = []"
| "traverse_blocks (Suc n) resolver callStack uri content =
     (if uri \<in> set callStack then []
      else concat (map (\<lambda>ev.
        case ev of
          BlockEvent b \<Rightarrow> [\<lparr> bb_block = b, bb_pageUri = uri, bb_pageContent = content \<rparr>]
        | IncludeEvent inc \<Rightarrow>
            (case resolver (in_file inc) uri of
               None \<Rightarrow> []
             | Some childContent \<Rightarrow>
                 traverse_blocks n resolver (uri # callStack) (resolveRelativeUri uri (in_file inc)) childContent))
        (page_events (parsePage uri content))))"

definition collectExpandedBodyBlocks :: "include_resolver \<Rightarrow> string \<Rightarrow> string \<Rightarrow> body_block list" where
  "collectExpandedBodyBlocks resolver rootUri rootContent = traverse_blocks 21 resolver [] rootUri rootContent"

section \<open>The virtual file\<close>

record page_build =
  pb_lines :: "string list"
  pb_currentLine :: nat
  pb_currentOffset :: nat
  pb_sourceMap :: source_map
  pb_exprCounter :: nat

definition emitLine :: "string \<Rightarrow> page_build \<Rightarrow> page_build" where
  "emitLine t st = st\<lparr>pb_lines := pb_lines st @ [t], pb_currentLine := pb_currentLine st + 1,
     pb_currentOffset := pb_currentOffset st + length t + 1\<rparr>"

definition emit_header :: "string list \<Rightarrow> page_build \<Rightarrow> page_build" where
  "emit_header allImports st =
    fold emitLine ([''package org.apache.jsp;'', '''', ''import javax.servlet.*;'', ''import javax.servlet.http.*;'',
        ''import javax.servlet.jsp.*;''] @ map (\<lambda>imp. ''import '' @ imp @ '';'') allImports
      @ ['''', ''public final class _JspPage {'']) st"

definition service_lines :: "string list" where
  "service_lines =
    ['''', ''    public void _jspService('',
     ''        final javax.servlet.http.HttpServletRequest request,'',
     ''        final javax.servlet.http.HttpServletResponse response'',
     ''    ) throws java.lang.Throwable {'',
     ''        final javax.servlet.jsp.PageContext pageContext = null;'',
     ''        javax.servlet.http.HttpSession session = null;'',
     ''        final javax.servlet.ServletContext application = null;'',
     ''        final javax.servlet.ServletConfig config = null;'',
     ''        javax.servlet.jsp.JspWriter out = null;'',
     ''        final java.lang.Object page = this;'',
     ''        final java.lang.Throwable exception = null;'', '''']"

definition block_span ::
  "string \<Rightarrow> string \<Rightarrow> nav_block \<Rightarrow> nat \<Rightarrow> nat \<Rightarrow> nat \<Rightarrow> nat \<Rightarrow> nat \<Rightarrow> nat \<Rightarrow> span_kind \<Rightarrow> nat option \<Rightarrow> source_span"
where
  "block_span uri content b vStartLine vStartCol vStartOffset vEndLine vEndCol vEndOffset kind prefixLength =
    (let sourceStart = offsetToPosition content (int (nb_start b));
         sourceEnd = offsetToPosition content (int (nb_end b))
     in \<lparr> sp_sourceUri = uri,
          sp_sourceStartLine = fst sourceStart, sp_sourceStartCol = snd sourceStart,
          sp_sourceStartOffset = nb_start b,
          sp_sourceEndLine = fst sourceEnd, sp_sourceEndCol = snd sourceEnd, sp_sourceEndOffset = nb_end b,
          sp_virtualStartLine = vStartLine, sp_virtualStartCol = vStartCol, sp_virtualStartOffset = vStartOffset,
          sp_virtualEndLine = vEndLine, sp_virtualEndCol = vEndCol, sp_virtualEndOffset = vEndOffset,
          sp_kind = kind, sp_prefixLength = prefixLength, sp_sourceContent = None, sp_virtualContent = None \<rparr>)"

definition indent :: "nat \<Rightarrow> string" where
  "indent n = replicate n (CHR '' '')"

definition emit_declaration :: "string \<Rightarrow> string \<Rightarrow> nav_block \<Rightarrow> page_build \<Rightarrow> page_build" where
  "emit_declaration uri content decl st =
    (let declLines = split_nl (js_slice content (nb_start decl) (nb_end decl));
         st1 = fold emitLine (map (\<lambda>l. indent 4 @ l) declLines) st;
         span = block_span uri content decl (pb_currentLine st) 4 (pb_currentOffset st + 4)
           (pb_currentLine st1 - 1) (length (last declLines) + 4) (pb_currentOffset st1 - 1) SpDeclaration None
     in st1\<lparr>pb_sourceMap := addSpan span (pb_sourceMap st1)\<rparr>)"

definition expr_prefix :: "nat \<Rightarrow> string" where
  "expr_prefix n = ''Object __expr_'' @ decimal n @ '' = ''"

definition expr_output :: "string \<Rightarrow> string list \<Rightarrow> string list" where
  "expr_output prefix exprLines =
    (if length exprLines = 1 then [indent 8 @ prefix @ hd exprLines @ '';'']
     else (indent 8 @ prefix @ hd exprLines) # map (\<lambda>l. indent 8 @ l) (butlast (tl exprLines))
       @ [indent 8 @ last exprLines @ '';''])"

definition emit_body :: "body_block \<Rightarrow> page_build \<Rightarrow> page_build" where
  "emit_body item st =
    (let block = bb_block item;
         content = bb_pageContent item;
         rawContent = js_slice content (nb_start block) (nb_end block)
     in if nb_kind block = NExpression then
          let n = pb_exprCounter st + 1;
              prefix = expr_prefix n;
              exprLines = split_nl (strip_semicolon rawContent);
              st1 = fold emitLine (expr_output prefix exprLines) (st\<lparr>pb_exprCounter := n\<rparr>);
              span = block_span (bb_pageUri item) content block (pb_currentLine st) 8 (pb_currentOffset st + 8)
                (pb_currentLine st1 - 1)
                (8 + (if length exprLines = 1 then length prefix else 0) + length (last exprLines))
                (pb_currentOffset st1) SpExpression (Some (length prefix))
          in st1\<lparr>pb_sourceMap := addSpan span (pb_sourceMap st1)\<rparr>
        else
          let scriptletLines = split_nl rawContent;
              st1 = fold emitLine (map (\<lambda>l. indent 8 @ l) scriptletLines) st;
              span = block_span (bb_pageUri item) content block (pb_currentLine st) 8 (pb_currentOffset st + 8)
                (pb_currentLine st1 - 1) (8 + length (last scriptletLines)) (pb_currentOffset st1 - 1) SpScriptlet None
          in st1\<lparr>pb_sourceMap := addSpan span (pb_sourceMap st1)\<rparr>)"

definition new_page_build :: page_build where
  "new_page_build = \<lparr> pb_lines = [], pb_currentLine = 0, pb_currentOffset = 0,
     pb_sourceMap = new_source_map [], pb_exprCounter = 0 \<rparr>"

definition page_declarations :: "parsed_page list \<Rightarrow> (string \<times> string \<times> nav_block) list" where
  "page_declarations pages = concat (map (\<lambda>p. map (\<lambda>d. (pg_uri p, pg_content p, d)) (pg_declarations p)) pages)"

definition emit_page :: "parsed_page list \<Rightarrow> body_block list \<Rightarrow> page_build" where
  "emit_page pages blocks =
    fold emitLine [''    }'', ''}'']
      (fold emit_body blocks
        (fold emitLine service_lines
          (fold (\<lambda>(uri, content, d). emit_declaration uri content d) (page_declarations pages)
            (emit_header (fold add_new (concat (map pg_imports pages)) []) new_page_build))))"

record page_virtual_java =
  pv_virtualJava :: string
  pv_sourceMap :: source_map
  pv_virtualUri :: string
  pv_primaryUri :: string

definition buildPageVirtualJava :: "nat \<Rightarrow> include_resolver \<Rightarrow> string \<Rightarrow> string \<Rightarrow> page_virtual_java option" where
  "buildPageVirtualJava fuel resolver rootUri rootContent =
    map_option (\<lambda>pages.
      let st = emit_page pages (collectExpandedBodyBlocks resolver rootUri rootContent);
          virtualJava = join_nl (pb_lines st)
      in \<lparr> pv_virtualJava = virtualJava,
           pv_sourceMap = fold (\<lambda>p. setSourceText (pg_uri p) (pg_content p)) pages
             (setVirtualText virtualJava (pb_sourceMap st)),
           pv_virtualUri = ''jsp-scriptlet://'' @ rootUri @ ''#page'', pv_primaryUri = rootUri \<rparr>)
      (resolveIncludeTree fuel resolver rootUri rootContent)"

section \<open>Imports from completions\<close>

text \<open>\<open>/(?:^|\n)\s*import\s+([a-zA-Z0-9_$.*]+)\s*;/g\<close>\<close>

definition name_chars :: string where
  "name_chars = map char_of ([97..<123] @ [65..<91] @ [48..<58 :: nat]) @ ''_$.*''"

definition javaImportRegex :: regex where
  "javaImportRegex = re_seq
    [Or AtStart (Chr NL), Star Space, re_lit ''import'', Plus Space, Capture 1 (Plus (OneOf name_chars)),
     Star Space, Chr (CHR '';'')]"

definition import_edit :: "string \<Rightarrow> string" where
  "import_edit fqn = ''<%@ page import='' @ [DQ] @ fqn @ [DQ] @ '' %>'' @ [NL]"

text \<open>Every edit inserts at line 1, column 1; it is its text here. The first list is the set of known imports.\<close>

definition convert_import :: "string \<Rightarrow> string list \<times> string list \<Rightarrow> string list \<times> string list" where
  "convert_import fqn st =
    (if fqn = [] \<or> fqn \<in> set (fst st) then st else (fst st @ [fqn], snd st @ [import_edit fqn]))"

definition convertAdditionalTextEditsToJsp :: "string \<Rightarrow> string list \<Rightarrow> string list" where
  "convertAdditionalTextEditsToJsp jspContent edits =
    snd (fold convert_import
      (concat (map (\<lambda>newText. map (\<lambda>m. trim (capture 1 m)) (exec_all False javaImportRegex newText 0)) edits))
      (fold (\<lambda>t ts. if t \<noteq> [] then add_new t ts else ts) (import_names jspContent) [], []))"

end
