(* ===== verification/JspPageFacts.thy ===== *)
theory JspPageFacts
  imports JspPageModel
begin

text \<open>
  Facts on the page model: the virtual file holds every user text at the position to which the
  source map sends it, whatever the includes; and the recursion over the includes ends when
  the URIs it can reach are finite in number.
\<close>

section \<open>Emitting lines\<close>

lemma fold_emitLine:
  "pb_lines (fold emitLine ts st) = pb_lines st @ ts"
  "pb_currentLine (fold emitLine ts st) = pb_currentLine st + length ts"
  "pb_sourceMap (fold emitLine ts st) = pb_sourceMap st"
  "pb_exprCounter (fold emitLine ts st) = pb_exprCounter st"
  by (induction ts arbitrary: st) (simp_all add: emitLine_def)

text \<open>The part of a block that is user text in the virtual file.\<close>

definition user_length :: "string \<Rightarrow> nav_block \<Rightarrow> nat" where
  "user_length content b =
    (if nb_kind b = NExpression then length (strip_semicolon (js_slice content (nb_start b) (nb_end b)))
     else nb_end b - nb_start b)"

definition span_good :: "(string \<Rightarrow> string) \<Rightarrow> string list \<Rightarrow> source_span \<Rightarrow> bool" where
  "span_good cof vlines span \<longleftrightarrow>
     (\<exists>b\<in>set (findJavaBlocks (cof (sp_sourceUri span))).
        span_holds (cof (sp_sourceUri span)) vlines (nb_start b)
          (user_length (cof (sp_sourceUri span)) b) (nb_end b) span)"

definition span_key :: "source_span \<Rightarrow> string \<times> nat" where
  "span_key span = (sp_sourceUri span, sp_sourceStartOffset span)"

abbreviation build_spans :: "page_build \<Rightarrow> source_span list" where
  "build_spans st \<equiv> sm_spans (pb_sourceMap st)"

definition build_ok :: "(string \<Rightarrow> string) \<Rightarrow> page_build \<Rightarrow> bool" where
  "build_ok cof st \<longleftrightarrow>
     pb_currentLine st = length (pb_lines st) \<and> (\<forall>l\<in>set (pb_lines st). NL \<notin> set l)
   \<and> (\<forall>span\<in>set (build_spans st). span_good cof (pb_lines st) span)
   \<and> sorted_wrt (\<lambda>a b. sp_virtualEndLine a < sp_virtualStartLine b) (build_spans st)"

lemma span_holds_append: "span_holds s vlines b n e span \<Longrightarrow> span_holds s (vlines @ ls) b n e span"
proof -
  assume h: "span_holds s vlines b n e span"
  have "(vlines @ ls) ! (sp_virtualStartLine span + l) = vlines ! (sp_virtualStartLine span + l)"
    if "l < length (split_nl (take n (drop b s)))" for l
    using h that by (auto simp: span_holds_def Let_def nth_append)
  with h show ?thesis by (simp add: span_holds_def Let_def)
qed

lemma span_good_append: "span_good cof vlines span \<Longrightarrow> span_good cof (vlines @ ls) span"
  unfolding span_good_def using span_holds_append by blast

lemma build_ok_emit:
  assumes "build_ok cof st" and "\<forall>l\<in>set ts. NL \<notin> set l"
  shows "build_ok cof (fold emitLine ts st)"
  using assms by (auto simp: build_ok_def fold_emitLine intro: span_good_append)

text \<open>A block: its lines are emitted and its span is added.\<close>

lemma build_ok_block:
  fixes cof :: "string \<Rightarrow> string"
  assumes ok: "build_ok cof st" and b: "b \<in> set (findJavaBlocks content)" and c: "content = cof uri"
    and n: "nb_start b + user_length content b \<le> nb_end b" "nb_end b \<le> length content"
    and ls: "ls = split_nl (take (user_length content b) (drop (nb_start b) content))"
    and out: "length out = length ls" "\<forall>l\<in>set out. NL \<notin> set l"
      "\<And>l. l < length ls \<Longrightarrow> \<exists>pre post. out ! l = pre @ ls ! l @ post
         \<and> length pre = ind + (if l = 0 then (case pl of Some k \<Rightarrow> k | None \<Rightarrow> 0) else 0)"
    and kind: "kind \<noteq> SpSynthetic"
    and span: "span = block_span uri content b (pb_currentLine st) ind vo
       (pb_currentLine (fold emitLine out st) - 1)
       (ind + (if length ls = 1 then (case pl of Some k \<Rightarrow> k | None \<Rightarrow> 0) else 0) + length (last ls)) vo' kind pl"
    and st': "pb_lines st' = pb_lines (fold emitLine out st)" "pb_currentLine st' = pb_currentLine (fold emitLine out st)"
      "pb_sourceMap st' = addSpan span (pb_sourceMap st)"
  shows "build_ok cof st' \<and> map span_key (build_spans st') = map span_key (build_spans st) @ [(uri, nb_start b)]"
proof -
  have cl: "pb_currentLine st = length (pb_lines st)" using ok by (simp add: build_ok_def)
  have le: "nb_start b \<le> length content" using n by simp
  have pos: "ls \<noteq> []" using ls by simp
  have src: "sp_sourceUri span = uri" "sp_virtualStartLine span = length (pb_lines st)"
    "sp_virtualEndLine span = length (pb_lines st) + length ls - 1"
    by (simp_all add: span block_span_def Let_def cl fold_emitLine out(1))
  have "span_holds content (pb_lines st @ out) (nb_start b) (user_length content b) (nb_end b) span"
    unfolding span_holds_def Let_def ls [symmetric]
  proof (intro conjI allI impI)
    fix l assume l: "l < length ls"
    have "(pb_lines st @ out) ! (sp_virtualStartLine span + l) = out ! l" using l out(1) by (simp add: src)
    with out(3) [OF l] show "\<exists>pre post. (pb_lines st @ out) ! (sp_virtualStartLine span + l) = pre @ ls ! l @ post
        \<and> length pre = sp_virtualStartCol span + (if l = 0 then prefix_of span else 0)"
      by (cases "l = 0") (simp_all add: span block_span_def Let_def prefix_of_def)
  qed (use n le pos out(1) kind src in
      \<open>simp_all add: span block_span_def Let_def offsetToPosition_at pos_at_def prefix_of_def cl fold_emitLine\<close>)
  then have "span_good cof (pb_lines st @ out) span"
    unfolding span_good_def src c [symmetric] using b by blast
  moreover have "sp_virtualEndLine s < length (pb_lines st)" if "s \<in> set (build_spans st)" for s
    using ok that by (auto simp: build_ok_def span_good_def span_holds_def Let_def)
  moreover have "span_key span = (uri, nb_start b)" by (simp add: span_key_def span block_span_def Let_def)
  ultimately show ?thesis
    using ok out(2) src(2) st' cl out(1)
    by (auto simp: build_ok_def fold_emitLine addSpan_def sorted_wrt_append intro: span_good_append)
qed

lemma raw_slice: "js_slice content (nb_start b) (nb_end b) = take (nb_end b - nb_start b) (drop (nb_start b) content)"
  by (simp add: js_slice_def)

lemma block_bounds:
  assumes "b \<in> set (findJavaBlocks content)"
  shows "nb_start b \<le> nb_end b" and "nb_end b \<le> length content"
    and "nb_start b + user_length content b \<le> nb_end b"
    and "strip_semicolon (js_slice content (nb_start b) (nb_end b)) =
      take (length (strip_semicolon (js_slice content (nb_start b) (nb_end b)))) (drop (nb_start b) content)"
proof -
  have ok: "block_ok content 0 b" using assms find_blocks_ok by (auto simp: findJavaBlocks_loop)
  then show s: "nb_start b \<le> nb_end b" by (simp add: block_ok_def)
  show e: "nb_end b \<le> length content" using ok by (auto simp: block_ok_def)
  obtain j where j: "strip_semicolon (js_slice content (nb_start b) (nb_end b)) =
      take j (js_slice content (nb_start b) (nb_end b))" "j \<le> length (js_slice content (nb_start b) (nb_end b))"
    by (rule strip_semicolon_prefix)
  with s e show "nb_start b + user_length content b \<le> nb_end b" by (auto simp: user_length_def)
  from j s e show "strip_semicolon (js_slice content (nb_start b) (nb_end b)) =
      take (length (strip_semicolon (js_slice content (nb_start b) (nb_end b)))) (drop (nb_start b) content)"
    by (simp add: js_slice_def)
qed

lemma no_NL_lines: "\<forall>l\<in>set (split_nl t). NL \<notin> set l"
  using no_NL_in_line by blast

lemma no_NL_decimal: "NL \<notin> set (decimal n)"
  using decimal_ok [of n] by (auto simp: list_all_iff is_digit_def)

lemma no_NL_simps [simp]: "NL \<notin> set (indent k)" "NL \<notin> set (expr_prefix k)"
  by (simp_all add: indent_def expr_prefix_def no_NL_decimal)

lemma length_indent [simp]: "length (indent k) = k"
  by (simp add: indent_def)

lemma indent_lines:
  "length (map (\<lambda>l. indent k @ l) ls) = length ls"
  "\<forall>l\<in>set (map (\<lambda>l. indent k @ l) (split_nl t)). NL \<notin> set l"
  "i < length ls \<Longrightarrow> \<exists>pre post. map (\<lambda>l. indent k @ l) ls ! i = pre @ ls ! i @ post
     \<and> length pre = k + (if i = 0 then (case None of Some j \<Rightarrow> j | None \<Rightarrow> 0) else 0)"
proof -
  show "length (map (\<lambda>l. indent k @ l) ls) = length ls" by simp
  show "\<forall>l\<in>set (map (\<lambda>l. indent k @ l) (split_nl t)). NL \<notin> set l" using no_NL_lines by auto
  show "\<exists>pre post. map (\<lambda>l. indent k @ l) ls ! i = pre @ ls ! i @ post
     \<and> length pre = k + (if i = 0 then (case None of Some j \<Rightarrow> j | None \<Rightarrow> 0) else 0)" if "i < length ls"
    by (rule exI [of _ "indent k"], rule exI [of _ "[]"]) (use that in simp)
qed

lemma expr_lines:
  assumes "ls \<noteq> []"
  shows "length (expr_output p ls) = length ls"
    and "(\<forall>l\<in>set ls. NL \<notin> set l) \<Longrightarrow> NL \<notin> set p \<Longrightarrow> \<forall>l\<in>set (expr_output p ls). NL \<notin> set l"
    and "i < length ls \<Longrightarrow> \<exists>pre post. expr_output p ls ! i = pre @ ls ! i @ post
      \<and> length pre = 8 + (if i = 0 then length p else 0)"
proof -
  obtain l r where ls: "ls = l # r" using assms by (cases ls) simp_all
  show "length (expr_output p ls) = length ls" by (cases r) (simp_all add: expr_output_def ls)
  show "(\<forall>l\<in>set ls. NL \<notin> set l) \<Longrightarrow> NL \<notin> set p \<Longrightarrow> \<forall>l\<in>set (expr_output p ls). NL \<notin> set l"
    by (cases r rule: rev_cases) (auto simp: expr_output_def ls)
  show "\<exists>pre post. expr_output p ls ! i = pre @ ls ! i @ post \<and> length pre = 8 + (if i = 0 then length p else 0)"
    if il: "i < length ls"
  proof (cases i)
    case 0
    have "\<exists>post. expr_output p ls ! 0 = (indent 8 @ p) @ l @ post"
      by (cases r) (auto simp: expr_output_def ls)
    then obtain post where "expr_output p ls ! 0 = (indent 8 @ p) @ l @ post" by blast
    with 0 have "expr_output p ls ! i = (indent 8 @ p) @ ls ! i @ post
        \<and> length (indent 8 @ p) = 8 + (if i = 0 then length p else 0)" by (simp add: ls)
    then show ?thesis by blast
  next
    case (Suc k)
    then obtain q x where r: "r = q @ [x]" using il ls by (cases r rule: rev_cases) auto
    have "\<exists>post. expr_output p ls ! i = indent 8 @ ls ! i @ post"
      using Suc il by (auto simp: expr_output_def ls r nth_append)
    then obtain post where "expr_output p ls ! i = indent 8 @ ls ! i @ post
        \<and> length (indent 8) = 8 + (if i = 0 then length p else 0)" using Suc by auto
    then show ?thesis by blast
  qed
qed

lemma build_ok_declaration:
  assumes ok: "build_ok cof st" and b: "b \<in> set (findJavaBlocks content)" "nb_kind b \<noteq> NExpression"
    and c: "content = cof uri"
  shows "build_ok cof (emit_declaration uri content b st)
    \<and> map span_key (build_spans (emit_declaration uri content b st)) =
      map span_key (build_spans st) @ [(uri, nb_start b)]"
proof (rule build_ok_block [OF ok b(1) c block_bounds(3,2) [OF b(1)] refl, where pl = None and ind = 4
      and vo = "pb_currentOffset st + 4"
      and vo' = "pb_currentOffset (fold emitLine (map (\<lambda>l. indent 4 @ l)
        (split_nl (take (user_length content b) (drop (nb_start b) content)))) st) - 1"])
  let ?ls = "split_nl (take (user_length content b) (drop (nb_start b) content))"
  show "length (map (\<lambda>l. indent 4 @ l) ?ls) = length ?ls" by simp
  show "\<forall>l\<in>set (map (\<lambda>l. indent 4 @ l) ?ls). NL \<notin> set l" by (rule indent_lines)
  show "SpDeclaration \<noteq> SpSynthetic" by simp
  show "\<exists>pre post. map (\<lambda>l. indent 4 @ l) ?ls ! l = pre @ ?ls ! l @ post
      \<and> length pre = 4 + (if l = 0 then (case None of Some k \<Rightarrow> k | None \<Rightarrow> 0) else 0)" if "l < length ?ls" for l
    using that by (rule indent_lines)
qed (use b(2) in \<open>simp_all add: emit_declaration_def Let_def user_length_def raw_slice fold_emitLine add.commute\<close>)

lemma build_ok_body:
  assumes ok: "build_ok cof st" and b: "bb_block item \<in> set (findJavaBlocks (bb_pageContent item))"
    and c: "bb_pageContent item = cof (bb_pageUri item)"
  shows "build_ok cof (emit_body item st)
    \<and> map span_key (build_spans (emit_body item st)) =
      map span_key (build_spans st) @ [(bb_pageUri item, nb_start (bb_block item))]"
proof -
  let ?b = "bb_block item" and ?c = "bb_pageContent item"
  let ?t = "take (user_length ?c ?b) (drop (nb_start ?b) ?c)"
  note bd = block_bounds [OF b]
  show ?thesis
  proof (cases "nb_kind ?b = NExpression")
    case True
    let ?p = "expr_prefix (pb_exprCounter st + 1)"
    have t: "?t = strip_semicolon (js_slice ?c (nb_start ?b) (nb_end ?b))"
      using True bd(4) by (simp add: user_length_def)
    show ?thesis
    proof (rule build_ok_block [OF ok b c bd(3,2) refl, where pl = "Some (length ?p)" and ind = 8
          and out = "expr_output ?p (split_nl ?t)" and kind = SpExpression
          and vo = "pb_currentOffset st + 8"
          and vo' = "pb_currentOffset (fold emitLine (expr_output ?p (split_nl ?t))
            (st\<lparr>pb_exprCounter := pb_exprCounter st + 1\<rparr>))"])
      show "length (expr_output ?p (split_nl ?t)) = length (split_nl ?t)" by (rule expr_lines) simp
      show "\<forall>l\<in>set (expr_output ?p (split_nl ?t)). NL \<notin> set l" by (rule expr_lines) (simp_all add: no_NL_lines)
      show "\<exists>pre post. expr_output ?p (split_nl ?t) ! l = pre @ split_nl ?t ! l @ post
          \<and> length pre = 8 + (if l = 0 then (case Some (length ?p) of Some k \<Rightarrow> k | None \<Rightarrow> 0) else 0)"
        if "l < length (split_nl ?t)" for l
        unfolding option.case by (rule expr_lines(3) [OF _ that]) simp
    qed (use True in \<open>simp_all add: emit_body_def Let_def t fold_emitLine\<close>)
  next
    case False
    then have t: "?t = js_slice ?c (nb_start ?b) (nb_end ?b)" by (simp add: user_length_def raw_slice)
    show ?thesis
    proof (rule build_ok_block [OF ok b c bd(3,2) refl, where pl = None and ind = 8
          and out = "map (\<lambda>l. indent 8 @ l) (split_nl ?t)" and kind = SpScriptlet
          and vo = "pb_currentOffset st + 8"
          and vo' = "pb_currentOffset (fold emitLine (map (\<lambda>l. indent 8 @ l) (split_nl ?t)) st) - 1"])
      show "\<forall>l\<in>set (map (\<lambda>l. indent 8 @ l) (split_nl ?t)). NL \<notin> set l" by (rule indent_lines)
      show "\<exists>pre post. map (\<lambda>l. indent 8 @ l) (split_nl ?t) ! l = pre @ split_nl ?t ! l @ post
          \<and> length pre = 8 + (if l = 0 then (case None of Some k \<Rightarrow> k | None \<Rightarrow> 0) else 0)"
        if "l < length (split_nl ?t)" for l
        using that by (rule indent_lines)
    qed (use False in \<open>simp_all add: emit_body_def Let_def t fold_emitLine\<close>)
  qed
qed


section \<open>The whole file\<close>

lemma fold_build_ok:
  assumes "build_ok cof st"
    and "\<And>x st. x \<in> set xs \<Longrightarrow> build_ok cof st \<Longrightarrow>
      build_ok cof (f x st) \<and> map span_key (build_spans (f x st)) = map span_key (build_spans st) @ [key x]"
  shows "build_ok cof (fold f xs st)
    \<and> map span_key (build_spans (fold f xs st)) = map span_key (build_spans st) @ map key xs"
  using assms by (induction xs arbitrary: st) simp_all

text \<open>What the recursion over the includes yields: parsed pages and blocks of the texts of their URIs.\<close>

definition resolver_ok :: "(string \<Rightarrow> string) \<Rightarrow> include_resolver \<Rightarrow> bool" where
  "resolver_ok cof resolver \<longleftrightarrow>
     (\<forall>file uri c. resolver file uri = Some c \<longrightarrow> c = cof (resolveRelativeUri uri file))"

lemma sequence_opt_Some:
  "sequence_opt xs = Some ys \<longleftrightarrow> xs = map Some ys"
proof -
  have "xs = map (Some \<circ> the) xs" if "None \<notin> set xs"
    using that by (intro map_idI [symmetric]) (metis comp_apply option.collapse)
  then show ?thesis by (auto simp: sequence_opt_def)
qed

lemma parsePage_sel:
  "pg_uri (parsePage uri c) = uri" "pg_content (parsePage uri c) = c"
  "pg_declarations (parsePage uri c) = filter (\<lambda>b. nb_kind b = NDeclaration) (findJavaBlocks c)"
  "pg_bodyBlocks (parsePage uri c) =
    filter (\<lambda>b. nb_kind b = NScriptlet \<or> nb_kind b = NExpression) (findJavaBlocks c)"
  by (simp_all add: parsePage_def Let_def)

lemma traverse_pages_pages:
  assumes "resolver_ok cof resolver"
  shows "traverse_pages n resolver stack uri (cof uri) = Some ps \<Longrightarrow>
    p \<in> set ps \<Longrightarrow> p = parsePage (pg_uri p) (cof (pg_uri p))"
proof (induction n arbitrary: stack uri ps)
  case (Suc n)
  show ?case
  proof (cases "uri \<in> set stack")
    case False
    let ?f = "\<lambda>inc :: include_directive. case resolver (in_file inc) uri of None \<Rightarrow> Some []
      | Some c \<Rightarrow> traverse_pages n resolver (uri # stack) (resolveRelativeUri uri (in_file inc)) c"
    from Suc.prems(1) False obtain children where
      ch: "map ?f (pg_includes (parsePage uri (cof uri))) = map Some children"
        "ps = parsePage uri (cof uri) # concat children"
      by (auto simp: Let_def sequence_opt_Some)
    from Suc.prems(2) ch(2) consider "p = parsePage uri (cof uri)" | q where "q \<in> set children" "p \<in> set q"
      by auto
    then show ?thesis
    proof cases
      case 1
      then show ?thesis by (simp add: parsePage_def Let_def)
    next
      case 2
      then have "Some q \<in> set (map ?f (pg_includes (parsePage uri (cof uri))))" unfolding ch(1) by simp
      then have "\<exists>inc. Some q = ?f inc" by auto
      then obtain inc where inc: "Some q = ?f inc" ..
      then obtain c where c: "resolver (in_file inc) uri = Some c"
        "traverse_pages n resolver (uri # stack) (resolveRelativeUri uri (in_file inc)) c = Some q"
        using 2(2) by (cases "resolver (in_file inc) uri") auto
      moreover have "c = cof (resolveRelativeUri uri (in_file inc))" using assms c(1) by (simp add: resolver_ok_def)
      ultimately show ?thesis using Suc.IH 2(2) by blast
    qed
  qed (use Suc.prems in simp)
qed simp

lemma traverse_blocks_in_pages:
  assumes "resolver_ok cof resolver"
  shows "traverse_pages n resolver stack uri (cof uri) = Some ps \<Longrightarrow>
    item \<in> set (traverse_blocks k resolver stack uri (cof uri)) \<Longrightarrow>
    bb_pageContent item = cof (bb_pageUri item) \<and> bb_pageUri item \<in> pg_uri ` set ps
    \<and> bb_block item \<in> set (pg_bodyBlocks (parsePage (bb_pageUri item) (bb_pageContent item)))"
proof (induction n arbitrary: stack uri ps k)
  case (Suc n)
  obtain j where k: "k = Suc j" using Suc.prems(2) by (cases k) simp_all
  have ns: "uri \<notin> set stack" using Suc.prems(2) k by (auto split: if_splits)
  let ?pg = "parsePage uri (cof uri)"
  let ?f = "\<lambda>inc :: include_directive. case resolver (in_file inc) uri of None \<Rightarrow> Some []
    | Some c \<Rightarrow> traverse_pages n resolver (uri # stack) (resolveRelativeUri uri (in_file inc)) c"
  from Suc.prems(1) ns obtain children where
    ch: "map ?f (pg_includes ?pg) = map Some children" "ps = ?pg # concat children"
    by (auto simp: Let_def sequence_opt_Some)
  have uri: "pg_uri ?pg = uri" by (simp add: parsePage_def Let_def)
  from Suc.prems(2) ns k obtain ev where ev: "ev \<in> set (page_events ?pg)"
    "item \<in> set (case ev of BlockEvent b \<Rightarrow> [\<lparr> bb_block = b, bb_pageUri = uri, bb_pageContent = cof uri \<rparr>]
       | IncludeEvent inc \<Rightarrow> (case resolver (in_file inc) uri of None \<Rightarrow> []
           | Some c \<Rightarrow> traverse_blocks j resolver (uri # stack) (resolveRelativeUri uri (in_file inc)) c))"
    by auto
  consider
      (block) b where "b \<in> set (pg_bodyBlocks ?pg)" "item = \<lparr> bb_block = b, bb_pageUri = uri, bb_pageContent = cof uri \<rparr>"
    | (child) inc c where "inc \<in> set (pg_includes ?pg)" "resolver (in_file inc) uri = Some c"
        "item \<in> set (traverse_blocks j resolver (uri # stack) (resolveRelativeUri uri (in_file inc)) c)"
  proof (cases ev)
    case (IncludeEvent inc)
    with ev child show thesis
      by (cases "resolver (in_file inc) uri") (auto simp: page_events_def)
  qed (use ev block in \<open>auto simp: page_events_def\<close>)
  then show ?case
  proof cases
    case block
    with ch(2) uri show ?thesis by simp
  next
    case child
    have c: "c = cof (resolveRelativeUri uri (in_file inc))" using assms child(2) by (simp add: resolver_ok_def)
    have "?f inc \<in> set (map Some children)" unfolding ch(1) [symmetric] using child(1) by simp
    then obtain q where q: "q \<in> set children"
      "traverse_pages n resolver (uri # stack) (resolveRelativeUri uri (in_file inc)) c = Some q"
      using child(2) by auto
    from Suc.IH [OF q(2) [unfolded c] child(3) [unfolded c]] q(1) ch(2) show ?thesis by auto
  qed
qed simp

definition page_blocks :: "parsed_page list \<Rightarrow> body_block list \<Rightarrow> (string \<times> nav_block) list" where
  "page_blocks pages bodies =
    map (\<lambda>(uri, content, d). (uri, d)) (page_declarations pages) @ map (\<lambda>i. (bb_pageUri i, bb_block i)) bodies"

lemma emit_page_ok:
  assumes pages: "\<And>p. p \<in> set pages \<Longrightarrow> p = parsePage (pg_uri p) (cof (pg_uri p))"
    and imps: "\<And>p imp. p \<in> set pages \<Longrightarrow> imp \<in> set (pg_imports p) \<Longrightarrow> NL \<notin> set imp"
    and bodies: "\<And>i. i \<in> set bodies \<Longrightarrow> bb_pageContent i = cof (bb_pageUri i)
      \<and> bb_block i \<in> set (pg_bodyBlocks (parsePage (bb_pageUri i) (bb_pageContent i)))"
  shows "build_ok cof (emit_page pages bodies)
    \<and> map span_key (build_spans (emit_page pages bodies)) =
      map (\<lambda>(uri, b). (uri, nb_start b)) (page_blocks pages bodies)"
proof -
  let ?imports = "fold add_new (concat (map pg_imports pages)) []"
  let ?h = "emit_header ?imports new_page_build"
  let ?decl = "\<lambda>(uri, content, d). emit_declaration uri content d"
  let ?d = "fold ?decl (page_declarations pages) ?h"
  let ?s = "fold emitLine service_lines ?d"
  let ?b = "fold emit_body bodies ?s"
  have a: "set (add_new x ys) = insert x (set ys)" for x :: string and ys by (auto simp: add_new_def)
  have "set (fold add_new xs ys) = set xs \<union> set ys" for xs ys :: "string list"
    by (induction xs arbitrary: ys) (simp_all add: a)
  then have "NL \<notin> set imp" if "imp \<in> set ?imports" for imp
    using imps that by fastforce
  then have h: "build_ok cof ?h \<and> map span_key (build_spans ?h) = []"
    unfolding emit_header_def fold_emitLine
    by (intro conjI build_ok_emit) (auto simp: build_ok_def new_page_build_def new_source_map_def)
  have d: "build_ok cof ?d \<and> map span_key (build_spans ?d) =
      map span_key (build_spans ?h) @ map (\<lambda>(uri, c, b). (uri, nb_start b)) (page_declarations pages)"
  proof (rule fold_build_ok)
    fix x st assume x: "x \<in> set (page_declarations pages)" and st: "build_ok cof st"
    from x obtain p b where p: "p \<in> set pages" "b \<in> set (pg_declarations p)" "x = (pg_uri p, pg_content p, b)"
      by (auto simp: page_declarations_def)
    have c: "pg_content p = cof (pg_uri p)"
      using arg_cong [OF pages [OF p(1)], of pg_content] by (simp add: parsePage_sel)
    have "pg_declarations p = filter (\<lambda>b. nb_kind b = NDeclaration) (findJavaBlocks (pg_content p))"
      using arg_cong [OF pages [OF p(1)], of pg_declarations] by (simp add: parsePage_sel c)
    with p(2) have "b \<in> set (findJavaBlocks (pg_content p))" "nb_kind b \<noteq> NExpression" by auto
    from build_ok_declaration [OF st this c] p(3)
    show "build_ok cof (?decl x st) \<and> map span_key (build_spans (?decl x st)) =
        map span_key (build_spans st) @ [(\<lambda>(uri, c, b). (uri, nb_start b)) x]" by simp
  qed (use h in blast)
  have s: "build_ok cof ?s \<and> build_spans ?s = build_spans ?d"
    unfolding fold_emitLine using d by (intro conjI build_ok_emit) (auto simp: service_lines_def)
  have b: "build_ok cof ?b \<and> map span_key (build_spans ?b) =
      map span_key (build_spans ?s) @ map (\<lambda>i. (bb_pageUri i, nb_start (bb_block i))) bodies"
  proof (rule fold_build_ok)
    fix i st assume i: "i \<in> set bodies" and st: "build_ok cof st"
    have "bb_block i \<in> set (findJavaBlocks (bb_pageContent i))"
      using conjunct2 [OF bodies [OF i]] by (simp add: parsePage_sel)
    with bodies [OF i] build_ok_body [OF st]
    show "build_ok cof (emit_body i st) \<and> map span_key (build_spans (emit_body i st)) =
        map span_key (build_spans st) @ [(bb_pageUri i, nb_start (bb_block i))]" by blast
  qed (use s in blast)
  have "build_ok cof (emit_page pages bodies) \<and> build_spans (emit_page pages bodies) = build_spans ?b"
    unfolding emit_page_def fold_emitLine using b by (intro conjI build_ok_emit) auto
  with b s d h show ?thesis by (simp add: page_blocks_def split_beta)
qed

lemma java_block_unique:
  assumes "a \<in> set (findJavaBlocks c)" and "b \<in> set (findJavaBlocks c)"
    and "nb_start a \<le> i" "i \<le> nb_end a" "nb_start b \<le> i" "i \<le> nb_end b"
  shows "a = b"
proof -
  obtain j k where jk: "j < length (findJavaBlocks c)" "findJavaBlocks c ! j = a"
    "k < length (findJavaBlocks c)" "findJavaBlocks c ! k = b"
    using assms(1,2) by (auto simp: in_set_conv_nth)
  have "nb_end (findJavaBlocks c ! x) + 4 \<le> nb_start (findJavaBlocks c ! y)"
    if "x < y" "y < length (findJavaBlocks c)" for x y
    using find_blocks_ok [of c 0] that by (simp add: findJavaBlocks_loop sorted_wrt_iff_nth_less)
  from this [of j k] this [of k j] jk assms(3-6) show ?thesis by (cases j k rule: linorder_cases) auto
qed

lemma fold_setSourceText_spans:
  "sm_spans (fold (\<lambda>p. setSourceText (pg_uri p) (pg_content p)) pages m) = sm_spans m"
  "sm_virtualLineStarts (fold (\<lambda>p. setSourceText (pg_uri p) (pg_content p)) pages m) = sm_virtualLineStarts m"
  by (induction pages arbitrary: m) (simp_all add: setSourceText_def)

lemma fold_setSourceText_get:
  assumes "\<And>p. p \<in> set pages \<Longrightarrow> pg_content p = cof (pg_uri p)"
    and "uri \<in> pg_uri ` set pages \<or> jm_get (sm_sourceLineStartsMap m) uri = Some (computeLineStarts (cof uri))"
  shows "jm_get (sm_sourceLineStartsMap (fold (\<lambda>p. setSourceText (pg_uri p) (pg_content p)) pages m)) uri =
     Some (computeLineStarts (cof uri))"
  using assms
proof (induction pages arbitrary: m)
  case (Cons p pages)
  let ?m = "setSourceText (pg_uri p) (pg_content p) m"
  have "uri \<in> pg_uri ` set pages \<or> jm_get (sm_sourceLineStartsMap ?m) uri = Some (computeLineStarts (cof uri))"
    using Cons.prems by (auto simp: setSourceText_def)
  with Cons.IH [of ?m] Cons.prems(1) show ?case by simp
qed simp


section \<open>Positions of the page in the virtual file\<close>

lemma build_parts:
  assumes r: "buildPageVirtualJava fuel resolver root (cof root) = Some r" and cof: "resolver_ok cof resolver"
    and pages: "resolveIncludeTree fuel resolver root (cof root) = Some pages"
    and imps: "\<forall>p\<in>set pages. \<forall>imp\<in>set (pg_imports p). NL \<notin> set imp"
  defines "spans \<equiv> sm_spans (pv_sourceMap r)" and "vlines \<equiv> split_nl (pv_virtualJava r)"
  shows "\<forall>span\<in>set spans. span_good cof vlines span"
    and "sorted_wrt (\<lambda>a b. sp_virtualEndLine a < sp_virtualStartLine b) spans"
    and "map span_key spans = map (\<lambda>(uri, b). (uri, nb_start b))
      (page_blocks pages (collectExpandedBodyBlocks resolver root (cof root)))"
    and "\<And>uri b. (uri, b) \<in> set (page_blocks pages (collectExpandedBodyBlocks resolver root (cof root))) \<Longrightarrow>
      b \<in> set (findJavaBlocks (cof uri))
      \<and> jm_get (sm_sourceLineStartsMap (pv_sourceMap r)) uri = Some (computeLineStarts (cof uri))"
proof -
  let ?bodies = "collectExpandedBodyBlocks resolver root (cof root)"
  let ?st = "emit_page pages ?bodies"
  have p: "p = parsePage (pg_uri p) (cof (pg_uri p))" if "p \<in> set pages" for p
    using traverse_pages_pages [OF cof] pages that by (simp add: resolveIncludeTree_def)
  have pc: "pg_content p = cof (pg_uri p)" if "p \<in> set pages" for p
    using arg_cong [OF p [OF that], of pg_content] by (simp add: parsePage_sel)
  have i: "bb_pageContent i = cof (bb_pageUri i) \<and> bb_pageUri i \<in> pg_uri ` set pages
      \<and> bb_block i \<in> set (pg_bodyBlocks (parsePage (bb_pageUri i) (bb_pageContent i)))" if "i \<in> set ?bodies" for i
    using traverse_blocks_in_pages [OF cof] pages that
    unfolding resolveIncludeTree_def collectExpandedBodyBlocks_def by blast
  have e: "build_ok cof ?st \<and> map span_key (build_spans ?st) = map (\<lambda>(uri, b). (uri, nb_start b)) (page_blocks pages ?bodies)"
    by (rule emit_page_ok) (use p imps i in blast)+
  have lines: "pb_lines ?st \<noteq> []" by (simp add: emit_page_def emitLine_def)
  have v: "pv_virtualJava r = join_nl (pb_lines ?st)"
    "pv_sourceMap r = fold (\<lambda>p. setSourceText (pg_uri p) (pg_content p)) pages
      (setVirtualText (join_nl (pb_lines ?st)) (pb_sourceMap ?st))"
    using r pages by (auto simp: buildPageVirtualJava_def Let_def)
  have s: "spans = build_spans ?st" by (simp add: spans_def v fold_setSourceText_spans setVirtualText_def)
  have "vlines = pb_lines ?st" unfolding vlines_def v using e lines by (intro split_join_lines) (auto simp: build_ok_def)
  with e s show "\<forall>span\<in>set spans. span_good cof vlines span"
    "sorted_wrt (\<lambda>a b. sp_virtualEndLine a < sp_virtualStartLine b) spans"
    "map span_key spans = map (\<lambda>(uri, b). (uri, nb_start b)) (page_blocks pages ?bodies)"
    by (simp_all add: build_ok_def)
  fix uri b assume "(uri, b) \<in> set (page_blocks pages ?bodies)"
  then consider q where "q \<in> set pages" "b \<in> set (pg_declarations q)" "uri = pg_uri q"
    | j where "j \<in> set ?bodies" "b = bb_block j" "uri = bb_pageUri j"
    by (auto simp: page_blocks_def page_declarations_def)
  then have "uri \<in> pg_uri ` set pages \<and> b \<in> set (findJavaBlocks (cof uri))"
  proof cases
    case 1
    then show ?thesis
      using arg_cong [OF p [OF 1(1)], of pg_declarations] by (simp add: parsePage_sel)
  next
    case 2
    have "bb_block j \<in> set (findJavaBlocks (bb_pageContent j))" using conjunct2 [OF conjunct2 [OF i [OF 2(1)]]] by (simp add: parsePage_sel)
    with i [OF 2(1)] 2(2,3) show ?thesis by metis
  qed
  then show "b \<in> set (findJavaBlocks (cof uri))
      \<and> jm_get (sm_sourceLineStartsMap (pv_sourceMap r)) uri = Some (computeLineStarts (cof uri))"
    unfolding v by (intro conjI fold_setSourceText_get) (use pc in auto)
qed

lemma page_positions_lemma:
  assumes r: "buildPageVirtualJava fuel resolver root (cof root) = Some r" and cof: "resolver_ok cof resolver"
    and pages: "resolveIncludeTree fuel resolver root (cof root) = Some pages"
    and imps: "\<forall>p\<in>set pages. \<forall>imp\<in>set (pg_imports p). NL \<notin> set imp"
    and b: "(uri, b) \<in> set (page_blocks pages (collectExpandedBodyBlocks resolver root (cof root)))"
    and i: "nb_start b \<le> i" "i < nb_start b + user_length (cof uri) b" "cof uri ! i \<noteq> NL"
  shows "\<exists>v j. mapJspPositionToVirtual (pv_sourceMap r) uri (line_at (cof uri) i) (col_at (cof uri) i) = Some v
    \<and> mp_line v < length (split_nl (pv_virtualJava r))
    \<and> char_at (split_nl (pv_virtualJava r) ! mp_line v) (mp_character v) = Some (cof uri ! i)
    \<and> mapVirtualPositionToJsp (pv_sourceMap r) (mp_line v) (mp_character v) = Some j
    \<and> mj_sourceUri j = uri \<and> mp_line j = line_at (cof uri) i \<and> mp_character j = col_at (cof uri) i
    \<and> mp_offset j = int i \<and> mj_inUserCode j"
proof -
  let ?m = "pv_sourceMap r" and ?c = "cof uri" and ?vl = "split_nl (pv_virtualJava r)"
  let ?L = "line_at ?c i" and ?C = "col_at ?c i"
  note parts = build_parts [OF r cof pages imps]
  have blk: "b \<in> set (findJavaBlocks ?c)"
    and starts: "jm_get (sm_sourceLineStartsMap ?m) uri = Some (computeLineStarts ?c)"
    using parts(4) [OF b] by auto
  have ie: "i \<le> nb_end b" "nb_end b \<le> length ?c" using block_bounds(2,3) [OF blk] i by auto
  have hit: "in_source uri ?L ?C s \<longleftrightarrow> nb_start d \<le> i \<and> i \<le> nb_end d"
    if "d \<in> set (findJavaBlocks ?c)" "span_holds ?c ?vl (nb_start d) n (nb_end d) s" "sp_sourceUri s = uri" for d n s
    using in_source_iff [of s ?c "nb_start d" "nb_end d" i uri] that ie block_bounds(1,2) [OF that(1)]
    by (auto simp: span_holds_def)
  have "(uri, nb_start b) \<in> set (map span_key (sm_spans ?m))" unfolding parts(3) using b by force
  then obtain s0 where s0: "s0 \<in> set (sm_spans ?m)" "sp_sourceUri s0 = uri" "sp_sourceStartOffset s0 = nb_start b"
    by (auto simp: span_key_def)
  then obtain d where d: "d \<in> set (findJavaBlocks ?c)"
    "span_holds ?c ?vl (nb_start d) (user_length ?c d) (nb_end d) s0"
    using parts(1) by (auto simp: span_good_def)
  then have "nb_start d = nb_start b" using s0(3) by (simp add: span_holds_def)
  with java_block_unique [OF d(1) blk, of "nb_start b"] block_bounds(1) [OF d(1)] block_bounds(1) [OF blk] have "d = b" by simp
  with hit [OF d s0(2)] i(1) ie have "in_source uri ?L ?C s0" by simp
  with s0(1) have "find (in_source uri ?L ?C) (sm_spans ?m) \<noteq> None" by (auto simp: find_None_iff)
  then obtain s where find: "find (in_source uri ?L ?C) (sm_spans ?m) = Some s" by auto
  then have s: "s \<in> set (sm_spans ?m)" "in_source uri ?L ?C s" by (auto simp: find_Some_iff)
  then have su: "sp_sourceUri s = uri" by (simp add: in_source_def)
  obtain e where e: "e \<in> set (findJavaBlocks ?c)" "span_holds ?c ?vl (nb_start e) (user_length ?c e) (nb_end e) s"
    using parts(1) s(1) su by (auto simp: span_good_def)
  have "e = b"
    using java_block_unique [OF e(1) blk, of i] hit [OF e su] s(2) i(1) ie by simp
  note h = e(2) [unfolded this]
  let ?v = "to_virtual ?m ?L ?C s"
  note v = to_virtual_holds [OF h i, of ?m]
  have "find (in_virtual (mp_line ?v) (mp_character ?v)) (sm_spans ?m) = Some s"
  proof (rule find_unique [OF s(1)])
    show "in_virtual (mp_line ?v) (mp_character ?v) s" by (rule v(3))
  next
    fix y assume y: "y \<in> set (sm_spans ?m)" "in_virtual (mp_line ?v) (mp_character ?v) y"
    obtain j k where jk: "j < length (sm_spans ?m)" "sm_spans ?m ! j = y" "k < length (sm_spans ?m)" "sm_spans ?m ! k = s"
      using y(1) s(1) by (auto simp: in_set_conv_nth)
    have "sp_virtualEndLine (sm_spans ?m ! a) < sp_virtualStartLine (sm_spans ?m ! c)" if "a < c" "c < length (sm_spans ?m)" for a c
      using parts(2) that by (simp add: sorted_wrt_iff_nth_less)
    from this [of j k] this [of k j] jk y(2) v(3) show "y = s"
      by (cases j k rule: linorder_cases) (auto simp: in_virtual_def)
  qed
  moreover have "to_source ?m (mp_line ?v) (mp_character ?v) s =
      \<lparr> mp_line = ?L, mp_character = ?C, mp_offset = int i, mp_span = s, mj_sourceUri = uri, mj_inUserCode = True \<rparr>"
    using to_source_holds [OF h i(1,2), of ?m ?m] starts su by simp
  ultimately show ?thesis
    using find v by (simp add: mapJspPositionToVirtual_def mapVirtualPositionToJsp_def)
qed

section \<open>The recursion over the includes\<close>

lemma traverse_pages_mono:
  "traverse_pages n resolver stack uri c = Some ps \<Longrightarrow> n \<le> m \<Longrightarrow> traverse_pages m resolver stack uri c = Some ps"
proof (induction n arbitrary: m stack uri c ps)
  case (Suc n)
  obtain k where k: "m = Suc k" "n \<le> k" using Suc.prems(2) by (cases m) auto
  show ?case
  proof (cases "uri \<in> set stack")
    case False
    let ?f = "\<lambda>n inc. case resolver (in_file inc) uri of None \<Rightarrow> Some []
      | Some c \<Rightarrow> traverse_pages n resolver (uri # stack) (resolveRelativeUri uri (in_file inc)) c"
    let ?incs = "pg_includes (parsePage uri c)"
    from Suc.prems(1) False obtain children where
      ch: "map (?f n) ?incs = map Some children" "ps = parsePage uri c # concat children"
      by (auto simp: Let_def sequence_opt_Some)
    have "?f k inc = ?f n inc" if "inc \<in> set ?incs" for inc
    proof -
      have "?f n inc \<in> set (map Some children)" unfolding ch(1) [symmetric] using that by simp
      then obtain q where "?f n inc = Some q" by auto
      then show ?thesis using Suc.IH [OF _ k(2)] by (cases "resolver (in_file inc) uri") auto
    qed
    then have "map (?f k) ?incs = map Some children" unfolding ch(1) [symmetric] by (intro map_cong refl)
    with ch(2) False k show ?thesis by (auto simp: Let_def sequence_opt_Some)
  qed (use Suc.prems k in simp)
qed simp

lemma traverse_pages_total:
  assumes "finite U" and closed: "\<And>u file c. u \<in> U \<Longrightarrow> resolver file u = Some c \<Longrightarrow> resolveRelativeUri u file \<in> U"
  shows "uri \<in> U \<Longrightarrow> set stack \<subseteq> U \<Longrightarrow> card (U - set stack) < n \<Longrightarrow> traverse_pages n resolver stack uri c \<noteq> None"
proof (induction n arbitrary: stack uri c)
  case (Suc n)
  show ?case
  proof (cases "uri \<in> set stack")
    case False
    have "card (U - set (uri # stack)) < card (U - set stack)"
      using False Suc.prems(1) assms(1) by (intro psubset_card_mono) auto
    then have n: "card (U - set (uri # stack)) < n" using Suc.prems(3) by linarith
    have "(case resolver (in_file inc) uri of None \<Rightarrow> Some []
        | Some c \<Rightarrow> traverse_pages n resolver (uri # stack) (resolveRelativeUri uri (in_file inc)) c) \<noteq> None"
      for inc :: include_directive
      using Suc.IH [OF closed [OF Suc.prems(1)] _ n] Suc.prems(1,2) by (auto split: option.split)
    then have "None \<notin> set (map (\<lambda>inc. case resolver (in_file inc) uri of None \<Rightarrow> Some []
        | Some c \<Rightarrow> traverse_pages n resolver (uri # stack) (resolveRelativeUri uri (in_file inc)) c)
        (pg_includes (parsePage uri c)))"
      by (auto simp del: not_None_eq) (metis)
    with False show ?thesis by (simp add: Let_def sequence_opt_def)
  qed simp
qed simp

text \<open>A page that includes itself as \<open>./a.jsp\<close> gets a new URI at every level.\<close>

definition self_page :: string where
  "self_page = ''<%@ include file='' @ [DQ] @ ''./a.jsp'' @ [DQ] @ ''%>''"

lemma self_page_includes: "map in_file (pg_includes (parsePage u self_page)) = [''./a.jsp'']"
  by code_simp

lemma resolve_self: "resolveRelativeUri (d @ ''/a.jsp'') ''./a.jsp'' = (d @ ''/.'') @ ''/a.jsp''"
proof -
  have "last_index_of (d @ ''/'' @ ''a.jsp'') ''/'' = Some (length d)"
    by (rule last_index_of_append) simp_all
  then show ?thesis by (simp add: resolveRelativeUri_def Let_def)
qed

lemma traverse_self:
  "\<forall>u\<in>set stack. length u < length d + 6 \<Longrightarrow>
    traverse_pages n (\<lambda>_ _. Some self_page) stack (d @ ''/a.jsp'') self_page = None"
proof (induction n arbitrary: stack d)
  case (Suc n)
  have "d @ ''/a.jsp'' \<notin> set stack" using Suc.prems by fastforce
  moreover obtain inc where "pg_includes (parsePage (d @ ''/a.jsp'') self_page) = [inc]" "in_file inc = ''./a.jsp''"
    using self_page_includes [of "d @ ''/a.jsp''"] by (auto simp: map_eq_Cons_conv)
  moreover have "traverse_pages n (\<lambda>_ _. Some self_page) ((d @ ''/a.jsp'') # stack) ((d @ ''/.'') @ ''/a.jsp'') self_page = None"
    using Suc.prems by (intro Suc.IH) auto
  ultimately show ?case
    using resolve_self [of d] by (simp add: Let_def sequence_opt_def del: append_assoc)
qed simp

end
