(* ===== verification/DocumentSync.thy ===== *)
theory DocumentSync
  imports Prelude
begin

text \<open>
  \<open>java-extension/src/browser/java-document-sync-core.ts\<close>: which \<open>didOpen\<close>, \<open>didChange\<close> and
  \<open>didClose\<close> reach the language server. A timer of a document is a flag, the calls the client
  accepts are the list \<open>ds_wire\<close>, and \<open>throws\<close> says which calls raise. The promise of the class
  is that the server has the text of every opened document up to its pending changes.
\<close>

section \<open>Changes and positions\<close>

record lsp_position =
  po_line :: int
  po_character :: int

record lsp_range =
  ra_start :: lsp_position
  ra_end :: lsp_position

record content_change =
  cc_range :: "lsp_range option"
  cc_rangeLength :: "int option"
  cc_text :: string
  cc_offset :: "int option"
  cc_endOffset :: "int option"

text \<open>The loop of \<open>positionToOffset\<close> over \<open>n\<close> lines from \<open>off\<close>; \<open>-1\<close> is out of range.\<close>

fun skip_lines :: "string \<Rightarrow> nat \<Rightarrow> nat \<Rightarrow> nat option" where
  "skip_lines s off 0 = Some off"
| "skip_lines s off (Suc n) =
     (case index_of s [NL] off of None \<Rightarrow> None | Some nl \<Rightarrow> skip_lines s (nl + 1) n)"

definition positionToOffset :: "string \<Rightarrow> lsp_position \<Rightarrow> int" where
  "positionToOffset s pos =
    (if po_line pos < 0 \<or> po_character pos < 0 then -1
     else case skip_lines s 0 (nat (po_line pos)) of
            None \<Rightarrow> -1
          | Some off \<Rightarrow>
              let target = int off + po_character pos
              in if target > int (length s) then -1 else target)"

definition splice :: "string \<Rightarrow> int \<Rightarrow> int \<Rightarrow> string \<Rightarrow> string" where
  "splice s a b ins = take (nat a) s @ ins @ drop (nat b) s"

text \<open>The offsets of the adapter first, then the range; otherwise the old shadow is kept.\<close>

definition offsets_of :: "string \<Rightarrow> content_change \<Rightarrow> (int \<times> int) option" where
  "offsets_of s c =
    (case (cc_offset c, cc_endOffset c) of
       (Some a, Some b) \<Rightarrow> if 0 \<le> a \<and> a \<le> b \<and> b \<le> int (length s) then Some (a, b) else None
     | _ \<Rightarrow> None)"

definition range_offsets_of :: "string \<Rightarrow> content_change \<Rightarrow> (int \<times> int) option" where
  "range_offsets_of s c =
    (case cc_range c of
       None \<Rightarrow> None
     | Some r \<Rightarrow>
         let a = positionToOffset s (ra_start r); b = positionToOffset s (ra_end r)
         in if 0 \<le> a \<and> a \<le> b \<and> b \<le> int (length s) then Some (a, b) else None)"

definition applyContentChange :: "string \<Rightarrow> content_change \<Rightarrow> string" where
  "applyContentChange s c =
    (case offsets_of s c of
       Some (a, b) \<Rightarrow> splice s a b (cc_text c)
     | None \<Rightarrow>
         (case range_offsets_of s c of
            Some (a, b) \<Rightarrow> splice s a b (cc_text c)
          | None \<Rightarrow> s))"

text \<open>What goes over the wire: the internal offsets are stripped.\<close>

definition wire_change :: "content_change \<Rightarrow> content_change" where
  "wire_change c = c\<lparr>cc_offset := None, cc_endOffset := None\<rparr>"

definition full_change :: "string \<Rightarrow> content_change" where
  "full_change s = \<lparr>cc_range = None, cc_rangeLength = None, cc_text = s, cc_offset = None, cc_endOffset = None\<rparr>"

section \<open>The class\<close>

record tracked_document =
  td_languageId :: string
  td_version :: int
  td_text :: string
  td_pendingChanges :: "content_change list"
  td_openSent :: bool
  td_timer :: bool

datatype wire_call =
    DidOpen string string int string
  | DidChange string int "content_change list"
  | DidClose string

record document_sync =
  ds_docs :: "(string, tracked_document) jsmap"
  ds_currentState :: "string option"
  ds_clientState :: string
  ds_wire :: "wire_call list"

definition new_document_sync :: "string \<Rightarrow> document_sync" where
  "new_document_sync clientState =
    \<lparr> ds_docs = [], ds_currentState = None, ds_clientState = clientState, ds_wire = [] \<rparr>"

definition effectiveState :: "document_sync \<Rightarrow> string" where
  "effectiveState s = (case ds_currentState s of Some st \<Rightarrow> st | None \<Rightarrow> ds_clientState s)"

definition ready :: "document_sync \<Rightarrow> bool" where
  "ready s \<longleftrightarrow> effectiveState s = ''ready''"

definition put_doc :: "string \<Rightarrow> tracked_document \<Rightarrow> document_sync \<Rightarrow> document_sync" where
  "put_doc uri d s = s\<lparr>ds_docs := jm_set uri d (ds_docs s)\<rparr>"

definition call_client :: "wire_call \<Rightarrow> document_sync \<Rightarrow> document_sync" where
  "call_client c s = s\<lparr>ds_wire := ds_wire s @ [c]\<rparr>"

definition flushOpen :: "(wire_call \<Rightarrow> bool) \<Rightarrow> string \<Rightarrow> document_sync \<Rightarrow> document_sync" where
  "flushOpen throws uri s =
    (case jm_get (ds_docs s) uri of
       None \<Rightarrow> s
     | Some d \<Rightarrow>
         if td_openSent d \<or> \<not> ready s then s
         else let c = DidOpen uri (td_languageId d) (td_version d) (td_text d)
              in if throws c then s
                 else put_doc uri (d\<lparr>td_openSent := True, td_pendingChanges := []\<rparr>) (call_client c s))"

definition flushChange :: "(wire_call \<Rightarrow> bool) \<Rightarrow> string \<Rightarrow> document_sync \<Rightarrow> document_sync" where
  "flushChange throws uri s =
    (case jm_get (ds_docs s) uri of
       None \<Rightarrow> s
     | Some d \<Rightarrow>
         if \<not> ready s then s
         else if \<not> td_openSent d then flushOpen throws uri s
         else
           let changes = (if td_pendingChanges d \<noteq> [] then td_pendingChanges d else [full_change (td_text d)]);
               s1 = put_doc uri (d\<lparr>td_pendingChanges := []\<rparr>) s;
               c = DidChange uri (td_version d) changes
           in if throws c then s1 else call_client c s1)"

definition openDocument ::
  "(wire_call \<Rightarrow> bool) \<Rightarrow> string \<Rightarrow> string \<Rightarrow> int \<Rightarrow> string \<Rightarrow> document_sync \<Rightarrow> document_sync"
where
  "openDocument throws uri languageId version txt s =
    (let sent = (case jm_get (ds_docs s) uri of Some d \<Rightarrow> td_openSent d | None \<Rightarrow> False)
     in flushOpen throws uri (put_doc uri
          \<lparr> td_languageId = languageId, td_version = version, td_text = txt,
            td_pendingChanges = [], td_openSent = sent, td_timer = False \<rparr> s))"

definition changeDocument :: "string \<Rightarrow> int \<Rightarrow> string \<Rightarrow> document_sync \<Rightarrow> document_sync" where
  "changeDocument uri version txt s =
    (case jm_get (ds_docs s) uri of
       None \<Rightarrow> s
     | Some d \<Rightarrow>
         put_doc uri (d\<lparr> td_version := version, td_text := txt,
           td_pendingChanges := [full_change txt], td_timer := True \<rparr>) s)"

definition changeDocumentIncremental ::
  "string \<Rightarrow> int \<Rightarrow> content_change list \<Rightarrow> document_sync \<Rightarrow> document_sync"
where
  "changeDocumentIncremental uri version changes s =
    (case jm_get (ds_docs s) uri of
       None \<Rightarrow> s
     | Some d \<Rightarrow>
         if changes = [] then s
         else put_doc uri (d\<lparr> td_version := version,
                td_text := foldl applyContentChange (td_text d) changes,
                td_pendingChanges := td_pendingChanges d @ map wire_change changes,
                td_timer := True \<rparr>) s)"

definition timerFired :: "(wire_call \<Rightarrow> bool) \<Rightarrow> string \<Rightarrow> document_sync \<Rightarrow> document_sync" where
  "timerFired throws uri s =
    (case jm_get (ds_docs s) uri of
       None \<Rightarrow> s
     | Some d \<Rightarrow> if td_timer d then flushChange throws uri (put_doc uri (d\<lparr>td_timer := False\<rparr>) s) else s)"

definition closeDocument :: "(wire_call \<Rightarrow> bool) \<Rightarrow> string \<Rightarrow> document_sync \<Rightarrow> document_sync" where
  "closeDocument throws uri s =
    (case jm_get (ds_docs s) uri of
       None \<Rightarrow> s
     | Some d \<Rightarrow>
         let s1 = s\<lparr>ds_docs := jm_delete uri (ds_docs s)\<rparr>
         in if td_openSent d \<and> ready s1 \<and> \<not> throws (DidClose uri) then call_client (DidClose uri) s1 else s1)"

definition handleStateChange :: "(wire_call \<Rightarrow> bool) \<Rightarrow> string \<Rightarrow> document_sync \<Rightarrow> document_sync" where
  "handleStateChange throws state s =
    (let s1 = s\<lparr>ds_currentState := Some state\<rparr>
     in if state = ''ready'' then fold (flushOpen throws) (jm_keys (ds_docs s1)) s1
        else s1\<lparr>ds_docs := map (\<lambda>(u, d). (u, d\<lparr>td_openSent := False\<rparr>)) (ds_docs s1)\<rparr>)"

text \<open>\<open>flushPending(uri)\<close> does what the timer of the document would do now.\<close>

definition flushPending :: "(wire_call \<Rightarrow> bool) \<Rightarrow> string option \<Rightarrow> document_sync \<Rightarrow> document_sync" where
  "flushPending throws uri s =
    (case uri of
       Some u \<Rightarrow> if u = [] then fold (timerFired throws) (jm_keys (ds_docs s)) s else timerFired throws u s
     | None \<Rightarrow> fold (timerFired throws) (jm_keys (ds_docs s)) s)"

definition close_sent :: "(wire_call \<Rightarrow> bool) \<Rightarrow> string \<times> tracked_document \<Rightarrow> document_sync \<Rightarrow> document_sync" where
  "close_sent throws = (\<lambda>(uri, d) s.
     if td_openSent d \<and> ready s \<and> \<not> throws (DidClose uri) then call_client (DidClose uri) s else s)"

definition dispose_sync :: "(wire_call \<Rightarrow> bool) \<Rightarrow> document_sync \<Rightarrow> document_sync" where
  "dispose_sync throws s = (fold (close_sent throws) (ds_docs s) s)\<lparr>ds_docs := []\<rparr>"

definition resetWorkspace :: "(wire_call \<Rightarrow> bool) \<Rightarrow> document_sync \<Rightarrow> document_sync" where
  "resetWorkspace throws s = dispose_sync throws s"

section \<open>Diagnostics\<close>

definition toMonacoMarkerSeverity :: "nat option \<Rightarrow> nat" where
  "toMonacoMarkerSeverity severity =
    (case severity of
       None \<Rightarrow> 8
     | Some n \<Rightarrow> if n = 1 then 8 else if n = 2 then 4 else if n = 3 then 2 else if n = 4 then 1 else 8)"

record lsp_diagnostic =
  dg_severity :: "nat option"
  dg_message :: string
  dg_source :: "string option"
  dg_code :: "string option"
  dg_range :: lsp_range

record marker_data =
  mk_severity :: nat
  mk_message :: string
  mk_source :: "string option"
  mk_code :: "string option"
  mk_startLineNumber :: int
  mk_startColumn :: int
  mk_endLineNumber :: int
  mk_endColumn :: int

definition lspDiagnosticsToMarkers :: "lsp_diagnostic list \<Rightarrow> marker_data list" where
  "lspDiagnosticsToMarkers ds = map (\<lambda>d.
     \<lparr> mk_severity = toMonacoMarkerSeverity (dg_severity d), mk_message = dg_message d,
       mk_source = dg_source d, mk_code = dg_code d,
       mk_startLineNumber = po_line (ra_start (dg_range d)) + 1,
       mk_startColumn = po_character (ra_start (dg_range d)) + 1,
       mk_endLineNumber = po_line (ra_end (dg_range d)) + 1,
       mk_endColumn = po_character (ra_end (dg_range d)) + 1 \<rparr>) ds"

section \<open>The server\<close>

text \<open>
  The language server is not part of the source: \<open>srv c t\<close> is its text after the change \<open>c\<close>
  of the text \<open>t\<close>. The protocol asks that a change without a range replaces the text and
  that one with a range in the text replaces the range.
\<close>

locale lsp_server =
  fixes srv :: "content_change \<Rightarrow> string \<Rightarrow> string"
  assumes srv_full: "cc_range c = None \<Longrightarrow> srv c t = cc_text c"
    and srv_range: "range_offsets_of t c = Some (a, b) \<Longrightarrow> srv c t = splice t a b (cc_text c)"

fun server_step ::
  "(content_change \<Rightarrow> string \<Rightarrow> string) \<Rightarrow> (string \<Rightarrow> string option) \<Rightarrow> wire_call \<Rightarrow> string \<Rightarrow> string option"
where
  "server_step srv m (DidOpen uri languageId version txt) = m(uri \<mapsto> txt)"
| "server_step srv m (DidChange uri version changes) =
     m(uri := map_option (fold srv changes) (m uri))"
| "server_step srv m (DidClose uri) = m(uri := None)"

definition server ::
  "(content_change \<Rightarrow> string \<Rightarrow> string) \<Rightarrow> document_sync \<Rightarrow> string \<Rightarrow> string option"
where
  "server srv s = foldl (server_step srv) Map.empty (ds_wire s)"

text \<open>Monaco reports a change with the same span as offsets and as a range of the current text.\<close>

fun consistent :: "string \<Rightarrow> content_change list \<Rightarrow> bool" where
  "consistent t [] \<longleftrightarrow> True"
| "consistent t (c # cs) \<longleftrightarrow>
     offsets_of t c \<noteq> None \<and> offsets_of t c = range_offsets_of t c
   \<and> consistent (applyContentChange t c) cs"

definition doc_mirror ::
  "(content_change \<Rightarrow> string \<Rightarrow> string) \<Rightarrow> bool \<Rightarrow> tracked_document \<Rightarrow> string option \<Rightarrow> bool"
where
  "doc_mirror srv rdy d t \<longleftrightarrow>
     (if td_openSent d
      then rdy \<and> map_option (fold srv (td_pendingChanges d)) t = Some (td_text d)
           \<and> (td_pendingChanges d \<noteq> [] \<longrightarrow> td_timer d)
      else t = None)"

definition mirror :: "(content_change \<Rightarrow> string \<Rightarrow> string) \<Rightarrow> document_sync \<Rightarrow> bool" where
  "mirror srv s \<longleftrightarrow> distinct (jm_keys (ds_docs s))
   \<and> (\<forall>u. case jm_get (ds_docs s) u of
        None \<Rightarrow> server srv s u = None
      | Some d \<Rightarrow> doc_mirror srv (ready s) d (server srv s u))"

text \<open>
  The events of a session. When the client leaves \<open>ready\<close> the server is gone with what it
  had opened: the wire of the next session is empty.
\<close>

datatype sync_event =
    OpenDocument string string int string
  | ChangeDocument string int string
  | ChangeIncremental string int "content_change list"
  | TimerFired string
  | CloseDocument string
  | StateChange string
  | FlushPending "string option"
  | ResetWorkspace

fun sync_step :: "(wire_call \<Rightarrow> bool) \<Rightarrow> document_sync \<Rightarrow> sync_event \<Rightarrow> document_sync" where
  "sync_step throws s (OpenDocument u l v t) = openDocument throws u l v t s"
| "sync_step throws s (ChangeDocument u v t) = changeDocument u v t s"
| "sync_step throws s (ChangeIncremental u v cs) = changeDocumentIncremental u v cs s"
| "sync_step throws s (TimerFired u) = timerFired throws u s"
| "sync_step throws s (CloseDocument u) = closeDocument throws u s"
| "sync_step throws s (StateChange st) =
     (if st = ''ready'' then handleStateChange throws st s
      else (handleStateChange throws st s)\<lparr>ds_wire := []\<rparr>)"
| "sync_step throws s (FlushPending u) = flushPending throws u s"
| "sync_step throws s ResetWorkspace = resetWorkspace throws s"

text \<open>A document is opened when it is not tracked; its ranged changes are consistent.\<close>

fun event_ok :: "document_sync \<Rightarrow> sync_event \<Rightarrow> bool" where
  "event_ok s (OpenDocument u l v t) \<longleftrightarrow> jm_get (ds_docs s) u = None"
| "event_ok s (ChangeIncremental u v cs) \<longleftrightarrow>
     (case jm_get (ds_docs s) u of None \<Rightarrow> True | Some d \<Rightarrow> consistent (td_text d) cs)"
| "event_ok s _ \<longleftrightarrow> True"

inductive sync_reach :: "(wire_call \<Rightarrow> bool) \<Rightarrow> string \<Rightarrow> document_sync \<Rightarrow> bool"
  for throws cs
where
  start: "sync_reach throws cs (new_document_sync cs)"
| step: "sync_reach throws cs s \<Longrightarrow> event_ok s e \<Longrightarrow> sync_reach throws cs (sync_step throws s e)"

section \<open>The mirror\<close>

lemma server_simps [simp]:
  "server srv (call_client c s) = server_step srv (server srv s) c"
  "server srv (put_doc u d s) = server srv s"
  "server srv (s\<lparr>ds_docs := m\<rparr>) = server srv s"
  "server srv (s\<lparr>ds_currentState := st\<rparr>) = server srv s"
  "server srv (s\<lparr>ds_wire := []\<rparr>) = Map.empty"
  by (simp_all add: server_def call_client_def put_doc_def)

lemma docs_simps [simp]:
  "ds_docs (call_client c s) = ds_docs s" "ds_docs (put_doc u d s) = jm_set u d (ds_docs s)"
  "ready (call_client c s) = ready s" "ready (put_doc u d s) = ready s"
  "ready (s\<lparr>ds_docs := m\<rparr>) = ready s" "ready (s\<lparr>ds_wire := w\<rparr>) = ready s"
  by (simp_all add: call_client_def put_doc_def ready_def effectiveState_def split: option.split)

lemma mirror_get:
  assumes "mirror srv s"
  shows "jm_get (ds_docs s) u = None \<Longrightarrow> server srv s u = None"
    and "jm_get (ds_docs s) u = Some d \<Longrightarrow> doc_mirror srv (ready s) d (server srv s u)"
proof -
  have u: "case jm_get (ds_docs s) u of None \<Rightarrow> server srv s u = None
      | Some d \<Rightarrow> doc_mirror srv (ready s) d (server srv s u)"
    using assms by (simp add: mirror_def)
  show "jm_get (ds_docs s) u = None \<Longrightarrow> server srv s u = None"
    "jm_get (ds_docs s) u = Some d \<Longrightarrow> doc_mirror srv (ready s) d (server srv s u)"
    using u by simp_all
qed

lemma mirror_put:
  assumes "mirror srv s" and "ds_docs s' = jm_set u d (ds_docs s)" and "ready s' = ready s"
    and "\<And>k. k \<noteq> u \<Longrightarrow> server srv s' k = server srv s k"
    and "doc_mirror srv (ready s) d (server srv s' u)"
  shows "mirror srv s'"
proof -
  have "distinct (jm_keys (ds_docs s'))" using assms(1,2) by (simp add: mirror_def distinct_jm_set)
  moreover have "case jm_get (ds_docs s') k of None \<Rightarrow> server srv s' k = None
      | Some d \<Rightarrow> doc_mirror srv (ready s') d (server srv s' k)" for k
    using assms(2-5) mirror_get [OF assms(1), of k] by (cases "k = u") (auto split: option.split)
  ultimately show ?thesis by (simp add: mirror_def)
qed

lemma index_of_flush [simp]:
  "wire_change (wire_change c) = wire_change c" "cc_range (wire_change c) = cc_range c"
  "cc_text (wire_change c) = cc_text c" "range_offsets_of t (wire_change c) = range_offsets_of t c"
  by (simp_all add: wire_change_def range_offsets_of_def)

lemma full_change_simps [simp]: "cc_range (full_change t) = None" "cc_text (full_change t) = t"
  by (simp_all add: full_change_def)

context lsp_server
begin

lemma consistent_fold:
  "consistent t cs \<Longrightarrow> fold srv (map wire_change cs) t = foldl applyContentChange t cs"
proof (induction cs arbitrary: t)
  case Nil
  then show ?case by simp
next
  case (Cons c cs)
  then obtain a b where ab: "offsets_of t c = Some (a, b)" "range_offsets_of t c = Some (a, b)" by auto
  then have "srv (wire_change c) t = applyContentChange t c"
    using srv_range [of t "wire_change c" a b] by (simp add: applyContentChange_def)
  with Cons show ?case by simp
qed

lemma mirror_flushOpen:
  assumes "mirror srv s"
  shows "mirror srv (flushOpen throws u s)"
proof (cases "jm_get (ds_docs s) u")
  case None
  with assms show ?thesis by (simp add: flushOpen_def)
next
  case (Some d)
  show ?thesis
  proof (cases "td_openSent d \<or> \<not> ready s \<or> throws (DidOpen u (td_languageId d) (td_version d) (td_text d))")
    case True
    with assms Some show ?thesis by (auto simp: flushOpen_def Let_def)
  next
    case False
    with Some show ?thesis
      by (intro mirror_put [OF assms, of _ u "d\<lparr>td_openSent := True, td_pendingChanges := []\<rparr>"])
        (auto simp: flushOpen_def Let_def doc_mirror_def)
  qed
qed

lemma mirror_timerFired:
  assumes m: "mirror srv s" and nt: "\<And>u v cs. \<not> throws (DidChange u v cs)"
  shows "mirror srv (timerFired throws u s)"
proof (cases "jm_get (ds_docs s) u")
  case None
  with m show ?thesis by (simp add: timerFired_def)
next
  case (Some d)
  note dm = mirror_get(2) [OF m Some]
  let ?d = "d\<lparr>td_timer := False\<rparr>" and ?s = "put_doc u (d\<lparr>td_timer := False\<rparr>) s"
  consider (idle) "\<not> td_timer d" | (closed) "td_timer d" "\<not> td_openSent d"
    | (sent) "td_timer d" "td_openSent d" "ready s"
    using dm by (auto simp: doc_mirror_def split: if_splits)
  then show ?thesis
  proof cases
    case idle
    with m Some show ?thesis by (simp add: timerFired_def)
  next
    case closed
    have "mirror srv ?s"
      by (rule mirror_put [OF m]) (use closed dm in \<open>auto simp: doc_mirror_def\<close>)
    with closed Some mirror_flushOpen [OF this, of throws u] show ?thesis
      by (simp add: timerFired_def flushChange_def)
  next
    case sent
    let ?e = "?d\<lparr>td_pendingChanges := []\<rparr>"
    let ?cs = "if td_pendingChanges d \<noteq> [] then td_pendingChanges d else [full_change (td_text d)]"
    have e: "timerFired throws u s = call_client (DidChange u (td_version d) ?cs) (put_doc u ?e ?s)"
      using sent Some nt by (simp add: timerFired_def flushChange_def Let_def)
    have "jm_set u ?e (jm_set u ?d (ds_docs s)) = jm_set u ?e (ds_docs s)"
      by (rule AList.update_last)
    then show ?thesis
      unfolding e using sent dm
      by (intro mirror_put [OF m, of _ u ?e]) (auto simp: doc_mirror_def srv_full)
  qed
qed

lemma mirror_fold:
  assumes "mirror srv s" and "\<And>u s. mirror srv s \<Longrightarrow> mirror srv (f u s)"
  shows "mirror srv (fold f us s)"
  using assms by (induction us arbitrary: s) simp_all

lemma mirror_closeDocument:
  assumes m: "mirror srv s" and nt: "\<And>u. \<not> throws (DidClose u)"
  shows "mirror srv (closeDocument throws u s)"
proof (cases "jm_get (ds_docs s) u")
  case None
  with m show ?thesis by (simp add: closeDocument_def)
next
  case (Some d)
  note dm = mirror_get(2) [OF m Some]
  let ?s = "closeDocument throws u s"
  have s: "ds_docs ?s = jm_delete u (ds_docs s)" "ready ?s = ready s"
    "server srv ?s = (server srv s)(u := None)"
    using Some nt dm by (auto simp: closeDocument_def Let_def doc_mirror_def fun_eq_iff split: if_splits)
  have "distinct (jm_keys (ds_docs ?s))" using m s(1) by (simp add: mirror_def distinct_jm_delete)
  moreover have "case jm_get (ds_docs ?s) k of None \<Rightarrow> server srv ?s k = None
      | Some d \<Rightarrow> doc_mirror srv (ready ?s) d (server srv ?s k)" for k
    using s mirror_get [OF m, of k] by (cases "k = u") (auto split: option.split)
  ultimately show ?thesis by (simp add: mirror_def)
qed

lemma close_sent_server:
  assumes "\<And>u. \<not> throws (DidClose u)" and "\<forall>(u, d)\<in>set ds. td_openSent d \<longrightarrow> ready s"
  shows "server srv (fold (close_sent throws) ds s) u
      = (if \<exists>d. (u, d) \<in> set ds \<and> td_openSent d then None else server srv s u)"
  using assms
proof (induction ds arbitrary: s)
  case Nil
  then show ?case by simp
next
  case (Cons x ds)
  obtain v d where x: "x = (v, d)" by (cases x)
  let ?s = "close_sent throws x s"
  have "ready ?s = ready s" "server srv ?s = (if td_openSent d then (server srv s)(v := None) else server srv s)"
    using Cons.prems x by (auto simp: close_sent_def)
  with Cons.IH [of ?s] Cons.prems x show ?case by auto
qed

lemma mirror_dispose:
  assumes m: "mirror srv s" and nt: "\<And>u. \<not> throws (DidClose u)"
  shows "mirror srv (dispose_sync throws s) \<and> server srv (dispose_sync throws s) = Map.empty"
proof -
  have d: "distinct (jm_keys (ds_docs s))" using m by (simp add: mirror_def)
  have r: "\<forall>(u, d)\<in>set (ds_docs s). td_openSent d \<longrightarrow> ready s"
    using mirror_get(2) [OF m] d by (fastforce simp: doc_mirror_def split: if_splits)
  have "server srv (dispose_sync throws s) u = None" for u
  proof (cases "jm_get (ds_docs s) u")
    case None
    then show ?thesis
      using close_sent_server [of throws "ds_docs s" s u, OF nt r] mirror_get(1) [OF m None] map_of_eq_None_iff [of "ds_docs s" u]
      by (force simp: dispose_sync_def image_iff)
  next
    case (Some d)
    with mirror_get(2) [OF m this] show ?thesis
      using close_sent_server [of throws "ds_docs s" s u, OF nt r] map_of_SomeD [OF Some]
      by (auto simp: dispose_sync_def doc_mirror_def split: if_splits)
  qed
  then show ?thesis by (auto simp: mirror_def dispose_sync_def)
qed

lemma mirror_stateChange:
  assumes m: "mirror srv s"
  shows "mirror srv (sync_step throws s (StateChange st))"
proof (cases "st = ''ready''")
  case True
  let ?s = "s\<lparr>ds_currentState := Some ''ready''\<rparr>"
  have "case jm_get (ds_docs ?s) u of None \<Rightarrow> server srv ?s u = None
      | Some d \<Rightarrow> doc_mirror srv (ready ?s) d (server srv ?s u)" for u
    using mirror_get [OF m, of u]
    by (cases "jm_get (ds_docs s) u") (auto simp: doc_mirror_def ready_def effectiveState_def split: if_splits)
  with m have "mirror srv ?s" by (simp add: mirror_def)
  then show ?thesis
    using True by (auto simp: handleStateChange_def Let_def intro!: mirror_fold mirror_flushOpen)
next
  case False
  have g: "jm_get (map (\<lambda>(u, d). (u, d\<lparr>td_openSent := False\<rparr>)) xs) u
      = map_option (\<lambda>d. d\<lparr>td_openSent := False\<rparr>) (jm_get xs u)" for xs u
    by (induction xs) auto
  have k: "jm_keys (map (\<lambda>(u, d). (u, d\<lparr>td_openSent := False\<rparr>)) xs) = jm_keys xs"
    for xs :: "(string, tracked_document) jsmap"
    by (induction xs) auto
  have "distinct (jm_keys (ds_docs s))" using m by (simp add: mirror_def)
  with False show ?thesis
    by (simp add: handleStateChange_def Let_def mirror_def g k doc_mirror_def del: map_map split: option.split)
qed

lemma mirror_step:
  assumes m: "mirror srv s" and ok: "event_ok s e"
    and nt: "\<And>c. throws c \<Longrightarrow> \<exists>u l v t. c = DidOpen u l v t"
  shows "mirror srv (sync_step throws s e)"
proof -
  have nt2: "\<not> throws (DidChange u v cs)" "\<not> throws (DidClose u)" for u v cs using nt by blast+
  show ?thesis
  proof (cases e)
    case (OpenDocument u l v tx)
    let ?d = "\<lparr>td_languageId = l, td_version = v, td_text = tx, td_pendingChanges = [],
        td_openSent = False, td_timer = False\<rparr>"
    have "mirror srv (put_doc u ?d s)"
      by (rule mirror_put [OF m]) (use OpenDocument ok mirror_get(1) [OF m, of u] in \<open>auto simp: doc_mirror_def\<close>)
    from mirror_flushOpen [OF this] OpenDocument ok show ?thesis by (simp add: openDocument_def)
  next
    case (ChangeDocument u v tx)
    show ?thesis
    proof (cases "jm_get (ds_docs s) u")
      case None
      with m ChangeDocument show ?thesis by (simp add: changeDocument_def)
    next
      case (Some d)
      let ?d = "d\<lparr>td_version := v, td_text := tx, td_pendingChanges := [full_change tx], td_timer := True\<rparr>"
      have "mirror srv (put_doc u ?d s)"
        by (rule mirror_put [OF m, of _ u ?d])
          (use mirror_get(2) [OF m Some] in \<open>auto simp: doc_mirror_def srv_full split: if_splits\<close>)
      with Some ChangeDocument show ?thesis by (simp add: changeDocument_def)
    qed
  next
    case (ChangeIncremental u v cs)
    show ?thesis
    proof (cases "jm_get (ds_docs s) u = None \<or> cs = []")
      case True
      with m ChangeIncremental show ?thesis by (auto simp: changeDocumentIncremental_def split: option.split)
    next
      case False
      then obtain d where d: "jm_get (ds_docs s) u = Some d" by auto
      let ?d = "d\<lparr>td_version := v, td_text := foldl applyContentChange (td_text d) cs,
          td_pendingChanges := td_pendingChanges d @ map wire_change cs, td_timer := True\<rparr>"
      have "consistent (td_text d) cs" using ok ChangeIncremental d by simp
      from consistent_fold [OF this] have "mirror srv (put_doc u ?d s)"
        by (intro mirror_put [OF m, of _ u ?d])
          (use mirror_get(2) [OF m d] in \<open>auto simp: doc_mirror_def split: if_splits\<close>)
      with d False ChangeIncremental show ?thesis by (simp add: changeDocumentIncremental_def)
    qed
  next
    case (TimerFired u)
    with mirror_timerFired [OF m, of throws] nt2(1) show ?thesis by simp
  next
    case (CloseDocument u)
    with mirror_closeDocument [OF m, of throws] nt2(2) show ?thesis by simp
  next
    case (StateChange st)
    with mirror_stateChange [OF m] show ?thesis by simp
  next
    case (FlushPending u)
    with mirror_timerFired [of _ throws] nt2(1) m show ?thesis
      by (auto simp: flushPending_def intro!: mirror_fold split: option.split)
  next
    case ResetWorkspace
    with mirror_dispose [OF m, of throws] nt2(2) show ?thesis by (simp add: resetWorkspace_def)
  qed
qed

lemma mirror_reach:
  assumes "sync_reach throws cs s" and "\<And>c. throws c \<Longrightarrow> \<exists>u l v t. c = DidOpen u l v t"
  shows "mirror srv s"
  using assms(1)
proof (induction rule: sync_reach.induct)
  case start
  show ?case by (simp add: mirror_def new_document_sync_def server_def)
next
  case (step s e)
  then show ?case using mirror_step assms(2) by blast
qed

text \<open>A document whose changes have gone out is the server's text.\<close>

lemma mirror_synced:
  assumes "mirror srv s" and "jm_get (ds_docs s) u = Some d" and "td_openSent d" and "\<not> td_timer d"
  shows "server srv s u = Some (td_text d)"
  using mirror_get(2) [OF assms(1,2)] assms(3,4) by (auto simp: doc_mirror_def)

end

section \<open>Flushing\<close>

definition timer_of :: "document_sync \<Rightarrow> string \<Rightarrow> bool" where
  "timer_of s u = (case jm_get (ds_docs s) u of Some d \<Rightarrow> td_timer d | None \<Rightarrow> False)"

lemma timer_flushOpen [simp]: "timer_of (flushOpen throws u s) k = timer_of s k"
  by (auto simp: flushOpen_def timer_of_def Let_def split: option.split)

lemma timer_timerFired [simp]: "timer_of (timerFired throws u s) k \<longleftrightarrow> k \<noteq> u \<and> timer_of s k"
proof (cases "jm_get (ds_docs s) u")
  case None
  then show ?thesis by (auto simp: timerFired_def timer_of_def)
next
  case (Some d)
  have put: "timer_of (put_doc u e s') k = (if k = u then td_timer e else timer_of s' k)" for e s'
    by (simp add: timer_of_def)
  have call: "timer_of (call_client c s') k = timer_of s' k" for c s' by (simp add: timer_of_def)
  show ?thesis
    using Some by (auto simp: timerFired_def flushChange_def Let_def put call) (auto simp: timer_of_def)
qed

lemma timer_fold: "timer_of (fold (timerFired throws) us s) k \<longleftrightarrow> k \<notin> set us \<and> timer_of s k"
  by (induction us arbitrary: s) auto

lemma timer_flushPending:
  "\<not> timer_of (flushPending throws None s) k" "u \<noteq> [] \<Longrightarrow> \<not> timer_of (flushPending throws (Some u) s) u"
proof -
  have "k \<in> set (jm_keys (ds_docs s))" if "timer_of s k"
    using that by (force simp: timer_of_def image_iff split: option.splits dest: map_of_SomeD)
  then show "\<not> timer_of (flushPending throws None s) k"
    by (auto simp: flushPending_def timer_fold simp del: set_map)
  show "u \<noteq> [] \<Longrightarrow> \<not> timer_of (flushPending throws (Some u) s) u"
    by (simp add: flushPending_def)
qed

text \<open>Firing the timer of a document changes neither its text nor its being open when ready.\<close>

lemma flushPending_doc:
  assumes "jm_get (ds_docs s) u = Some d" and "td_openSent d" and "u \<noteq> []"
  obtains e where "jm_get (ds_docs (flushPending throws (Some u) s)) u = Some e"
    and "td_openSent e" and "td_text e = td_text d" and "\<not> td_timer e"
proof -
  have "\<exists>e. jm_get (ds_docs (flushPending throws (Some u) s)) u = Some e
      \<and> td_openSent e \<and> td_text e = td_text d \<and> \<not> td_timer e"
    using assms by (simp add: flushPending_def timerFired_def flushChange_def Let_def)
  with that show thesis by blast
qed

section \<open>The interface on the model\<close>

text \<open>The class's own splice, without its offsets, is a server that keeps the protocol.\<close>

definition apply_ranged :: "content_change \<Rightarrow> string \<Rightarrow> string" where
  "apply_ranged c t = (if cc_range c = None then cc_text c else applyContentChange t (wire_change c))"

interpretation shadow: lsp_server apply_ranged
proof (unfold_locales, goal_cases)
  case (1 c t)
  then show ?case by (simp add: apply_ranged_def)
next
  case (2 t c a b)
  then have "cc_range c \<noteq> None" by (auto simp: range_offsets_of_def split: option.splits)
  moreover have "offsets_of t (wire_change c) = None" by (simp add: offsets_of_def wire_change_def)
  ultimately show ?case using 2 by (auto simp: apply_ranged_def applyContentChange_def)
qed

end
