(* ===== verification/VirtualDocuments.thy ===== *)
theory VirtualDocuments
  imports DocumentSync JspVirtualJava
begin

text \<open>
  \<open>jsp-extension/src/browser/virtual-document-manager.ts\<close>: who has which virtual document open,
  and which leases on it are still current. Entries are objects that an operation may hold
  across an \<open>await\<close>, so they live in a store and the map of the manager holds their ids.
  \<open>acquireLease\<close> is two steps, before and after its \<open>await\<close>, and \<open>closeAllForJsp\<close> one step for every document that
  it closes; other steps may come between.
\<close>

section \<open>State\<close>

datatype language_client = NoClient | FullClient | OpenOnlyClient

record doc_entry =
  de_uri :: string
  de_jspUri :: "string option"
  de_languageId :: string
  de_version :: nat
  de_generation :: nat
  de_text :: string
  de_isOpen :: bool
  de_activeLeases :: nat

record doc_manager =
  dm_docs :: "(string, nat) jsmap"
  dm_entries :: "doc_entry list"
  dm_client :: language_client
  dm_monotonicGeneration :: nat
  dm_wire :: "wire_call list"

record doc_lease =
  ls_uri :: string
  ls_version :: nat
  ls_generation :: nat
  ls_disposed :: bool

definition new_doc_manager :: "language_client \<Rightarrow> doc_manager" where
  "new_doc_manager client =
    \<lparr> dm_docs = [], dm_entries = [], dm_client = client, dm_monotonicGeneration = 1, dm_wire = [] \<rparr>"

definition setClient :: "language_client \<Rightarrow> doc_manager \<Rightarrow> doc_manager" where
  "setClient client m = m\<lparr>dm_client := client\<rparr>"

definition doc_get :: "doc_manager \<Rightarrow> string \<Rightarrow> doc_entry option" where
  "doc_get m uri = map_option (\<lambda>i. dm_entries m ! i) (jm_get (dm_docs m) uri)"

definition set_entry :: "nat \<Rightarrow> doc_entry \<Rightarrow> doc_manager \<Rightarrow> doc_manager" where
  "set_entry i e m = m\<lparr>dm_entries := (dm_entries m)[i := e]\<rparr>"

definition next_generation :: "doc_manager \<Rightarrow> doc_manager" where
  "next_generation m = m\<lparr>dm_monotonicGeneration := dm_monotonicGeneration m + 1\<rparr>"

definition tell :: "(wire_call \<Rightarrow> bool) \<Rightarrow> wire_call \<Rightarrow> doc_manager \<Rightarrow> doc_manager" where
  "tell throws c m =
    (if dm_client m = NoClient \<or> throws c then m else m\<lparr>dm_wire := dm_wire m @ [c]\<rparr>)"

section \<open>Operations\<close>

definition find_or_create ::
  "string \<Rightarrow> string \<Rightarrow> string \<Rightarrow> string option \<Rightarrow> doc_manager \<Rightarrow> doc_manager \<times> nat"
where
  "find_or_create uri tx languageId jspUri m =
    (case jm_get (dm_docs m) uri of
       None \<Rightarrow>
         let i = length (dm_entries m);
             e = \<lparr> de_uri = uri, de_jspUri = jspUri, de_languageId = languageId, de_version = 1,
                   de_generation = dm_monotonicGeneration m, de_text = tx, de_isOpen = False, de_activeLeases = 0 \<rparr>
         in ((next_generation m)\<lparr>dm_entries := dm_entries m @ [e], dm_docs := jm_set uri i (dm_docs m)\<rparr>, i)
     | Some i \<Rightarrow>
         let e = dm_entries m ! i in
         if (jspUri \<noteq> None \<and> jspUri \<noteq> Some []) \<and> (de_jspUri e = None \<or> de_jspUri e = Some [])
         then (set_entry i (e\<lparr>de_jspUri := jspUri\<rparr>) m, i) else (m, i))"

text \<open>Up to the \<open>await\<close> of the client's answer; the id is the entry the caller goes on with.\<close>

definition ensureOpenedOrUpdated ::
  "(wire_call \<Rightarrow> bool) \<Rightarrow> string \<Rightarrow> string \<Rightarrow> string \<Rightarrow> string option \<Rightarrow> doc_manager \<Rightarrow> doc_manager \<times> nat"
where
  "ensureOpenedOrUpdated throws uri tx languageId jspUri m =
    (let (m1, i) = find_or_create uri tx languageId jspUri m;
         e = dm_entries m1 ! i
     in if \<not> de_isOpen e then
          (tell throws (DidOpen uri languageId 1 tx)
             (set_entry i (e\<lparr>de_version := 1, de_text := tx, de_isOpen := True\<rparr>) m1), i)
        else if de_text e \<noteq> tx then
          let version = de_version e + 1;
              m2 = next_generation (set_entry i
                (e\<lparr>de_version := version, de_generation := dm_monotonicGeneration m1, de_text := tx\<rparr>) m1)
          in (tell throws
                (if dm_client m = FullClient then DidChange uri (int version) [full_change tx]
                 else DidOpen uri languageId (int version) tx) m2, i)
        else (m1, i))"

text \<open>After the \<open>await\<close>: the lease captures the generation that the entry has now.\<close>

definition acquire_resume :: "string \<Rightarrow> nat \<Rightarrow> doc_manager \<Rightarrow> doc_manager \<times> doc_lease" where
  "acquire_resume uri i m =
    (let e = dm_entries m ! i
     in (set_entry i (e\<lparr>de_activeLeases := de_activeLeases e + 1\<rparr>) m,
         \<lparr> ls_uri = uri, ls_version = de_version e, ls_generation = de_generation e, ls_disposed = False \<rparr>))"

definition acquireLease ::
  "(wire_call \<Rightarrow> bool) \<Rightarrow> string \<Rightarrow> string \<Rightarrow> string \<Rightarrow> string option \<Rightarrow> doc_manager \<Rightarrow> doc_manager \<times> doc_lease"
where
  "acquireLease throws uri tx languageId jspUri m =
    (let (m1, i) = ensureOpenedOrUpdated throws uri tx languageId jspUri m in acquire_resume uri i m1)"

definition syncDocument ::
  "(wire_call \<Rightarrow> bool) \<Rightarrow> string \<Rightarrow> string \<Rightarrow> string \<Rightarrow> string option \<Rightarrow> doc_manager \<Rightarrow> doc_manager \<times> nat"
where
  "syncDocument throws uri tx languageId jspUri m =
    (let (m1, i) = ensureOpenedOrUpdated throws uri tx languageId jspUri m
     in (m1, de_generation (dm_entries m1 ! i)))"

definition isGenerationCurrent :: "string \<Rightarrow> nat \<Rightarrow> doc_manager \<Rightarrow> bool" where
  "isGenerationCurrent uri generation m =
    (case doc_get m uri of None \<Rightarrow> False | Some e \<Rightarrow> de_isOpen e \<and> de_generation e = generation)"

definition lease_isCurrent :: "doc_lease \<Rightarrow> doc_manager \<Rightarrow> bool" where
  "lease_isCurrent l m = (\<not> ls_disposed l \<and> isGenerationCurrent (ls_uri l) (ls_generation l) m)"

definition lease_dispose :: "doc_lease \<Rightarrow> doc_manager \<Rightarrow> doc_manager \<times> doc_lease" where
  "lease_dispose l m =
    (if ls_disposed l then (m, l)
     else (case jm_get (dm_docs m) (ls_uri l) of
             None \<Rightarrow> m
           | Some i \<Rightarrow>
               let e = dm_entries m ! i
               in if 0 < de_activeLeases e then set_entry i (e\<lparr>de_activeLeases := de_activeLeases e - 1\<rparr>) m else m,
           l\<lparr>ls_disposed := True\<rparr>))"

definition close_virtual :: "(wire_call \<Rightarrow> bool) \<Rightarrow> string \<Rightarrow> doc_manager \<Rightarrow> doc_manager" where
  "close_virtual throws uri m =
    (case jm_get (dm_docs m) uri of
       None \<Rightarrow> m
     | Some i \<Rightarrow>
         let e = dm_entries m ! i;
             m1 = (next_generation (set_entry i
               (e\<lparr>de_generation := dm_monotonicGeneration m, de_isOpen := False, de_activeLeases := 0\<rparr>) m))
               \<lparr>dm_docs := jm_delete uri (dm_docs m)\<rparr>
         in if de_isOpen e then tell throws (DidClose uri) m1 else m1)"

definition jsp_targets :: "string \<Rightarrow> doc_manager \<Rightarrow> string list" where
  "jsp_targets jspUri m =
    map fst (filter (\<lambda>(uri, i). de_jspUri (dm_entries m ! i) = Some jspUri
      \<or> map_option pu_jspUri (parseVirtualUri uri) = Some jspUri) (dm_docs m))"

text \<open>
  One turn of the loop of \<open>closeAllForJsp\<close>, and the call up to its first \<open>await\<close>: the manager and the targets that are
  still to be closed. The rest of the loop runs turn by turn, with other steps between.
\<close>

definition closeAll_next :: "(wire_call \<Rightarrow> bool) \<Rightarrow> string list \<Rightarrow> doc_manager \<Rightarrow> doc_manager \<times> string list" where
  "closeAll_next throws targets m = (case targets of [] \<Rightarrow> (m, []) | u # us \<Rightarrow> (close_virtual throws u m, us))"

definition closeAllForJsp :: "(wire_call \<Rightarrow> bool) \<Rightarrow> string \<Rightarrow> doc_manager \<Rightarrow> doc_manager \<times> string list" where
  "closeAllForJsp throws jspUri m = closeAll_next throws (jsp_targets jspUri m) m"

definition isDocumentOpen :: "string \<Rightarrow> doc_manager \<Rightarrow> bool" where
  "isDocumentOpen uri m = (case doc_get m uri of None \<Rightarrow> False | Some e \<Rightarrow> de_isOpen e)"

definition getActiveLeaseCount :: "string \<Rightarrow> doc_manager \<Rightarrow> nat" where
  "getActiveLeaseCount uri m = (case doc_get m uri of None \<Rightarrow> 0 | Some e \<Rightarrow> de_activeLeases e)"

definition getOpenDocumentCount :: "doc_manager \<Rightarrow> nat" where
  "getOpenDocumentCount m = length (filter (\<lambda>i. de_isOpen (dm_entries m ! i)) (jm_values (dm_docs m)))"

definition getGeneration :: "string \<Rightarrow> doc_manager \<Rightarrow> nat" where
  "getGeneration uri m = (case doc_get m uri of None \<Rightarrow> 0 | Some e \<Rightarrow> de_generation e)"

section \<open>Runs\<close>

text \<open>One step of any of the interleaved operations. \<open>Resume\<close> ends an \<open>acquireLease\<close>.\<close>

datatype manager_event =
    Ensure string string string "string option"
  | Resume nat
  | Dispose string
  | CloseVirtual string

fun manager_step :: "(wire_call \<Rightarrow> bool) \<Rightarrow> manager_event \<Rightarrow> doc_manager \<Rightarrow> doc_manager" where
  "manager_step throws (Ensure uri tx lang jsp) m = fst (ensureOpenedOrUpdated throws uri tx lang jsp m)"
| "manager_step throws (Resume i) m = (if i < length (dm_entries m) then fst (acquire_resume [] i m) else m)"
| "manager_step throws (Dispose uri) m =
     fst (lease_dispose \<lparr> ls_uri = uri, ls_version = 0, ls_generation = 0, ls_disposed = False \<rparr> m)"
| "manager_step throws (CloseVirtual uri) m = close_virtual throws uri m"

definition manager_run :: "(wire_call \<Rightarrow> bool) \<Rightarrow> manager_event list \<Rightarrow> doc_manager \<Rightarrow> doc_manager" where
  "manager_run throws es m = fold (manager_step throws) es m"

section \<open>Specification\<close>

text \<open>
  What a client of the manager relies on: which documents are open, with which generation and
  text. A document gets a fresh generation when it is opened and whenever its text changes.
\<close>

type_synonym doc_spec = "(string \<Rightarrow> (nat \<times> string) option) \<times> nat"

fun spec_step :: "manager_event \<Rightarrow> doc_spec \<Rightarrow> doc_spec" where
  "spec_step (Ensure u tx lang jsp) (v, g) =
     (if map_option snd (v u) = Some tx then (v, g) else (v(u \<mapsto> (g, tx)), g + 1))"
| "spec_step (Resume i) s = s"
| "spec_step (Dispose u) s = s"
| "spec_step (CloseVirtual u) (v, g) = (if v u = None then (v, g) else (v(u := None), g + 1))"

definition doc_view :: "doc_entry \<Rightarrow> nat \<times> string" where
  "doc_view e = (de_generation e, de_text e)"

definition open_docs :: "doc_manager \<Rightarrow> string \<Rightarrow> (nat \<times> string) option" where
  "open_docs m u = map_option doc_view (doc_get m u)"

definition manager_spec :: "doc_manager \<Rightarrow> doc_spec" where
  "manager_spec m = (open_docs m, dm_monotonicGeneration m)"

definition manager_ok :: "doc_manager \<Rightarrow> bool" where
  "manager_ok m \<longleftrightarrow>
     (\<forall>u i. jm_get (dm_docs m) u = Some i \<longrightarrow>
        i < length (dm_entries m) \<and> de_uri (dm_entries m ! i) = u \<and> de_isOpen (dm_entries m ! i))
   \<and> (\<forall>e\<in>set (dm_entries m). de_generation e < dm_monotonicGeneration m)"

lemma tell_simps [simp]:
  "dm_docs (tell throws c m) = dm_docs m" "dm_entries (tell throws c m) = dm_entries m"
  "dm_client (tell throws c m) = dm_client m"
  "dm_monotonicGeneration (tell throws c m) = dm_monotonicGeneration m"
  by (simp_all add: tell_def)

lemma set_entry_simps [simp]:
  "dm_docs (set_entry i e m) = dm_docs m" "dm_entries (set_entry i e m) = (dm_entries m)[i := e]"
  "dm_client (set_entry i e m) = dm_client m" "dm_wire (set_entry i e m) = dm_wire m"
  "dm_monotonicGeneration (set_entry i e m) = dm_monotonicGeneration m"
  "dm_docs (next_generation m) = dm_docs m" "dm_entries (next_generation m) = dm_entries m"
  "dm_client (next_generation m) = dm_client m" "dm_wire (next_generation m) = dm_wire m"
  "dm_monotonicGeneration (next_generation m) = dm_monotonicGeneration m + 1"
  by (simp_all add: set_entry_def next_generation_def)

lemma manager_okD:
  assumes "manager_ok m" and "jm_get (dm_docs m) u = Some i"
  shows "i < length (dm_entries m)" and "de_uri (dm_entries m ! i) = u" and "de_isOpen (dm_entries m ! i)"
    and "de_generation (dm_entries m ! i) < dm_monotonicGeneration m"
proof -
  show i: "i < length (dm_entries m)" "de_uri (dm_entries m ! i) = u" "de_isOpen (dm_entries m ! i)"
    using assms unfolding manager_ok_def by blast+
  show "de_generation (dm_entries m ! i) < dm_monotonicGeneration m"
    using assms(1) nth_mem [OF i(1)] unfolding manager_ok_def by blast
qed

text \<open>Changing one entry in place, with the generation counter growing or not.\<close>

lemma entry_update:
  assumes ok: "manager_ok m" and i: "jm_get (dm_docs m) u = Some i"
    and m': "dm_docs m' = dm_docs m" "dm_entries m' = (dm_entries m)[i := e]"
      "dm_monotonicGeneration m \<le> dm_monotonicGeneration m'"
    and e: "de_uri e = u" "de_isOpen e" "de_generation e < dm_monotonicGeneration m'"
  shows "manager_ok m'" and "open_docs m' = (open_docs m)(u \<mapsto> doc_view e)"
proof -
  have n: "jm_get (dm_docs m) v = Some j \<Longrightarrow> v \<noteq> u \<Longrightarrow> j \<noteq> i" for v j
    using manager_okD(2) [OF ok] i by blast
  have "j < length (dm_entries m') \<and> de_uri (dm_entries m' ! j) = v \<and> de_isOpen (dm_entries m' ! j)"
    if "jm_get (dm_docs m') v = Some j" for v j
  proof (cases "v = u")
    case True
    with that m'(1) i have "j = i" by simp
    with True m'(2) e manager_okD(1) [OF ok i] show ?thesis by simp
  next
    case False
    have v: "jm_get (dm_docs m) v = Some j" using that m'(1) by simp
    from n [OF v False] have "j \<noteq> i" .
    with m'(2) manager_okD(1-3) [OF ok v] show ?thesis by simp
  qed
  moreover have "de_generation d < dm_monotonicGeneration m'" if "d \<in> set (dm_entries m')" for d
  proof -
    have "d = e \<or> d \<in> set (dm_entries m)" using that m'(2) set_update_subset_insert by fastforce
    with e ok m'(3) show ?thesis unfolding manager_ok_def by fastforce
  qed
  ultimately show "manager_ok m'" unfolding manager_ok_def by blast
  have "open_docs m' v = ((open_docs m)(u \<mapsto> doc_view e)) v" for v
  proof (cases "jm_get (dm_docs m) v")
    case None
    with i m'(1) show ?thesis by (auto simp: open_docs_def doc_get_def)
  next
    case (Some j)
    with n [OF Some] i m' manager_okD(1) [OF ok i] show ?thesis
      by (auto simp: open_docs_def doc_get_def simp del: map_of_eq_Some_iff)
  qed
  then show "open_docs m' = (open_docs m)(u \<mapsto> doc_view e)" ..
qed

lemma open_docs_same: "dm_docs m' = dm_docs m \<Longrightarrow> dm_entries m' = dm_entries m \<Longrightarrow> open_docs m' = open_docs m"
  by (simp add: open_docs_def doc_get_def fun_eq_iff)

lemma open_docs_at: "jm_get (dm_docs m) u = Some i \<Longrightarrow> open_docs m u = Some (doc_view (dm_entries m ! i))"
  by (simp add: open_docs_def doc_get_def)

lemma open_docs_None: "open_docs m u = None \<longleftrightarrow> jm_get (dm_docs m) u = None"
  by (simp add: open_docs_def doc_get_def)


lemma entry_new:
  assumes ok: "manager_ok m" and u: "jm_get (dm_docs m) u = None"
    and m': "dm_docs m' = jm_set u (length (dm_entries m)) (dm_docs m)" "dm_entries m' = dm_entries m @ [e]"
      "dm_monotonicGeneration m \<le> dm_monotonicGeneration m'"
    and e: "de_uri e = u" "de_isOpen e" "de_generation e < dm_monotonicGeneration m'"
  shows "manager_ok m'" and "open_docs m' = (open_docs m)(u \<mapsto> doc_view e)"
proof -
  have "j < length (dm_entries m') \<and> de_uri (dm_entries m' ! j) = v \<and> de_isOpen (dm_entries m' ! j)"
    if "jm_get (dm_docs m') v = Some j" for v j
  proof (cases "v = u")
    case True
    with that m' e show ?thesis by (auto simp: nth_append)
  next
    case False
    then have v: "jm_get (dm_docs m) v = Some j" using that m'(1) by simp
    with m'(2) manager_okD(1-3) [OF ok v] show ?thesis by (simp add: nth_append)
  qed
  moreover have "de_generation d < dm_monotonicGeneration m'" if "d \<in> set (dm_entries m')" for d
    using that m'(2,3) e ok unfolding manager_ok_def by fastforce
  ultimately show "manager_ok m'" unfolding manager_ok_def by blast
  have "open_docs m' v = ((open_docs m)(u \<mapsto> doc_view e)) v" for v
  proof (cases "jm_get (dm_docs m) v")
    case None
    with m' show ?thesis by (simp add: open_docs_def doc_get_def)
  next
    case (Some j)
    with m' u manager_okD(1) [OF ok Some] show ?thesis by (auto simp: open_docs_def doc_get_def nth_append)
  qed
  then show "open_docs m' = (open_docs m)(u \<mapsto> doc_view e)" ..
qed

text \<open>The calls of a step and its effect on the specification.\<close>

definition sent :: "doc_manager \<Rightarrow> doc_manager \<Rightarrow> wire_call list" where
  "sent m m' = drop (length (dm_wire m)) (dm_wire m')"

lemma tell_wire: "dm_wire (tell throws c m) = dm_wire m @ (if dm_client m = NoClient \<or> throws c then [] else [c])"
  by (simp add: tell_def)

definition ensure_call :: "doc_manager \<Rightarrow> string \<Rightarrow> string \<Rightarrow> string \<Rightarrow> wire_call" where
  "ensure_call m u lang tx =
    (case doc_get m u of
       None \<Rightarrow> DidOpen u lang 1 tx
     | Some e \<Rightarrow>
         if dm_client m = FullClient then DidChange u (int (de_version e + 1)) [full_change tx]
         else DidOpen u lang (int (de_version e + 1)) tx)"

lemma ensure_step:
  assumes ok: "manager_ok m"
    and m'_def: "m' = fst (ensureOpenedOrUpdated throws u tx lang jsp m)"
  shows "manager_ok m'" and "manager_spec m' = spec_step (Ensure u tx lang jsp) (manager_spec m)"
    and "dm_client m' = dm_client m"
    and "dm_wire m' = dm_wire m @
      (if map_option snd (open_docs m u) = Some tx \<or> dm_client m = NoClient \<or> throws (ensure_call m u lang tx) then []
       else [ensure_call m u lang tx])"
proof -
  have "manager_ok m' \<and> manager_spec m' = spec_step (Ensure u tx lang jsp) (manager_spec m) \<and> dm_client m' = dm_client m
    \<and> dm_wire m' = dm_wire m @
      (if map_option snd (open_docs m u) = Some tx \<or> dm_client m = NoClient \<or> throws (ensure_call m u lang tx) then []
       else [ensure_call m u lang tx])"
  proof (cases "jm_get (dm_docs m) u")
    case None
    let ?e = "\<lparr> de_uri = u, de_jspUri = jsp, de_languageId = lang, de_version = 1,
      de_generation = dm_monotonicGeneration m, de_text = tx, de_isOpen = True, de_activeLeases = 0 \<rparr>"
    have d: "dm_docs m' = jm_set u (length (dm_entries m)) (dm_docs m)" "dm_entries m' = dm_entries m @ [?e]"
      "dm_monotonicGeneration m' = dm_monotonicGeneration m + 1" "dm_client m' = dm_client m"
      "dm_wire m' = dm_wire m @ (if dm_client m = NoClient \<or> throws (DidOpen u lang 1 tx) then [] else [DidOpen u lang 1 tx])"
      using None by (simp_all add: m'_def ensureOpenedOrUpdated_def find_or_create_def Let_def tell_wire)
    have "open_docs m u = None" using None by (simp add: open_docs_None)
    moreover have "manager_ok m'" "open_docs m' = (open_docs m)(u \<mapsto> doc_view ?e)"
      by (rule entry_new [OF ok None d(1,2)]; simp add: d)+
    ultimately show ?thesis
      using d(3-5) None by (simp add: manager_spec_def doc_view_def ensure_call_def doc_get_def)
  next
    case (Some i)
    note oi = manager_okD [OF ok Some]
    let ?e = "dm_entries m ! i"
    obtain e1 where f: "find_or_create u tx lang jsp m = (set_entry i e1 m, i)"
      and e1: "de_uri e1 = u" "de_isOpen e1" "de_generation e1 = de_generation ?e" "de_text e1 = de_text ?e"
        "de_version e1 = de_version ?e"
    proof
      show "find_or_create u tx lang jsp m = (set_entry i (?e\<lparr>de_jspUri :=
          if (jsp \<noteq> None \<and> jsp \<noteq> Some []) \<and> (de_jspUri ?e = None \<or> de_jspUri ?e = Some []) then jsp else de_jspUri ?e\<rparr>) m, i)"
        using Some oi(1) by (simp add: find_or_create_def Let_def set_entry_def)
    qed (use oi in simp_all)
    have v: "open_docs m u = Some (de_generation ?e, de_text ?e)" using Some by (simp add: open_docs_at doc_view_def)
    show ?thesis
    proof (cases "de_text ?e = tx")
      case True
      then have d: "m' = set_entry i e1 m"
        using oi e1 by (simp add: m'_def ensureOpenedOrUpdated_def f Let_def)
      have "manager_ok m'" "open_docs m' = (open_docs m)(u \<mapsto> doc_view e1)"
        by (rule entry_update [OF ok Some, where e = e1]; use oi e1 in \<open>simp add: d\<close>)+
      moreover have "(open_docs m)(u \<mapsto> doc_view e1) = open_docs m" using v e1 by (simp add: doc_view_def fun_upd_idem)
      ultimately show ?thesis using True v d by (simp add: manager_spec_def)
    next
      case False
      let ?e2 = "e1\<lparr>de_version := de_version ?e + 1, de_generation := dm_monotonicGeneration m, de_text := tx\<rparr>"
      let ?c = "if dm_client m = FullClient then DidChange u (int (de_version ?e + 1)) [full_change tx]
        else DidOpen u lang (int (de_version ?e + 1)) tx"
      have d: "m' = tell throws ?c (next_generation (set_entry i ?e2 m))"
        using False oi e1 by (simp add: m'_def ensureOpenedOrUpdated_def f Let_def) (simp add: set_entry_def)
      have "manager_ok m'" "open_docs m' = (open_docs m)(u \<mapsto> doc_view ?e2)"
        by (rule entry_update [OF ok Some, where e = ?e2]; use oi e1 in \<open>simp add: d\<close>)+
      moreover have "dm_wire m' = dm_wire m @ (if dm_client m = NoClient \<or> throws ?c then [] else [?c])"
        by (simp add: d tell_wire)
      moreover have "ensure_call m u lang tx = ?c" using Some by (simp add: ensure_call_def doc_get_def)
      ultimately show ?thesis using False v d by (simp add: manager_spec_def doc_view_def)
    qed
  qed
  then show "manager_ok m'" "manager_spec m' = spec_step (Ensure u tx lang jsp) (manager_spec m)"
    "dm_client m' = dm_client m"
    "dm_wire m' = dm_wire m @
      (if map_option snd (open_docs m u) = Some tx \<or> dm_client m = NoClient \<or> throws (ensure_call m u lang tx) then []
       else [ensure_call m u lang tx])"
    by blast+
qed

text \<open>The lease count of an entry is invisible to the specification, also of one no longer in the map.\<close>

lemma leases_step:
  assumes ok: "manager_ok m" and m': "m' = set_entry i ((dm_entries m ! i)\<lparr>de_activeLeases := k\<rparr>) m"
    and i: "i < length (dm_entries m)"
  shows "manager_ok m'" and "manager_spec m' = manager_spec m"
proof -
  let ?e = "(dm_entries m ! i)\<lparr>de_activeLeases := k\<rparr>"
  have n: "dm_entries m' ! j = dm_entries m ! j \<or> j = i \<and> dm_entries m' ! j = ?e" for j
    using i m' by (cases "j = i") simp_all
  have "de_uri (dm_entries m' ! j) = de_uri (dm_entries m ! j)" "de_isOpen (dm_entries m' ! j) = de_isOpen (dm_entries m ! j)"
    "doc_view (dm_entries m' ! j) = doc_view (dm_entries m ! j)" for j
    using n [of j] by (auto simp: doc_view_def)
  moreover have "de_generation d < dm_monotonicGeneration m" if "d \<in> set (dm_entries m')" for d
  proof -
    have "d = ?e \<or> d \<in> set (dm_entries m)" using that m' set_update_subset_insert by fastforce
    with ok i nth_mem [OF i] show ?thesis unfolding manager_ok_def by fastforce
  qed
  ultimately show "manager_ok m'" "manager_spec m' = manager_spec m"
    using ok m' by (auto simp: manager_ok_def manager_spec_def open_docs_def doc_get_def fun_eq_iff option.map_comp comp_def
        simp del: map_of_eq_Some_iff)
qed

lemma close_step:
  assumes ok: "manager_ok m"
    and m'_def: "m' = close_virtual throws u m"
  shows "manager_ok m'" and "manager_spec m' = spec_step (CloseVirtual u) (manager_spec m)"
    and "dm_client m' = dm_client m"
    and "dm_wire m' = dm_wire m @
      (if open_docs m u = None \<or> dm_client m = NoClient \<or> throws (DidClose u) then [] else [DidClose u])"
proof -
  have "manager_ok m' \<and> manager_spec m' = spec_step (CloseVirtual u) (manager_spec m) \<and> dm_client m' = dm_client m
    \<and> dm_wire m' = dm_wire m @
      (if open_docs m u = None \<or> dm_client m = NoClient \<or> throws (DidClose u) then [] else [DidClose u])"
  proof (cases "jm_get (dm_docs m) u")
    case None
    then show ?thesis using ok by (simp add: m'_def close_virtual_def manager_spec_def open_docs_None)
  next
    case (Some i)
    note oi = manager_okD [OF ok Some]
    let ?e = "(dm_entries m ! i)\<lparr>de_generation := dm_monotonicGeneration m, de_isOpen := False, de_activeLeases := 0\<rparr>"
    have d: "dm_docs m' = jm_delete u (dm_docs m)" "dm_entries m' = (dm_entries m)[i := ?e]"
      "dm_monotonicGeneration m' = dm_monotonicGeneration m + 1" "dm_client m' = dm_client m"
      "dm_wire m' = dm_wire m @ (if dm_client m = NoClient \<or> throws (DidClose u) then [] else [DidClose u])"
      using Some oi by (simp_all add: m'_def close_virtual_def Let_def tell_wire)
    have n: "j \<noteq> i" if "jm_get (dm_docs m) v = Some j" "v \<noteq> u" for v j
      using manager_okD(2) [OF ok that(1)] oi(2) that(2) by blast
    have "j < length (dm_entries m') \<and> de_uri (dm_entries m' ! j) = v \<and> de_isOpen (dm_entries m' ! j)"
      if "jm_get (dm_docs m') v = Some j" for v j
    proof -
      have v: "jm_get (dm_docs m) v = Some j" "v \<noteq> u" using that d(1) by (simp_all split: if_splits)
      with n [OF v] d(2) manager_okD(1-3) [OF ok v(1)] show ?thesis by simp
    qed
    moreover have "de_generation x < dm_monotonicGeneration m'" if "x \<in> set (dm_entries m')" for x
    proof -
      have "x = ?e \<or> x \<in> set (dm_entries m)" using that d(2) set_update_subset_insert by fastforce
      with ok d(3) show ?thesis unfolding manager_ok_def by fastforce
    qed
    moreover have "open_docs m' v = ((open_docs m)(u := None)) v" for v
    proof (cases "v = u")
      case False
      then have "map_option (\<lambda>j. dm_entries m' ! j) (jm_get (dm_docs m) v) = map_option (\<lambda>j. dm_entries m ! j) (jm_get (dm_docs m) v)"
        using n [of v] d(2) by (cases "jm_get (dm_docs m) v") (simp_all del: map_of_eq_Some_iff)
      with False d(1) show ?thesis by (simp add: open_docs_def doc_get_def)
    qed (simp add: open_docs_def doc_get_def d)
    ultimately show ?thesis
      using d(3-5) open_docs_at [OF Some] unfolding manager_ok_def by (simp add: manager_spec_def fun_eq_iff)
  qed
  then show "manager_ok m'" "manager_spec m' = spec_step (CloseVirtual u) (manager_spec m)"
    "dm_client m' = dm_client m" "dm_wire m' = dm_wire m @
      (if open_docs m u = None \<or> dm_client m = NoClient \<or> throws (DidClose u) then [] else [DidClose u])"
    by blast+
qed


section \<open>Runs implement the specification\<close>

lemma manager_step_ok:
  assumes "manager_ok m"
  shows "manager_ok (manager_step throws e m)"
    and "manager_spec (manager_step throws e m) = spec_step e (manager_spec m)"
    and "dm_client (manager_step throws e m) = dm_client m"
proof -
  have "manager_ok (manager_step throws e m) \<and> manager_spec (manager_step throws e m) = spec_step e (manager_spec m)
    \<and> dm_client (manager_step throws e m) = dm_client m"
  proof (cases e)
    case (Ensure u tx lang jsp)
    with ensure_step(1-3) [OF assms refl] show ?thesis by simp
  next
    case (Resume i)
    show ?thesis
    proof (cases "i < length (dm_entries m)")
      case True
      with leases_step [OF assms refl True] Resume show ?thesis by (simp add: acquire_resume_def Let_def)
    qed (use assms Resume in simp)
  next
    case (Dispose u)
    show ?thesis
    proof (cases "jm_get (dm_docs m) u")
      case (Some i)
      with leases_step [OF assms refl manager_okD(1) [OF assms Some]] Dispose assms show ?thesis
        by (simp add: lease_dispose_def Let_def)
    qed (use assms Dispose in \<open>simp add: lease_dispose_def\<close>)
  next
    case (CloseVirtual u)
    with close_step(1-3) [OF assms refl] show ?thesis by simp
  qed
  then show "manager_ok (manager_step throws e m)" "manager_spec (manager_step throws e m) = spec_step e (manager_spec m)"
    "dm_client (manager_step throws e m) = dm_client m" by blast+
qed

lemma manager_run_ok:
  assumes "manager_ok m"
  shows "manager_ok (manager_run throws es m)"
    and "manager_spec (manager_run throws es m) = fold spec_step es (manager_spec m)"
    and "dm_client (manager_run throws es m) = dm_client m"
  using assms by (induction es arbitrary: m) (simp_all add: manager_run_def manager_step_ok)

lemma new_manager_ok [simp]: "manager_ok (new_doc_manager client)"
  by (simp add: manager_ok_def new_doc_manager_def)

lemma isGenerationCurrent_view:
  assumes "manager_ok m"
  shows "isGenerationCurrent u g m \<longleftrightarrow> map_option fst (open_docs m u) = Some g"
proof (cases "jm_get (dm_docs m) u")
  case None
  then show ?thesis by (simp add: isGenerationCurrent_def open_docs_def doc_get_def)
next
  case (Some i)
  with manager_okD(3) [OF assms Some] show ?thesis
    by (auto simp: isGenerationCurrent_def open_docs_def doc_get_def doc_view_def)
qed

text \<open>A generation that is in use was given out once: who has it now has had it all along.\<close>

lemma spec_step_old:
  assumes "g < n" and "fst (spec_step e (v, n)) u = Some (g, tx)"
  shows "v u = Some (g, tx)" and "n \<le> snd (spec_step e (v, n))"
  using assms by (cases e; auto split: if_splits)+

lemma spec_step_mono: "snd s \<le> snd (spec_step e s)"
  by (cases s; cases e) auto

lemma spec_run_old:
  assumes "g < snd s" and "fst (fold spec_step es s) u = Some (g, tx)"
  shows "fst s u = Some (g, tx)"
  using assms
proof (induction es arbitrary: s)
  case (Cons e es)
  then have "fst (spec_step e s) u = Some (g, tx)"
    using spec_step_mono [of s e] by simp
  with Cons.prems(1) spec_step_old(1) [of g "snd s" e "fst s"] show ?case by simp
qed simp

text \<open>Open documents have distinct generations.\<close>

definition spec_ok :: "doc_spec \<Rightarrow> bool" where
  "spec_ok s \<longleftrightarrow> (\<forall>u g t. fst s u = Some (g, t) \<longrightarrow> g < snd s)
   \<and> (\<forall>u u' g t t'. fst s u = Some (g, t) \<longrightarrow> fst s u' = Some (g, t') \<longrightarrow> u = u')"

lemma spec_ok_step: "spec_ok s \<Longrightarrow> spec_ok (spec_step e s)"
  by (cases s; cases e) (auto simp: spec_ok_def split: if_splits, (blast dest: less_SucI | fastforce)+)

lemma spec_ok_run: "spec_ok s \<Longrightarrow> spec_ok (fold spec_step es s)"
  by (induction es arbitrary: s) (simp_all add: spec_ok_step)

section \<open>The server\<close>

definition manager_server ::
  "(content_change \<Rightarrow> string \<Rightarrow> string) \<Rightarrow> doc_manager \<Rightarrow> string \<Rightarrow> string option"
where
  "manager_server srv m = foldl (server_step srv) Map.empty (dm_wire m)"

context lsp_server
begin

lemma manager_server_step:
  assumes ok: "manager_ok m" and c: "dm_client m \<noteq> NoClient" and nt: "\<And>c. \<not> throws c"
    and m: "manager_server srv m = map_option snd \<circ> open_docs m"
  shows "manager_server srv (manager_step throws e m) = map_option snd \<circ> open_docs (manager_step throws e m)"
proof (cases e)
  case (Ensure u tx lang jsp)
  let ?m = "manager_step throws e m"
  have v: "open_docs ?m = (if map_option snd (open_docs m u) = Some tx then open_docs m else (open_docs m)(u \<mapsto> (dm_monotonicGeneration m, tx)))"
    using ensure_step(2) [OF ok refl, of throws u tx lang jsp] Ensure by (simp add: manager_spec_def split: if_splits)
  have "dm_wire ?m = dm_wire m @ (if map_option snd (open_docs m u) = Some tx then [] else [ensure_call m u lang tx])"
    using ensure_step(4) [OF ok refl, of throws u tx lang jsp] Ensure c nt by simp
  moreover have "server_step srv (map_option snd \<circ> open_docs m) (ensure_call m u lang tx) = (map_option snd \<circ> open_docs m)(u \<mapsto> tx)"
    by (auto simp: ensure_call_def open_docs_def srv_full fun_eq_iff split: option.split)
  ultimately have "manager_server srv ?m =
      (if map_option snd (open_docs m u) = Some tx then map_option snd \<circ> open_docs m else (map_option snd \<circ> open_docs m)(u \<mapsto> tx))"
    using m by (simp add: manager_server_def)
  then show ?thesis by (simp add: v fun_eq_iff)
next
  case (Resume i)
  then have "open_docs (manager_step throws e m) = open_docs m" "dm_wire (manager_step throws e m) = dm_wire m"
    using manager_step_ok(2) [OF ok, of throws e]
    by (simp_all add: manager_spec_def acquire_resume_def Let_def)
  with m show ?thesis by (simp add: manager_server_def)
next
  case (Dispose u)
  then have "open_docs (manager_step throws e m) = open_docs m" "dm_wire (manager_step throws e m) = dm_wire m"
    using manager_step_ok(2) [OF ok, of throws e]
    by (simp_all add: manager_spec_def lease_dispose_def Let_def split: option.split)
  with m show ?thesis by (simp add: manager_server_def)
next
  case (CloseVirtual u)
  let ?m = "manager_step throws e m"
  have "open_docs ?m = (open_docs m)(u := None)"
    using close_step(2) [OF ok refl, of throws u] CloseVirtual
    by (auto simp: manager_spec_def split: if_splits)
  moreover have "dm_wire ?m = dm_wire m @ (if open_docs m u = None then [] else [DidClose u])"
    using close_step(4) [OF ok refl, of throws u] CloseVirtual c nt by simp
  ultimately show ?thesis using m by (auto simp: manager_server_def fun_eq_iff)
qed

lemma manager_server_run:
  assumes "manager_ok m" and "dm_client m \<noteq> NoClient" and "\<And>c. \<not> throws c"
    and "manager_server srv m = map_option snd \<circ> open_docs m"
  shows "manager_server srv (manager_run throws es m) = map_option snd \<circ> open_docs (manager_run throws es m)"
  using assms
proof (induction es arbitrary: m)
  case (Cons e es)
  have "manager_server srv (manager_run throws es (manager_step throws e m))
      = map_option snd \<circ> open_docs (manager_run throws es (manager_step throws e m))"
    by (rule Cons.IH [OF manager_step_ok(1) [OF Cons.prems(1)] _ Cons.prems(3) manager_server_step [OF Cons.prems]])
      (use Cons.prems(2) manager_step_ok(3) [OF Cons.prems(1)] in simp)
  then show ?case by (simp add: manager_run_def)
qed (simp add: manager_run_def)

end

end
