(* ===== verification/JspCompletion.thy ===== *)
theory JspCompletion
  imports JspPageFacts VirtualDocuments
begin

text \<open>
  \<open>jsp-extension/src/browser/jsp-scriptlet-java-completion.ts\<close>: where the cursor is, and which virtual document a
  completion asks the shared document manager for. The snippets, the answer of the Java server and its edits
  are not modelled. The lease on the document is \<open>acquireLease\<close> of the manager, whose two halves are steps of the engine.
\<close>

text \<open>\<open>block\<close> and \<open>offset\<close> of the result; a block is there exactly when the cursor is inside Java.\<close>

definition analyzeCursorContext :: "string \<Rightarrow> nat \<Rightarrow> nat \<Rightarrow> nav_block option \<times> nat" where
  "analyzeCursorContext content line column =
    (let offset = nav_positionToOffset content line column
     in (findBlockAt (findJavaBlocks content) offset, offset))"

definition toVirtualKind :: "nav_kind \<Rightarrow> virtual_kind" where
  "toVirtualKind k = (case k of NDeclaration \<Rightarrow> VDeclaration | NExpression \<Rightarrow> VExpression | _ \<Rightarrow> VScriptlet)"

text \<open>\<open>findIndex\<close> of the block with the same bounds and kind, or 0.\<close>

definition block_index :: "nav_block \<Rightarrow> nav_block list \<Rightarrow> nat" where
  "block_index b blocks =
    (let i = length (takeWhile (\<lambda>c. c \<noteq> b) blocks) in if i < length blocks then i else 0)"

text \<open>The document of the lease: the page, or the block alone if the cursor has no place in the virtual page; none outside Java
  blocks, or if the page model throws.\<close>

definition completion_document ::
  "nat \<Rightarrow> include_resolver \<Rightarrow> string \<Rightarrow> string \<Rightarrow> nat \<Rightarrow> nat \<Rightarrow> (string \<times> string) option"
where
  "completion_document fuel resolver jspUri content line column =
    (case fst (analyzeCursorContext content line column) of
       None \<Rightarrow> None
     | Some b \<Rightarrow>
         (case buildPageVirtualJava fuel resolver jspUri content of
            None \<Rightarrow> None
          | Some r \<Rightarrow>
              Some (case mapJspPositionToVirtual (pv_sourceMap r) jspUri line column of
                      Some v \<Rightarrow> (pv_virtualUri r, pv_virtualJava r)
                    | None \<Rightarrow>
                        (virtualUriForBlock jspUri (block_index b (findJavaBlocks content)),
                         buildVirtualJavaFile (js_slice content (nb_start b) (nb_end b)) (toVirtualKind (nb_kind b))))))"

text \<open>Up to the \<open>await\<close> of the lease.\<close>

definition begin_completion ::
  "(wire_call \<Rightarrow> bool) \<Rightarrow> nat \<Rightarrow> include_resolver \<Rightarrow> string \<Rightarrow> string \<Rightarrow> nat \<Rightarrow> nat \<Rightarrow> doc_manager \<Rightarrow> doc_manager"
where
  "begin_completion throws fuel resolver jspUri content line column m =
    (case completion_document fuel resolver jspUri content line column of
       None \<Rightarrow> m
     | Some (u, tx) \<Rightarrow> fst (ensureOpenedOrUpdated throws u tx ''java'' (Some jspUri) m))"

end
