(* ===== verification/JspDiagnostics.thy ===== *)
theory JspDiagnostics
  imports JspCompletion
begin

text \<open>
  \<open>jsp-extension/src/browser/jsp-scriptlet-diagnostics-core.ts\<close>: the engine that keeps the virtual
  documents of the open pages at the language server and turns its diagnostics into markers.
  The calls of the marker sink are the list \<open>en_markers\<close>. The state of a model is an object that
  a run holds across its \<open>await\<close>, also when it is detached meanwhile: the objects are a store, and the map of
  the engine holds their ids. \<open>runDiagnostics\<close> is the part after the \<open>await\<close>: \<open>pageResult\<close> is what the
  page model gave for the text read before, or nothing when it threw. The debounce timer and the listener of
  a state belong to the contribution.
\<close>

section \<open>Markers\<close>

definition lspSeverityToMarkerSeverity :: "nat option \<Rightarrow> nat" where
  "lspSeverityToMarkerSeverity severity =
    (case severity of
       None \<Rightarrow> 8
     | Some n \<Rightarrow> if n = 1 then 8 else if n = 2 then 4 else if n = 3 then 2 else if n = 4 then 1 else 8)"

definition diag_source :: "lsp_diagnostic \<Rightarrow> string" where
  "diag_source d = (case dg_source d of Some s \<Rightarrow> s | None \<Rightarrow> ''jsp-java'')"

definition map_block_pos :: "nat \<times> nat \<Rightarrow> string \<Rightarrow> virtual_kind \<Rightarrow> lsp_position \<Rightarrow> int \<times> int" where
  "map_block_pos origin blockContent kind p =
    (case mapVirtualPositionToBlockOffset blockContent (po_line p) (po_character p) kind of
       None \<Rightarrow> (int (fst origin), int (snd origin))
     | Some (lineInBlock, characterInBlock) \<Rightarrow>
         if lineInBlock = 0 then (int (fst origin), int (snd origin) + characterInBlock)
         else (int (fst origin) + int lineInBlock, characterInBlock))"

definition mapDiagnosticToJsp ::
  "string \<Rightarrow> nat \<Rightarrow> string \<Rightarrow> lsp_diagnostic \<Rightarrow> virtual_kind \<Rightarrow> marker_data"
where
  "mapDiagnosticToJsp jspContent blockStart blockContent d kind =
    (let origin = offsetToPosition jspContent (int blockStart);
         start = map_block_pos origin blockContent kind (ra_start (dg_range d));
         e = map_block_pos origin blockContent kind (ra_end (dg_range d))
     in \<lparr> mk_severity = lspSeverityToMarkerSeverity (dg_severity d), mk_message = dg_message d,
          mk_source = Some (diag_source d), mk_code = dg_code d,
          mk_startLineNumber = fst start + 1, mk_startColumn = snd start + 1,
          mk_endLineNumber = fst e + 1, mk_endColumn = max 1 (snd e + 1) \<rparr>)"

section \<open>The engine\<close>

record model_state =
  ms_jspUri :: string
  ms_value :: string
  ms_disposed :: bool
  ms_activeVirtualUris :: "string list"
  ms_pageResult :: "page_virtual_java option"
  ms_sequence :: nat
  ms_pageMode :: bool
  ms_blockDiagnostics :: "(string, marker_data list) jsmap"

record engine =
  en_states :: "(string, nat) jsmap"
  en_objects :: "model_state list"
  en_manager :: doc_manager
  en_markers :: "(string \<times> marker_data list) list"
  en_closings :: "string list list"

definition new_engine :: "language_client \<Rightarrow> engine" where
  "new_engine client = \<lparr> en_states = [], en_objects = [], en_manager = new_doc_manager client, en_markers = [],
    en_closings = [] \<rparr>"

definition put_object :: "nat \<Rightarrow> model_state \<Rightarrow> engine \<Rightarrow> engine" where
  "put_object i st e = e\<lparr>en_objects := (en_objects e)[i := st]\<rparr>"

definition getModelState :: "engine \<Rightarrow> string \<Rightarrow> model_state option" where
  "getModelState e uri = map_option (\<lambda>i. en_objects e ! i) (jm_get (en_states e) uri)"

definition setModelMarkers :: "string \<Rightarrow> marker_data list \<Rightarrow> engine \<Rightarrow> engine" where
  "setModelMarkers uri ms e = e\<lparr>en_markers := en_markers e @ [(uri, ms)]\<rparr>"

definition attachModel :: "string \<Rightarrow> string \<Rightarrow> nat \<Rightarrow> engine \<Rightarrow> engine" where
  "attachModel uri tx initialSequence e =
    (case jm_get (en_states e) uri of
       Some i \<Rightarrow> e
     | None \<Rightarrow>
         e\<lparr>en_objects := en_objects e @
              [\<lparr> ms_jspUri = uri, ms_value = tx, ms_disposed = False, ms_activeVirtualUris = [],
                 ms_pageResult = None, ms_sequence = initialSequence, ms_pageMode = True,
                 ms_blockDiagnostics = [] \<rparr>],
            en_states := jm_set uri (length (en_objects e)) (en_states e)\<rparr>)"

definition detachModel :: "(wire_call \<Rightarrow> bool) \<Rightarrow> string \<Rightarrow> engine \<Rightarrow> engine" where
  "detachModel throws uri e =
    (case jm_get (en_states e) uri of
       None \<Rightarrow> e
     | Some i \<Rightarrow>
         let (m, rest) = closeAllForJsp throws uri (en_manager e)
         in setModelMarkers uri []
              (e\<lparr>en_manager := m, en_closings := en_closings e @ [rest],
                 en_states := jm_delete uri (en_states e)\<rparr>))"

text \<open>The next turn of a closing that is under way.\<close>

definition continue_closing :: "(wire_call \<Rightarrow> bool) \<Rightarrow> nat \<Rightarrow> engine \<Rightarrow> engine" where
  "continue_closing throws k e =
    (if k < length (en_closings e)
     then let (m, rest) = closeAll_next throws (en_closings e ! k) (en_manager e)
          in e\<lparr>en_manager := m, en_closings := (en_closings e)[k := rest]\<rparr>
     else e)"

definition nav_virtual_kind :: "nav_kind \<Rightarrow> virtual_kind" where
  "nav_virtual_kind k = (case k of NDeclaration \<Rightarrow> VDeclaration | NExpression \<Rightarrow> VExpression | _ \<Rightarrow> VScriptlet)"

definition block_uris :: "string \<Rightarrow> nav_block list \<Rightarrow> (string \<times> nav_block) list" where
  "block_uris jspUri blocks =
    concat (map (\<lambda>(i, b). if nb_kind b = NDirective then [] else [(virtualUriForBlock jspUri i, b)])
      (enumerate 0 blocks))"

definition sync :: "(wire_call \<Rightarrow> bool) \<Rightarrow> string \<Rightarrow> string \<times> string \<Rightarrow> doc_manager \<Rightarrow> doc_manager" where
  "sync throws jspUri = (\<lambda>(uri, java) m. fst (syncDocument throws uri java ''java'' (Some jspUri) m))"

definition runDiagnostics ::
  "(wire_call \<Rightarrow> bool) \<Rightarrow> nat \<Rightarrow> nat \<Rightarrow> string \<Rightarrow> page_virtual_java option \<Rightarrow> engine \<Rightarrow> engine"
where
  "runDiagnostics throws i seq content pageResult e =
    (let st = en_objects e ! i in
     if ms_sequence st \<noteq> seq \<or> ms_disposed st then e
     else
       (case pageResult of
          Some r \<Rightarrow>
            put_object i (st\<lparr>ms_pageMode := True, ms_pageResult := Some r, ms_blockDiagnostics := [],
                ms_activeVirtualUris := [pv_virtualUri r]\<rparr>)
              (e\<lparr>en_manager := fold (close_virtual throws)
                   (filter (\<lambda>u. u \<noteq> pv_virtualUri r) (ms_activeVirtualUris st))
                   (sync throws (ms_jspUri st) (pv_virtualUri r, pv_virtualJava r) (en_manager e))\<rparr>)
        | None \<Rightarrow>
            let docs = map (\<lambda>(u, b). (u, buildVirtualJavaFile (js_slice content (nb_start b) (nb_end b))
                             (nav_virtual_kind (nb_kind b)))) (block_uris (ms_jspUri st) (findJavaBlocks content));
                new = fold add_new (map fst docs) []
            in put_object i (st\<lparr>ms_pageMode := False, ms_pageResult := None, ms_blockDiagnostics := [],
                 ms_activeVirtualUris := new\<rparr>)
               (e\<lparr>en_manager := fold (close_virtual throws) (filter (\<lambda>u. u \<notin> set new) (ms_activeVirtualUris st))
                    (fold (sync throws (ms_jspUri st)) docs (en_manager e))\<rparr>)))"

definition page_marker :: "source_map \<Rightarrow> lsp_diagnostic \<Rightarrow> (string \<times> marker_data) option" where
  "page_marker m d =
    (case mapVirtualPositionToJsp m (nat (po_line (ra_start (dg_range d)))) (nat (po_character (ra_start (dg_range d)))) of
       None \<Rightarrow> None
     | Some s \<Rightarrow>
         if \<not> mj_inUserCode s then None
         else
           let e = mapVirtualPositionToJsp m (nat (po_line (ra_end (dg_range d)))) (nat (po_character (ra_end (dg_range d))))
           in Some (mj_sourceUri s,
             \<lparr> mk_severity = lspSeverityToMarkerSeverity (dg_severity d), mk_message = dg_message d,
               mk_source = Some (diag_source d), mk_code = dg_code d,
               mk_startLineNumber = int (mp_line s) + 1, mk_startColumn = int (mp_character s) + 1,
               mk_endLineNumber = int (case e of Some p \<Rightarrow> mp_line p | None \<Rightarrow> mp_line s) + 1,
               mk_endColumn = int (case e of Some p \<Rightarrow> mp_character p | None \<Rightarrow> mp_character s + 1) + 1 \<rparr>))"

definition add_included :: "string \<times> marker_data \<Rightarrow> (string, marker_data list) jsmap \<Rightarrow> (string, marker_data list) jsmap" where
  "add_included = (\<lambda>(u, mk) m. jm_set u ((case jm_get m u of Some l \<Rightarrow> l | None \<Rightarrow> []) @ [mk]) m)"

definition page_notification :: "string list option \<Rightarrow> string \<Rightarrow> source_map \<Rightarrow> lsp_diagnostic list \<Rightarrow> engine \<Rightarrow> engine" where
  "page_notification openUris jspUri m ds e =
    (let ms = List.map_filter (page_marker m) ds;
         included = fold add_included (filter (\<lambda>(u, mk). u \<noteq> jspUri) ms) [];
         e1 = setModelMarkers jspUri (map snd (filter (\<lambda>(u, mk). u = jspUri) ms)) e
     in case openUris of
          None \<Rightarrow> e1
        | Some opn \<Rightarrow> fold (\<lambda>(u, l). if u \<in> set opn then setModelMarkers u l else id) included e1)"

definition block_notification :: "string \<Rightarrow> int \<Rightarrow> lsp_diagnostic list \<Rightarrow> nat \<Rightarrow> engine \<Rightarrow> engine" where
  "block_notification uri blockIndex ds n e =
    (let st = en_objects e ! n; content = ms_value st; blocks = findJavaBlocks content in
     if blockIndex < 0 \<or> int (length blocks) \<le> blockIndex then e
     else
       let block = blocks ! nat blockIndex;
           blockContent = js_slice content (nb_start block) (nb_end block);
           kind = nav_virtual_kind (nb_kind block);
           blockMarkers = map (\<lambda>d. mapDiagnosticToJsp content (nb_start block) blockContent d kind) ds;
           bd = jm_set uri blockMarkers (ms_blockDiagnostics st)
       in setModelMarkers (ms_jspUri st) (concat (jm_values bd))
            (put_object n (st\<lparr>ms_blockDiagnostics := bd\<rparr>) e))"

text \<open>A negative block index makes the code throw before it changes anything.\<close>

definition handleDiagnosticsNotification ::
  "string list option \<Rightarrow> string \<Rightarrow> lsp_diagnostic list \<Rightarrow> engine \<Rightarrow> engine"
where
  "handleDiagnosticsNotification openUris uri ds e =
    (case parseVirtualUri uri of
       None \<Rightarrow> e
     | Some parsed \<Rightarrow>
         (case jm_get (en_states e) (pu_jspUri parsed) of
            None \<Rightarrow> e
          | Some n \<Rightarrow>
              let st = en_objects e ! n in
              if ms_disposed st \<or> ms_pageMode st \<noteq> pu_isPage parsed then e
              else
                (case (pu_isPage parsed, ms_pageResult st) of
                   (True, Some r) \<Rightarrow> page_notification openUris (ms_jspUri st) (pv_sourceMap r) ds e
                 | _ \<Rightarrow>
                     (case pu_blockIndex parsed of
                        None \<Rightarrow> e
                      | Some i \<Rightarrow> block_notification uri i ds n e))))"

section \<open>Block markers\<close>

lemma block_marker_start:
  assumes i: "nb_start b \<le> i" "i \<le> nb_end b" "nb_end b \<le> length content"
    and p: "mapOffsetToVirtualPosition (js_slice content (nb_start b) (nb_end b)) (int (i - nb_start b)) kind = (l, ch)"
    and d: "ra_start (dg_range d) = \<lparr> po_line = int l, po_character = int ch \<rparr>"
  shows "mk_startLineNumber (mapDiagnosticToJsp content (nb_start b) (js_slice content (nb_start b) (nb_end b)) d kind)
      = int (line_at content i) + 1"
    and "mk_startColumn (mapDiagnosticToJsp content (nb_start b) (js_slice content (nb_start b) (nb_end b)) d kind)
      = int (col_at content i) + 1"
proof -
  let ?c = "js_slice content (nb_start b) (nb_end b)" and ?k = "i - nb_start b"
  have s: "nb_start b \<le> length content" using i by simp
  have k: "?k \<le> length ?c" using i by (simp add: js_slice_def)
  have t: "line_at (drop (nb_start b) content) ?k = line_at ?c ?k" "col_at (drop (nb_start b) content) ?k = col_at ?c ?k"
    using i by (simp_all add: js_slice_def position_take)
  have pos: "line_at content i = line_at content (nb_start b) + line_at ?c ?k"
    "col_at content i = (if line_at ?c ?k = 0 then col_at content (nb_start b) + col_at ?c ?k else col_at ?c ?k)"
    using position_add [OF s, of ?k] i(1) t by simp_all
  have m: "mapVirtualPositionToBlockOffset ?c (int l) (int ch) kind = Some (line_at ?c ?k, int (col_at ?c ?k))"
    using virtual_roundtrip [OF k, of kind] p by simp
  show "mk_startLineNumber (mapDiagnosticToJsp content (nb_start b) ?c d kind) = int (line_at content i) + 1"
    "mk_startColumn (mapDiagnosticToJsp content (nb_start b) ?c d kind) = int (col_at content i) + 1"
    using pos by (simp_all add: mapDiagnosticToJsp_def Let_def map_block_pos_def d m offsetToPosition_at [OF s])
qed

section \<open>The virtual documents of a page\<close>

text \<open>
  The events of a session; a \<open>Run\<close> that does not return changes nothing. \<open>Complete\<close> is a completion up to its lease,
  \<open>LeaseResume\<close> and \<open>LeaseDispose\<close> are the rest of it, \<open>SetClient\<close> the registration of a client.
\<close>

datatype engine_event =
    Attach string string nat
  | Detach string
  | Edit nat string nat
  | DisposeModel nat
  | Run nat nat string bool nat include_resolver
  | Notify "string list option" string "lsp_diagnostic list"
  | ContinueClosing nat
  | Complete string string nat nat nat include_resolver
  | LeaseResume nat
  | LeaseDispose string
  | SetClient language_client

definition edit_object :: "(model_state \<Rightarrow> model_state) \<Rightarrow> nat \<Rightarrow> engine \<Rightarrow> engine" where
  "edit_object f i e = put_object i (f (en_objects e ! i)) e"

fun engine_step :: "(wire_call \<Rightarrow> bool) \<Rightarrow> engine_event \<Rightarrow> engine \<Rightarrow> engine" where
  "engine_step throws (Attach uri tx n) e = attachModel uri tx n e"
| "engine_step throws (Detach uri) e = detachModel throws uri e"
| "engine_step throws (Edit i tx n) e = edit_object (\<lambda>st. st\<lparr>ms_value := tx, ms_sequence := n\<rparr>) i e"
| "engine_step throws (DisposeModel i) e = edit_object (\<lambda>st. st\<lparr>ms_disposed := True\<rparr>) i e"
| "engine_step throws (Run i seq content threw fuel resolver) e =
     (if threw then runDiagnostics throws i seq content None e
      else (case buildPageVirtualJava fuel resolver (ms_jspUri (en_objects e ! i)) content of
              None \<Rightarrow> e
            | Some r \<Rightarrow> runDiagnostics throws i seq content (Some r) e))"
| "engine_step throws (Notify openUris uri ds) e = handleDiagnosticsNotification openUris uri ds e"
| "engine_step throws (ContinueClosing k) e = continue_closing throws k e"
| "engine_step throws (Complete uri content line column fuel resolver) e =
     e\<lparr>en_manager := begin_completion throws fuel resolver uri content line column (en_manager e)\<rparr>"
| "engine_step throws (LeaseResume i) e = e\<lparr>en_manager := manager_step throws (Resume i) (en_manager e)\<rparr>"
| "engine_step throws (LeaseDispose u) e = e\<lparr>en_manager := manager_step throws (Dispose u) (en_manager e)\<rparr>"
| "engine_step throws (SetClient client) e = e\<lparr>en_manager := setClient client (en_manager e)\<rparr>"

text \<open>A run ends while its state is attached, or the model has been disposed of; a completion asks for its lease while its page
  is attached.\<close>

definition attached :: "engine \<Rightarrow> nat \<Rightarrow> bool" where
  "attached e i \<longleftrightarrow> i < length (en_objects e) \<and> jm_get (en_states e) (ms_jspUri (en_objects e ! i)) = Some i"

fun engine_event_ok :: "engine \<Rightarrow> engine_event \<Rightarrow> bool" where
  "engine_event_ok e (Run i seq content threw fuel resolver) \<longleftrightarrow> attached e i \<or> ms_disposed (en_objects e ! i)"
| "engine_event_ok e (Complete uri content line column fuel resolver) \<longleftrightarrow> getModelState e uri \<noteq> None"
| "engine_event_ok e _ \<longleftrightarrow> True"

fun engine_events_ok :: "(wire_call \<Rightarrow> bool) \<Rightarrow> engine_event list \<Rightarrow> engine \<Rightarrow> bool" where
  "engine_events_ok throws [] e \<longleftrightarrow> True"
| "engine_events_ok throws (ev # evs) e \<longleftrightarrow>
     engine_event_ok e ev \<and> engine_events_ok throws evs (engine_step throws ev e)"

text \<open>The documents that closings under way have still to close, and those that completions asked for.\<close>

definition pending_closings :: "engine \<Rightarrow> string set" where
  "pending_closings e = set (concat (en_closings e))"

fun completion_docs :: "engine_event \<Rightarrow> string set" where
  "completion_docs (Complete uri content line column fuel resolver) =
     (case completion_document fuel resolver uri content line column of None \<Rightarrow> {} | Some (u, tx) \<Rightarrow> {u})"
| "completion_docs _ = {}"

definition opened :: "doc_manager \<Rightarrow> string set" where
  "opened m = {u. open_docs m u \<noteq> None}"

definition jsp_of :: "string \<Rightarrow> string option" where
  "jsp_of u = map_option pu_jspUri (parseVirtualUri u)"

text \<open>The entry of every open document knows the page its URI names.\<close>

definition manager_named :: "doc_manager \<Rightarrow> bool" where
  "manager_named m \<longleftrightarrow> manager_ok m \<and> distinct (jm_keys (dm_docs m))
   \<and> (\<forall>u i. jm_get (dm_docs m) u = Some i \<longrightarrow> de_jspUri (dm_entries m ! i) = jsp_of u)"

definition active_of :: "engine \<Rightarrow> string \<Rightarrow> string set" where
  "active_of e uri = (case getModelState e uri of None \<Rightarrow> {} | Some st \<Rightarrow> set (ms_activeVirtualUris st))"

text \<open>Why a document is open: it is an active one of its page, or one of a completion on its page, or about to be closed.\<close>

definition accounted :: "string set \<Rightarrow> engine \<Rightarrow> string \<Rightarrow> bool" where
  "accounted C e u \<longleftrightarrow>
    (\<exists>uri. jsp_of u = Some uri \<and> (getModelState e uri \<noteq> None \<and> (u \<in> active_of e uri \<or> u \<in> C) \<or> u \<in> pending_closings e))"

definition engine_ok :: "string set \<Rightarrow> engine \<Rightarrow> bool" where
  "engine_ok C e \<longleftrightarrow> manager_named (en_manager e)
   \<and> (\<forall>uri i. jm_get (en_states e) uri = Some i \<longrightarrow> i < length (en_objects e) \<and> ms_jspUri (en_objects e ! i) = uri)
   \<and> (\<forall>uri u. u \<in> active_of e uri \<longrightarrow> jsp_of u = Some uri)
   \<and> (\<forall>u \<in> opened (en_manager e). accounted C e u)"

text \<open>The active documents are open, and no closing under way is going to close one.\<close>

definition engine_settled :: "engine \<Rightarrow> bool" where
  "engine_settled e \<longleftrightarrow> (\<forall>uri. \<forall>u \<in> active_of e uri. u \<in> opened (en_manager e) \<and> u \<notin> pending_closings e)"

text \<open>A run of a page that was attached again may end before an earlier closing of the page has: the closing can then close what the run
  has opened.\<close>

fun run_settled :: "engine \<Rightarrow> engine_event \<Rightarrow> bool" where
  "run_settled e (Run i seq content threw fuel resolver) \<longleftrightarrow>
     (\<forall>u \<in> pending_closings e. jsp_of u \<noteq> Some (ms_jspUri (en_objects e ! i)))"
| "run_settled e _ \<longleftrightarrow> True"

fun runs_settled :: "(wire_call \<Rightarrow> bool) \<Rightarrow> engine_event list \<Rightarrow> engine \<Rightarrow> bool" where
  "runs_settled throws [] e \<longleftrightarrow> True"
| "runs_settled throws (ev # evs) e \<longleftrightarrow> run_settled e ev \<and> runs_settled throws evs (engine_step throws ev e)"

lemma jsp_of_uris [simp]:
  "jsp_of (virtualUriForBlock uri i) = Some uri" "jsp_of (virtualUriForPage uri) = Some uri"
  by (simp_all add: jsp_of_def parse_block_uri parse_page_uri)

lemma build_uri: "buildPageVirtualJava fuel resolver uri c = Some r \<Longrightarrow> pv_virtualUri r = virtualUriForPage uri"
  by (auto simp: buildPageVirtualJava_def Let_def virtualUriForPage_def JSP_VIRTUAL_URI_PREFIX_def)

lemma sync_opened:
  assumes n: "manager_named m" and u: "jsp_of u = Some uri"
  shows "manager_named (sync throws uri (u, java) m)" and "opened (sync throws uri (u, java) m) = insert u (opened m)"
proof -
  let ?m = "fst (ensureOpenedOrUpdated throws u java ''java'' (Some uri) m)"
  have ok: "manager_ok m" using n by (simp add: manager_named_def)
  have m: "sync throws uri (u, java) m = ?m" by (simp add: sync_def syncDocument_def split_beta Let_def)
  note st = ensure_step [OF ok refl, of throws u java "''java''" "Some uri"]
  show "opened (sync throws uri (u, java) m) = insert u (opened m)"
    using st(2) unfolding m by (auto simp: manager_spec_def opened_def split: if_splits)
  have "distinct (jm_keys (dm_docs ?m)) \<and>
      (\<forall>v j. jm_get (dm_docs ?m) v = Some j \<longrightarrow> de_jspUri (dm_entries ?m ! j) = jsp_of v)"
  proof (cases "jm_get (dm_docs m) u")
    case None
    have d: "dm_docs ?m = jm_set u (length (dm_entries m)) (dm_docs m)"
      "\<exists>x. dm_entries ?m = dm_entries m @ [x] \<and> de_jspUri x = Some uri"
      using None by (simp_all add: ensureOpenedOrUpdated_def find_or_create_def Let_def)
    have "de_jspUri (dm_entries ?m ! j) = jsp_of v" if v: "jm_get (dm_docs ?m) v = Some j" for v j
    proof (cases "v = u")
      case True
      with v d u show ?thesis by (auto simp: nth_append)
    next
      case False
      then have w: "jm_get (dm_docs m) v = Some j" using v d(1) by simp
      then have "de_jspUri (dm_entries m ! j) = jsp_of v" using n unfolding manager_named_def by blast
      with d(2) manager_okD(1) [OF ok w] show ?thesis by (auto simp: nth_append)
    qed
    with d(1) n show ?thesis by (simp add: manager_named_def distinct_update)
  next
    case (Some i)
    have "de_jspUri (dm_entries m ! i) = Some uri" using n Some u unfolding manager_named_def by metis
    then have d: "dm_docs ?m = dm_docs m" "\<exists>x. dm_entries ?m = (dm_entries m)[i := x] \<and> de_jspUri x = Some uri"
      using Some manager_okD(1,3) [OF ok Some]
      by (auto simp: ensureOpenedOrUpdated_def find_or_create_def Let_def
          intro: exI [of _ "dm_entries m ! i"] simp del: map_of_eq_Some_iff)
    have "de_jspUri (dm_entries ?m ! j) = jsp_of v" if v: "jm_get (dm_docs ?m) v = Some j" for v j
    proof -
      have w: "jm_get (dm_docs m) v = Some j" using v d(1) by simp
      then have q: "de_jspUri (dm_entries m ! j) = jsp_of v" using n unfolding manager_named_def by blast
      show ?thesis
      proof (cases "j = i")
        case True
        then have "v = u" using manager_okD(2) [OF ok w] manager_okD(2) [OF ok Some] by simp
        with True d(2) u manager_okD(1) [OF ok Some] show ?thesis by auto
      next
        case False
        with d(2) q show ?thesis by auto
      qed
    qed
    with d(1) n show ?thesis by (simp add: manager_named_def)
  qed
  with st(1) show "manager_named (sync throws uri (u, java) m)" unfolding m manager_named_def by blast
qed

lemma close_named:
  assumes n: "manager_named m"
  shows "manager_named (close_virtual throws u m)" and "opened (close_virtual throws u m) = opened m - {u}"
proof -
  let ?m = "close_virtual throws u m"
  have ok: "manager_ok m" using n by (simp add: manager_named_def)
  note st = close_step [OF ok refl, of throws u]
  show "opened ?m = opened m - {u}"
    using st(2) by (auto simp: manager_spec_def opened_def split: if_splits)
  have "distinct (jm_keys (dm_docs ?m)) \<and>
      (\<forall>v j. jm_get (dm_docs ?m) v = Some j \<longrightarrow> de_jspUri (dm_entries ?m ! j) = jsp_of v)"
  proof (cases "jm_get (dm_docs m) u")
    case None
    then show ?thesis using n by (simp add: close_virtual_def manager_named_def)
  next
    case (Some i)
    let ?x = "(dm_entries m ! i)\<lparr>de_generation := dm_monotonicGeneration m, de_isOpen := False, de_activeLeases := 0\<rparr>"
    have d: "dm_docs ?m = jm_delete u (dm_docs m)"
      "dm_entries ?m = (dm_entries m)[i := ?x]"
      using Some by (simp_all add: close_virtual_def Let_def)
    have "de_jspUri (dm_entries ?m ! j) = jsp_of v" if v: "jm_get (dm_docs ?m) v = Some j" for v j
    proof -
      have w: "jm_get (dm_docs m) v = Some j" using v d(1) by (simp split: if_splits)
      then have "de_jspUri (dm_entries m ! j) = jsp_of v" using n unfolding manager_named_def by blast
      with d(2) manager_okD(1) [OF ok w] show ?thesis by (cases "j = i") auto
    qed
    with d(1) n show ?thesis by (simp add: manager_named_def distinct_delete)
  qed
  with st(1) show "manager_named ?m" unfolding manager_named_def by blast
qed

lemma fold_close_named:
  "manager_named m \<Longrightarrow> manager_named (fold (close_virtual throws) us m)
    \<and> opened (fold (close_virtual throws) us m) = opened m - set us"
  by (induction us arbitrary: m) (auto simp: close_named)

lemma fold_sync_named:
  assumes "manager_named m" and "\<forall>d\<in>set docs. jsp_of (fst d) = Some uri"
  shows "manager_named (fold (sync throws uri) docs m)
    \<and> opened (fold (sync throws uri) docs m) = opened m \<union> fst ` set docs"
  using assms
proof (induction docs arbitrary: m)
  case (Cons d docs)
  obtain u java where d: "d = (u, java)" by (cases d)
  then have u: "jsp_of u = Some uri" using Cons.prems(2) by simp
  from Cons.IH [OF sync_opened(1) [OF Cons.prems(1) u, of throws java]] Cons.prems(2)
    sync_opened(2) [OF Cons.prems(1) u, of throws java] d
  show ?case by simp
qed simp

lemma jsp_targets_named:
  assumes n: "manager_named m"
  shows "set (jsp_targets uri m) = {u \<in> opened m. jsp_of u = Some uri}"
proof -
  have g: "(u, i) \<in> set (dm_docs m) \<longleftrightarrow> jm_get (dm_docs m) u = Some i" for u i
    using n by (auto simp: manager_named_def)
  have "de_jspUri (dm_entries m ! i) = jsp_of u" if "(u, i) \<in> set (dm_docs m)" for u i
    using n that unfolding g manager_named_def by blast
  moreover have "u \<in> opened m \<longleftrightarrow> (\<exists>i. (u, i) \<in> set (dm_docs m))" for u
    by (auto simp: opened_def open_docs_None g simp del: map_of_eq_Some_iff)
  ultimately show ?thesis by (force simp: jsp_targets_def jsp_of_def [symmetric])
qed

lemma set_add_new: "set (fold add_new xs ys) = set xs \<union> set ys"
proof -
  have "set (add_new x ys) = insert x (set ys)" for x :: 'a and ys by (auto simp: add_new_def)
  then show ?thesis by (induction xs arbitrary: ys) simp_all
qed

lemma engine_okD:
  assumes "engine_ok C e"
  shows "manager_named (en_manager e)"
    and "jm_get (en_states e) uri = Some i \<Longrightarrow> i < length (en_objects e)"
    and "jm_get (en_states e) uri = Some i \<Longrightarrow> ms_jspUri (en_objects e ! i) = uri"
    and "u \<in> active_of e uri \<Longrightarrow> jsp_of u = Some uri"
    and "u \<in> opened (en_manager e) \<Longrightarrow> accounted C e u"
  using assms unfolding engine_ok_def by blast+

lemma engine_okI:
  assumes "manager_named (en_manager e)"
    and "\<And>uri i. jm_get (en_states e) uri = Some i \<Longrightarrow> i < length (en_objects e) \<and> ms_jspUri (en_objects e ! i) = uri"
    and "\<And>uri u. u \<in> active_of e uri \<Longrightarrow> jsp_of u = Some uri"
    and "\<And>u. u \<in> opened (en_manager e) \<Longrightarrow> accounted C e u"
  shows "engine_ok C e"
  using assms unfolding engine_ok_def by blast

lemma active_at: "jm_get (en_states e) uri = Some i \<Longrightarrow> active_of e uri = set (ms_activeVirtualUris (en_objects e ! i))"
  by (simp add: active_of_def getModelState_def)

text \<open>What the invariants read of an engine.\<close>

lemma engine_cong:
  assumes "en_states d = en_states e" "en_objects d = en_objects e" "en_closings d = en_closings e"
  shows "getModelState d uri = getModelState e uri" and "active_of d uri = active_of e uri"
    and "pending_closings d = pending_closings e" and "accounted C d u = accounted C e u"
  using assms by (simp_all add: accounted_def getModelState_def active_of_def pending_closings_def)

text \<open>Another manager, the pages being the same.\<close>

lemma engine_ok_manager:
  assumes ok: "engine_ok C e" and m: "manager_named m" and o: "\<And>u. u \<in> opened m \<Longrightarrow> u \<in> opened (en_manager e) \<or> accounted C e u"
  shows "engine_ok C (e\<lparr>en_manager := m\<rparr>)"
proof -
  note c = engine_cong [of "e\<lparr>en_manager := m\<rparr>" e, simplified]
  show ?thesis
    using m engine_okD(2-4) [OF ok] o engine_okD(5) [OF ok]
    by (intro engine_okI) (simp_all add: c, blast+)
qed

lemma settled_manager:
  assumes "engine_settled e" and "\<And>uri u. u \<in> active_of e uri \<Longrightarrow> u \<in> opened (en_manager e) \<Longrightarrow> u \<in> opened m"
  shows "engine_settled (e\<lparr>en_manager := m\<rparr>)"
  using assms engine_cong [of "e\<lparr>en_manager := m\<rparr>" e, simplified] by (auto simp: engine_settled_def)

section \<open>Steps of the completion\<close>

lemma completion_document_names:
  "completion_document fuel resolver uri content line column = Some (u, tx) \<Longrightarrow> jsp_of u = Some uri"
  by (auto simp: completion_document_def build_uri split: option.splits)

lemma begin_completion_ok:
  assumes n: "manager_named m"
  shows "manager_named (begin_completion throws fuel resolver uri content line column m)"
    and "opened (begin_completion throws fuel resolver uri content line column m) =
      opened m \<union> completion_docs (Complete uri content line column fuel resolver)"
proof -
  have s: "fst (ensureOpenedOrUpdated throws u tx ''java'' (Some uri) m) = sync throws uri (u, tx) m" for u tx
    by (simp add: sync_def syncDocument_def split_beta Let_def)
  show "manager_named (begin_completion throws fuel resolver uri content line column m)"
    "opened (begin_completion throws fuel resolver uri content line column m) =
      opened m \<union> completion_docs (Complete uri content line column fuel resolver)"
    using n sync_opened [OF n completion_document_names] by (auto simp: begin_completion_def s split: option.split)
qed

lemma lease_named:
  assumes n: "manager_named m"
  shows "manager_named (manager_step throws (Resume i) m)" "opened (manager_step throws (Resume i) m) = opened m"
    and "manager_named (manager_step throws (Dispose u) m)" "opened (manager_step throws (Dispose u) m) = opened m"
proof -
  have ok: "manager_ok m" using n by (simp add: manager_named_def)
  have leases: "manager_named (set_entry j ((dm_entries m ! j)\<lparr>de_activeLeases := k\<rparr>) m)
      \<and> opened (set_entry j ((dm_entries m ! j)\<lparr>de_activeLeases := k\<rparr>) m) = opened m"
    if j: "j < length (dm_entries m)" for j k
  proof -
    let ?m = "set_entry j ((dm_entries m ! j)\<lparr>de_activeLeases := k\<rparr>) m"
    note l = leases_step [OF ok refl j, of k]
    have "de_jspUri (dm_entries ?m ! x) = de_jspUri (dm_entries m ! x)" for x
      using j by (cases "x = j") simp_all
    then show ?thesis using n l by (simp add: manager_named_def manager_spec_def opened_def)
  qed
  show "manager_named (manager_step throws (Resume i) m)" "opened (manager_step throws (Resume i) m) = opened m"
    using n leases by (simp_all add: acquire_resume_def Let_def)
  show "manager_named (manager_step throws (Dispose u) m)" "opened (manager_step throws (Dispose u) m) = opened m"
    using n leases manager_okD(1) [OF ok] by (auto simp: lease_dispose_def Let_def split: option.split simp del: map_of_eq_Some_iff)
qed

lemma client_named:
  "manager_named m \<Longrightarrow> manager_named (setClient c m)" "opened (setClient c m) = opened m"
  by (simp_all add: manager_named_def manager_ok_def setClient_def opened_def open_docs_def doc_get_def)

section \<open>Steps of the engine\<close>

text \<open>Replacing the documents of one page.\<close>

lemma put_object_active:
  fixes m :: doc_manager
  assumes ok: "engine_ok C e" and i: "jm_get (en_states e) uri = Some i" and st': "ms_jspUri st' = uri"
  defines "d \<equiv> put_object i st' (e\<lparr>en_manager := m\<rparr>)"
  shows "jm_get (en_states d) v = Some k \<Longrightarrow> k < length (en_objects d) \<and> ms_jspUri (en_objects d ! k) = v"
    and "active_of d v = (if v = uri then set (ms_activeVirtualUris st') else active_of e v)"
    and "getModelState d v \<noteq> None \<longleftrightarrow> getModelState e v \<noteq> None"
    and "pending_closings d = pending_closings e" "en_manager d = m"
proof -
  note o = engine_okD [OF ok]
  have s: "en_states d = en_states e" "en_objects d = (en_objects e)[i := st']"
    by (simp_all add: d_def put_object_def)
  show "pending_closings d = pending_closings e" "en_manager d = m"
    by (simp_all add: d_def put_object_def pending_closings_def)
  have at: "k < length (en_objects d) \<and> ms_jspUri (en_objects d ! k) = v
      \<and> active_of d v = (if v = uri then set (ms_activeVirtualUris st') else active_of e v)"
    if k: "jm_get (en_states e) v = Some k" for v k
  proof (cases "v = uri")
    case True
    with k i have "k = i" by simp
    with True s o(2) [OF i] st' i show ?thesis by (simp add: active_of_def getModelState_def)
  next
    case False
    with o(3) [OF k] o(3) [OF i] have "k \<noteq> i" by auto
    with False s o(2,3) [OF k] k show ?thesis by (simp add: active_of_def getModelState_def)
  qed
  show "jm_get (en_states d) v = Some k \<Longrightarrow> k < length (en_objects d) \<and> ms_jspUri (en_objects d ! k) = v"
    using at unfolding s(1) by blast
  show "active_of d v = (if v = uri then set (ms_activeVirtualUris st') else active_of e v)"
  proof (cases "jm_get (en_states e) v")
    case None
    with i s show ?thesis by (auto simp: active_of_def getModelState_def)
  qed (use at in blast)
  show "getModelState d v \<noteq> None \<longleftrightarrow> getModelState e v \<noteq> None" using s by (simp add: getModelState_def)
qed

lemma engine_ok_replace:
  assumes ok: "engine_ok C e" and i: "jm_get (en_states e) uri = Some i" and st': "ms_jspUri st' = uri"
    and new: "\<And>u. u \<in> set (ms_activeVirtualUris st') \<Longrightarrow> jsp_of u = Some uri"
    and m: "manager_named m"
      "opened m = opened (en_manager e) - (active_of e uri - set (ms_activeVirtualUris st')) \<union> set (ms_activeVirtualUris st')"
  shows "engine_ok C (put_object i st' (e\<lparr>en_manager := m\<rparr>))"
    and "engine_settled e \<Longrightarrow> \<forall>u \<in> pending_closings e. jsp_of u \<noteq> Some uri \<Longrightarrow>
      engine_settled (put_object i st' (e\<lparr>en_manager := m\<rparr>))"
proof -
  let ?e = "put_object i st' (e\<lparr>en_manager := m\<rparr>)"
  note o = engine_okD [OF ok]
  note a = put_object_active [OF ok i st', of m]
  have g: "getModelState e uri \<noteq> None" using i by (simp add: getModelState_def)
  show "engine_ok C ?e"
  proof (rule engine_okI)
    show "u \<in> active_of ?e v \<Longrightarrow> jsp_of u = Some v" for u v using a(2) o(4) new by (simp split: if_splits)
    show "k < length (en_objects ?e) \<and> ms_jspUri (en_objects ?e ! k) = v" if "jm_get (en_states ?e) v = Some k" for v k
      using a(1) that by blast
    show "accounted C ?e u" if "u \<in> opened (en_manager ?e)" for u
    proof (cases "u \<in> set (ms_activeVirtualUris st')")
      case True
      then show ?thesis using new g a(2,3) unfolding accounted_def by auto
    next
      case False
      then have u: "u \<in> opened (en_manager e)" "u \<notin> active_of e uri" using that a(5) m(2) by auto
      then obtain v where v: "jsp_of u = Some v"
          "getModelState e v \<noteq> None \<and> (u \<in> active_of e v \<or> u \<in> C) \<or> u \<in> pending_closings e"
        using o(5) unfolding accounted_def by blast
      then have "getModelState ?e v \<noteq> None \<and> (u \<in> active_of ?e v \<or> u \<in> C) \<or> u \<in> pending_closings ?e"
        using u(2) a(2-4) by auto
      then show ?thesis using v(1) unfolding accounted_def by blast
    qed
  qed (use m(1) a in simp)
  assume s: "engine_settled e" and p: "\<forall>u \<in> pending_closings e. jsp_of u \<noteq> Some uri"
  have "u \<in> opened m \<and> u \<notin> pending_closings e" if u: "u \<in> active_of ?e v" for u v
  proof (cases "v = uri")
    case True
    then have "u \<in> set (ms_activeVirtualUris st')" using u a(2) by simp
    then show ?thesis using new p m(2) by blast
  next
    case False
    then have v: "u \<in> active_of e v" using u a(2) by simp
    then have "u \<notin> active_of e uri" using False o(4) [of u uri] o(4) [of u v] by auto
    then show ?thesis using v s m(2) unfolding engine_settled_def by blast
  qed
  then show "engine_settled ?e" unfolding engine_settled_def a(4,5) by blast
qed

lemma object_kept:
  assumes f: "ms_jspUri st' = ms_jspUri (en_objects e ! i)"
    "ms_activeVirtualUris st' = ms_activeVirtualUris (en_objects e ! i)"
  shows "engine_ok C e \<Longrightarrow> engine_ok C (put_object i st' e)" and "engine_settled e \<Longrightarrow> engine_settled (put_object i st' e)"
proof -
  have o: "ms_jspUri (en_objects (put_object i st' e) ! k) = ms_jspUri (en_objects e ! k)"
    "ms_activeVirtualUris (en_objects (put_object i st' e) ! k) = ms_activeVirtualUris (en_objects e ! k)" for k
    using f by (cases "k = i"; cases "i < length (en_objects e)"; simp add: put_object_def list_update_beyond)+
  have s: "en_states (put_object i st' e) = en_states e" "en_manager (put_object i st' e) = en_manager e"
    "length (en_objects (put_object i st' e)) = length (en_objects e)" "pending_closings (put_object i st' e) = pending_closings e"
    by (simp_all add: put_object_def pending_closings_def)
  have a: "active_of (put_object i st' e) v = active_of e v" "getModelState (put_object i st' e) v = None \<longleftrightarrow> getModelState e v = None" for v
    using o s by (simp_all add: active_of_def getModelState_def split: option.split)
  show "engine_ok C e \<Longrightarrow> engine_ok C (put_object i st' e)" using a o s by (simp add: engine_ok_def accounted_def)
  show "engine_settled e \<Longrightarrow> engine_settled (put_object i st' e)" using a s by (simp add: engine_settled_def)
qed

lemma markers_kept [simp]:
  "engine_ok C (setModelMarkers u ms e) \<longleftrightarrow> engine_ok C e" "engine_settled (setModelMarkers u ms e) \<longleftrightarrow> engine_settled e"
  by (simp_all add: engine_ok_def engine_settled_def accounted_def pending_closings_def setModelMarkers_def active_of_def getModelState_def)

lemma diagnostics_run_ok:
  assumes ok: "engine_ok C e" and i: "attached e i \<or> ms_disposed (en_objects e ! i)"
    and r: "\<And>r. pageResult = Some r \<Longrightarrow> pv_virtualUri r = virtualUriForPage (ms_jspUri (en_objects e ! i))"
  shows "engine_ok C (runDiagnostics throws i seq content pageResult e)"
    and "engine_settled e \<Longrightarrow> \<forall>u \<in> pending_closings e. jsp_of u \<noteq> Some (ms_jspUri (en_objects e ! i)) \<Longrightarrow>
      engine_settled (runDiagnostics throws i seq content pageResult e)"
proof -
  have "engine_ok C (runDiagnostics throws i seq content pageResult e)
    \<and> (engine_settled e \<longrightarrow> (\<forall>u \<in> pending_closings e. jsp_of u \<noteq> Some (ms_jspUri (en_objects e ! i))) \<longrightarrow>
      engine_settled (runDiagnostics throws i seq content pageResult e))"
  proof (cases "ms_sequence (en_objects e ! i) \<noteq> seq \<or> ms_disposed (en_objects e ! i)")
    case True
    with ok show ?thesis by (auto simp: runDiagnostics_def Let_def)
  next
    case go: False
    let ?st = "en_objects e ! i" and ?uri = "ms_jspUri (en_objects e ! i)"
    have at: "jm_get (en_states e) ?uri = Some i" using i go by (simp add: attached_def)
    have n: "manager_named (en_manager e)" by (rule engine_okD [OF ok])
    have act: "active_of e ?uri = set (ms_activeVirtualUris ?st)" by (rule active_at [OF at])
    show ?thesis
    proof (cases pageResult)
      case (Some r)
      let ?p = "virtualUriForPage ?uri"
      have p: "pv_virtualUri r = ?p" by (rule r [OF Some])
      let ?m1 = "sync throws ?uri (?p, pv_virtualJava r) (en_manager e)"
      let ?m = "fold (close_virtual throws) (filter (\<lambda>u. u \<noteq> ?p) (ms_activeVirtualUris ?st)) ?m1"
      let ?st' = "?st\<lparr>ms_pageMode := True, ms_pageResult := Some r, ms_blockDiagnostics := [], ms_activeVirtualUris := [?p]\<rparr>"
      have m1: "manager_named ?m1" "opened ?m1 = insert ?p (opened (en_manager e))"
        by (rule sync_opened [OF n]; simp)+
      have m: "manager_named ?m \<and> opened ?m = opened ?m1 - set (filter (\<lambda>u. u \<noteq> ?p) (ms_activeVirtualUris ?st))"
        by (rule fold_close_named [OF m1(1)])
      have o: "opened ?m = opened (en_manager e) - (active_of e ?uri - set (ms_activeVirtualUris ?st')) \<union> set (ms_activeVirtualUris ?st')"
        using m m1 act by auto
      have e: "runDiagnostics throws i seq content pageResult e = put_object i ?st' (e\<lparr>en_manager := ?m\<rparr>)"
        using go Some p by (simp add: runDiagnostics_def Let_def)
      have nm: "manager_named ?m" using m by blast
      show ?thesis unfolding e
        using engine_ok_replace [OF ok at _ _ nm o] by simp
    next
      case None
      let ?docs = "map (\<lambda>(u, b). (u, buildVirtualJavaFile (js_slice content (nb_start b) (nb_end b))
        (nav_virtual_kind (nb_kind b)))) (block_uris ?uri (findJavaBlocks content))"
      let ?new = "fold add_new (map fst ?docs) []"
      let ?m1 = "fold (sync throws ?uri) ?docs (en_manager e)"
      let ?m = "fold (close_virtual throws) (filter (\<lambda>u. u \<notin> set ?new) (ms_activeVirtualUris ?st)) ?m1"
      let ?st' = "?st\<lparr>ms_pageMode := False, ms_pageResult := None, ms_blockDiagnostics := [], ms_activeVirtualUris := ?new\<rparr>"
      have d: "\<forall>d\<in>set ?docs. jsp_of (fst d) = Some ?uri"
        by (auto simp: block_uris_def split: if_splits)
      have new: "set ?new = fst ` set ?docs" by (simp add: set_add_new image_image)
      have m1: "manager_named ?m1 \<and> opened ?m1 = opened (en_manager e) \<union> fst ` set ?docs"
        by (rule fold_sync_named [OF n d])
      then have m: "manager_named ?m \<and> opened ?m = opened ?m1 - set (filter (\<lambda>u. u \<notin> set ?new) (ms_activeVirtualUris ?st))"
        using fold_close_named by blast
      have j: "ms_jspUri ?st' = ?uri" "ms_activeVirtualUris ?st' = ?new" by simp_all
      have o: "opened ?m = opened (en_manager e) - (active_of e ?uri - set (ms_activeVirtualUris ?st')) \<union> set (ms_activeVirtualUris ?st')"
        unfolding j using m m1 new act by auto
      have e: "runDiagnostics throws i seq content pageResult e = put_object i ?st' (e\<lparr>en_manager := ?m\<rparr>)"
        using go None by (simp only: runDiagnostics_def option.case if_False Let_def)
      have nm: "manager_named ?m" using m by blast
      have nn: "jsp_of u = Some ?uri" if "u \<in> set (ms_activeVirtualUris ?st')" for u using that d new unfolding j by auto
      show ?thesis unfolding e using engine_ok_replace [OF ok at j(1) nn nm o] by blast
    qed
  qed
  then show "engine_ok C (runDiagnostics throws i seq content pageResult e)"
    "engine_settled e \<Longrightarrow> \<forall>u \<in> pending_closings e. jsp_of u \<noteq> Some (ms_jspUri (en_objects e ! i)) \<Longrightarrow>
      engine_settled (runDiagnostics throws i seq content pageResult e)" by blast+
qed

text \<open>One turn of a closing.\<close>

lemma closeAll_next_named:
  assumes "manager_named m" and "closeAll_next throws us m = (m', rest)"
  shows "manager_named m'" and "opened m' = opened m - set (take 1 us)"
    and "set rest \<subseteq> set us" and "set us = set (take 1 us) \<union> set rest"
  using assms close_named by (auto simp: closeAll_next_def split: list.splits)

lemma closing_ok:
  shows "engine_ok C e \<Longrightarrow> engine_ok C (continue_closing throws k e)"
    and "engine_settled e \<Longrightarrow> engine_ok C e \<Longrightarrow> engine_settled (continue_closing throws k e)"
proof -
  have "engine_ok C (continue_closing throws k e) \<and> (engine_settled e \<longrightarrow> engine_settled (continue_closing throws k e))"
    if ok: "engine_ok C e"
  proof (cases "k < length (en_closings e)")
    case False
    then show ?thesis using ok by (simp add: continue_closing_def)
  next
    case True
    obtain m rest where mr: "closeAll_next throws (en_closings e ! k) (en_manager e) = (m, rest)" by fastforce
    let ?e = "e\<lparr>en_manager := m, en_closings := (en_closings e)[k := rest]\<rparr>"
    have e: "continue_closing throws k e = ?e" using True mr by (simp add: continue_closing_def)
    note o = engine_okD [OF ok]
    note c = closeAll_next_named [OF o(1) mr]
    have u: "en_closings e ! k \<in> set (en_closings e)" using True by simp
    have p: "pending_closings ?e \<subseteq> pending_closings e" "pending_closings e \<subseteq> pending_closings ?e \<union> set (take 1 (en_closings e ! k))"
    proof -
      have "set (en_closings ?e) \<subseteq> insert rest (set (en_closings e))" by (simp add: set_update_subset_insert)
      then show "pending_closings ?e \<subseteq> pending_closings e" using c(3) u by (fastforce simp: pending_closings_def)
      show "pending_closings e \<subseteq> pending_closings ?e \<union> set (take 1 (en_closings e ! k))"
      proof
        fix x assume "x \<in> pending_closings e"
        then obtain l where "l \<in> set (en_closings e)" "x \<in> set l" by (auto simp: pending_closings_def)
        then obtain j where j: "j < length (en_closings e)" "x \<in> set (en_closings e ! j)" by (metis in_set_conv_nth)
        show "x \<in> pending_closings ?e \<union> set (take 1 (en_closings e ! k))"
        proof (cases "j = k")
          case True
          then have "x \<in> set (take 1 (en_closings e ! k)) \<or> x \<in> set rest" using j(2) c(4) by blast
          moreover have "rest \<in> set (en_closings ?e)" using \<open>k < length (en_closings e)\<close> by (simp add: set_update_memI)
          ultimately show ?thesis by (auto simp: pending_closings_def)
        next
          case False
          then have "(en_closings ?e) ! j = en_closings e ! j" "j < length (en_closings ?e)" using j(1) by simp_all
          then have "en_closings e ! j \<in> set (en_closings ?e)" by (metis nth_mem)
          then show ?thesis using j(2) by (auto simp: pending_closings_def)
        qed
      qed
    qed
    have a: "active_of ?e v = active_of e v" "getModelState ?e v = getModelState e v" for v
      by (simp_all add: active_of_def getModelState_def)
    have t: "set (take 1 (en_closings e ! k)) \<subseteq> pending_closings e"
      using u set_take_subset [of 1 "en_closings e ! k"] by (fastforce simp: pending_closings_def)
    have "engine_ok C ?e"
    proof (rule engine_okI)
      show "accounted C ?e u" if "u \<in> opened (en_manager ?e)" for u
      proof -
        have u: "u \<in> opened (en_manager e)" "u \<notin> set (take 1 (en_closings e ! k))" using that c(2) by simp_all
        then show ?thesis using o(5) [OF u(1)] p(2) unfolding accounted_def a by blast
      qed
    qed (use ok c(1) o(2-4) a in simp_all)
    moreover have "engine_settled ?e" if s: "engine_settled e"
    proof -
      have "u \<in> opened m \<and> u \<notin> pending_closings ?e" if "u \<in> active_of e v" for u v
        using s that c(2) p(1) t unfolding engine_settled_def by blast
      then show ?thesis using a(1) by (simp add: engine_settled_def)
    qed
    ultimately show ?thesis unfolding e by blast
  qed
  then show "engine_ok C e \<Longrightarrow> engine_ok C (continue_closing throws k e)"
    "engine_settled e \<Longrightarrow> engine_ok C e \<Longrightarrow> engine_settled (continue_closing throws k e)" by blast+
qed

lemma detach_ok:
  assumes ok: "engine_ok C e"
  shows "engine_ok C (detachModel throws uri e)" and "engine_settled e \<Longrightarrow> engine_settled (detachModel throws uri e)"
proof -
  have "engine_ok C (detachModel throws uri e) \<and> (engine_settled e \<longrightarrow> engine_settled (detachModel throws uri e))"
  proof (cases "jm_get (en_states e) uri")
    case None
    with ok show ?thesis by (simp add: detachModel_def)
  next
    case (Some i)
    note o = engine_okD [OF ok]
    define us where "us = jsp_targets uri (en_manager e)"
    have us: "set us = {u \<in> opened (en_manager e). jsp_of u = Some uri}"
      unfolding us_def by (rule jsp_targets_named [OF o(1)])
    obtain m rest where mr: "closeAll_next throws us (en_manager e) = (m, rest)" by fastforce
    note c = closeAll_next_named [OF o(1) mr]
    let ?e = "e\<lparr>en_manager := m, en_closings := en_closings e @ [rest], en_states := jm_delete uri (en_states e)\<rparr>"
    have e: "detachModel throws uri e = setModelMarkers uri [] ?e"
      using Some mr by (simp add: detachModel_def closeAllForJsp_def us_def)
    have a: "active_of ?e v = (if v = uri then {} else active_of e v)" "getModelState ?e v = (if v = uri then None else getModelState e v)" for v
      by (simp_all add: active_of_def getModelState_def)
    have p: "pending_closings ?e = pending_closings e \<union> set rest" by (simp add: pending_closings_def)
    have "engine_ok C ?e"
    proof (rule engine_okI)
      show "k < length (en_objects ?e) \<and> ms_jspUri (en_objects ?e ! k) = v" if "jm_get (en_states ?e) v = Some k" for v k
        using that o(2,3) [of v k] by (simp split: if_splits)
      show "u \<in> active_of ?e v \<Longrightarrow> jsp_of u = Some v" for u v using a(1) o(4) by (simp split: if_splits)
      show "accounted C ?e u" if "u \<in> opened (en_manager ?e)" for u
      proof -
        have u: "u \<in> opened (en_manager e)" "u \<notin> set (take 1 us)" using that c(2) by simp_all
        then obtain v where v: "jsp_of u = Some v"
            "getModelState e v \<noteq> None \<and> (u \<in> active_of e v \<or> u \<in> C) \<or> u \<in> pending_closings e"
          using o(5) unfolding accounted_def by blast
        show ?thesis
        proof (cases "v = uri")
          case True
          then have "u \<in> set us" using us u(1) v(1) by blast
          then have "u \<in> set rest" using c(4) u(2) by blast
          then show ?thesis using v(1) p unfolding accounted_def by blast
        next
          case False
          then have "getModelState ?e v \<noteq> None \<and> (u \<in> active_of ?e v \<or> u \<in> C) \<or> u \<in> pending_closings ?e"
            using v(2) a p by auto
          then show ?thesis using v(1) unfolding accounted_def by blast
        qed
      qed
    qed (use c(1) in simp)
    moreover have "engine_settled ?e" if s: "engine_settled e"
    proof -
      have "u \<in> opened m \<and> u \<notin> pending_closings ?e" if v: "u \<in> active_of ?e v" for u v
      proof -
        have u: "v \<noteq> uri" "u \<in> active_of e v" using v a(1) by (simp_all split: if_splits)
        then have "u \<notin> set us" using o(4) us by fastforce
        then show ?thesis using s u(2) c(2-4) p unfolding engine_settled_def by blast
      qed
      then show ?thesis by (simp add: engine_settled_def)
    qed
    ultimately show ?thesis unfolding e by simp
  qed
  then show "engine_ok C (detachModel throws uri e)" "engine_settled e \<Longrightarrow> engine_settled (detachModel throws uri e)" by blast+
qed

lemma notify_kept:
  shows "engine_ok C e \<Longrightarrow> engine_ok C (handleDiagnosticsNotification openUris uri ds e)"
    and "engine_settled e \<Longrightarrow> engine_settled (handleDiagnosticsNotification openUris uri ds e)"
proof -
  have f: "engine_ok C (fold (\<lambda>(u, l). if P u then setModelMarkers u l else id) xs e') = engine_ok C e'"
    "engine_settled (fold (\<lambda>(u, l). if P u then setModelMarkers u l else id) xs e') = engine_settled e'" for P xs e'
    by (induction xs arbitrary: e') (auto split: if_splits)
  have page: "engine_ok C (page_notification openUris j m ds e) = engine_ok C e"
    "engine_settled (page_notification openUris j m ds e) = engine_settled e" for j m
    using f by (auto simp: page_notification_def Let_def split: option.split)
  have block: "engine_ok C e \<Longrightarrow> engine_ok C (block_notification uri i ds n e)"
    "engine_settled e \<Longrightarrow> engine_settled (block_notification uri i ds n e)" for i n
    by (auto simp: block_notification_def Let_def intro: object_kept)
  show "engine_ok C e \<Longrightarrow> engine_ok C (handleDiagnosticsNotification openUris uri ds e)"
    "engine_settled e \<Longrightarrow> engine_settled (handleDiagnosticsNotification openUris uri ds e)"
    using page block
    by (auto simp: handleDiagnosticsNotification_def Let_def split: option.split bool.split simp del: map_of_eq_Some_iff)
qed

lemma attach_ok:
  assumes ok: "engine_ok C e"
  shows "engine_ok C (attachModel uri tx n e)" and "engine_settled e \<Longrightarrow> engine_settled (attachModel uri tx n e)"
proof -
  have "engine_ok C (attachModel uri tx n e) \<and> (engine_settled e \<longrightarrow> engine_settled (attachModel uri tx n e))"
  proof (cases "jm_get (en_states e) uri")
    case None
    let ?e = "attachModel uri tx n e"
    note d = engine_okD [OF ok]
    have s: "en_states ?e = jm_set uri (length (en_objects e)) (en_states e)" "en_manager ?e = en_manager e"
      "\<exists>st. en_objects ?e = en_objects e @ [st] \<and> ms_jspUri st = uri \<and> ms_activeVirtualUris st = []"
      "pending_closings ?e = pending_closings e"
      using None by (simp_all add: attachModel_def pending_closings_def)
    have at: "k < length (en_objects ?e) \<and> ms_jspUri (en_objects ?e ! k) = v" if "jm_get (en_states ?e) v = Some k" for v k
      using that s d(2,3) [of v k] by (auto simp: nth_append split: if_splits)
    have a: "active_of ?e v = active_of e v" for v
    proof (cases "jm_get (en_states e) v")
      case (Some k)
      with s None d(2) [OF Some] show ?thesis by (auto simp: active_of_def getModelState_def nth_append)
    next
      case n: None
      with s show ?thesis by (auto simp: active_of_def getModelState_def)
    qed
    have g: "getModelState e v \<noteq> None \<Longrightarrow> getModelState ?e v \<noteq> None" for v
      using s by (auto simp: getModelState_def)
    have acc: "accounted C e u \<Longrightarrow> accounted C ?e u" for u using g a s(4) unfolding accounted_def by blast
    have "engine_ok C ?e" using ok at s(2) a acc unfolding engine_ok_def by auto
    then show ?thesis using a s by (simp add: engine_settled_def)
  qed (use ok in \<open>simp add: attachModel_def\<close>)
  then show "engine_ok C (attachModel uri tx n e)" "engine_settled e \<Longrightarrow> engine_settled (attachModel uri tx n e)" by blast+
qed

lemma completion_ok:
  fixes throws :: "wire_call \<Rightarrow> bool"
  assumes ok: "engine_ok C e" and g: "getModelState e uri \<noteq> None"
    and c: "completion_docs (Complete uri content line column fuel resolver) \<subseteq> C"
  defines "m \<equiv> begin_completion throws fuel resolver uri content line column (en_manager e)"
  shows "engine_ok C (e\<lparr>en_manager := m\<rparr>)" and "engine_settled e \<Longrightarrow> engine_settled (e\<lparr>en_manager := m\<rparr>)"
proof -
  note b = begin_completion_ok [OF engine_okD(1) [OF ok], of throws fuel resolver uri content line column, folded m_def]
  have "accounted C e u" if "u \<in> completion_docs (Complete uri content line column fuel resolver)" for u
    using that c g completion_document_names unfolding accounted_def by (fastforce split: option.splits prod.splits)
  then show "engine_ok C (e\<lparr>en_manager := m\<rparr>)" using b by (intro engine_ok_manager [OF ok]) auto
  show "engine_settled e \<Longrightarrow> engine_settled (e\<lparr>en_manager := m\<rparr>)" using b(2) by (intro settled_manager) auto
qed

lemma manager_kept:
  assumes "engine_ok C e" and "manager_named m" and "opened m = opened (en_manager e)"
  shows "engine_ok C (e\<lparr>en_manager := m\<rparr>)" and "engine_settled e \<Longrightarrow> engine_settled (e\<lparr>en_manager := m\<rparr>)"
  using assms by (auto intro: engine_ok_manager settled_manager)

lemma engine_step_ok:
  assumes ok: "engine_ok C e" and ev: "engine_event_ok e ev" and c: "completion_docs ev \<subseteq> C"
  shows "engine_ok C (engine_step throws ev e)"
    and "engine_settled e \<Longrightarrow> run_settled e ev \<Longrightarrow> engine_settled (engine_step throws ev e)"
proof -
  note n = engine_okD(1) [OF ok]
  have "engine_ok C (engine_step throws ev e)
    \<and> (engine_settled e \<longrightarrow> run_settled e ev \<longrightarrow> engine_settled (engine_step throws ev e))"
  proof (cases ev)
    case (Run i seq content threw fuel resolver)
    then have i: "attached e i \<or> ms_disposed (en_objects e ! i)" using ev by simp
    have a: "engine_ok C (runDiagnostics throws i seq content None e)" by (rule diagnostics_run_ok(1) [OF ok i]) simp
    have b: "engine_settled (runDiagnostics throws i seq content None e)" if "engine_settled e" "run_settled e ev"
      by (rule diagnostics_run_ok(2) [OF ok i _ that(1)]) (use that(2) Run in simp_all)
    have a': "engine_ok C (runDiagnostics throws i seq content (Some r) e)"
      if "buildPageVirtualJava fuel resolver (ms_jspUri (en_objects e ! i)) content = Some r" for r
      by (rule diagnostics_run_ok(1) [OF ok i]) (use build_uri [OF that] in simp)
    have b': "engine_settled (runDiagnostics throws i seq content (Some r) e)"
      if "buildPageVirtualJava fuel resolver (ms_jspUri (en_objects e ! i)) content = Some r" "engine_settled e" "run_settled e ev" for r
      by (rule diagnostics_run_ok(2) [OF ok i _ that(2)]) (use that(3) build_uri [OF that(1)] Run in simp_all)
    show ?thesis using Run ok a b a' b' by (simp split: option.split)
  next
    case (Complete uri content line column fuel resolver)
    then show ?thesis using completion_ok [OF ok] ev c by simp
  next
    case (LeaseResume i)
    then show ?thesis using manager_kept [OF ok lease_named(1,2) [OF n]] by simp
  next
    case (LeaseDispose u)
    then show ?thesis using manager_kept [OF ok lease_named(3,4) [OF n]] by simp
  next
    case (SetClient cl)
    then show ?thesis using manager_kept [OF ok client_named(1) [OF n] client_named(2)] by simp
  next
    case (ContinueClosing k)
    then show ?thesis using closing_ok ok by simp
  next
    case (Attach uri tx n)
    then show ?thesis using attach_ok [OF ok] by simp
  next
    case (Detach uri)
    then show ?thesis using detach_ok [OF ok] by simp
  next
    case (Notify openUris uri ds)
    then show ?thesis using notify_kept ok by simp
  qed (use ok in \<open>auto simp: edit_object_def intro: object_kept\<close>)
  then show "engine_ok C (engine_step throws ev e)"
    "engine_settled e \<Longrightarrow> run_settled e ev \<Longrightarrow> engine_settled (engine_step throws ev e)" by blast+
qed

lemma new_engine_ok: "engine_ok C (new_engine client)" "engine_settled (new_engine client)"
proof -
  show "engine_ok C (new_engine client)"
    by (simp add: engine_ok_def new_engine_def manager_named_def active_of_def getModelState_def opened_def
        open_docs_def doc_get_def) (simp add: new_doc_manager_def)
  show "engine_settled (new_engine client)"
    by (simp add: engine_settled_def new_engine_def active_of_def getModelState_def)
qed

lemma engine_run_ok:
  "engine_ok C e \<Longrightarrow> engine_events_ok throws evs e \<Longrightarrow> (\<Union>ev \<in> set evs. completion_docs ev) \<subseteq> C \<Longrightarrow>
     engine_ok C (fold (engine_step throws) evs e)
     \<and> (engine_settled e \<longrightarrow> runs_settled throws evs e \<longrightarrow> engine_settled (fold (engine_step throws) evs e))"
proof (induction evs arbitrary: e)
  case (Cons ev evs)
  have ev: "engine_event_ok e ev" "completion_docs ev \<subseteq> C" "engine_events_ok throws evs (engine_step throws ev e)"
    "(\<Union>ev \<in> set evs. completion_docs ev) \<subseteq> C"
    using Cons.prems by auto
  note st = engine_step_ok [OF Cons.prems(1) ev(1,2), of throws]
  from Cons.IH [OF st(1) ev(3,4)] st(2) show ?case by simp
qed simp

text \<open>An open document of the manager, for the code and for the specification.\<close>

lemma isDocumentOpen_opened: "manager_ok m \<Longrightarrow> isDocumentOpen u m \<longleftrightarrow> u \<in> opened m"
proof (cases "jm_get (dm_docs m) u")
  case (Some i)
  assume "manager_ok m"
  with Some manager_okD(3) [OF _ Some] show ?thesis
    by (simp add: isDocumentOpen_def doc_get_def opened_def open_docs_at)
qed (simp add: isDocumentOpen_def doc_get_def opened_def open_docs_None)

end
