(* ===== verification/JspServletLines.thy ===== *)
theory JspServletLines
  imports JspPageModel
begin

text \<open>
  \<open>jsp-extension/src/browser/jsp-debug-breakpoint.ts\<close>: lines of a page and of the servlet that Tomcat generates
  from it, read from the line comments or the SMAP of the generated file; the mapper with its cache; the lines of
  a page that get a code lens; and the way back from a servlet file to its page. The file service is the
  argument \<open>read\<close>: the text of a file, or the message of what it throws, and one call ends before
  the next. Messages to the user and the log are left out. Numbers are those of the decimal digits, as for files of fewer than \<open>2 ^ 53\<close> lines.
\<close>

section \<open>Paths\<close>

definition fsPathBasename :: "string \<Rightarrow> string" where
  "fsPathBasename fsPath =
    (let normalized = map (\<lambda>c. if c = BSL then CHR ''/'' else c) fsPath
     in case last_index_of normalized ''/'' of Some idx \<Rightarrow> drop (idx + 1) normalized | None \<Rightarrow> normalized)"

definition joinFsPath :: "string \<Rightarrow> string \<Rightarrow> string" where
  "joinFsPath dir fileName =
    (let trimmed = rev (dropWhile (\<lambda>c. c = CHR ''/'' \<or> c = BSL) (rev dir));
         sep = (if BSL \<in> set trimmed \<and> CHR ''/'' \<notin> set trimmed then BSL else CHR ''/'')
     in trimmed @ [sep] @ fileName)"

section \<open>Line mappings\<close>

record line_mapping =
  lm_jspLine :: nat
  lm_javaLine :: nat
  lm_javaFile :: string

text \<open>\<open>text.split(/\r?\n/)\<close>\<close>

definition drop_cr :: "string \<Rightarrow> string" where
  "drop_cr l = (if l \<noteq> [] \<and> last l = CR then butlast l else l)"

definition split_lines :: "string \<Rightarrow> string list" where
  "split_lines s = (let ls = split_nl s in map drop_cr (butlast ls) @ [last ls])"

definition digit :: regex where
  "digit = OneOf ''0123456789''"

definition jspLineComment :: regex where
  "jspLineComment = re_seq
    [re_lit ''//'', Star Space, Opt (re_seq [re_lit ''HTML'', Star Space, re_lit ''//'', Star Space]),
     Opt (re_seq [re_lit ''from'', Plus Space]), re_lit ''line'', Plus Space, Opt (Chr (CHR ''#'')),
     Capture 1 (Plus digit)]"

definition line_marker :: "string \<Rightarrow> nat option" where
  "line_marker l = map_option (\<lambda>m. digits_value (capture 1 m)) (exec True jspLineComment l 0)"

definition marker_mappings :: "string list \<Rightarrow> string \<Rightarrow> line_mapping list" where
  "marker_mappings ls javaFilePath =
    List.map_filter (\<lambda>(i, l).
      case line_marker l of
        Some n \<Rightarrow> if 0 < n then Some \<lparr> lm_jspLine = n, lm_javaLine = i + 1, lm_javaFile = javaFilePath \<rparr> else None
      | None \<Rightarrow> None) (enumerate 0 ls)"

text \<open>
  \<open>/\*L\r?\n([\s\S]*?)(?:\*E|\*S\b|$)/\<close>: from the first header on, up to the first end.
\<close>

definition section_end :: "string \<Rightarrow> nat \<Rightarrow> bool" where
  "section_end s k \<longleftrightarrow>
    starts_with_at s ''*E'' k \<or> starts_with_at s ''*S'' k \<and> \<not> word_at s (k + 2) \<or> k = length s"

definition line_section :: "string \<Rightarrow> string option" where
  "line_section s =
    (case exec False (re_seq [re_lit ''*L'', Opt (Chr CR), Chr NL]) s 0 of
       None \<Rightarrow> None
     | Some (_, e, _) \<Rightarrow>
         (case find (section_end s) [e..<Suc (length s)] of
            None \<Rightarrow> None
          | Some k \<Rightarrow> Some (js_slice s e k)))"

definition entryRe :: regex where
  "entryRe = re_seq
    [AtStart, Capture 1 (Plus digit), Opt (Then (Chr (CHR ''#'')) (Plus digit)),
     Opt (Then (Chr (CHR '','')) (Capture 2 (Plus digit))), Chr (CHR '':''), Capture 3 (Plus digit),
     Opt (Then (Chr (CHR '','')) (Capture 4 (Plus digit))), AtEnd]"

definition digits_or_one :: "string \<Rightarrow> nat" where
  "digits_or_one s = (if s = [] then 1 else digits_value s)"

definition smap_entry :: "string \<Rightarrow> string \<Rightarrow> line_mapping list" where
  "smap_entry javaFilePath raw =
    (case exec False entryRe (trim raw) 0 of
       None \<Rightarrow> []
     | Some m \<Rightarrow>
         let inputStart = digits_value (capture 1 m);
             inputCount = digits_or_one (capture 2 m);
             outputStart = digits_value (capture 3 m);
             outputInc = digits_or_one (capture 4 m)
         in if inputStart = 0 \<or> outputStart = 0 then []
            else map (\<lambda>i. \<lparr> lm_jspLine = inputStart + i, lm_javaLine = outputStart + i * outputInc,
                            lm_javaFile = javaFilePath \<rparr>) [0..<inputCount])"

definition parseSmapLineMappings :: "string \<Rightarrow> string \<Rightarrow> line_mapping list" where
  "parseSmapLineMappings tx javaFilePath =
    (if last_index_of tx (NL # ''*S '') = None \<and> \<not> starts_with_at tx ''Smap'' 0
        \<and> last_index_of tx ''*S Jasper'' = None then []
     else
       (case line_section tx of
          None \<Rightarrow> []
        | Some body \<Rightarrow> concat (map (smap_entry javaFilePath) (split_lines body))))"

definition parseServletLineMappings :: "string \<Rightarrow> string \<Rightarrow> line_mapping list" where
  "parseServletLineMappings tx javaFilePath =
    (let ms = marker_mappings (split_lines tx) javaFilePath
     in if ms = [] then parseSmapLineMappings tx javaFilePath else ms)"

definition better_mapping :: "int \<Rightarrow> line_mapping \<Rightarrow> line_mapping option \<Rightarrow> line_mapping option" where
  "better_mapping javaLine m best =
    (if int (lm_javaLine m) \<le> javaLine
        \<and> (case best of None \<Rightarrow> True | Some b \<Rightarrow> lm_javaLine b < lm_javaLine m)
     then Some m else best)"

definition mapJavaLineToJspLine :: "string \<Rightarrow> int \<Rightarrow> int" where
  "mapJavaLineToJspLine tx javaLine =
    (let ls = split_lines tx;
         start = min (max javaLine 1) (int (length ls)) - 1
     in case find (\<lambda>l. line_marker l \<noteq> None) (rev (take (nat start + 1) ls)) of
          Some l \<Rightarrow> int (the (line_marker l))
        | None \<Rightarrow>
            (case fold (better_mapping javaLine) (parseSmapLineMappings tx []) None of
               Some b \<Rightarrow> int (lm_jspLine b)
             | None \<Rightarrow> javaLine))"

section \<open>The mapper\<close>

record file_mapping =
  fm_jspFile :: string
  fm_javaFile :: string
  fm_mappings :: "line_mapping list"
  fm_servletSourceAvailable :: bool
  fm_error :: "string option"

record debug_config =
  dc_enabled :: bool
  dc_servletSourceDir :: "string option"

text \<open>\<open>bm_stored\<close> is the storage service; \<open>bm_codeLens\<close> is the flag of the module.\<close>

record breakpoint_mapper =
  bm_config :: debug_config
  bm_mappingCache :: "(string, file_mapping) jsmap"
  bm_stored :: "debug_config option"
  bm_codeLens :: bool

definition new_breakpoint_mapper :: "debug_config option \<Rightarrow> breakpoint_mapper" where
  "new_breakpoint_mapper stored =
    \<lparr> bm_config = \<lparr> dc_enabled = False, dc_servletSourceDir = None \<rparr>, bm_mappingCache = [],
      bm_stored = stored, bm_codeLens = False \<rparr>"

text \<open>\<open>fails\<close>: the storage throws.\<close>

definition loadConfig :: "bool \<Rightarrow> breakpoint_mapper \<Rightarrow> breakpoint_mapper" where
  "loadConfig fails s =
    (if fails then s\<lparr>bm_config := \<lparr> dc_enabled = False, dc_servletSourceDir = None \<rparr>, bm_codeLens := False\<rparr>
     else (case bm_stored s of
             None \<Rightarrow> s
           | Some data \<Rightarrow> s\<lparr>bm_config := data, bm_codeLens := dc_enabled data\<rparr>))"

definition setEnabled :: "bool \<Rightarrow> breakpoint_mapper \<Rightarrow> breakpoint_mapper" where
  "setEnabled enabled s =
    (let config = (bm_config s)\<lparr>dc_enabled := enabled\<rparr>
     in s\<lparr>bm_config := config, bm_codeLens := enabled, bm_stored := Some config\<rparr>)"

definition setServletSourceDir :: "string \<Rightarrow> breakpoint_mapper \<Rightarrow> breakpoint_mapper" where
  "setServletSourceDir dir s =
    (let config = (bm_config s)\<lparr>dc_servletSourceDir := Some dir\<rparr>
     in s\<lparr>bm_config := config, bm_stored := Some config\<rparr>)"

text \<open>\<open>noMapping\<close> is the translated message.\<close>

definition parse_file :: "string \<Rightarrow> string \<Rightarrow> string \<Rightarrow> string + string \<Rightarrow> file_mapping" where
  "parse_file noMapping jspFilePath javaFilePath content =
    (case content of
       Inl err \<Rightarrow> \<lparr> fm_jspFile = jspFilePath, fm_javaFile = javaFilePath, fm_mappings = [],
                   fm_servletSourceAvailable = False, fm_error = Some err \<rparr>
     | Inr tx \<Rightarrow>
         let ms = parseServletLineMappings tx javaFilePath
         in \<lparr> fm_jspFile = jspFilePath, fm_javaFile = javaFilePath, fm_mappings = ms,
              fm_servletSourceAvailable = True, fm_error = (if ms = [] then Some noMapping else None) \<rparr>)"

definition parseMapping ::
  "string \<Rightarrow> (string \<Rightarrow> string + string) \<Rightarrow> string \<Rightarrow> string \<Rightarrow> breakpoint_mapper \<Rightarrow> file_mapping \<times> breakpoint_mapper"
where
  "parseMapping noMapping read jspFilePath javaFilePath s =
    (let cacheKey = jspFilePath @ ''::'' @ javaFilePath
     in case jm_get (bm_mappingCache s) cacheKey of
          Some cached \<Rightarrow> (cached, s)
        | None \<Rightarrow>
            let mapping = parse_file noMapping jspFilePath javaFilePath (read javaFilePath)
            in (mapping, s\<lparr>bm_mappingCache := jm_set cacheKey mapping (bm_mappingCache s)\<rparr>))"

definition deriveJavaFilePath :: "string \<Rightarrow> breakpoint_mapper \<Rightarrow> string option" where
  "deriveJavaFilePath jspFilePath s =
    (let fileName = fsPathBasename jspFilePath in
     if fileName = [] \<or> \<not> ends_with (map lower fileName) ''.jsp'' then None
     else
       let baseName = take (length fileName - 4) fileName;
           javaClassName = map (\<lambda>c. if is_word_char c then c else CHR ''_'') baseName @ ''_jsp.java''
       in case dc_servletSourceDir (bm_config s) of
            None \<Rightarrow> None
          | Some dir \<Rightarrow> if dir = [] then None else Some (joinFsPath dir javaClassName))"

definition best_for_line :: "nat \<Rightarrow> line_mapping list \<Rightarrow> line_mapping option" where
  "best_for_line jspLine ms =
    (case find (\<lambda>m. jspLine \<le> lm_jspLine m) ms of
       Some m \<Rightarrow> Some m
     | None \<Rightarrow> if ms \<noteq> [] then Some (last ms) else None)"

definition mapJspLineToJava ::
  "string \<Rightarrow> (string \<Rightarrow> string + string) \<Rightarrow> string \<Rightarrow> nat \<Rightarrow> breakpoint_mapper
   \<Rightarrow> (string \<times> nat) option \<times> breakpoint_mapper"
where
  "mapJspLineToJava noMapping read jspFilePath jspLine s =
    (if \<not> dc_enabled (bm_config s) then (None, s)
     else
       (case deriveJavaFilePath jspFilePath s of
          None \<Rightarrow> (None, s)
        | Some javaFilePath \<Rightarrow>
            let (mapping, s1) = parseMapping noMapping read jspFilePath javaFilePath s
            in if \<not> fm_servletSourceAvailable mapping then (None, s1)
               else (map_option (\<lambda>m. (lm_javaFile m, lm_javaLine m)) (best_for_line jspLine (fm_mappings mapping)), s1)))"

definition clearCache :: "string option \<Rightarrow> breakpoint_mapper \<Rightarrow> breakpoint_mapper" where
  "clearCache jspFilePath s =
    (case jspFilePath of
       Some p \<Rightarrow>
         if p \<noteq> [] then s\<lparr>bm_mappingCache := filter (\<lambda>(k, _). \<not> starts_with_at k p 0) (bm_mappingCache s)\<rparr>
         else s\<lparr>bm_mappingCache := []\<rparr>
     | None \<Rightarrow> s\<lparr>bm_mappingCache := []\<rparr>)"

section \<open>Code lenses\<close>

text \<open>The numbers of the lines that get a lens, in the order of the set of the code.\<close>

definition block_lines :: "string \<Rightarrow> nav_block \<Rightarrow> nat list" where
  "block_lines content b =
    [length (split_nl (take (nb_start b) content))..<Suc (length (split_nl (take (nb_end b) content)))]"

definition lens_line :: "string list \<Rightarrow> nat \<Rightarrow> bool" where
  "lens_line ls n \<longleftrightarrow> 1 \<le> n \<and> n \<le> length ls
    \<and> (let t = trim (ls ! (n - 1)) in t \<noteq> [] \<and> t \<noteq> ''%>'' \<and> \<not> starts_with_at t ''%>'' 0)"

definition provideCodeLenses :: "bool \<Rightarrow> bool \<Rightarrow> string \<Rightarrow> nat list" where
  "provideCodeLenses cancelled jspDebugCodeLensEnabled content =
    (if cancelled \<or> \<not> jspDebugCodeLensEnabled then []
     else filter (lens_line (split_nl content))
       (fold add_new (concat (map (block_lines content) (findJavaBlocks content))) []))"

section \<open>From a servlet file to its page\<close>

definition is_servlet_file :: "string \<Rightarrow> bool" where
  "is_servlet_file p \<longleftrightarrow> ends_with (map lower p) ''_jsp.java''"

definition jspBaseName :: "string \<Rightarrow> string" where
  "jspBaseName javaFileName =
    map (\<lambda>c. if c = CHR ''_'' then CHR ''.'' else c)
      (if is_servlet_file javaFileName then take (length javaFileName - 9) javaFileName else javaFileName)"

definition findJspFileForServlet :: "string \<Rightarrow> string \<Rightarrow> string" where
  "findJspFileForServlet javaPath baseName =
    (let parts = filter (\<lambda>p. p \<noteq> []) (split_on (CHR ''/'') javaPath) in
     case find (\<lambda>i. parts ! i = ''WEB-INF'') (rev [0..<length parts]) of
       Some i \<Rightarrow>
         CHR ''/'' # (case take i parts of [] \<Rightarrow> [] | p # ps \<Rightarrow> p @ concat (map (\<lambda>q. CHR ''/'' # q) ps))
           @ ''/'' @ baseName @ ''.jsp''
     | None \<Rightarrow>
         (case last_index_of javaPath ''/'' of Some slash \<Rightarrow> take slash javaPath | None \<Rightarrow> javaPath)
           @ ''/'' @ baseName @ ''.jsp'')"

text \<open>The page and the line from 0 that are opened; nothing for a file that is no servlet.\<close>

definition openCodeEditor :: "(string \<Rightarrow> string + string) \<Rightarrow> string \<Rightarrow> int option \<Rightarrow> (string \<times> int) option" where
  "openCodeEditor read path lineNumber =
    (if \<not> is_servlet_file path then None
     else
       let jspFilePath = findJspFileForServlet path (jspBaseName (fsPathBasename path)) in
       if jspFilePath = [] then None
       else
         let jspLine = (case lineNumber of Some n \<Rightarrow> n | None \<Rightarrow> 1);
             jspLine' = (case read path of Inr tx \<Rightarrow> mapJavaLineToJspLine tx jspLine | Inl _ \<Rightarrow> jspLine)
         in Some (jspFilePath, max 0 (jspLine' - 1)))"

section \<open>Facts\<close>

lemma find_after: "\<forall>l\<in>set xs. \<not> P l \<Longrightarrow> P x \<Longrightarrow> find P (xs @ x # ys) = Some x"
  by (induction xs) simp_all

lemma derive_config: "bm_config s' = bm_config s \<Longrightarrow> deriveJavaFilePath jsp s' = deriveJavaFilePath jsp s"
  by (simp only: deriveJavaFilePath_def)

text \<open>A line of the servlet belongs to the nearest marker at or above it.\<close>

lemma java_line_marker:
  assumes ij: "i \<le> j" and j: "j < length (split_lines tx)" and i: "line_marker (split_lines tx ! i) = Some n"
    and none: "\<And>k. i < k \<Longrightarrow> k \<le> j \<Longrightarrow> line_marker (split_lines tx ! k) = None"
  shows "mapJavaLineToJspLine tx (int j + 1) = int n"
proof -
  let ?ls = "split_lines tx"
  have s: "min (max (int j + 1) 1) (int (length ?ls)) - 1 = int j" using j by simp
  have a: "take (Suc j) ?ls = take i ?ls @ ?ls ! i # drop (Suc i) (take (Suc j) ?ls)"
  proof -
    have "i < length (take (Suc j) ?ls)" using ij j by simp
    from id_take_nth_drop [OF this] show ?thesis using ij by (simp only: take_take nth_take less_Suc_eq_le min.absorb1 le_SucI)
  qed
  have "line_marker l = None" if "l \<in> set (drop (Suc i) (take (Suc j) ?ls))" for l
  proof -
    from that obtain k where "k < length (drop (Suc i) (take (Suc j) ?ls))" "l = drop (Suc i) (take (Suc j) ?ls) ! k"
      by (metis in_set_conv_nth)
    with none [of "Suc i + k"] j show ?thesis by simp
  qed
  with i have f: "find (\<lambda>l. line_marker l \<noteq> None)
      (rev (take i ?ls @ ?ls ! i # drop (Suc i) (take (Suc j) ?ls))) = Some (?ls ! i)"
    by (simp add: find_after)
  have "find (\<lambda>l. line_marker l \<noteq> None) (rev (take (Suc j) ?ls)) = Some (?ls ! i)"
    by (subst a) (rule f)
  with i s show ?thesis by (simp add: mapJavaLineToJspLine_def Let_def)
qed

text \<open>So the two directions agree on the lines of the markers.\<close>

lemma marker_roundtrip:
  assumes "m \<in> set (marker_mappings (split_lines tx) f)"
  shows "mapJavaLineToJspLine tx (int (lm_javaLine m)) = int (lm_jspLine m) \<and> lm_javaFile m = f
    \<and> 0 < lm_jspLine m \<and> lm_javaLine m \<le> length (split_lines tx)"
proof -
  from assms obtain i n where "i < length (split_lines tx)" "line_marker (split_lines tx ! i) = Some n" "0 < n"
      "m = \<lparr> lm_jspLine = n, lm_javaLine = i + 1, lm_javaFile = f \<rparr>"
    by (auto simp: marker_mappings_def List.map_filter_def in_set_enumerate_eq split: option.splits if_splits)
  with java_line_marker [of i i tx n] show ?thesis by (simp add: add.commute)
qed

text \<open>Without markers it is the last entry at or above the line.\<close>

lemma better_mapping_max:
  assumes "fold (better_mapping n) ms None = Some b"
  shows "b \<in> set ms \<and> int (lm_javaLine b) \<le> n
    \<and> (\<forall>m\<in>set ms. int (lm_javaLine m) \<le> n \<longrightarrow> lm_javaLine m \<le> lm_javaLine b)"
proof -
  define good where "good xs q \<longleftrightarrow> (case q of
      None \<Rightarrow> \<forall>m\<in>set xs. n < int (lm_javaLine m)
    | Some b \<Rightarrow> b \<in> set xs \<and> int (lm_javaLine b) \<le> n
        \<and> (\<forall>m\<in>set xs. int (lm_javaLine m) \<le> n \<longrightarrow> lm_javaLine m \<le> lm_javaLine b))"
    for xs :: "line_mapping list" and q :: "line_mapping option"
  have "good (xs @ [m]) (better_mapping n m q)" if "good xs q" for xs m q
    using that unfolding good_def better_mapping_def by (cases q) force+
  then have "good ms (fold (better_mapping n) ms None)"
    by (induction ms rule: rev_induct) (simp_all, simp add: good_def)
  then show ?thesis by (simp add: assms good_def)
qed

text \<open>A breakpoint is put on a mapped line, behind the wanted one where there is such a line.\<close>

lemma best_for_line_cases:
  assumes "best_for_line n ms = Some m"
  shows "m \<in> set ms \<and> (n \<le> lm_jspLine m \<or> (\<forall>m'\<in>set ms. lm_jspLine m' < n))"
proof (cases "find (\<lambda>m. n \<le> lm_jspLine m) ms")
  case None
  with assms have "m \<in> set ms" by (auto simp: best_for_line_def split: if_splits)
  with None show ?thesis by (auto simp: find_None_iff not_le)
next
  case (Some m')
  with assms have "m' = m" by (simp add: best_for_line_def)
  with Some show ?thesis by (auto simp: find_Some_iff)
qed

text \<open>What is cached stays: a file that is generated, or changed, later is not read again.\<close>

lemma parseMapping_cached:
  assumes "parseMapping noMapping read jsp java s = (mapping, s')"
  shows "parseMapping noMapping read' jsp java s' = (mapping, s')"
  using assms by (auto simp: parseMapping_def Let_def split: option.splits)

lemma missing_servlet_stays_missing:
  assumes "dc_enabled (bm_config s)" and "deriveJavaFilePath jsp s = Some java" and "read java = Inl err"
    and "jm_get (bm_mappingCache s) (jsp @ ''::'' @ java) = None"
    and "s' = snd (mapJspLineToJava noMapping read jsp n s)"
  shows "fst (mapJspLineToJava noMapping read' jsp n' s') = None"
proof -
  obtain mapping s1 where p: "parseMapping noMapping read jsp java s = (mapping, s1)" by (cases "parseMapping noMapping read jsp java s")
  have m: "\<not> fm_servletSourceAvailable mapping" "bm_config s1 = bm_config s"
    using p assms(3,4) by (auto simp: parseMapping_def parse_file_def Let_def)
  then have s': "s' = s1" using assms p by (simp add: mapJspLineToJava_def)
  have "deriveJavaFilePath jsp s1 = Some java" using derive_config [OF m(2)] assms(2) by simp
  then show ?thesis
    using parseMapping_cached [OF p, of read'] m assms(1) s' by (simp add: mapJspLineToJava_def)
qed

lemma clearCache_keys:
  assumes "p \<noteq> []" and "jm_get (bm_mappingCache (clearCache (Some p) s)) k = Some x"
  shows "\<not> starts_with_at k p 0"
proof -
  have "(k, x) \<in> set (filter (\<lambda>(k, _). \<not> starts_with_at k p 0) (bm_mappingCache s))"
    using map_of_SomeD [OF assms(2)] assms(1) by (simp add: clearCache_def)
  then show ?thesis by simp
qed

text \<open>Every line with a lens is one of a block and is not blank.\<close>

lemma lens_lines:
  assumes "n \<in> set (provideCodeLenses c en content)"
  shows "\<not> c \<and> en \<and> 1 \<le> n \<and> n \<le> length (split_nl content) \<and> trim (split_nl content ! (n - 1)) \<noteq> []
    \<and> (\<exists>b\<in>set (findJavaBlocks content). n \<in> set (block_lines content b))"
proof -
  have "set (fold add_new xs ys) = set xs \<union> set ys" for xs ys :: "nat list"
    by (induction xs arbitrary: ys) (auto simp: add_new_def)
  with assms show ?thesis by (auto simp: provideCodeLenses_def lens_line_def Let_def split: if_splits)
qed

text \<open>
  The name of a page comes back from the name of its servlet when it has letters, digits and dots only; an
  underscore comes back as a dot.
\<close>

lemma servlet_name_roundtrip:
  assumes "\<forall>c\<in>set b. is_letter c \<or> is_digit c \<or> c = CHR ''.''"
  shows "jspBaseName (map (\<lambda>c. if is_word_char c then c else CHR ''_'') b @ ''_jsp.java'') = b"
proof -
  have d: "\<not> is_word_char (CHR ''.'')" "\<not> is_letter (CHR ''_'')" "\<not> is_digit (CHR ''_'')"
    by (simp_all add: is_word_char_def is_letter_def is_digit_def)
  have "is_servlet_file (x @ ''_jsp.java'')" for x
    by (simp add: is_servlet_file_def ends_with_def lower_def)
  then have "jspBaseName (x @ ''_jsp.java'') = map (\<lambda>c. if c = CHR ''_'' then CHR ''.'' else c) x" for x
    by (simp add: jspBaseName_def)
  with assms d show ?thesis by (auto simp: is_word_char_def intro!: map_idI)
qed

lemma servlet_of_underscore:
  "deriveJavaFilePath ''/w/my_page.jsp'' (setServletSourceDir ''/w'' (new_breakpoint_mapper None)) = Some ''/w/my_page_jsp.java''"
  "openCodeEditor (\<lambda>_. Inl []) ''/w/my_page_jsp.java'' None = Some (''/w/my.page.jsp'', 0)"
  by code_simp+

end
