(* ===== verification/PropertiesEscape.thy ===== *)
theory PropertiesEscape
  imports Prelude
begin

text \<open>
  \<open>encoding-extension/src/browser/properties-escape.ts\<close>: the escapes of \<open>.properties\<close> files.
  A text is its list of UTF-16 code units; \<open>code_points\<close> is the iteration of \<open>for ... of\<close>,
  which reads a surrogate pair as one character. The loop of \<open>unescapeProperties\<close> is a
  recursion on the text from the index on: \<open>unescape_at\<close> says what the loop appends there
  and by how much the index grows.
\<close>

unbundle bit_operations_syntax

type_synonym code_unit = "16 word"

definition unit_of :: "char \<Rightarrow> code_unit" where
  "unit_of c = word_of_nat (of_char c)"

abbreviation BS :: code_unit where "BS \<equiv> 0x5C"
abbreviation LU :: code_unit where "LU \<equiv> 0x75"

section \<open>Escaping\<close>

definition HEX :: "code_unit list" where
  "HEX = map unit_of ''0123456789ABCDEF''"

definition hex4 :: "nat \<Rightarrow> code_unit list" where
  "hex4 code =
    [HEX ! (drop_bit 12 code AND 15), HEX ! (drop_bit 8 code AND 15),
     HEX ! (drop_bit 4 code AND 15), HEX ! (code AND 15)]"

definition isPropertiesPath :: "string \<Rightarrow> bool" where
  "isPropertiesPath pathOrUri =
    (let normalized = map lower (takeWhile (\<lambda>c. c \<noteq> CHR ''#'') (takeWhile (\<lambda>c. c \<noteq> CHR ''?'') pathOrUri))
     in drop (length normalized - length ''.properties'') normalized = ''.properties'')"

definition is_lead :: "code_unit \<Rightarrow> bool" where
  "is_lead u \<longleftrightarrow> 0xD800 \<le> u \<and> u \<le> 0xDBFF"

definition is_trail :: "code_unit \<Rightarrow> bool" where
  "is_trail u \<longleftrightarrow> 0xDC00 \<le> u \<and> u \<le> 0xDFFF"

fun code_points :: "code_unit list \<Rightarrow> nat list" where
  "code_points (u # v # us) =
     (if is_lead u \<and> is_trail v
      then ((unat u - 0xD800) * 0x400 + (unat v - 0xDC00) + 0x10000) # code_points us
      else unat u # code_points (v # us))"
| "code_points [u] = [unat u]"
| "code_points [] = []"

definition escape_char :: "nat \<Rightarrow> code_unit list" where
  "escape_char cp =
    (if cp < 0x80 then [word_of_nat cp]
     else if cp > 0xFFFF then
       let r = cp - 0x10000;
           hi = 0xD800 + drop_bit 10 r;
           lo = 0xDC00 + (r AND 0x3FF)
       in [BS, LU] @ hex4 hi @ [BS, LU] @ hex4 lo
     else [BS, LU] @ hex4 cp)"

definition escapeProperties :: "code_unit list \<Rightarrow> code_unit list" where
  "escapeProperties s = concat (map escape_char (code_points s))"

section \<open>Unescaping\<close>

definition hex_value :: "code_unit \<Rightarrow> nat option" where
  "hex_value u =
    (if 0x30 \<le> u \<and> u \<le> 0x39 then Some (unat u - 0x30)
     else if 0x41 \<le> u \<and> u \<le> 0x46 then Some (unat u - 0x41 + 10)
     else if 0x61 \<le> u \<and> u \<le> 0x66 then Some (unat u - 0x61 + 10)
     else None)"

text \<open>\<open>/^[0-9A-Fa-f]{4}$/.test(hex)\<close> and then \<open>parseInt(hex, 16)\<close>.\<close>

definition parse_hex4 :: "code_unit list \<Rightarrow> nat option" where
  "parse_hex4 hex =
    (if length hex = 4 \<and> list_all (\<lambda>u. hex_value u \<noteq> None) hex
     then Some (foldl (\<lambda>n u. n * 16 + the (hex_value u)) 0 hex) else None)"

text \<open>\<open>String.fromCodePoint\<close> of a supplementary code point.\<close>

definition fromCodePoint :: "nat \<Rightarrow> code_unit list" where
  "fromCodePoint n =
    [word_of_nat (0xD800 + drop_bit 10 (n - 0x10000)), word_of_nat (0xDC00 + ((n - 0x10000) AND 0x3FF))]"

text \<open>The low half of a pair, read from the text after the escape of the high half.\<close>

definition low_surrogate :: "code_unit list \<Rightarrow> nat option" where
  "low_surrogate t =
    (if 11 < length t \<and> t ! 6 = BS \<and> t ! 7 = LU
     then (case parse_hex4 (take 4 (drop 8 t)) of
             Some lo \<Rightarrow> if 0xDC00 \<le> lo \<and> lo \<le> 0xDFFF then Some lo else None
           | None \<Rightarrow> None)
     else None)"

definition unescape_u :: "code_unit list \<Rightarrow> code_unit list \<times> nat" where
  "unescape_u t =
    (case (if 5 < length t then parse_hex4 (take 4 (drop 2 t)) else None) of
       None \<Rightarrow> ([BS, LU], 2)
     | Some cp \<Rightarrow>
         (case (if 0xD800 \<le> cp \<and> cp \<le> 0xDBFF then low_surrogate t else None) of
            Some lo \<Rightarrow> (fromCodePoint (push_bit 10 (cp - 0xD800) + (lo - 0xDC00) + 0x10000), 12)
          | None \<Rightarrow> ([word_of_nat cp], 6)))"

definition unescape_at :: "code_unit list \<Rightarrow> code_unit list \<times> nat" where
  "unescape_at t =
    (if hd t = BS \<and> 1 < length t then
       let u = t ! 1 in
       if u = LU then unescape_u t
       else if u = unit_of (CHR ''n'') then ([unit_of NL], 2)
       else if u = unit_of (CHR ''r'') then ([unit_of CR], 2)
       else if u = unit_of (CHR ''t'') then ([unit_of (CHR 0x09)], 2)
       else if u = BS then ([BS], 2)
       else if u = unit_of (CHR '':'') then ([unit_of (CHR '':'')], 2)
       else if u = unit_of (CHR ''='') then ([unit_of (CHR ''='')], 2)
       else if u = unit_of (CHR ''#'') then ([unit_of (CHR ''#'')], 2)
       else if u = unit_of (CHR ''!'') then ([unit_of (CHR ''!'')], 2)
       else ([hd t], 1)
     else ([hd t], 1))"

lemma unescape_at_progress: "0 < snd (unescape_at t)"
  by (simp add: unescape_at_def unescape_u_def Let_def split: option.split)

function unescapeProperties :: "code_unit list \<Rightarrow> code_unit list" where
  "unescapeProperties t =
     (if t = [] then []
      else fst (unescape_at t) @ unescapeProperties (drop (snd (unescape_at t)) t))"
  by pat_completeness auto
termination
  by (relation "measure length") (auto simp: unescape_at_progress)

declare unescapeProperties.simps [simp del]

lemma unescape_Nil [simp]: "unescapeProperties [] = []"
  by (simp add: unescapeProperties.simps)

section \<open>Hexadecimal digits\<close>

lemma HEX_value: "d < 16 \<Longrightarrow> hex_value (HEX ! d) = Some d"
proof -
  have "list_all (\<lambda>d. hex_value (HEX ! d) = Some d) [0..<16]" by code_simp
  then show "d < 16 \<Longrightarrow> ?thesis" by (simp add: list_all_iff)
qed

lemma HEX_ascii: "d < 16 \<Longrightarrow> HEX ! d < 0x80"
proof -
  have "list_all (\<lambda>d. HEX ! d < 0x80) [0..<16]" by code_simp
  then show "d < 16 \<Longrightarrow> ?thesis" by (simp add: list_all_iff)
qed

lemma and_mask: "n AND 15 = n mod 16" "n AND 0x3FF = n mod 0x400" for n :: nat
  using and_nat_numerals take_bit_eq_mask [of 4 n] take_bit_eq_mask [of 10 n]
  by (simp_all add: take_bit_eq_mod mask_eq_exp_minus_1)

lemma length_hex4 [simp]: "length (hex4 n) = 4"
  by (simp add: hex4_def)

lemma hex_digits_sum:
  "4096 * (n div 4096) + 256 * (n div 256 mod 16) + n div 16 mod 16 * 16 + n mod 16 = n" for n :: nat
proof -
  define a b where "a = n div 16" and "b = n div 16 div 16"
  have e: "n div 256 = b" "n div 4096 = b div 16"
    unfolding b_def using div_mult2_eq [of n 16 16] div_mult2_eq [of n 256 16]
    by (simp_all only: mult_numeral_1 arith_simps)
  have "16 * (b div 16) + b mod 16 = b" "16 * b + a mod 16 = a" "16 * a + n mod 16 = n"
    unfolding a_def b_def by (rule mult_div_mod_eq)+
  then show ?thesis unfolding e a_def [symmetric] by linarith
qed

lemma parse_hex4_hex4: "n < 0x10000 \<Longrightarrow> parse_hex4 (hex4 n) = Some n"
  using hex_digits_sum [of n] by (simp add: parse_hex4_def hex4_def HEX_value and_mask drop_bit_eq_div)

lemma hex4_ascii: "u \<in> set (hex4 n) \<Longrightarrow> u < 0x80"
  by (auto simp: hex4_def HEX_ascii and_mask)

section \<open>The round trip\<close>

lemma take_hex4: "take 4 (hex4 n @ r) = hex4 n" "drop 4 (hex4 n @ r) = r"
  by simp_all

lemma unescape_plain:
  "c \<noteq> BS \<Longrightarrow> unescapeProperties (c # r) = c # unescapeProperties r"
  by (simp add: unescapeProperties.simps [of "c # r"] unescape_at_def)

lemma low_surrogate_escape:
  "low_surrogate ([BS, LU] @ hex4 hi @ r) =
    (if 5 < length r \<and> r ! 0 = BS \<and> r ! 1 = LU
     then (case parse_hex4 (take 4 (drop 2 r)) of
             Some lo \<Rightarrow> if 0xDC00 \<le> lo \<and> lo \<le> 0xDFFF then Some lo else None
           | None \<Rightarrow> None)
     else None)"
proof -
  have n: "([BS, LU] @ hex4 hi @ r) ! 6 = r ! 0" "([BS, LU] @ hex4 hi @ r) ! 7 = r ! 1"
    "drop 8 ([BS, LU] @ hex4 hi @ r) = drop 2 r"
    by (simp_all add: nth_append)
  show ?thesis unfolding low_surrogate_def n by simp
qed

lemma unescape_bmp:
  assumes "cp < 0x10000" and "0xD800 \<le> cp \<and> cp \<le> 0xDBFF \<Longrightarrow> low_surrogate ([BS, LU] @ hex4 cp @ r) = None"
  shows "unescapeProperties ([BS, LU] @ hex4 cp @ r) = word_of_nat cp # unescapeProperties r"
proof -
  have "unescape_at ([BS, LU] @ hex4 cp @ r) = ([word_of_nat cp], 6)"
    using assms by (simp add: unescape_at_def unescape_u_def parse_hex4_hex4)
  then show ?thesis by (subst unescapeProperties.simps) simp
qed

lemma unescape_supplementary:
  assumes "0x10000 \<le> cp" and "cp < 0x110000"
  shows "unescapeProperties (escape_char cp @ r) = fromCodePoint cp @ unescapeProperties r"
proof -
  define hi where "hi = 0xD800 + drop_bit 10 (cp - 0x10000)"
  define lo where "lo = 0xDC00 + (cp - 0x10000) mod 0x400"
  let ?t = "[BS, LU] @ hex4 hi @ [BS, LU] @ hex4 lo @ r"
  have hi: "0xD800 \<le> hi" "hi \<le> 0xDBFF" using assms by (auto simp: hi_def drop_bit_eq_div)
  have "(cp - 0x10000) mod 0x400 < 0x400" by simp
  then have lo: "0xDC00 \<le> lo" "lo \<le> 0xDFFF" unfolding lo_def by linarith+
  have e: "escape_char cp @ r = ?t"
    using assms by (simp add: escape_char_def hi_def lo_def Let_def and_mask)
  have "low_surrogate ?t = Some lo"
    unfolding low_surrogate_escape using lo by (simp add: parse_hex4_hex4)
  moreover have "push_bit 10 (hi - 0xD800) + (lo - 0xDC00) + 0x10000 = cp"
    using assms div_mult_mod_eq [of "cp - 0x10000" "0x400"]
    by (simp add: hi_def lo_def push_bit_eq_mult drop_bit_eq_div)
  ultimately have "unescape_at ?t = (fromCodePoint cp, 12)"
    using hi by (simp add: unescape_at_def unescape_u_def parse_hex4_hex4)
  then show ?thesis unfolding e by (subst unescapeProperties.simps) simp
qed

lemma unit_bounds:
  "is_lead u \<longleftrightarrow> 0xD800 \<le> unat u \<and> unat u \<le> 0xDBFF" "is_trail u \<longleftrightarrow> 0xDC00 \<le> unat u \<and> unat u \<le> 0xDFFF"
  "unat u < 0x10000" for u :: code_unit
  using unsigned_less [of u] by (simp_all add: is_lead_def is_trail_def word_le_nat_alt)

lemma fromCodePoint_pair:
  assumes "is_lead u" and "is_trail v"
  shows "fromCodePoint ((unat u - 0xD800) * 0x400 + (unat v - 0xDC00) + 0x10000) = [u, v]"
proof -
  have b: "unat v - 0xDC00 < 0x400" "0xD800 \<le> unat u" "0xDC00 \<le> unat v"
    using assms by (auto simp: unit_bounds)
  define h l where "h = unat u - 0xD800" and "l = unat v - 0xDC00"
  have "u = word_of_nat (0xD800 + h)" "v = word_of_nat (0xDC00 + l)" "l < 0x400"
    using b by (simp_all add: h_def l_def)
  then show ?thesis unfolding h_def [symmetric] l_def [symmetric]
    by (simp add: fromCodePoint_def and_mask drop_bit_eq_div)
qed

lemma escape_Nil [simp]: "escapeProperties [] = []"
  by (simp add: escapeProperties_def)

lemma escape_Cons:
  "escapeProperties (u # us) =
    (case us of
       v # vs \<Rightarrow>
         if is_lead u \<and> is_trail v
         then escape_char ((unat u - 0xD800) * 0x400 + (unat v - 0xDC00) + 0x10000) @ escapeProperties vs
         else escape_char (unat u) @ escapeProperties us
     | [] \<Rightarrow> escape_char (unat u) @ escapeProperties us)"
  by (auto simp: escapeProperties_def split: list.split)

text \<open>An escaped text that does not start with a trailing surrogate does not escape to one.\<close>

lemma no_low_surrogate:
  assumes "BS \<notin> set us" and "us \<noteq> [] \<Longrightarrow> \<not> is_trail (hd us)"
  shows "low_surrogate ([BS, LU] @ hex4 cp @ escapeProperties us) = None"
proof (cases us)
  case Nil
  then show ?thesis using low_surrogate_escape [of cp "[]"] by simp
next
  case (Cons v vs)
  obtain c r where e: "escapeProperties us = escape_char c @ r"
    and c: "c = unat v \<or> 0x10000 \<le> c \<and> c < 0x110000"
  proof (cases "vs \<noteq> [] \<and> is_lead v \<and> is_trail (hd vs)")
    case True
    then obtain w ws where vs: "vs = w # ws" by (cases vs) auto
    let ?c = "(unat v - 0xD800) * 0x400 + (unat w - 0xDC00) + 0x10000"
    have "escapeProperties us = escape_char ?c @ escapeProperties ws"
      using True Cons vs by (simp add: escape_Cons)
    moreover have "?c < 0x110000" using True vs by (auto simp: unit_bounds)
    ultimately show ?thesis using that [of ?c] by simp
  next
    case False
    then have "escapeProperties us = escape_char (unat v) @ escapeProperties vs"
      unfolding Cons by (subst escape_Cons) (auto split: list.split)
    then show ?thesis using that by blast
  qed
  consider "c < 0x80" | "0x80 \<le> c" "c < 0x10000" | "0x10000 \<le> c" "c < 0x110000"
    using c unit_bounds(3) [of v] by linarith
  then show ?thesis
  proof cases
    case 1
    then have "word_of_nat c = v" and "v \<noteq> BS" using c assms(1) Cons by auto
    with 1 show ?thesis unfolding low_surrogate_escape e by (simp add: escape_char_def)
  next
    case 2
    then have "\<not> (0xDC00 \<le> c \<and> c \<le> 0xDFFF)" using c assms(2) Cons by (auto simp: unit_bounds)
    with 2 show ?thesis unfolding low_surrogate_escape e by (simp add: escape_char_def parse_hex4_hex4)
  next
    case 3
    then have "0xD800 + drop_bit 10 (c - 0x10000) < 0xDC00" by (simp add: drop_bit_eq_div)
    with 3 show ?thesis
      unfolding low_surrogate_escape e by (simp add: escape_char_def Let_def parse_hex4_hex4)
  qed
qed

lemma unescape_escape_unit:
  assumes "BS \<notin> set (u # us)" and "us \<noteq> [] \<Longrightarrow> is_lead u \<Longrightarrow> \<not> is_trail (hd us)"
  shows "unescapeProperties (escape_char (unat u) @ escapeProperties us) = u # unescapeProperties (escapeProperties us)"
proof (cases "unat u < 0x80")
  case True
  with assms(1) show ?thesis by (simp add: escape_char_def unescape_plain)
next
  case False
  have b: "unat u < 0x10000" by (rule unit_bounds)
  with False have e: "escape_char (unat u) @ escapeProperties us = [BS, LU] @ hex4 (unat u) @ escapeProperties us"
    by (simp add: escape_char_def)
  have "low_surrogate ([BS, LU] @ hex4 (unat u) @ escapeProperties us) = None"
    if "0xD800 \<le> unat u \<and> unat u \<le> 0xDBFF"
    using no_low_surrogate [of us] assms that by (simp add: unit_bounds)
  with unescape_bmp [OF b] show ?thesis unfolding e by simp
qed

lemma unescape_escape: "BS \<notin> set us \<Longrightarrow> unescapeProperties (escapeProperties us) = us"
proof (induction us rule: code_points.induct)
  case (1 u v us)
  show ?case
  proof (cases "is_lead u \<and> is_trail v")
    case True
    then have "(unat u - 0xD800) * 0x400 + (unat v - 0xDC00) + 0x10000 < 0x110000" by (auto simp: unit_bounds)
    with True 1 show ?thesis by (simp add: escape_Cons unescape_supplementary fromCodePoint_pair)
  next
    case False
    then have "escapeProperties (u # v # us) = escape_char (unat u) @ escapeProperties (v # us)"
      by (subst escape_Cons) auto
    with False 1 unescape_escape_unit [of u "v # us"] show ?thesis by simp
  qed
next
  case (2 u)
  with unescape_escape_unit [of u "[]"] show ?case by (simp add: escape_Cons)
qed simp

section \<open>The escaped form\<close>

lemma escape_char_ascii: "u \<in> set (escape_char c) \<Longrightarrow> u < 0x80"
proof (cases "c < 0x80")
  case True
  assume "u \<in> set (escape_char c)"
  with True have "u = word_of_nat c" by (simp add: escape_char_def)
  with True show ?thesis by (simp add: word_less_nat_alt unat_of_nat)
next
  case False
  assume "u \<in> set (escape_char c)"
  with False show ?thesis by (auto simp: escape_char_def Let_def dest: hex4_ascii split: if_splits)
qed

lemma escape_ascii: "u \<in> set (escapeProperties us) \<Longrightarrow> u < 0x80"
  by (auto simp: escapeProperties_def dest: escape_char_ascii)

lemma escape_id: "(\<And>u. u \<in> set us \<Longrightarrow> u < 0x80) \<Longrightarrow> escapeProperties us = us"
proof (induction us)
  case (Cons u us)
  have "unat u < 0x80" using Cons.prems by (simp add: word_less_nat_alt)
  then have "\<not> is_lead u" "escape_char (unat u) = [u]" by (simp_all add: unit_bounds escape_char_def)
  then have "escapeProperties (u # us) = u # escapeProperties us" by (cases us) (simp_all add: escape_Cons)
  with Cons show ?case by simp
qed simp

text \<open>Unescaping never grows a text.\<close>

lemma unescape_at_length: "t \<noteq> [] \<Longrightarrow> length (fst (unescape_at t)) \<le> min (snd (unescape_at t)) (length t)"
proof -
  assume t: "t \<noteq> []"
  have "low_surrogate t = None" if "length t \<le> 11" using that by (simp add: low_surrogate_def)
  then have "1 < length t \<Longrightarrow> length (fst (unescape_u t)) \<le> min (snd (unescape_u t)) (length t)"
    by (auto simp: unescape_u_def fromCodePoint_def split: option.split)
  with t show ?thesis by (cases t) (auto simp: unescape_at_def Let_def)
qed

lemma unescape_length: "length (unescapeProperties t) \<le> length t"
proof (induction t rule: unescapeProperties.induct)
  case (1 t)
  show ?case
  proof (cases "t = []")
    case False
    let ?n = "snd (unescape_at t)"
    have "length (unescapeProperties t) \<le> min ?n (length t) + (length t - ?n)"
      using False 1 unescape_at_length [OF False]
      by (subst unescapeProperties.simps) (simp add: add_mono)
    then show ?thesis by linarith
  qed simp
qed

end
