(* ===== verification/SearchReplace.thy ===== *)
theory SearchReplace
  imports PropertiesEscape Results "HOL-Library.AList"
begin

text \<open>
  \<open>search-extension/src/browser/search-replace-service.ts\<close> and \<open>search-path.ts\<close>: replace in files. A plan holds the
  edits of each file; applying it validates every file before the first write, and a write that fails is
  compensated by writing back what was written, in reverse; the last transaction can be undone the same way. A text is
  the list of its UTF-16 units; columns count code points. The file service is not part of the source: \<open>read\<close> and
  \<open>write\<close> are arguments that act on a world, and \<open>file_service\<close> says what the code relies on. An operation ends
  before the next begins.
\<close>

type_synonym js_text = "code_unit list"

abbreviation NLU :: code_unit where "NLU \<equiv> 10"

section \<open>Positions\<close>

definition line_starts :: "js_text \<Rightarrow> nat list" where
  "line_starts content = 0 # map Suc (filter (\<lambda>i. content ! i = NLU) [0..<length content])"

text \<open>The units of the first \<open>n\<close> elements of \<open>[...line]\<close>.\<close>

fun take_points :: "nat \<Rightarrow> js_text \<Rightarrow> js_text" where
  "take_points 0 us = []"
| "take_points (Suc n) (u # v # us) =
     (if is_lead u \<and> is_trail v then u # v # take_points n us else u # take_points n (v # us))"
| "take_points (Suc n) us = us"

definition edit_offset :: "js_text \<Rightarrow> int \<Rightarrow> int \<Rightarrow> nat option" where
  "edit_offset content line column =
    (let starts = line_starts content in
     if line < 1 \<or> int (length starts) < line then None
     else
       let lineStart = starts ! nat (line - 1);
           l = takeWhile (\<lambda>u. u \<noteq> NLU) (drop lineStart content)
       in Some (lineStart + length (take_points (nat (max 0 (column - 1))) l)))"

definition holds_at :: "js_text \<Rightarrow> nat \<Rightarrow> js_text \<Rightarrow> bool" where
  "holds_at content offset s \<longleftrightarrow> take (length s) (drop offset content) = s"

section \<open>Edits\<close>

record search_match =
  sm_file :: string
  sm_line :: int
  sm_column :: int
  sm_matchText :: js_text

record replace_edit =
  ed_line :: int
  ed_column :: int
  ed_before :: js_text
  ed_after :: js_text
  ed_selected :: bool

datatype replace_error =
    StaleLine int
  | ContentDrift int int
  | Overlapping
  | TooLarge string
  | BinaryFile string
  | UnsafePath string
  | EscapesWorkspace string
  | ChangedAfterPreview
  | PreflightCancelled
  | FailedUnchanged string
  | FailedUnknown string
  | FailedUnconfirmed string
  | Drifted
  | StoppedAfterFailure
  | NoTransaction
  | ChangedAfterReplace
  | UndoPreflightFailed
  | ServiceError string

text \<open>The \<open>id\<close> of an edit is made of the file, the position and the index of the match; nothing in this file reads it.\<close>

definition locate_match :: "js_text \<Rightarrow> js_text \<Rightarrow> search_match \<Rightarrow> replace_error + replace_edit \<times> nat" where
  "locate_match content replacement m =
    (case edit_offset content (sm_line m) (sm_column m) of
       None \<Rightarrow> Inl (StaleLine (sm_line m))
     | Some offset \<Rightarrow>
         if \<not> holds_at content offset (sm_matchText m) then Inl (ContentDrift (sm_line m) (sm_column m))
         else Inr (\<lparr> ed_line = sm_line m, ed_column = sm_column m, ed_before = sm_matchText m,
                     ed_after = replacement, ed_selected = True \<rparr>, offset))"

definition before_end :: "replace_edit \<times> nat \<Rightarrow> nat" where
  "before_end p = snd p + length (ed_before (fst p))"

definition locateEdits :: "js_text \<Rightarrow> search_match list \<Rightarrow> js_text \<Rightarrow> replace_error + replace_edit list" where
  "locateEdits content matches replacement =
    (case map_res (locate_match content replacement) matches of
       Inl e \<Rightarrow> Inl e
     | Inr located \<Rightarrow>
         let edits = sort_key (\<lambda>p. - int (snd p)) located
         in if list_ex (\<lambda>(p, q). snd p < before_end q) (zip edits (tl edits)) then Inl Overlapping
            else Inr (map fst edits))"

definition position_edit :: "js_text \<Rightarrow> replace_edit \<Rightarrow> replace_error + replace_edit \<times> nat" where
  "position_edit content e =
    (case edit_offset content (ed_line e) (ed_column e) of
       None \<Rightarrow> Inl (StaleLine (ed_line e))
     | Some offset \<Rightarrow>
         if \<not> holds_at content offset (ed_before e) then Inl (ContentDrift (ed_line e) (ed_column e))
         else Inr (e, offset))"

fun assemble :: "js_text \<Rightarrow> nat \<Rightarrow> (replace_edit \<times> nat) list \<Rightarrow> replace_error + js_text" where
  "assemble content pos [] = Inr (drop pos content)"
| "assemble content pos (p # ps) =
    (if snd p < pos then Inl Overlapping
     else (case assemble content (before_end p) ps of
             Inl e \<Rightarrow> Inl e
           | Inr out \<Rightarrow> Inr (take (snd p - pos) (drop pos content) @ ed_after (fst p) @ out)))"

definition applyReplaceEdits :: "js_text \<Rightarrow> replace_edit list \<Rightarrow> replace_error + js_text" where
  "applyReplaceEdits content edits =
    (if edits = [] then Inr content
     else (case map_res (position_edit content) edits of
             Inl e \<Rightarrow> Inl e
           | Inr positioned \<Rightarrow> assemble content 0 (sort_key snd positioned)))"

text \<open>The FNV hash over the units, on 32-bit integers.\<close>

definition fnv :: "js_text \<Rightarrow> 32 word" where
  "fnv value = fold (\<lambda>u hash. (hash XOR ucast u) * 16777619) value 2166136261"

text \<open>The fingerprint is the length in decimal and the hash in hexadecimal: this pair.\<close>

definition fingerprint :: "js_text \<Rightarrow> nat \<times> 32 word" where
  "fingerprint value = (length value, fnv value)"

fun utf8_length :: "js_text \<Rightarrow> nat" where
  "utf8_length (u # v # us) =
    (if is_lead u \<and> is_trail v then 4 + utf8_length us
     else (if u < 0x80 then 1 else if u < 0x800 then 2 else 3) + utf8_length (v # us))"
| "utf8_length [u] = (if u < 0x80 then 1 else if u < 0x800 then 2 else 3)"
| "utf8_length [] = 0"

definition SEARCH_REPLACE_MAX_FILE_BYTES :: int where
  "SEARCH_REPLACE_MAX_FILE_BYTES = 5 * 1024 * 1024"

section \<open>Paths\<close>

text \<open>
  \<open>join\<close> resolves a relative path against the normalized root, \<open>inside\<close> is \<open>root.isEqualOrParent\<close>, \<open>decode\<close> is
  \<open>decodeURIComponent\<close> or the identity where that throws: the library of URIs.
\<close>

definition is_scheme :: "string \<Rightarrow> bool" where
  "is_scheme s \<longleftrightarrow>
    (case dropWhile (\<lambda>c. is_letter c \<or> is_digit c \<or> c \<in> set ''+.-'') s of
       c # _ \<Rightarrow> c = CHR '':'' \<and> is_letter (hd s)
     | [] \<Rightarrow> False)"

fun split_at_char :: "char \<Rightarrow> string \<Rightarrow> string list" where
  "split_at_char d [] = [[]]"
| "split_at_char d (c # cs) =
     (if c = d then [] # split_at_char d cs
      else (case split_at_char d cs of [] \<Rightarrow> [[c]] | l # ls \<Rightarrow> (c # l) # ls))"

definition resolveWorkspaceMatchUri ::
  "(string \<Rightarrow> 'u) \<Rightarrow> ('u \<Rightarrow> bool) \<Rightarrow> (string \<Rightarrow> string) \<Rightarrow> string \<Rightarrow> replace_error + 'u"
where
  "resolveWorkspaceMatchUri join inside decode file =
    (let candidate = rev (dropWhile is_js_space (rev (dropWhile is_js_space file))) in
     if candidate = [] \<or> is_scheme candidate \<or> hd candidate = BSL \<or> hd candidate = CHR ''/'' then Inl (UnsafePath file)
     else
       let normalized = map (\<lambda>c. if c = BSL then CHR ''/'' else c) candidate in
       if list_ex (\<lambda>s. s = ''..'' \<or> decode s = ''..'') (split_at_char (CHR ''/'') normalized) then Inl (EscapesWorkspace file)
       else
         let resolved = join normalized in
         if \<not> inside resolved then Inl (EscapesWorkspace file) else Inr resolved)"

section \<open>The file service\<close>

record file_stat =
  fs_value :: js_text
  fs_encoding :: string
  fs_mtime :: int
  fs_etag :: string

record write_options =
  wo_encoding :: string
  wo_mtime :: int
  wo_etag :: string

type_synonym ('u, 'w) reader = "'u \<Rightarrow> 'w \<Rightarrow> (string + file_stat) \<times> 'w"
type_synonym ('u, 'w) writer = "'u \<Rightarrow> js_text \<Rightarrow> write_options \<Rightarrow> 'w \<Rightarrow> (string + int \<times> string) \<times> 'w"

text \<open>
  A read changes no content and returns the content of the file; a write changes no other file, and when it
  returns the file has the text. A write that throws may have changed the file or not.
\<close>

definition file_service :: "('w \<Rightarrow> 'u \<Rightarrow> js_text option) \<Rightarrow> ('u, 'w) reader \<Rightarrow> ('u, 'w) writer \<Rightarrow> bool" where
  "file_service content read write \<longleftrightarrow>
    (\<forall>u w. content (snd (read u w)) = content w)
  \<and> (\<forall>u w s. fst (read u w) = Inr s \<longrightarrow> content w u = Some (fs_value s))
  \<and> (\<forall>u v opts w x. x \<noteq> u \<longrightarrow> content (snd (write u v opts w)) x = content w x)
  \<and> (\<forall>u v opts w st. fst (write u v opts w) = Inr st \<longrightarrow> content (snd (write u v opts w)) u = Some v)"


section \<open>The plan\<close>

record replace_file_plan =
  fp_file :: string
  fp_fingerprint :: "nat \<times> 32 word"
  fp_encoding :: string
  fp_mtime :: int
  fp_etag :: string
  fp_original :: js_text
  fp_preview :: js_text
  fp_edits :: "replace_edit list"

record replace_plan =
  rp_replacement :: js_text
  rp_files :: "replace_file_plan list"

record cached_read =
  cr_stat :: file_stat
  cr_at :: int

definition READ_CACHE_TTL_MS :: int where "READ_CACHE_TTL_MS = 5000"

definition READ_CACHE_MAX_ENTRIES :: nat where "READ_CACHE_MAX_ENTRIES = 64"

text \<open>A \<open>Map\<close> keeps the order of insertion and \<open>set\<close> of a present key its place: \<open>AList.update\<close>.\<close>

definition group_matches :: "search_match list \<Rightarrow> (string \<times> search_match list) list" where
  "group_matches matches =
    fold (\<lambda>m grouped. AList.update (sm_file m) ((case map_of grouped (sm_file m) of Some ms \<Rightarrow> ms | None \<Rightarrow> []) @ [m]) grouped)
      matches []"

definition expire_reads :: "int \<Rightarrow> ('u \<times> cached_read) list \<Rightarrow> ('u \<times> cached_read) list" where
  "expire_reads now cache = filter (\<lambda>(k, e). \<not> (now - cr_at e > READ_CACHE_TTL_MS)) cache"

definition remember_read :: "'u \<Rightarrow> cached_read \<Rightarrow> ('u \<times> cached_read) list \<Rightarrow> ('u \<times> cached_read) list" where
  "remember_read u e cache =
    AList.update u e (if READ_CACHE_MAX_ENTRIES \<le> length cache then tl cache else cache)"

definition cached_text ::
  "('u, 'w) reader \<Rightarrow> int \<Rightarrow> 'u \<Rightarrow> ('u \<times> cached_read) list \<Rightarrow> 'w \<Rightarrow> (replace_error + file_stat) \<times> ('u \<times> cached_read) list \<times> 'w"
where
  "cached_text read now u cache w =
    (case (case map_of cache u of Some e \<Rightarrow> if now - cr_at e > READ_CACHE_TTL_MS then None else Some e | None \<Rightarrow> None) of
       Some e \<Rightarrow> (Inr (cr_stat e), cache, w)
     | None \<Rightarrow>
         (case read u w of
            (Inl err, w1) \<Rightarrow> (Inl (ServiceError err), cache, w1)
          | (Inr fresh, w1) \<Rightarrow> (Inr fresh, remember_read u \<lparr> cr_stat = fresh, cr_at = now \<rparr> cache, w1)))"

definition plan_text :: "string \<Rightarrow> search_match list \<Rightarrow> js_text \<Rightarrow> file_stat \<Rightarrow> replace_error + replace_file_plan" where
  "plan_text file matches replacement s =
    (if SEARCH_REPLACE_MAX_FILE_BYTES < int (utf8_length (fs_value s)) then Inl (TooLarge file)
     else if 0 \<in> set (fs_value s) then Inl (BinaryFile file)
     else (case locateEdits (fs_value s) matches replacement of
             Inl e \<Rightarrow> Inl e
           | Inr edits \<Rightarrow>
               (case applyReplaceEdits (fs_value s) edits of
                  Inl e \<Rightarrow> Inl e
                | Inr preview \<Rightarrow>
                    Inr \<lparr> fp_file = file, fp_fingerprint = fingerprint (fs_value s), fp_encoding = fs_encoding s,
                          fp_mtime = fs_mtime s, fp_etag = fs_etag s, fp_original = fs_value s,
                          fp_preview = preview, fp_edits = edits \<rparr>)))"

fun plan_files ::
  "(string \<Rightarrow> replace_error + 'u) \<Rightarrow> ('u, 'w) reader \<Rightarrow> int \<Rightarrow> js_text \<Rightarrow> (string \<times> search_match list) list \<Rightarrow>
   ('u \<times> cached_read) list \<Rightarrow> 'w \<Rightarrow> (replace_error + replace_file_plan list) \<times> ('u \<times> cached_read) list \<times> 'w"
where
  "plan_files resolve read now replacement [] cache w = (Inr [], cache, w)"
| "plan_files resolve read now replacement ((file, ms) # gs) cache w =
    (case resolve file of
       Inl e \<Rightarrow> (Inl e, cache, w)
     | Inr u \<Rightarrow>
         (case cached_text read now u cache w of
            (Inl e, cache1, w1) \<Rightarrow> (Inl e, cache1, w1)
          | (Inr s, cache1, w1) \<Rightarrow>
              (case plan_text file ms replacement s of
                 Inl e \<Rightarrow> (Inl e, cache1, w1)
               | Inr p \<Rightarrow>
                   (case plan_files resolve read now replacement gs cache1 w1 of
                      (Inl e, cache2, w2) \<Rightarrow> (Inl e, cache2, w2)
                    | (Inr ps, cache2, w2) \<Rightarrow> (Inr (p # ps), cache2, w2)))))"

text \<open>\<open>resolve\<close> is \<open>resolveWorkspaceMatchUri\<close> at the root of the open workspace, \<open>now\<close> the clock.\<close>

definition createPlan ::
  "(string \<Rightarrow> replace_error + 'u) \<Rightarrow> ('u, 'w) reader \<Rightarrow> int \<Rightarrow> search_match list \<Rightarrow> js_text \<Rightarrow>
   ('u \<times> cached_read) list \<Rightarrow> 'w \<Rightarrow> (replace_error + replace_plan) \<times> ('u \<times> cached_read) list \<times> 'w"
where
  "createPlan resolve read now matches replacement cache w =
    (case plan_files resolve read now replacement (group_matches matches) (expire_reads now cache) w of
       (Inl e, cache1, w1) \<Rightarrow> (Inl e, cache1, w1)
     | (Inr ps, cache1, w1) \<Rightarrow> (Inr \<lparr> rp_replacement = replacement, rp_files = ps \<rparr>, cache1, w1))"

section \<open>Applying a plan\<close>

datatype replace_status =
    Applied | Failed | Skipped | RolledBack | RollbackFailed | RollbackUnknown | Undone | UndoRolledBack | UndoRollbackFailed

record apply_result =
  ar_file :: string
  ar_status :: replace_status
  ar_edits :: nat
  ar_error :: "replace_error option"

record 'u prepared_file =
  pf_plan :: replace_file_plan
  pf_selected :: "replace_edit list"
  pf_uri :: 'u
  pf_original :: js_text
  pf_applied :: js_text
  pf_encoding :: string
  pf_mtime :: int
  pf_etag :: string

text \<open>A target with the stamp of the write that reached it: \<open>postMtime\<close> and \<open>postEtag\<close>, or \<open>undoMtime\<close> and \<open>undoEtag\<close>.\<close>

record 'u applied_file =
  af_target :: "'u prepared_file"
  af_mtime :: int
  af_etag :: string

abbreviation file_result :: "'u prepared_file \<Rightarrow> replace_status \<Rightarrow> nat \<Rightarrow> replace_error option \<Rightarrow> apply_result" where
  "file_result t st n e \<equiv> \<lparr> ar_file = fp_file (pf_plan t), ar_status = st, ar_edits = n, ar_error = e \<rparr>"

definition selected_edits :: "replace_file_plan \<Rightarrow> replace_edit list" where
  "selected_edits p = filter ed_selected (fp_edits p)"

definition prepare_file ::
  "(string \<Rightarrow> replace_error + 'u) \<Rightarrow> ('u, 'w) reader \<Rightarrow> replace_file_plan \<Rightarrow> 'w \<Rightarrow> (replace_error + 'u prepared_file) \<times> 'w"
where
  "prepare_file resolve read p w =
    (case resolve (fp_file p) of
       Inl e \<Rightarrow> (Inl e, w)
     | Inr u \<Rightarrow>
         (case read u w of
            (Inl err, w1) \<Rightarrow> (Inl (ServiceError err), w1)
          | (Inr cur, w1) \<Rightarrow>
              if fingerprint (fs_value cur) \<noteq> fp_fingerprint p \<or> fs_value cur \<noteq> fp_original p
              then (Inl ChangedAfterPreview, w1)
              else (case applyReplaceEdits (fs_value cur) (selected_edits p) of
                      Inl e \<Rightarrow> (Inl e, w1)
                    | Inr new \<Rightarrow>
                        (Inr \<lparr> pf_plan = p, pf_selected = selected_edits p, pf_uri = u, pf_original = fs_value cur,
                               pf_applied = new, pf_encoding = fp_encoding p, pf_mtime = fs_mtime cur,
                               pf_etag = fs_etag cur \<rparr>, w1))))"

text \<open>The first phase: the error is that of the plan it names.\<close>

fun prepare_files ::
  "(string \<Rightarrow> replace_error + 'u) \<Rightarrow> ('u, 'w) reader \<Rightarrow> replace_file_plan list \<Rightarrow> 'w \<Rightarrow>
   (string \<times> replace_error + 'u prepared_file list) \<times> 'w"
where
  "prepare_files resolve read [] w = (Inr [], w)"
| "prepare_files resolve read (p # ps) w =
    (if selected_edits p = [] then prepare_files resolve read ps w
     else (case prepare_file resolve read p w of
             (Inl e, w1) \<Rightarrow> (Inl (fp_file p, e), w1)
           | (Inr t, w1) \<Rightarrow>
               (case prepare_files resolve read ps w1 of
                  (Inl e, w2) \<Rightarrow> (Inl e, w2)
                | (Inr ts, w2) \<Rightarrow> (Inr (t # ts), w2))))"

text \<open>Reads the target of a write that threw: the stamp when it holds what was written, otherwise the result to report.\<close>

definition inspect_target ::
  "('u, 'w) reader \<Rightarrow> 'u prepared_file \<Rightarrow> js_text \<Rightarrow> js_text \<Rightarrow> string \<Rightarrow> 'w \<Rightarrow> (apply_result + 'u applied_file) \<times> 'w"
where
  "inspect_target read t reached prior err w =
    (case read (pf_uri t) w of
       (Inl e, w1) \<Rightarrow> (Inl (file_result t RollbackUnknown 0 (Some (FailedUnconfirmed e))), w1)
     | (Inr s, w1) \<Rightarrow>
         if fs_value s = reached then (Inr \<lparr> af_target = t, af_mtime = fs_mtime s, af_etag = fs_etag s \<rparr>, w1)
         else if fs_value s = prior then (Inl (file_result t Failed 0 (Some (FailedUnchanged err))), w1)
         else (Inl (file_result t RollbackUnknown 0 (Some (FailedUnknown err))), w1))"

text \<open>One step of a compensation: the file must still hold \<open>found\<close> with the stamp of the write; then it gets \<open>back\<close>.\<close>

definition restore_one ::
  "('u, 'w) reader \<Rightarrow> ('u, 'w) writer \<Rightarrow> 'u applied_file \<Rightarrow> js_text \<Rightarrow> js_text \<Rightarrow> 'w \<Rightarrow> replace_error option \<times> 'w"
where
  "restore_one read write a found back w =
    (let t = af_target a in
     case read (pf_uri t) w of
       (Inl e, w1) \<Rightarrow> (Some (ServiceError e), w1)
     | (Inr cur, w1) \<Rightarrow>
         if fs_value cur \<noteq> found \<or> fs_mtime cur \<noteq> af_mtime a \<or> fs_etag cur \<noteq> af_etag a then (Some Drifted, w1)
         else (case write (pf_uri t) back
                      \<lparr> wo_encoding = pf_encoding t, wo_mtime = fs_mtime cur, wo_etag = fs_etag cur \<rparr> w1 of
                 (Inl e, w2) \<Rightarrow> (Some (ServiceError e), w2)
               | (Inr _, w2) \<Rightarrow> (None, w2)))"

text \<open>The loop of both compensations, over the files that were written, the last one first.\<close>

fun restore_files ::
  "('u, 'w) reader \<Rightarrow> ('u, 'w) writer \<Rightarrow> ('u prepared_file \<Rightarrow> js_text) \<Rightarrow> ('u prepared_file \<Rightarrow> js_text) \<Rightarrow>
   replace_status \<Rightarrow> replace_status \<Rightarrow> 'u applied_file list \<Rightarrow> 'w \<Rightarrow> apply_result list \<times> 'w"
where
  "restore_files read write found back good bad [] w = ([], w)"
| "restore_files read write found back good bad (a # as) w =
    (let t = af_target a;
         (failure, w1) = restore_one read write a (found t) (back t) w;
         (rest, w2) = restore_files read write found back good bad as w1
     in (file_result t (if failure = None then good else bad) (length (pf_selected t)) failure # rest, w2))"

text \<open>What follows a write of \<open>t\<close> that threw \<open>err\<close> when \<open>finished\<close> had been written.\<close>

definition compensate ::
  "('u, 'w) reader \<Rightarrow> ('u, 'w) writer \<Rightarrow> ('u prepared_file \<Rightarrow> js_text) \<Rightarrow> ('u prepared_file \<Rightarrow> js_text) \<Rightarrow>
   replace_status \<Rightarrow> replace_status \<Rightarrow> 'u applied_file list \<Rightarrow> 'u prepared_file \<Rightarrow> string \<Rightarrow> 'w \<Rightarrow> apply_result list \<times> 'w"
where
  "compensate read write reached prior good bad finished t err w =
    (let (seen, w1) = inspect_target read t (reached t) (prior t) err w;
         targets = finished @ (case seen of Inr a \<Rightarrow> [a] | Inl _ \<Rightarrow> []);
         reported = (case seen of Inr _ \<Rightarrow> [] | Inl r \<Rightarrow> [r]);
         (restored, w2) = restore_files read write reached prior good bad (rev targets) w1
     in (reported @ restored, w2))"

text \<open>The second phase. The transaction it leaves is None when a write fails.\<close>

fun write_files ::
  "('u, 'w) reader \<Rightarrow> ('u, 'w) writer \<Rightarrow> 'u applied_file list \<Rightarrow> 'u prepared_file list \<Rightarrow> 'w \<Rightarrow>
   apply_result list \<times> 'u applied_file list option \<times> 'w"
where
  "write_files read write written [] w =
    (map (\<lambda>a. file_result (af_target a) Applied (length (pf_selected (af_target a))) None) written, Some written, w)"
| "write_files read write written (t # ts) w =
    (case write (pf_uri t) (pf_applied t)
            \<lparr> wo_encoding = pf_encoding t, wo_mtime = pf_mtime t, wo_etag = pf_etag t \<rparr> w of
       (Inr (mtime, etag), w1) \<Rightarrow>
         write_files read write (written @ [\<lparr> af_target = t, af_mtime = mtime, af_etag = etag \<rparr>]) ts w1
     | (Inl err, w1) \<Rightarrow>
         (let (results, w2) = compensate read write pf_applied pf_original RolledBack RollbackFailed written t err w1
          in (results @ map (\<lambda>p. file_result p Skipped 0 (Some StoppedAfterFailure)) ts, None, w2)))"

text \<open>The state is \<open>lastApply\<close>.\<close>

definition apply_plan ::
  "(string \<Rightarrow> replace_error + 'u) \<Rightarrow> ('u, 'w) reader \<Rightarrow> ('u, 'w) writer \<Rightarrow> replace_plan \<Rightarrow> 'w \<Rightarrow>
   apply_result list \<times> 'u applied_file list option \<times> 'w"
where
  "apply_plan resolve read write plan w =
    (let skipped = map (\<lambda>p. \<lparr> ar_file = fp_file p, ar_status = Skipped, ar_edits = 0, ar_error = None \<rparr>)
                     (filter (\<lambda>p. selected_edits p = []) (rp_files plan))
     in case prepare_files resolve read (rp_files plan) w of
          (Inl (file, e), w1) \<Rightarrow>
            (map (\<lambda>p. if fp_file p = file
                      then \<lparr> ar_file = fp_file p, ar_status = Failed, ar_edits = 0, ar_error = Some e \<rparr>
                      else \<lparr> ar_file = fp_file p, ar_status = Skipped, ar_edits = 0, ar_error = Some PreflightCancelled \<rparr>)
               (rp_files plan), None, w1)
        | (Inr prepared, w1) \<Rightarrow>
            (case write_files read write [] prepared w1 of
               (results, transaction, w2) \<Rightarrow> (results @ skipped, transaction, w2)))"

section \<open>Undoing the last transaction\<close>

fun undo_preflight ::
  "('u, 'w) reader \<Rightarrow> 'u applied_file list \<Rightarrow> nat \<Rightarrow> 'w \<Rightarrow> (nat \<times> replace_error + file_stat list) \<times> 'w"
where
  "undo_preflight read [] i w = (Inr [], w)"
| "undo_preflight read (a # as) i w =
    (case read (pf_uri (af_target a)) w of
       (Inl e, w1) \<Rightarrow> (Inl (i, ServiceError e), w1)
     | (Inr cur, w1) \<Rightarrow>
         if fs_value cur \<noteq> pf_applied (af_target a) \<or> fs_mtime cur \<noteq> af_mtime a \<or> fs_etag cur \<noteq> af_etag a
         then (Inl (i, ChangedAfterReplace), w1)
         else (case undo_preflight read as (Suc i) w1 of
                 (Inl e, w2) \<Rightarrow> (Inl e, w2)
               | (Inr ss, w2) \<Rightarrow> (Inr (cur # ss), w2)))"

text \<open>The flag is set when every file was undone.\<close>

fun undo_files ::
  "('u, 'w) reader \<Rightarrow> ('u, 'w) writer \<Rightarrow> 'u applied_file list \<Rightarrow> ('u applied_file \<times> file_stat) list \<Rightarrow> 'w \<Rightarrow>
   apply_result list \<times> bool \<times> 'w"
where
  "undo_files read write undone [] w =
    (map (\<lambda>a. file_result (af_target a) Undone (length (pf_selected (af_target a))) None) undone, True, w)"
| "undo_files read write undone ((a, cur) # rest) w =
    (let t = af_target a in
     case write (pf_uri t) (pf_original t)
            \<lparr> wo_encoding = pf_encoding t, wo_mtime = fs_mtime cur, wo_etag = fs_etag cur \<rparr> w of
       (Inr (mtime, etag), w1) \<Rightarrow>
         undo_files read write (undone @ [\<lparr> af_target = t, af_mtime = mtime, af_etag = etag \<rparr>]) rest w1
     | (Inl err, w1) \<Rightarrow>
         (let (results, w2) = compensate read write pf_original pf_applied UndoRolledBack UndoRollbackFailed undone t err w1
          in (map (\<lambda>b. file_result (af_target b) Undone (length (pf_selected (af_target b))) None) undone
              @ results
              @ map (\<lambda>p. file_result (af_target (fst p)) Skipped 0 (Some StoppedAfterFailure)) rest, False, w2)))"

definition undoLastApply ::
  "('u, 'w) reader \<Rightarrow> ('u, 'w) writer \<Rightarrow> 'u applied_file list option \<Rightarrow> 'w \<Rightarrow>
   apply_result list \<times> 'u applied_file list option \<times> 'w"
where
  "undoLastApply read write lastApply w =
    (case lastApply of
       None \<Rightarrow> ([\<lparr> ar_file = [], ar_status = Failed, ar_edits = 0, ar_error = Some NoTransaction \<rparr>], lastApply, w)
     | Some [] \<Rightarrow> ([\<lparr> ar_file = [], ar_status = Failed, ar_edits = 0, ar_error = Some NoTransaction \<rparr>], lastApply, w)
     | Some transaction \<Rightarrow>
         (case undo_preflight read transaction 0 w of
            (Inl (i, e), w1) \<Rightarrow>
              (map (\<lambda>(k, a). if k = i then file_result (af_target a) Failed 0 (Some e)
                             else file_result (af_target a) Skipped 0 (Some UndoPreflightFailed))
                 (enumerate 0 transaction), lastApply, w1)
          | (Inr stats, w1) \<Rightarrow>
              (case undo_files read write [] (zip transaction stats) w1 of
                 (results, True, w2) \<Rightarrow> (results, None, w2)
               | (results, False, w2) \<Rightarrow> (results, lastApply, w2))))"

end
