(* ===== verification/SearchReplaceFacts.thy ===== *)
theory SearchReplaceFacts
  imports SearchReplace
begin

text \<open>
  Replace in files is all or nothing: what applying, compensating and undoing a plan do to the contents of the files,
  for every file service that keeps \<open>file_service\<close>, and the edits of a plan as splices of the text.
\<close>

section \<open>Contents under the operations\<close>

text \<open>\<open>c\<close> is \<open>c0\<close> with the text \<open>f\<close> in the files \<open>ts\<close>.\<close>

definition with_texts ::
  "('u \<Rightarrow> js_text option) \<Rightarrow> ('u prepared_file \<Rightarrow> js_text) \<Rightarrow> 'u prepared_file list \<Rightarrow> ('u \<Rightarrow> js_text option) \<Rightarrow> bool"
where
  "with_texts c0 f ts c \<longleftrightarrow> (\<forall>x. x \<notin> pf_uri ` set ts \<longrightarrow> c x = c0 x) \<and> (\<forall>t \<in> set ts. c (pf_uri t) = Some (f t))"

lemma with_texts_Nil [simp]: "with_texts c0 f [] c \<longleftrightarrow> c = c0"
  by (auto simp: with_texts_def)

lemma with_texts_same:
  "with_texts c0 f ts c \<Longrightarrow> \<forall>t \<in> set ts. c0 (pf_uri t) = Some (f t) \<Longrightarrow> c = c0"
  unfolding with_texts_def by (intro ext) (metis imageE)

lemma with_texts_rev [simp]: "with_texts c0 f (rev ts) c = with_texts c0 f ts c"
  by (simp add: with_texts_def)

lemma read_world: "file_service content read write \<Longrightarrow> read u w = (r, w1) \<Longrightarrow> content w1 = content w"
  unfolding file_service_def by (metis snd_conv)

lemma read_value: "file_service content read write \<Longrightarrow> read u w = (Inr s, w1) \<Longrightarrow> content w u = Some (fs_value s)"
  unfolding file_service_def by (metis fst_conv)

lemma write_others:
  "file_service content read write \<Longrightarrow> write u v opts w = (r, w1) \<Longrightarrow> x \<noteq> u \<Longrightarrow> content w1 x = content w x"
  unfolding file_service_def by (metis snd_conv)

lemma write_value: "file_service content read write \<Longrightarrow> write u v opts w = (Inr st, w1) \<Longrightarrow> content w1 u = Some v"
  unfolding file_service_def by (metis fst_conv snd_conv)

lemmas service_facts = read_world read_value write_others write_value

lemma restore_one_content:
  assumes "restore_one read write a found back w = (failure, w1)" and "file_service content read write"
  shows "x \<noteq> pf_uri (af_target a) \<Longrightarrow> content w1 x = content w x"
    and "failure = None \<Longrightarrow> content w1 (pf_uri (af_target a)) = Some back"
  using assms(1)
  by (auto simp: restore_one_def Let_def split: prod.splits sum.splits if_splits;
      metis read_world [OF assms(2)] write_others [OF assms(2)] write_value [OF assms(2)])+

lemma restore_files_content:
  assumes "restore_files read write found back good bad as w = (rs, w1)" and "good \<noteq> bad"
    and "distinct (map (pf_uri \<circ> af_target) as)" and "file_service content read write"
  shows "(\<forall>x. x \<notin> pf_uri ` af_target ` set as \<longrightarrow> content w1 x = content w x) \<and>
    ((\<forall>r \<in> set rs. ar_status r \<noteq> bad) \<longrightarrow> with_texts (content w) back (map af_target as) (content w1))"
  using assms
proof (induction as arbitrary: w rs w1)
  case (Cons a as)
  obtain failure w2 where one: "restore_one read write a (found (af_target a)) (back (af_target a)) w = (failure, w2)"
    by fastforce
  obtain rest w3 where rest: "restore_files read write found back good bad as w2 = (rest, w3)" by fastforce
  have IH: "(\<forall>x. x \<notin> pf_uri ` af_target ` set as \<longrightarrow> content w3 x = content w2 x) \<and>
    ((\<forall>r \<in> set rest. ar_status r \<noteq> bad) \<longrightarrow> with_texts (content w2) back (map af_target as) (content w3))"
    using Cons.IH [OF rest] Cons.prems by simp
  note step = restore_one_content [OF one Cons.prems(4)]
  have "w1 = w3" and rs: "rs = file_result (af_target a) (if failure = None then good else bad)
      (length (pf_selected (af_target a))) failure # rest"
    using Cons.prems(1) one rest by (simp_all add: Let_def)
  show ?case
  proof (intro conjI allI impI)
    fix x assume "x \<notin> pf_uri ` af_target ` set (a # as)"
    then show "content w1 x = content w x" using IH step(1) [of x] \<open>w1 = w3\<close> by simp
  next
    assume "\<forall>r \<in> set rs. ar_status r \<noteq> bad"
    then have a: "failure = None" and all: "with_texts (content w2) back (map af_target as) (content w3)"
      using rs IH by (auto split: if_splits)
    have "pf_uri (af_target a) \<notin> pf_uri ` af_target ` set as" using Cons.prems(3) by auto
    then have "content w3 (pf_uri (af_target a)) = content w2 (pf_uri (af_target a))" using IH by blast
    then have a3: "content w3 (pf_uri (af_target a)) = Some (back (af_target a))" using step(2) [OF a] by simp
    show "with_texts (content w) back (map af_target (a # as)) (content w1)"
      unfolding with_texts_def \<open>w1 = w3\<close>
    proof (intro conjI allI impI ballI)
      fix x assume "x \<notin> pf_uri ` set (map af_target (a # as))"
      then show "content w3 x = content w x" using all step(1) [of x] by (simp add: with_texts_def)
    next
      fix t assume "t \<in> set (map af_target (a # as))"
      then show "content w3 (pf_uri t) = Some (back t)" using all a3 by (auto simp: with_texts_def)
    qed
  qed
qed simp

lemma inspect_target_facts:
  assumes "inspect_target read t reached prior err w = (seen, w1)" and "file_service content read write"
  shows "content w1 = content w" and "seen = Inr a \<Longrightarrow> af_target a = t"
    and "seen = Inl r \<Longrightarrow> ar_status r = RollbackUnknown \<or> content w (pf_uri t) = Some prior"
proof -
  obtain r w2 where r: "read (pf_uri t) w = (r, w2)" by fastforce
  show "content w1 = content w" and "seen = Inr a \<Longrightarrow> af_target a = t"
    and "seen = Inl r' \<Longrightarrow> ar_status r' = RollbackUnknown \<or> content w (pf_uri t) = Some prior" for r'
    using assms(1) r read_world [OF assms(2) r] read_value [OF assms(2), of "pf_uri t" w _ w2]
    by (auto simp: inspect_target_def split: sum.splits if_splits)
qed

lemma compensate_content:
  assumes "compensate read write reached prior good bad finished t err w = (rs, w1)" and "good \<noteq> bad"
    and "distinct (map pf_uri (map af_target finished @ [t]))"
    and "\<forall>s \<in> set (map af_target finished @ [t]). c0 (pf_uri s) = Some (prior s)"
    and "\<forall>x. x \<noteq> pf_uri t \<and> x \<notin> pf_uri ` af_target ` set finished \<longrightarrow> content w x = c0 x"
    and service: "file_service content read write"
  shows "(\<forall>x. x \<noteq> pf_uri t \<and> x \<notin> pf_uri ` af_target ` set finished \<longrightarrow> content w1 x = c0 x) \<and>
    (content w1 = c0 \<or> (\<exists>r \<in> set rs. ar_status r \<in> {bad, RollbackUnknown}))"
proof -
  obtain seen w2 where seen: "inspect_target read t (reached t) (prior t) err w = (seen, w2)" by fastforce
  define targets where "targets = finished @ (case seen of Inr a \<Rightarrow> [a] | Inl _ \<Rightarrow> [])"
  obtain restored w3 where undo: "restore_files read write reached prior good bad (rev targets) w2 = (restored, w3)"
    by fastforce
  note facts = inspect_target_facts [OF seen service]
  have "map (pf_uri \<circ> af_target) targets = map pf_uri (map af_target finished) @ (case seen of Inr a \<Rightarrow> [pf_uri t] | Inl _ \<Rightarrow> [])"
    using facts(2) by (simp add: targets_def split: sum.splits)
  then have "distinct (map (pf_uri \<circ> af_target) targets)"
    using assms(3) by (simp add: split: sum.splits)
  then have dist: "distinct (map (pf_uri \<circ> af_target) (rev targets))"
    by (simp only: rev_map [symmetric] distinct_rev)
  note rest = restore_files_content [OF undo assms(2) dist service]
  have rs: "rs = (case seen of Inr _ \<Rightarrow> [] | Inl r \<Rightarrow> [r]) @ restored" and w1: "w1 = w3"
    using assms(1) seen undo by (simp_all add: compensate_def targets_def Let_def)
  have frame: "\<forall>x. x \<noteq> pf_uri t \<and> x \<notin> pf_uri ` af_target ` set finished \<longrightarrow> content w1 x = c0 x"
    using rest w1 facts(1,2) assms(5) by (auto simp: targets_def split: sum.splits)
  moreover have "content w1 = c0" if ok: "\<forall>r \<in> set rs. ar_status r \<notin> {bad, RollbackUnknown}"
  proof
    fix x
    have all: "with_texts (content w) prior (map af_target (rev targets)) (content w1)"
      using rest rs ok w1 facts(1) by auto
    have others: "content w1 x = c0 x" if "x \<notin> pf_uri ` set (map af_target finished @ [t])"
      using frame that by simp
    have done_before: "content w1 (pf_uri s) = c0 (pf_uri s)" if "s \<in> set (map af_target finished)" for s
    proof -
      have "s \<in> set (map af_target (rev targets))" using that by (simp add: targets_def)
      then show ?thesis using all that assms(4) unfolding with_texts_def by (metis UnCI set_append)
    qed
    have last: "content w1 (pf_uri t) = c0 (pf_uri t)"
    proof (cases seen)
      case (Inr a)
      then have "t \<in> set (map af_target (rev targets))" using facts(2) by (simp add: targets_def)
      then show ?thesis using all assms(4) by (auto simp: with_texts_def)
    next
      case (Inl r)
      then have "pf_uri t \<notin> pf_uri ` set (map af_target (rev targets))" using assms(3) by (auto simp: targets_def)
      then have "content w1 (pf_uri t) = content w (pf_uri t)" using all by (simp add: with_texts_def)
      also have "\<dots> = Some (prior t)" using facts(3) [OF Inl] ok rs Inl by simp
      finally show ?thesis using assms(4) by simp
    qed
    show "content w1 x = c0 x"
    proof (cases "x \<in> pf_uri ` set (map af_target finished @ [t])")
      case True
      then obtain s where "x = pf_uri s" "s = t \<or> s \<in> set (map af_target finished)" by auto
      then show ?thesis using done_before last by blast
    qed (use others in blast)
  qed
  ultimately show ?thesis by blast
qed

lemma with_texts_step:
  assumes "with_texts c0 f ts c" and "c1 (pf_uri t) = Some (f t)" and "\<And>x. x \<noteq> pf_uri t \<Longrightarrow> c1 x = c x"
    and "pf_uri t \<notin> pf_uri ` set ts"
  shows "with_texts c0 f (ts @ [t]) c1"
proof -
  have "c1 (pf_uri s) = Some (f s)" if "s \<in> set ts" for s
    using assms(1,3,4) that by (metis image_eqI with_texts_def)
  then show ?thesis using assms by (simp add: with_texts_def)
qed

lemma write_files_content:
  assumes "write_files read write written ts w = (rs, lastApply, w1)"
    and "distinct (map pf_uri (map af_target written @ ts))" and service: "file_service content read write"
    and "\<forall>t \<in> set (map af_target written @ ts). c0 (pf_uri t) = Some (pf_original t)"
    and "with_texts c0 pf_applied (map af_target written) (content w)"
  shows "(case lastApply of
            Some transaction \<Rightarrow>
              map af_target transaction = map af_target written @ ts
              \<and> with_texts c0 pf_applied (map af_target written @ ts) (content w1)
              \<and> rs = map (\<lambda>t. file_result t Applied (length (pf_selected t)) None) (map af_target written @ ts)
          | None \<Rightarrow>
              (\<forall>x. x \<notin> pf_uri ` set (map af_target written @ ts) \<longrightarrow> content w1 x = c0 x)
              \<and> (content w1 = c0 \<or> (\<exists>r \<in> set rs. ar_status r \<in> {RollbackFailed, RollbackUnknown})))"
  using assms
proof (induction ts arbitrary: written w)
  case Nil
  then show ?case by (auto simp: comp_def)
next
  case (Cons t ts)
  obtain st w2 where st: "write (pf_uri t) (pf_applied t)
      \<lparr> wo_encoding = pf_encoding t, wo_mtime = pf_mtime t, wo_etag = pf_etag t \<rparr> w = (st, w2)" by fastforce
  show ?case
  proof (cases st)
    case (Inr stamp)
    obtain mtime etag where stamp: "stamp = (mtime, etag)" by fastforce
    let ?a = "\<lparr> af_target = t, af_mtime = mtime, af_etag = etag \<rparr>"
    have "with_texts c0 pf_applied (map af_target written @ [t]) (content w2)"
      using Cons.prems(2) by (intro with_texts_step [OF Cons.prems(5) write_value [OF service st [unfolded Inr]]
            write_others [OF service st]]) auto
    moreover have "write_files read write (written @ [?a]) ts w2 = (rs, lastApply, w1)"
      using Cons.prems(1) st Inr stamp by simp
    moreover have same: "map af_target (written @ [?a]) @ ts = map af_target written @ t # ts" by simp
    ultimately show ?thesis
      using Cons.IH [of "written @ [?a]" w2] Cons.prems(2,4) service unfolding same by simp
  next
    case (Inl err)
    obtain results w3 where undo:
      "compensate read write pf_applied pf_original RolledBack RollbackFailed written t err w2 = (results, w3)" by fastforce
    have frame: "\<forall>x. x \<noteq> pf_uri t \<and> x \<notin> pf_uri ` af_target ` set written \<longrightarrow> content w2 x = c0 x"
      using Cons.prems(5) write_others [OF service st] by (simp add: with_texts_def)
    have "(\<forall>x. x \<noteq> pf_uri t \<and> x \<notin> pf_uri ` af_target ` set written \<longrightarrow> content w3 x = c0 x) \<and>
      (content w3 = c0 \<or> (\<exists>r \<in> set results. ar_status r \<in> {RollbackFailed, RollbackUnknown}))"
      using Cons.prems(2,4) frame by (intro compensate_content [OF undo _ _ _ _ service]) simp_all
    moreover have "rs = results @ map (\<lambda>p. file_result p Skipped 0 (Some StoppedAfterFailure)) ts"
      "lastApply = None" "w1 = w3"
      using Cons.prems(1) st Inl undo by simp_all
    ultimately show ?thesis by auto
  qed
qed

text \<open>A file of the first phase: its plan still fits the content, which becomes \<open>pf_applied\<close>.\<close>

definition prepared_ok :: "(string \<Rightarrow> replace_error + 'u) \<Rightarrow> ('u \<Rightarrow> js_text option) \<Rightarrow> 'u prepared_file \<Rightarrow> bool" where
  "prepared_ok resolve c t \<longleftrightarrow>
    resolve (fp_file (pf_plan t)) = Inr (pf_uri t) \<and> pf_original t = fp_original (pf_plan t)
    \<and> pf_selected t = selected_edits (pf_plan t) \<and> c (pf_uri t) = Some (pf_original t)
    \<and> applyReplaceEdits (pf_original t) (pf_selected t) = Inr (pf_applied t)"

lemma prepare_file_facts:
  assumes "prepare_file resolve read p w = (r, w1)" and "file_service content read write"
  shows "content w1 = content w" and "r = Inr t \<Longrightarrow> pf_plan t = p \<and> prepared_ok resolve (content w) t"
  using assms(1) read_world [OF assms(2)] read_value [OF assms(2)]
  by (auto simp: prepare_file_def prepared_ok_def split: prod.splits sum.splits if_splits)

lemma prepare_files_facts:
  assumes "prepare_files resolve read ps w = (r, w1)" and "file_service content read write"
  shows "content w1 = content w \<and>
    (\<forall>ts. r = Inr ts \<longrightarrow> map pf_plan ts = filter (\<lambda>p. selected_edits p \<noteq> []) ps
       \<and> (\<forall>t \<in> set ts. prepared_ok resolve (content w) t))"
  using assms(1)
proof (induction ps arbitrary: w r w1)
  case (Cons p ps)
  show ?case
  proof (cases "selected_edits p = []")
    case True
    then have "prepare_files resolve read ps w = (r, w1)" using Cons.prems by simp
    from Cons.IH [OF this] True show ?thesis by simp
  next
    case False
    obtain r1 w2 where one: "prepare_file resolve read p w = (r1, w2)" by fastforce
    obtain r2 w3 where rest: "prepare_files resolve read ps w2 = (r2, w3)" by fastforce
    note facts = prepare_file_facts [OF one assms(2)]
    show ?thesis
    proof (cases r1)
      case (Inl e)
      then show ?thesis using Cons.prems one False facts(1) by auto
    next
      case (Inr t)
      note here = Cons.IH [OF rest] facts(1) facts(2) [OF Inr]
      show ?thesis using Cons.prems one rest False Inr here by (cases r2) auto
    qed
  qed
qed simp

lemma with_texts_outside: "with_texts c0 f ts c \<Longrightarrow> x \<notin> pf_uri ` set ts \<Longrightarrow> c x = c0 x"
  by (simp add: with_texts_def)

text \<open>The files a plan selects, and the whole effect of applying it.\<close>

definition selected_plans :: "replace_plan \<Rightarrow> replace_file_plan list" where
  "selected_plans plan = filter (\<lambda>p. selected_edits p \<noteq> []) (rp_files plan)"

lemma apply_plan_content:
  assumes "apply_plan resolve read write plan w = (rs, lastApply, w1)"
    and service: "file_service content read write"
    and dist: "distinct (map (resolve \<circ> fp_file) (selected_plans plan))"
  shows "(case lastApply of
            Some transaction \<Rightarrow>
              map (pf_plan \<circ> af_target) transaction = selected_plans plan
              \<and> distinct (map (pf_uri \<circ> af_target) transaction)
              \<and> (\<forall>a \<in> set transaction. prepared_ok resolve (content w) (af_target a))
              \<and> with_texts (content w) pf_applied (map af_target transaction) (content w1)
              \<and> (\<forall>r \<in> set rs. ar_status r \<in> {Applied, Skipped})
          | None \<Rightarrow> content w1 = content w \<or> (\<exists>r \<in> set rs. ar_status r \<in> {RollbackFailed, RollbackUnknown}))"
proof -
  obtain r w2 where prep: "prepare_files resolve read (rp_files plan) w = (r, w2)" by fastforce
  note facts = prepare_files_facts [OF prep service]
  show ?thesis
  proof (cases r)
    case (Inl e)
    then show ?thesis using assms(1) prep facts by (cases e) (auto simp: apply_plan_def Let_def)
  next
    case (Inr ts)
    then have plans: "map pf_plan ts = selected_plans plan" and ok: "\<forall>t \<in> set ts. prepared_ok resolve (content w) t"
      and w2: "content w2 = content w"
      using facts by (simp_all add: selected_plans_def)
    have "map (resolve \<circ> fp_file) (selected_plans plan) = map Inr (map pf_uri ts)"
      using ok by (simp add: plans [symmetric] prepared_ok_def)
    then have uris: "distinct (map pf_uri ts)" using dist by (simp add: distinct_map del: map_map)
    obtain results last' w3 where wr: "write_files read write [] ts w2 = (results, last', w3)" by (metis prod_cases3)
    have here: "lastApply = last'" "w1 = w3" "\<exists>ss. rs = results @ ss \<and> (\<forall>r \<in> set ss. ar_status r = Skipped)"
      using assms(1) prep wr Inr by (auto simp: apply_plan_def Let_def)
    have "\<forall>t \<in> set (map af_target [] @ ts). content w (pf_uri t) = Some (pf_original t)"
      using ok by (simp add: prepared_ok_def)
    note wf = write_files_content [OF wr _ service this]
    show ?thesis
    proof (cases last')
      case None
      then show ?thesis using wf uris w2 here by auto
    next
      case (Some transaction)
      then have t: "map af_target transaction = ts" using wf uris w2 by simp
      then have "map (pf_plan \<circ> af_target) transaction = selected_plans plan"
        "map (pf_uri \<circ> af_target) transaction = map pf_uri ts"
        using plans by (auto simp flip: map_map)
      then show ?thesis using wf uris w2 here ok t Some by auto
    qed
  qed
qed

section \<open>Undo\<close>

lemma undo_preflight_facts:
  assumes "undo_preflight read as i w = (r, w1)" and "file_service content read write"
  shows "content w1 = content w \<and>
    (\<forall>ss. r = Inr ss \<longrightarrow> length ss = length as \<and> (\<forall>a \<in> set as. content w (pf_uri (af_target a)) = Some (pf_applied (af_target a))))"
  using assms(1)
proof (induction as arbitrary: i w r w1)
  case (Cons a as)
  obtain r1 w2 where one: "read (pf_uri (af_target a)) w = (r1, w2)" by fastforce
  obtain r2 w3 where rest: "undo_preflight read as (Suc i) w2 = (r2, w3)" by fastforce
  note w2 = read_world [OF assms(2) one]
  show ?case
  proof (cases r1)
    case (Inl e)
    then show ?thesis using Cons.prems one w2 by auto
  next
    case (Inr cur)
    note val = read_value [OF assms(2) one [unfolded Inr]]
    show ?thesis using Cons.prems one rest Inr w2 val Cons.IH [OF rest]
      by (auto split: if_splits sum.splits)
  qed
qed simp

lemma undo_files_content:
  assumes "undo_files read write undone ts w = (rs, finished, w1)"
    and "distinct (map pf_uri (map af_target undone @ map (af_target \<circ> fst) ts))"
    and service: "file_service content read write"
    and "\<forall>t \<in> set (map af_target undone @ map (af_target \<circ> fst) ts). c0 (pf_uri t) = Some (pf_applied t)"
    and "with_texts c0 pf_original (map af_target undone) (content w)"
  shows "if finished
     then with_texts c0 pf_original (map af_target undone @ map (af_target \<circ> fst) ts) (content w1)
        \<and> (\<forall>r \<in> set rs. ar_status r = Undone)
     else content w1 = c0 \<or> (\<exists>r \<in> set rs. ar_status r \<in> {UndoRollbackFailed, RollbackUnknown})"
  using assms
proof (induction ts arbitrary: undone w)
  case Nil
  then show ?case by auto
next
  case (Cons ac ts)
  obtain a cur where ac: "ac = (a, cur)" by fastforce
  let ?t = "af_target a"
  obtain st w2 where st: "write (pf_uri ?t) (pf_original ?t)
      \<lparr> wo_encoding = pf_encoding ?t, wo_mtime = fs_mtime cur, wo_etag = fs_etag cur \<rparr> w = (st, w2)" by fastforce
  show ?case
  proof (cases st)
    case (Inr stamp)
    obtain mtime etag where stamp: "stamp = (mtime, etag)" by fastforce
    let ?b = "\<lparr> af_target = ?t, af_mtime = mtime, af_etag = etag \<rparr>"
    have "with_texts c0 pf_original (map af_target undone @ [?t]) (content w2)"
      using Cons.prems(2) ac by (intro with_texts_step [OF Cons.prems(5) write_value [OF service st [unfolded Inr]]
            write_others [OF service st]]) auto
    moreover have "undo_files read write (undone @ [?b]) ts w2 = (rs, finished, w1)"
      using Cons.prems(1) st Inr stamp ac by simp
    moreover have same: "map af_target (undone @ [?b]) @ map (af_target \<circ> fst) ts
      = map af_target undone @ map (af_target \<circ> fst) (ac # ts)" by (simp add: ac)
    ultimately show ?thesis
      by (intro Cons.IH [of "undone @ [?b]" w2, unfolded same, OF _ Cons.prems(2) service Cons.prems(4)]) simp_all
  next
    case (Inl err)
    obtain results w3 where undo:
      "compensate read write pf_original pf_applied UndoRolledBack UndoRollbackFailed undone ?t err w2 = (results, w3)"
      by fastforce
    have frame: "\<forall>x. x \<noteq> pf_uri ?t \<and> x \<notin> pf_uri ` af_target ` set undone \<longrightarrow> content w2 x = c0 x"
      using Cons.prems(5) write_others [OF service st] by (simp add: with_texts_def)
    have "content w3 = c0 \<or> (\<exists>r \<in> set results. ar_status r \<in> {UndoRollbackFailed, RollbackUnknown})"
      using Cons.prems(2,4) frame ac by (intro compensate_content [OF undo _ _ _ _ service, THEN conjunct2]) auto
    moreover have "set results \<subseteq> set rs" "\<not> finished" "w1 = w3"
      using Cons.prems(1) st Inl undo ac by auto
    ultimately show ?thesis by auto
  qed
qed

lemma undoLastApply_content:
  assumes "undoLastApply read write lastApply w = (rs, lastApply', w1)"
    and service: "file_service content read write"
    and dist: "\<forall>transaction. lastApply = Some transaction \<longrightarrow> distinct (map (pf_uri \<circ> af_target) transaction)"
  shows "content w1 = content w \<or> (\<exists>r \<in> set rs. ar_status r \<in> {UndoRollbackFailed, RollbackUnknown})
    \<or> (\<exists>transaction. lastApply = Some transaction \<and> lastApply' = None \<and> (\<forall>r \<in> set rs. ar_status r = Undone)
         \<and> with_texts (content w) pf_original (map af_target transaction) (content w1))"
proof (cases "lastApply = None \<or> lastApply = Some []")
  case True
  then show ?thesis using assms(1) by (auto simp: undoLastApply_def)
next
  case False
  then obtain a as where last: "lastApply = Some (a # as)" by (metis list.exhaust option.exhaust)
  obtain r w2 where pre: "undo_preflight read (a # as) 0 w = (r, w2)" by fastforce
  note facts = undo_preflight_facts [OF pre service]
  show ?thesis
  proof (cases r)
    case (Inl e)
    have "w1 = w2" using assms(1) last pre Inl by (cases e) (simp add: undoLastApply_def del: undo_preflight.simps)
    then show ?thesis using facts by simp
  next
    case (Inr ss)
    then have len: "length ss = length (a # as)"
      and ok: "\<forall>a \<in> set (a # as). content w (pf_uri (af_target a)) = Some (pf_applied (af_target a))"
      and w2: "content w2 = content w"
      using facts by simp_all
    obtain rs' finished w3 where un: "undo_files read write [] (zip (a # as) ss) w2 = (rs', finished, w3)"
      by (metis prod_cases3)
    have fst: "map (af_target \<circ> fst) (zip (a # as) ss) = map af_target (a # as)"
      using len by (metis map_fst_zip map_map)
    have here: "rs = rs'" "w1 = w3" "finished \<longrightarrow> lastApply' = None"
      using assms(1) last pre Inr un by (auto simp: undoLastApply_def simp del: undo_preflight.simps split: bool.splits)
    have "if finished then with_texts (content w) pf_original (map af_target (a # as)) (content w3)
        \<and> (\<forall>r \<in> set rs'. ar_status r = Undone)
      else content w3 = content w \<or> (\<exists>r \<in> set rs'. ar_status r \<in> {UndoRollbackFailed, RollbackUnknown})"
      using undo_files_content [OF un, of content "content w"] service dist last ok w2 unfolding fst by (simp split: if_splits)
    then show ?thesis using here last by (auto split: if_splits)
  qed
qed

section \<open>Edits as splices\<close>

definition splice_at :: "replace_edit \<times> nat \<Rightarrow> js_text \<Rightarrow> js_text" where
  "splice_at p c = take (snd p) c @ ed_after (fst p) @ drop (before_end p) c"

abbreviation apart :: "replace_edit \<times> nat \<Rightarrow> replace_edit \<times> nat \<Rightarrow> bool" where
  "apart p q \<equiv> before_end p \<le> snd q"

lemma take_foldr_splice:
  "\<forall>p \<in> set ps. n \<le> snd p \<and> snd p \<le> length c \<Longrightarrow> take n (foldr splice_at ps c) = take n c"
proof (induction ps)
  case (Cons p ps)
  then have IH: "take n (foldr splice_at ps c) = take n c" and n: "n \<le> snd p" "n \<le> length c" by auto
  then have "n \<le> length (foldr splice_at ps c)" by (metis length_take min.absorb2 min.cobounded1)
  with IH n show ?case by (simp add: splice_at_def [of p])
qed simp

lemma assemble_splice:
  assumes "sorted_wrt apart ps" and "\<forall>p \<in> set ps. pos \<le> snd p \<and> before_end p \<le> length content"
  shows "assemble content pos ps = Inr (drop pos (foldr splice_at ps content))"
  using assms
proof (induction ps arbitrary: pos)
  case (Cons p ps)
  let ?c = "foldr splice_at ps content"
  have pos: "pos \<le> snd p" "snd p \<le> before_end p" "before_end p \<le> length content"
    using Cons.prems(2) by (auto simp: before_end_def)
  have "take (snd p) ?c = take (snd p) content"
    using Cons.prems pos by (intro take_foldr_splice) (force simp: before_end_def)
  moreover have "assemble content (before_end p) ps = Inr (drop (before_end p) ?c)"
    using Cons.prems by (intro Cons.IH) auto
  moreover have "splice_at p ?c = take (snd p) content @ ed_after (fst p) @ drop (before_end p) ?c"
    using calculation by (simp add: splice_at_def [of p])
  ultimately show ?case using pos by (simp add: drop_take)
qed simp

text \<open>A located edit is found again at its offset.\<close>

lemma holds_at_bound:
  assumes "holds_at content offset s" and "s \<noteq> []"
  shows "offset + length s \<le> length content"
proof -
  have "length (take (length s) (drop offset content)) = length s" using assms(1) by (simp add: holds_at_def)
  moreover have "0 < length s" using assms(2) by simp
  ultimately show ?thesis by (simp del: length_greater_0_conv)
qed

lemma locate_match_positions:
  assumes "locate_match content replacement m = Inr p"
  shows "position_edit content (fst p) = Inr p" and "ed_before (fst p) = sm_matchText m"
    and "sm_matchText m \<noteq> [] \<Longrightarrow> before_end p \<le> length content"
    and "edit_offset content (ed_line (fst p)) (ed_column (fst p)) = Some (snd p)"
  using assms holds_at_bound [of content "snd p" "sm_matchText m"]
  by (auto simp: locate_match_def position_edit_def before_end_def split: option.splits if_splits)

lemma insort_key_last: "\<forall>y \<in> set ys. f y < f x \<Longrightarrow> insort_key f x ys = ys @ [x]"
  for f :: "'a \<Rightarrow> 'b :: linorder"
  by (induction ys) (auto simp: not_le)

lemma sort_key_descending: "sorted_wrt (\<lambda>x y. f y < f x) xs \<Longrightarrow> sort_key f xs = rev xs"
  for f :: "'a \<Rightarrow> 'b :: linorder"
  by (induction xs) (simp_all add: insort_key_last)

lemma located_apart:
  assumes "\<not> list_ex (\<lambda>(p, q). snd p < before_end q) (zip ps (tl ps))"
  shows "sorted_wrt apart (rev ps)"
proof -
  have "sorted_wrt (\<lambda>p q. apart q p) ps"
    using assms
  proof (induction ps)
    case (Cons p ps)
    then have IH: "sorted_wrt (\<lambda>p q. apart q p) ps" by (cases ps) auto
    moreover have "apart q p" if "q \<in> set ps" for q
    proof (cases ps)
      case (Cons r rs)
      then have "apart r p" using Cons.prems by simp
      moreover have "q = r \<or> apart q r" using IH that Cons by auto
      ultimately show ?thesis by (auto simp: before_end_def)
    qed (use that in simp)
    ultimately show ?case by simp
  qed simp
  then show ?thesis by (simp add: sorted_wrt_rev)
qed

lemma locateEdits_positions:
  assumes "locateEdits content matches replacement = Inr edits" and "\<forall>m \<in> set matches. sm_matchText m \<noteq> []"
  obtains ps where "edits = map fst ps" and "sorted_wrt apart (rev ps)"
    and "\<forall>p \<in> set ps. position_edit content (fst p) = Inr p \<and> before_end p \<le> length content \<and> snd p < before_end p
      \<and> edit_offset content (ed_line (fst p)) (ed_column (fst p)) = Some (snd p)"
proof -
  obtain located where loc: "map_res (locate_match content replacement) matches = Inr located"
    and apart: "\<not> list_ex (\<lambda>(p, q). snd p < before_end q)
      (zip (sort_key (\<lambda>p. - int (snd p)) located) (tl (sort_key (\<lambda>p. - int (snd p)) located)))"
    and edits: "edits = map fst (sort_key (\<lambda>p. - int (snd p)) located)"
    using assms(1) by (auto simp: locateEdits_def Let_def split: sum.splits if_splits)
  have loc': "\<exists>m \<in> set matches. locate_match content replacement m = Inr p" if "p \<in> set located" for p
    using map_res_Inr [OF loc] that by (metis in_set_conv_nth)
  have "position_edit content (fst p) = Inr p \<and> before_end p \<le> length content \<and> snd p < before_end p
      \<and> edit_offset content (ed_line (fst p)) (ed_column (fst p)) = Some (snd p)" if "p \<in> set located" for p
  proof -
    obtain m where m: "m \<in> set matches" "locate_match content replacement m = Inr p"
      using loc' [OF \<open>p \<in> set located\<close>] by blast
    show ?thesis using locate_match_positions [OF m(2)] assms(2) m(1) by (auto simp: before_end_def)
  qed
  then show thesis using that [OF edits located_apart [OF apart]] by simp
qed

definition splice_replace :: "js_text \<Rightarrow> replace_edit \<Rightarrow> js_text \<Rightarrow> js_text" where
  "splice_replace content e c =
    (case edit_offset content (ed_line e) (ed_column e) of
       Some offset \<Rightarrow> take offset c @ ed_after e @ drop (offset + length (ed_before e)) c
     | None \<Rightarrow> c)"

lemma applyReplaceEdits_splices:
  assumes "locateEdits content matches replacement = Inr edits" and "\<forall>m \<in> set matches. sm_matchText m \<noteq> []"
  shows "applyReplaceEdits content (filter P edits) = Inr (fold (splice_replace content) (filter P edits) content)"
proof -
  obtain ps where edits: "edits = map fst ps" and apart: "sorted_wrt apart (rev ps)"
    and facts: "\<forall>p \<in> set ps. position_edit content (fst p) = Inr p \<and> before_end p \<le> length content \<and> snd p < before_end p
      \<and> edit_offset content (ed_line (fst p)) (ed_column (fst p)) = Some (snd p)"
    using locateEdits_positions [OF assms] .
  define qs where "qs = filter (P \<circ> fst) ps"
  have sub: "filter P edits = map fst qs" by (simp add: edits qs_def filter_map)
  have qs: "\<forall>p \<in> set qs. position_edit content (fst p) = Inr p \<and> before_end p \<le> length content \<and> snd p < before_end p
      \<and> edit_offset content (ed_line (fst p)) (ed_column (fst p)) = Some (snd p)"
    using facts by (simp add: qs_def)
  have apart': "sorted_wrt apart (rev qs)"
    using apart by (simp add: qs_def flip: rev_filter) (metis sorted_wrt_filter rev_filter)
  have positions: "map_res (position_edit content) (map fst qs) = Inr qs"
    using qs by (simp add: map_res_Inr_iff list_all2_conv_all_nth)
  have "sorted_wrt (\<lambda>p q. snd q < snd p) qs"
    using apart' qs unfolding sorted_wrt_rev by (auto elim!: sorted_wrt_mono_rel [rotated] intro: le_less_trans less_le_trans)
  then have sort: "sort_key snd qs = rev qs" by (rule sort_key_descending)
  have "assemble content 0 (rev qs) = Inr (foldr splice_at (rev qs) content)"
    using assemble_splice [OF apart', of 0 content] qs by simp
  moreover have "foldr splice_at (rev qs) content = fold (splice_replace content) (map fst qs) content"
    unfolding foldr_conv_fold rev_rev_ident fold_map
    using qs by (intro fold_cong) (auto simp: splice_at_def splice_replace_def before_end_def fun_eq_iff)
  ultimately show ?thesis using positions sort by (auto simp: applyReplaceEdits_def sub)
qed

end
