(* ===== verification/StableSort.thy ===== *)
theory StableSort
  imports Prelude "HOL-Library.Multiset"
begin

text \<open>
  \<open>Array.prototype.sort\<close> with a comparator: the stable sort, here by insertion after the equal elements. The comparator
  returns an integer as the code's do; \<open>comparator\<close> says that it is a total preorder. The list a bounded selection keeps
  is an initial segment of the sorted list.
\<close>

definition comparator :: "('a \<Rightarrow> 'a \<Rightarrow> int) \<Rightarrow> bool" where
  "comparator cmp \<longleftrightarrow>
    (\<forall>x y. 0 < cmp x y \<longleftrightarrow> cmp y x < 0) \<and> (\<forall>x y z. cmp x y \<le> 0 \<longrightarrow> cmp y z \<le> 0 \<longrightarrow> cmp x z \<le> 0)"

fun insert_after :: "('a \<Rightarrow> 'a \<Rightarrow> int) \<Rightarrow> 'a \<Rightarrow> 'a list \<Rightarrow> 'a list" where
  "insert_after cmp x [] = [x]"
| "insert_after cmp x (y # ys) = (if 0 < cmp y x then x # y # ys else y # insert_after cmp x ys)"

definition sort_by :: "('a \<Rightarrow> 'a \<Rightarrow> int) \<Rightarrow> 'a list \<Rightarrow> 'a list" where
  "sort_by cmp xs = fold (insert_after cmp) xs []"

abbreviation sorted_by :: "('a \<Rightarrow> 'a \<Rightarrow> int) \<Rightarrow> 'a list \<Rightarrow> bool" where
  "sorted_by cmp \<equiv> sorted_wrt (\<lambda>x y. cmp x y \<le> 0)"

lemma comparator_le_total: "comparator cmp \<Longrightarrow> cmp x y \<le> 0 \<or> cmp y x \<le> 0"
  unfolding comparator_def by (meson linorder_not_le order_less_imp_le)

lemma comparator_not_le: "comparator cmp \<Longrightarrow> \<not> cmp x y \<le> 0 \<longleftrightarrow> cmp y x < 0"
  unfolding comparator_def by (meson not_le)

lemma comparator_trans: "comparator cmp \<Longrightarrow> cmp x y \<le> 0 \<Longrightarrow> cmp y z \<le> 0 \<Longrightarrow> cmp x z \<le> 0"
  unfolding comparator_def by blast

lemma sort_by_Nil [simp]: "sort_by cmp [] = []"
  by (simp add: sort_by_def)

lemma sort_by_snoc [simp]: "sort_by cmp (xs @ [x]) = insert_after cmp x (sort_by cmp xs)"
  by (simp add: sort_by_def)

lemma mset_insert_after [simp]: "mset (insert_after cmp x xs) = add_mset x (mset xs)"
  by (induction xs) auto

lemma set_insert_after [simp]: "set (insert_after cmp x xs) = insert x (set xs)"
  by (metis mset_insert_after set_mset_add_mset_insert set_mset_mset)

lemma length_insert_after [simp]: "length (insert_after cmp x xs) = Suc (length xs)"
  by (induction xs) auto

lemma mset_sort_by [simp]: "mset (sort_by cmp xs) = mset xs"
  by (induction xs rule: rev_induct) auto

lemma set_sort_by [simp]: "set (sort_by cmp xs) = set xs"
  by (metis mset_sort_by set_mset_mset)

lemma length_sort_by [simp]: "length (sort_by cmp xs) = length xs"
  by (induction xs rule: rev_induct) auto

lemma sorted_insert_after:
  assumes "comparator cmp" and "sorted_by cmp xs"
  shows "sorted_by cmp (insert_after cmp x xs)"
  using assms(2)
proof (induction xs)
  case (Cons y ys)
  show ?case
  proof (cases "0 < cmp y x")
    case True
    then have "cmp x y \<le> 0" using assms(1) unfolding comparator_def by (meson less_imp_le)
    then show ?thesis using Cons.prems True comparator_trans [OF assms(1)] by auto
  next
    case False
    then show ?thesis using Cons by auto
  qed
qed simp

lemma sorted_sort_by: "comparator cmp \<Longrightarrow> sorted_by cmp (sort_by cmp xs)"
  by (induction xs rule: rev_induct) (simp_all add: sorted_insert_after)

lemma insert_after_append:
  "\<forall>y \<in> set ys. \<not> 0 < cmp y x \<Longrightarrow> insert_after cmp x (ys @ zs) = ys @ insert_after cmp x zs"
  by (induction ys) auto

lemma insert_after_last: "\<forall>y \<in> set ys. \<not> 0 < cmp y x \<Longrightarrow> insert_after cmp x ys = ys @ [x]"
  using insert_after_append [of ys cmp x "[]"] by simp

lemma filter_insert_after:
  assumes "comparator cmp" and "sorted_by cmp xs"
  shows "filter (\<lambda>y. cmp z y = 0) (insert_after cmp x xs) = filter (\<lambda>y. cmp z y = 0) (xs @ [x])"
  using assms(2)
proof (induction xs)
  case (Cons y ys)
  show ?case
  proof (cases "0 < cmp y x \<and> cmp z x = 0")
    case True
    have "cmp z u \<noteq> 0" if "u \<in> set (y # ys)" for u
    proof
      assume "cmp z u = 0"
      moreover have "cmp y u \<le> 0" using Cons.prems that comparator_le_total [OF assms(1), of y y] by auto
      moreover have "cmp u z \<le> 0" using \<open>cmp z u = 0\<close> comparator_not_le [OF assms(1), of u z] by linarith
      ultimately have "cmp y x \<le> 0" using True comparator_trans [OF assms(1)] by (metis order_refl)
      with True show False by simp
    qed
    then show ?thesis using True by (auto simp: filter_empty_conv)
  next
    case False
    then show ?thesis using Cons by (auto simp: filter_empty_conv)
  qed
qed simp

lemma sort_by_stable: "comparator cmp \<Longrightarrow> filter (\<lambda>y. cmp z y = 0) (sort_by cmp xs) = filter (\<lambda>y. cmp z y = 0) xs"
  by (induction xs rule: rev_induct) (simp_all add: filter_insert_after sorted_sort_by)

section \<open>The best \<open>k\<close> elements\<close>

lemma take_insert_after: "take k (insert_after cmp x ys) = take k (insert_after cmp x (take k ys))"
proof (induction ys arbitrary: k)
  case (Cons y ys)
  then show ?case by (cases k) (auto simp: take_Cons')
qed simp

text \<open>A new element that is not better than the last of the best \<open>k\<close> is not among them; a better one takes its place.\<close>

lemma best_skip:
  assumes "comparator cmp" and "sorted_by cmp ys" and "ys \<noteq> []" and "\<not> cmp x (last ys) < 0"
  shows "take (length ys) (insert_after cmp x ys) = ys"
proof -
  obtain us u where ys: "ys = us @ [u]" using assms(3) by (metis rev_exhaust)
  then have u: "cmp u x \<le> 0" using assms(4) comparator_not_le [OF assms(1), of u x] by auto
  have "\<not> 0 < cmp y x" if "y \<in> set ys" for y
  proof -
    have "y = u \<or> cmp y u \<le> 0" using assms(2) that by (auto simp: ys sorted_wrt_append)
    then have "cmp y x \<le> 0" using u comparator_trans [OF assms(1)] by blast
    then show ?thesis by simp
  qed
  then show ?thesis by (simp add: insert_after_last)
qed

lemma best_replace:
  assumes "comparator cmp" and "ys \<noteq> []" and "cmp x (last ys) < 0"
  shows "take (length ys) (insert_after cmp x ys) = insert_after cmp x (butlast ys)"
proof -
  have "take (length us + 1) (insert_after cmp x (us @ [u])) = insert_after cmp x us" if "cmp x u < 0" for us u
    using that comparator_not_le [OF assms(1), of u x] by (induction us) (auto simp: not_le)
  from this [OF assms(3), of "butlast ys"] show ?thesis using assms(2) by simp
qed

end
