(* ===== verification/FindFile.thy ===== *)
theory FindFile
  imports JsRegex StableSort
begin

text \<open>
  The finders of \<open>search-extension/src/browser\<close>: \<open>find-file-model.ts\<close>, \<open>find-class-model.ts\<close>, \<open>find-action-model.ts\<close> and
  \<open>search-everywhere-model.ts\<close>. They share the fuzzy score, the published state and the rule that a newer query ends an
  older one. A query runs until its first \<open>await\<close>; what follows the \<open>await\<close> is an operation of its own, which names the
  generation it belongs to. \<open>lc\<close> is \<open>localeCompare\<close> and \<open>resolve_uri\<close> \<open>URI.resolve\<close>; the listing of the files is the
  answer of another service. Text is ASCII where it is lower-cased. A folder named like a property that every object
  inherits (\<open>constructor\<close>) has a weight in the code that is not a number; here it has none.
\<close>

section \<open>The fuzzy score\<close>

abbreviation to_lower :: "string \<Rightarrow> string" where "to_lower \<equiv> map lower"

definition word_boundary :: "char \<Rightarrow> bool" where
  "word_boundary c \<longleftrightarrow> c \<in> set ''/._-'' \<or> c = BSL \<or> is_js_space c"

text \<open>The loop over the units of the needle; \<open>last = -1\<close> before the first.\<close>

fun greedy_score :: "string \<Rightarrow> string \<Rightarrow> nat \<Rightarrow> int \<Rightarrow> int \<Rightarrow> int option" where
  "greedy_score haystack [] cursor lastPos score = Some (score - int (length haystack))"
| "greedy_score haystack (c # cs) cursor lastPos score =
    (case index_of haystack [c] cursor of
       None \<Rightarrow> None
     | Some found \<Rightarrow>
         greedy_score haystack cs (Suc found) (int found)
           (score + (if lastPos < 0 then 100 - int found else max 1 (40 - (int found - lastPos - 1) * 5))
            + (if found = 0 \<or> word_boundary (haystack ! (found - 1)) then 30 else 0)))"

definition fuzzyScorePreLowered :: "string \<Rightarrow> string \<Rightarrow> int option" where
  "fuzzyScorePreLowered needle haystack =
    (if needle = [] then Some 0
     else (case index_of haystack needle 0 of
             Some exact \<Rightarrow> Some (10000 - int exact * 10 - (int (length haystack) - int (length needle)))
           | None \<Rightarrow> greedy_score haystack needle 0 (- 1) 0))"

text \<open>\<open>fuzzyScore\<close> of the other finders runs the same loop over the lowered texts.\<close>

definition fuzzyScore :: "string \<Rightarrow> string \<Rightarrow> int option" where
  "fuzzyScore q v = fuzzyScorePreLowered (to_lower (trim q)) (to_lower v)"

fun isSubsequence :: "string \<Rightarrow> string \<Rightarrow> bool" where
  "isSubsequence [] hs = True"
| "isSubsequence (n # ns) [] = False"
| "isSubsequence (n # ns) (h # hs) = (if n = h then isSubsequence ns hs else isSubsequence (n # ns) hs)"

section \<open>The published state\<close>

datatype find_status = FIdle | FLoading | FResults | FEmpty | FError

record 'i finder_state =
  fi_status :: find_status
  fi_query :: string
  fi_items :: "'i list"
  fi_selected :: int
  fi_error :: "string option"

definition initial_finder :: "'i finder_state" where
  "initial_finder = \<lparr> fi_status = FIdle, fi_query = [], fi_items = [], fi_selected = 0, fi_error = None \<rparr>"

text \<open>\<open>%\<close> on numbers: the sign is that of the dividend.\<close>

definition js_rem :: "int \<Rightarrow> int \<Rightarrow> int" where
  "js_rem a b = (if a < 0 then - ((- a) mod b) else a mod b)"

definition select :: "int \<Rightarrow> 'i finder_state \<Rightarrow> 'i finder_state" where
  "select index st =
    (if fi_items st = [] then st
     else st\<lparr> fi_selected := js_rem (index + int (length (fi_items st))) (int (length (fi_items st))) \<rparr>)"

definition finder_loading :: "string \<Rightarrow> 'i finder_state" where
  "finder_loading q = \<lparr> fi_status = FLoading, fi_query = q, fi_items = [], fi_selected = 0, fi_error = None \<rparr>"

definition finder_shows :: "find_status \<Rightarrow> string \<Rightarrow> 'i list \<Rightarrow> 'i finder_state" where
  "finder_shows none q items =
    \<lparr> fi_status = (if items = [] then none else FResults), fi_query = q, fi_items = items, fi_selected = 0, fi_error = None \<rparr>"

definition finder_failed :: "string \<Rightarrow> string \<Rightarrow> 'i finder_state" where
  "finder_failed q e = \<lparr> fi_status = FError, fi_query = q, fi_items = [], fi_selected = 0, fi_error = Some e \<rparr>"

text \<open>A finder: the state, the generation, whether \<open>cancel\<close> aborted the newest controller, and the recent items.\<close>

record 'i finder =
  fd_state :: "'i finder_state"
  fd_generation :: nat
  fd_cancelled :: bool
  fd_recent :: "'i list"

definition finder_cancel :: "('i, 'm) finder_scheme \<Rightarrow> ('i, 'm) finder_scheme" where
  "finder_cancel m = m\<lparr> fd_cancelled := True \<rparr>"

definition finder_select :: "int \<Rightarrow> ('i, 'm) finder_scheme \<Rightarrow> ('i, 'm) finder_scheme" where
  "finder_select index m = m\<lparr> fd_state := select index (fd_state m) \<rparr>"

definition remember_item :: "('i \<Rightarrow> string) \<Rightarrow> 'i \<Rightarrow> ('i, 'm) finder_scheme \<Rightarrow> ('i, 'm) finder_scheme" where
  "remember_item ident item m =
    m\<lparr> fd_recent := take 20 (item # filter (\<lambda>e. ident e \<noteq> ident item) (fd_recent m)) \<rparr>"

text \<open>The continuation of a query is cut off by a newer query or by \<open>cancel\<close>.\<close>

definition superseded :: "nat \<Rightarrow> ('i, 'm) finder_scheme \<Rightarrow> bool" where
  "superseded g m \<longleftrightarrow> fd_cancelled m \<or> g \<noteq> fd_generation m"

section \<open>Find File\<close>

record file_item =
  fl_id :: string
  fl_label :: string
  fl_detail :: string
  fl_uri :: string
  fl_score :: int
  fl_weight :: "int option"
  fl_lowerLabel :: "string option"
  fl_lowerDetail :: "string option"

definition CACHE_TTL_MS :: int where "CACHE_TTL_MS = 15000"

definition PATH_WEIGHTS :: "string \<Rightarrow> int option" where
  "PATH_WEIGHTS = map_of [(''src'', 3), (''lib'', 2), (''app'', 2), (''include'', 2), (''test'', 1), (''tests'', 1)]"

definition DEPRIORITIZED_DIRS :: "string list" where
  "DEPRIORITIZED_DIRS = [''.git'', ''.svn'', ''node_modules'', ''target'', ''build'', ''dist'', ''.kairo'', ''__pycache__'', ''.next'', ''.nuxt'']"

fun weigh :: "string list \<Rightarrow> int \<Rightarrow> int" where
  "weigh [] weight = weight"
| "weigh (s # ss) weight =
    (if s \<in> set DEPRIORITIZED_DIRS then - 10
     else weigh ss (weight + (case PATH_WEIGHTS s of Some n \<Rightarrow> n | None \<Rightarrow> 0)))"

definition pathWeight :: "string \<Rightarrow> int" where
  "pathWeight relativePath = weigh (split_on (CHR ''/'') (slashes (to_lower relativePath))) 0"

type_synonym scored_file = "file_item \<times> int"

definition compareScoredItems :: "(string \<Rightarrow> string \<Rightarrow> int) \<Rightarrow> scored_file \<Rightarrow> scored_file \<Rightarrow> int" where
  "compareScoredItems lc a b =
    (let diff = snd b - snd a in if diff \<noteq> 0 then diff else lc (fl_label (fst a)) (fl_label (fst b)))"

definition compareCandidateWithWorst :: "(string \<Rightarrow> string \<Rightarrow> int) \<Rightarrow> int \<Rightarrow> string \<Rightarrow> scored_file \<Rightarrow> int" where
  "compareCandidateWithWorst lc candTotalScore candLabel worst =
    (let diff = snd worst - candTotalScore in if diff \<noteq> 0 then diff else lc candLabel (fl_label (fst worst)))"

fun bubbleUp :: "(string \<Rightarrow> string \<Rightarrow> int) \<Rightarrow> scored_file list \<Rightarrow> nat \<Rightarrow> scored_file list" where
  "bubbleUp lc arr 0 = arr"
| "bubbleUp lc arr (Suc prev) =
    (if 0 < compareScoredItems lc (arr ! prev) (arr ! Suc prev)
     then bubbleUp lc (arr[prev := arr ! Suc prev, Suc prev := arr ! prev]) prev
     else arr)"

text \<open>The base score and the total of an item, when it matches: \<open>Math.max\<close> with \<open>-Infinity\<close> for what is undefined.\<close>

definition score_file :: "string \<Rightarrow> file_item \<Rightarrow> (int \<times> int) option" where
  "score_file needle item =
    (let lowerLabel = (case fl_lowerLabel item of Some s \<Rightarrow> s | None \<Rightarrow> to_lower (fl_label item));
         lowerDetail = (case fl_lowerDetail item of Some s \<Rightarrow> s | None \<Rightarrow> to_lower (fl_detail item));
         labelMatches = isSubsequence needle lowerLabel;
         detailMatches = \<not> labelMatches \<and> isSubsequence needle lowerDetail
     in if \<not> labelMatches \<and> \<not> detailMatches then None
        else
          let nameScore = (if labelMatches then fuzzyScorePreLowered needle lowerLabel else None);
              pathScore = (if detailMatches \<or> labelMatches then fuzzyScorePreLowered needle lowerDetail else None);
              weight = (case fl_weight item of Some n \<Rightarrow> n | None \<Rightarrow> 0)
          in case (nameScore, pathScore) of
               (None, None) \<Rightarrow> None
             | (Some n, None) \<Rightarrow> Some (n, n + weight * 100)
             | (None, Some p) \<Rightarrow> Some (p - 500, p - 500 + weight * 100)
             | (Some n, Some p) \<Rightarrow> Some (max n (p - 500), max n (p - 500) + weight * 100))"

text \<open>One turn of the loop. With \<open>limit = 0\<close> the code reads \<open>scored[-1]\<close>, which is undefined, and throws.\<close>

definition keep_best ::
  "(string \<Rightarrow> string \<Rightarrow> int) \<Rightarrow> nat \<Rightarrow> string \<Rightarrow> scored_file list \<Rightarrow> file_item \<Rightarrow> scored_file list option"
where
  "keep_best lc limit needle scored item =
    (case score_file needle item of
       None \<Rightarrow> Some scored
     | Some (baseScore, totalScore) \<Rightarrow>
         let entry = (item\<lparr> fl_score := baseScore \<rparr>, totalScore) in
         if length scored < limit
         then (let scored' = scored @ [entry]
               in Some (if length scored' = limit then sort_by (compareScoredItems lc) scored' else scored'))
         else if limit = 0 then None
         else if compareCandidateWithWorst lc totalScore (fl_label item) (scored ! (limit - 1)) < 0
         then Some (bubbleUp lc (scored[limit - 1 := entry]) (limit - 1))
         else Some scored)"

fun keep_all ::
  "(string \<Rightarrow> string \<Rightarrow> int) \<Rightarrow> nat \<Rightarrow> string \<Rightarrow> file_item list \<Rightarrow> scored_file list \<Rightarrow> scored_file list option"
where
  "keep_all lc limit needle [] scored = Some scored"
| "keep_all lc limit needle (item # items) scored =
    (case keep_best lc limit needle scored item of
       None \<Rightarrow> None
     | Some scored' \<Rightarrow> keep_all lc limit needle items scored')"

definition best_files :: "(string \<Rightarrow> string \<Rightarrow> int) \<Rightarrow> nat \<Rightarrow> string \<Rightarrow> file_item list \<Rightarrow> file_item list option" where
  "best_files lc limit needle allFiles =
    (case keep_all lc limit needle allFiles [] of
       None \<Rightarrow> None
     | Some scored \<Rightarrow>
         Some (map fst (if length scored < limit then sort_by (compareScoredItems lc) scored else scored)))"

record file_finder = "file_item finder" +
  ff_cache :: "(file_item list \<times> int) option"

text \<open>A child of a folder as the file service resolves it, and the walk when the index is not available.\<close>

record file_child =
  ch_uri :: string
  ch_base :: string
  ch_isDirectory :: bool
  ch_isFile :: bool

definition file_entry :: "string \<Rightarrow> string \<Rightarrow> string \<Rightarrow> file_item" where
  "file_entry uri name path =
    \<lparr> fl_id = ''file:'' @ uri, fl_label = name, fl_detail = path, fl_uri = uri, fl_score = 0,
      fl_weight = Some (pathWeight path), fl_lowerLabel = Some (to_lower name), fl_lowerDetail = Some (to_lower path) \<rparr>"

definition relative_or_base :: "(string \<Rightarrow> string option) \<Rightarrow> file_child \<Rightarrow> string" where
  "relative_or_base relative child = (case relative (ch_uri child) of Some r \<Rightarrow> r | None \<Rightarrow> ch_base child)"

definition child_files :: "(string \<Rightarrow> string option) \<Rightarrow> file_child list \<Rightarrow> file_item list" where
  "child_files relative children =
    map (\<lambda>c. file_entry (ch_uri c) (ch_base c) (relative_or_base relative c)) (filter ch_isFile children)"

definition child_folders :: "file_child list \<Rightarrow> string list" where
  "child_folders children =
    map ch_uri (filter (\<lambda>c. ch_isDirectory c \<and> ch_base c \<notin> set DEPRIORITIZED_DIRS) children)"

function buildFileListViaFileService ::
  "(string \<Rightarrow> file_child list option) \<Rightarrow> (string \<Rightarrow> string option) \<Rightarrow> string list \<Rightarrow> nat \<Rightarrow> file_item list \<Rightarrow> file_item list"
where
  "buildFileListViaFileService resolve relative queue visited results =
    (case queue of
       [] \<Rightarrow> results
     | u # rest \<Rightarrow>
         if 10000 \<le> visited then results
         else (case resolve u of
                 None \<Rightarrow> buildFileListViaFileService resolve relative rest visited results
               | Some children \<Rightarrow>
                   buildFileListViaFileService resolve relative (rest @ child_folders children)
                     (visited + length children) (results @ child_files relative children)))"
  by pat_completeness auto
termination
  by (relation "measures [\<lambda>(_, _, _, visited, _). 10000 - visited, \<lambda>(_, _, queue, _, _). length queue]")
    (auto simp: child_folders_def, case_tac x2, auto)

declare buildFileListViaFileService.simps [simp del]

text \<open>What the awaited file list of a query brings: the cache, the index, the walk, or no context.\<close>

datatype file_list = CachedFiles "file_item list" | Indexed "(string \<times> string) list" | Walked "file_item list" | NoContext string

definition cached_files :: "int \<Rightarrow> file_finder \<Rightarrow> file_item list option" where
  "cached_files now m =
    (case ff_cache m of Some (files, at) \<Rightarrow> if now - at < CACHE_TTL_MS then Some files else None | None \<Rightarrow> None)"

definition index_items :: "(string \<Rightarrow> string) \<Rightarrow> (string \<times> string) list \<Rightarrow> file_item list" where
  "index_items resolve_uri entries = map (\<lambda>(name, path). file_entry (resolve_uri path) name path) entries"

definition find_file :: "string \<Rightarrow> nat \<Rightarrow> file_finder \<Rightarrow> file_finder" where
  "find_file q limit m =
    (let m1 = m\<lparr> fd_generation := Suc (fd_generation m), fd_cancelled := False \<rparr>; trimmed = trim q
     in if trimmed = [] then m1\<lparr> fd_state := finder_shows FIdle [] (take limit (fd_recent m)) \<rparr>
        else m1\<lparr> fd_state := finder_loading trimmed \<rparr>)"

definition show_files :: "(string \<Rightarrow> string \<Rightarrow> int) \<Rightarrow> string \<Rightarrow> nat \<Rightarrow> file_item list \<Rightarrow> file_finder \<Rightarrow> file_finder" where
  "show_files lc trimmed limit files m =
    m\<lparr> fd_state :=
      (case best_files lc limit (to_lower trimmed) files of
         None \<Rightarrow> finder_failed trimmed ''TypeError''
       | Some items \<Rightarrow> finder_shows FEmpty trimmed items) \<rparr>"

definition files_arrived ::
  "(string \<Rightarrow> string \<Rightarrow> int) \<Rightarrow> (string \<Rightarrow> string) \<Rightarrow> nat \<Rightarrow> string \<Rightarrow> nat \<Rightarrow> int \<Rightarrow> file_list \<Rightarrow> file_finder \<Rightarrow> file_finder"
where
  "files_arrived lc resolve_uri g trimmed limit now answer m =
    (if superseded g m then m
     else (case answer of
             NoContext e \<Rightarrow> m\<lparr> fd_state := finder_failed trimmed e \<rparr>
           | CachedFiles files \<Rightarrow> show_files lc trimmed limit files m
           | Indexed entries \<Rightarrow>
               (let files = index_items resolve_uri entries
                in show_files lc trimmed limit files (m\<lparr> ff_cache := Some (files, now) \<rparr>))
           | Walked files \<Rightarrow> show_files lc trimmed limit files (m\<lparr> ff_cache := Some (files, now) \<rparr>)))"

section \<open>Search Everywhere\<close>

datatype everywhere_category = AllItems | FilesOnly | TypesOnly | SymbolsOnly | ActionsOnly

record everywhere_item =
  ev_id :: string
  ev_category :: everywhere_category
  ev_label :: string
  ev_detail :: "string option"
  ev_score :: "int option"

record everywhere_finder = "everywhere_item finder" +
  ev_shown_category :: everywhere_category

definition filterCategory :: "everywhere_item list \<Rightarrow> everywhere_category \<Rightarrow> everywhere_item list" where
  "filterCategory items category = filter (\<lambda>item. category = AllItems \<or> ev_category item = category) items"

definition everywhere_query :: "string \<Rightarrow> everywhere_category \<Rightarrow> nat \<Rightarrow> everywhere_finder \<Rightarrow> everywhere_finder" where
  "everywhere_query q category limit m =
    (let m1 = m\<lparr> fd_generation := Suc (fd_generation m), fd_cancelled := False, ev_shown_category := category \<rparr>;
         trimmed = trim q
     in if trimmed = []
        then m1\<lparr> fd_state := finder_shows FIdle [] (take limit (filterCategory (fd_recent m) category)) \<rparr>
        else m1\<lparr> fd_state := finder_loading trimmed \<rparr>)"

definition compare_everywhere :: "(string \<Rightarrow> string \<Rightarrow> int) \<Rightarrow> everywhere_item \<times> int \<Rightarrow> everywhere_item \<times> int \<Rightarrow> int" where
  "compare_everywhere lc a b =
    (let diff = snd b - snd a in if diff \<noteq> 0 then diff else lc (ev_label (fst a)) (ev_label (fst b)))"

definition score_everywhere :: "string \<Rightarrow> everywhere_item \<Rightarrow> (everywhere_item \<times> int) option" where
  "score_everywhere trimmed item =
    map_option (\<lambda>s. (item\<lparr> ev_score := Some s \<rparr>, s))
      (fuzzyScore trimmed (ev_label item @ '' '' @ (case ev_detail item of Some d \<Rightarrow> d | None \<Rightarrow> [])))"

text \<open>The results of the providers: the reason of a rejection or the items.\<close>

definition everywhere_items ::
  "(string \<Rightarrow> string \<Rightarrow> int) \<Rightarrow> string \<Rightarrow> everywhere_category \<Rightarrow> nat \<Rightarrow> (string + everywhere_item list) list \<Rightarrow> everywhere_item list"
where
  "everywhere_items lc trimmed category limit settled =
    map fst (take limit (sort_by (compare_everywhere lc)
      (List.map_filter (score_everywhere trimmed)
        (filterCategory (concat (map (case_sum (\<lambda>_. []) (\<lambda>items. items)) settled)) category))))"

definition everywhere_answers ::
  "(string \<Rightarrow> string \<Rightarrow> int) \<Rightarrow> nat \<Rightarrow> string \<Rightarrow> everywhere_category \<Rightarrow> nat \<Rightarrow> (string + everywhere_item list) list \<Rightarrow>
   everywhere_finder \<Rightarrow> everywhere_finder"
where
  "everywhere_answers lc g trimmed category limit settled m =
    (if superseded g m then m
     else m\<lparr> ev_shown_category := category, fd_state :=
       (if settled \<noteq> [] \<and> list_all isl settled then finder_failed trimmed (projl (hd settled))
        else finder_shows FEmpty trimmed (everywhere_items lc trimmed category limit settled)) \<rparr>)"

end
