(* ===== verification/NewestWins.thy ===== *)
theory NewestWins
  imports Main
begin

text \<open>
  The rule the finders, the search session and its stream share: every request gets a number, the state remembers the
  newest, and what arrives for an older one is dropped. A client may delete from a run all that arrives for a request
  that is no longer the newest. \<open>inv\<close> is what the provider keeps of its state.
\<close>

locale newest_wins =
  fixes step :: "'e \<Rightarrow> 's \<Rightarrow> 's"
    and gen :: "'s \<Rightarrow> nat"
    and answers :: "'e \<Rightarrow> nat option"
    and inv :: "'s \<Rightarrow> bool"
  assumes inv_step: "inv s \<Longrightarrow> inv (step e s)"
    and gen_grows: "inv s \<Longrightarrow> gen s \<le> gen (step e s)"
    and stale_ignored: "inv s \<Longrightarrow> answers e = Some g \<Longrightarrow> g < gen s \<Longrightarrow> step e s = s"
begin

lemma inv_run: "inv s \<Longrightarrow> inv (fold step es s)"
  by (induction es arbitrary: s) (auto intro: inv_step)

lemma late_ignored: "inv s \<Longrightarrow> g < gen s \<Longrightarrow> fold step es s = fold step (filter (\<lambda>e. answers e \<noteq> Some g) es) s"
proof (induction es arbitrary: s)
  case (Cons e es)
  show ?case
  proof (cases "answers e = Some g")
    case True
    then have "step e s = s" using stale_ignored Cons.prems by blast
    then show ?thesis using Cons True by simp
  next
    case False
    then show ?thesis using Cons inv_step [of s e] gen_grows [of s e] by simp
  qed
qed simp

end

end
