(* ===== verification/FindFileFacts.thy ===== *)
theory FindFileFacts
  imports FindFile NewestWins "HOL-Library.Sublist"
begin

text \<open>
  The bounded selection of Find File keeps the same items in the same order as sorting all matches and cutting the
  list; the pre-check of the loop drops no item that scores; the finders show the newest query only.
\<close>

section \<open>The comparators\<close>

lemma compareScoredItems_comparator: "comparator lc \<Longrightarrow> comparator (compareScoredItems lc)"
  unfolding comparator_def compareScoredItems_def Let_def
  by (auto split: if_splits)

lemma compareCandidateWithWorst_eq: "compareCandidateWithWorst lc n (fl_label e) worst = compareScoredItems lc (e, n) worst"
  by (simp add: compareCandidateWithWorst_def compareScoredItems_def Let_def)

section \<open>The bounded selection\<close>

lemma bubbleUp_insert:
  assumes "comparator lc" and "sorted_by (compareScoredItems lc) ys"
  shows "bubbleUp lc (ys @ x # zs) (length ys) = insert_after (compareScoredItems lc) x ys @ zs"
  using assms(2)
proof (induction ys arbitrary: zs rule: rev_induct)
  case (snoc y ys)
  let ?cmp = "compareScoredItems lc"
  have cmp: "comparator ?cmp" using assms(1) by (rule compareScoredItems_comparator)
  show ?case
  proof (cases "0 < ?cmp y x")
    case True
    have "bubbleUp lc ((ys @ [y]) @ x # zs) (length (ys @ [y])) = bubbleUp lc (ys @ x # y # zs) (length ys)"
      using True by (simp add: nth_append list_update_append)
    also have "\<dots> = insert_after ?cmp x ys @ y # zs" using snoc by (simp add: sorted_wrt_append)
    also have "\<dots> = insert_after ?cmp x (ys @ [y]) @ zs"
      using True by (induction ys) auto
    finally show ?thesis .
  next
    case False
    have "\<not> 0 < ?cmp u x" if "u \<in> set (ys @ [y])" for u
    proof -
      have "u = y \<or> ?cmp u y \<le> 0" using snoc.prems that by (auto simp: sorted_wrt_append)
      then have "?cmp u x \<le> 0" using False comparator_trans [OF cmp, of u y x] by auto
      then show ?thesis by simp
    qed
    then have "insert_after ?cmp x (ys @ [y]) = (ys @ [y]) @ [x]" by (intro insert_after_last) blast
    then show ?thesis using False by (simp add: nth_append)
  qed
qed simp

text \<open>All matches of a list of items, with their scores.\<close>

definition scored_files :: "string \<Rightarrow> file_item list \<Rightarrow> scored_file list" where
  "scored_files needle items =
    List.map_filter (\<lambda>item. map_option (\<lambda>(b, t). (item\<lparr> fl_score := b \<rparr>, t)) (score_file needle item)) items"

lemma scored_files_simps [simp]:
  "scored_files needle [] = []"
  "scored_files needle (item # items) =
    (case score_file needle item of None \<Rightarrow> scored_files needle items
     | Some (b, t) \<Rightarrow> (item\<lparr> fl_score := b \<rparr>, t) # scored_files needle items)"
  by (auto simp: scored_files_def map_filter_simps split: option.splits)

definition kept :: "(string \<Rightarrow> string \<Rightarrow> int) \<Rightarrow> nat \<Rightarrow> scored_file list \<Rightarrow> scored_file list" where
  "kept lc limit xs = (if length xs < limit then xs else take limit (sort_by (compareScoredItems lc) xs))"

lemma keep_best_kept:
  assumes "comparator lc" and "0 < limit"
  shows "keep_best lc limit needle (kept lc limit xs) item = Some (kept lc limit (xs @ scored_files needle [item]))"
proof (cases "score_file needle item")
  case (Some bt)
  obtain b t where bt: "bt = (b, t)" by fastforce
  let ?cmp = "compareScoredItems lc" and ?e = "(item\<lparr> fl_score := b \<rparr>, t)"
  have cmp: "comparator ?cmp" using assms(1) by (rule compareScoredItems_comparator)
  show ?thesis
  proof (cases "length xs < limit")
    case True
    then show ?thesis using Some bt by (auto simp: keep_best_def kept_def Let_def)
  next
    case False
    define ys where "ys = take limit (sort_by ?cmp xs)"
    have "length ys = limit" using False by (simp add: ys_def)
    then have len: "length ys = limit" "ys \<noteq> []" using assms(2) by auto
    have sorted: "sorted_by ?cmp ys" unfolding ys_def by (rule sorted_wrt_take [OF sorted_sort_by [OF cmp]])
    have ins: "kept lc limit (xs @ [?e]) = take (length ys) (insert_after ?cmp ?e ys)"
      using False len(1) take_insert_after [of limit ?cmp ?e "sort_by ?cmp xs"] by (simp add: kept_def ys_def)
    have last: "ys ! (limit - 1) = last ys" using len by (simp add: last_conv_nth)
    have cand: "compareCandidateWithWorst lc t (fl_label item) (last ys) = ?cmp ?e (last ys)"
      using compareCandidateWithWorst_eq [of lc t "item\<lparr> fl_score := b \<rparr>"] by simp
    have old: "kept lc limit xs = ys" using False by (simp add: kept_def ys_def)
    show ?thesis
    proof (cases "?cmp ?e (last ys) < 0")
      case True
      have "ys[limit - 1 := ?e] = butlast ys @ [?e]"
        using len by (metis butlast_list_update last_list_update append_butlast_last_id length_list_update
            length_greater_0_conv list_update_nonempty)
      moreover have "limit - 1 = length (butlast ys)" using len by simp
      moreover have "sorted_by ?cmp (butlast ys)" using sorted by (simp add: butlast_conv_take sorted_wrt_take)
      ultimately have "bubbleUp lc (ys[limit - 1 := ?e]) (limit - 1) = insert_after ?cmp ?e (butlast ys)"
        using bubbleUp_insert [OF assms(1), of "butlast ys" ?e "[]"] by simp
      then show ?thesis
        using True Some bt len assms(2) last cand old ins best_replace [OF cmp len(2) True]
        by (simp add: keep_best_def Let_def)
    next
      case False
      then show ?thesis
        using Some bt len assms(2) last cand old ins best_skip [OF cmp sorted len(2) False]
        by (simp add: keep_best_def Let_def)
    qed
  qed
qed (simp add: keep_best_def)

lemma keep_all_kept:
  assumes "comparator lc" and "0 < limit"
  shows "keep_all lc limit needle items (kept lc limit xs) = Some (kept lc limit (xs @ scored_files needle items))"
proof (induction items arbitrary: xs)
  case (Cons item items)
  have "scored_files needle (item # items) = scored_files needle [item] @ scored_files needle items"
    by (simp split: option.splits)
  then show ?case using Cons keep_best_kept [OF assms, of needle xs item] by (simp del: scored_files_simps)
qed simp

lemma best_files_sorted:
  assumes "comparator lc" and "0 < limit"
  shows "best_files lc limit needle items
    = Some (map fst (take limit (sort_by (compareScoredItems lc) (scored_files needle items))))"
proof -
  have "keep_all lc limit needle items [] = Some (kept lc limit (scored_files needle items))"
    using keep_all_kept [OF assms, of needle items "[]"] assms(2) by (simp add: kept_def)
  then show ?thesis by (simp add: best_files_def kept_def)
qed

section \<open>The pre-check\<close>

lemma isSubsequence_subseq: "isSubsequence ns hs \<longleftrightarrow> subseq ns hs"
  by (induction ns hs rule: isSubsequence.induct) (auto simp: subseq_Cons2_iff)

lemma isSubsequence_index_of:
  "isSubsequence (c # cs) (drop i s) \<longleftrightarrow> (\<exists>j. index_of s [c] i = Some j \<and> isSubsequence cs (drop (Suc j) s))"
proof (induction s "[c]" i rule: index_of.induct)
  case (1 s i)
  show ?case
  proof (cases "i < length s")
    case True
    then have "drop i s = s ! i # drop (Suc i) s" by (simp add: Cons_nth_drop_Suc)
    then show ?thesis using True 1 by (auto simp: index_of.simps [of s "[c]" i])
  qed (simp add: index_of.simps [of s "[c]" i])
qed

lemma greedy_score_defined: "greedy_score hs ns cursor lastPos score \<noteq> None \<longleftrightarrow> isSubsequence ns (drop cursor hs)"
proof (induction ns arbitrary: cursor lastPos score)
  case (Cons n ns)
  show ?case using Cons by (auto simp del: isSubsequence.simps simp add: isSubsequence_index_of split: option.splits)
qed simp

lemma fuzzyScorePreLowered_defined: "fuzzyScorePreLowered needle haystack \<noteq> None \<longleftrightarrow> isSubsequence needle haystack"
proof (cases "index_of haystack needle 0")
  case None
  then show ?thesis using greedy_score_defined [of haystack needle 0] by (simp add: fuzzyScorePreLowered_def)
next
  case (Some j)
  then have "take (length needle) (drop j haystack) = needle"
    by (auto dest: index_of_Some simp: starts_with_at_def)
  then have "subseq needle haystack"
    by (metis append_take_drop_id list_emb_append2 list_emb_append_mono subseq_order.refl subseq_rev_drop_many
        subseq_drop_many)
  then show ?thesis using Some by (simp add: fuzzyScorePreLowered_def isSubsequence_subseq)
qed

definition searched_label :: "file_item \<Rightarrow> string" where
  "searched_label item = (case fl_lowerLabel item of Some s \<Rightarrow> s | None \<Rightarrow> to_lower (fl_label item))"

definition searched_detail :: "file_item \<Rightarrow> string" where
  "searched_detail item = (case fl_lowerDetail item of Some s \<Rightarrow> s | None \<Rightarrow> to_lower (fl_detail item))"

lemma score_file_defined:
  "score_file needle item \<noteq> None \<longleftrightarrow> subseq needle (searched_label item) \<or> subseq needle (searched_detail item)"
  using fuzzyScorePreLowered_defined [of needle "searched_label item"] fuzzyScorePreLowered_defined [of needle "searched_detail item"]
  by (auto simp: score_file_def Let_def isSubsequence_subseq searched_label_def [symmetric] searched_detail_def [symmetric]
      split: option.splits)

section \<open>The newest query\<close>

datatype file_event =
    AskFile string nat
  | FilesArrive nat string nat int file_list
  | CancelFile
  | SelectFile int
  | RememberFile file_item

fun file_step :: "(string \<Rightarrow> string \<Rightarrow> int) \<Rightarrow> (string \<Rightarrow> string) \<Rightarrow> file_event \<Rightarrow> file_finder \<Rightarrow> file_finder" where
  "file_step lc resolve_uri (AskFile q limit) m = find_file q limit m"
| "file_step lc resolve_uri (FilesArrive g trimmed limit now answer) m = files_arrived lc resolve_uri g trimmed limit now answer m"
| "file_step lc resolve_uri CancelFile m = finder_cancel m"
| "file_step lc resolve_uri (SelectFile i) m = finder_select i m"
| "file_step lc resolve_uri (RememberFile item) m = remember_item fl_id item m"

fun file_answers :: "file_event \<Rightarrow> nat option" where
  "file_answers (FilesArrive g _ _ _ _) = Some g"
| "file_answers _ = None"

interpretation find_files: newest_wins "file_step lc resolve_uri" fd_generation file_answers "\<lambda>_. True" for lc resolve_uri
proof
  show "fd_generation s \<le> fd_generation (file_step lc resolve_uri e s)" for s e
    by (cases e) (auto simp: find_file_def files_arrived_def show_files_def finder_cancel_def finder_select_def
        remember_item_def Let_def split: file_list.splits)
  show "file_step lc resolve_uri e s = s" if "file_answers e = Some g" "g < fd_generation s" for e s g
    using that by (cases e) (auto simp: files_arrived_def superseded_def)
qed

datatype everywhere_event =
    AskEverywhere string everywhere_category nat
  | ProvidersAnswer nat string everywhere_category nat "(string + everywhere_item list) list"
  | CancelEverywhere
  | SelectEverywhere int
  | RememberEverywhere everywhere_item

fun everywhere_step :: "(string \<Rightarrow> string \<Rightarrow> int) \<Rightarrow> everywhere_event \<Rightarrow> everywhere_finder \<Rightarrow> everywhere_finder" where
  "everywhere_step lc (AskEverywhere q category limit) m = everywhere_query q category limit m"
| "everywhere_step lc (ProvidersAnswer g trimmed category limit settled) m = everywhere_answers lc g trimmed category limit settled m"
| "everywhere_step lc CancelEverywhere m = finder_cancel m"
| "everywhere_step lc (SelectEverywhere i) m = finder_select i m"
| "everywhere_step lc (RememberEverywhere item) m = remember_item ev_id item m"

fun everywhere_answer :: "everywhere_event \<Rightarrow> nat option" where
  "everywhere_answer (ProvidersAnswer g _ _ _ _) = Some g"
| "everywhere_answer _ = None"

interpretation everywhere: newest_wins "everywhere_step lc" fd_generation everywhere_answer "\<lambda>_. True" for lc
proof
  show "fd_generation s \<le> fd_generation (everywhere_step lc e s)" for s e
    by (cases e) (auto simp: everywhere_query_def everywhere_answers_def finder_cancel_def finder_select_def
        remember_item_def Let_def)
  show "everywhere_step lc e s = s" if "everywhere_answer e = Some g" "g < fd_generation s" for e s g
    using that by (cases e) (auto simp: everywhere_answers_def superseded_def)
qed

text \<open>The selected row is a row of the list, for every index that is not below minus its length.\<close>

lemma select_in_list:
  assumes "fi_items st \<noteq> []" and "- int (length (fi_items st)) \<le> index"
  shows "0 \<le> fi_selected (select index st) \<and> fi_selected (select index st) < int (length (fi_items st))"
  using assms by (simp add: select_def js_rem_def)

lemma recent_distinct:
  assumes "distinct (map ident (fd_recent m))"
  shows "distinct (map ident (fd_recent (remember_item ident item m))) \<and> length (fd_recent (remember_item ident item m)) \<le> 20"
proof -
  have "distinct (map ident (item # filter (\<lambda>e. ident e \<noteq> ident item) (fd_recent m)))"
    using assms by (auto simp: distinct_map_filter)
  then have "distinct (take 20 (map ident (item # filter (\<lambda>e. ident e \<noteq> ident item) (fd_recent m))))"
    by (rule distinct_take)
  then show ?thesis by (simp add: remember_item_def take_map)
qed

end
