(* ===== verification/FindSymbols.thy ===== *)
theory FindSymbols
  imports FindFileFacts
begin

text \<open>
  \<open>search-extension/src/browser/find-action-model.ts\<close>, \<open>find-class-model.ts\<close> and \<open>file-index-service.ts\<close>. The command
  and key registries, the Java language client and the agent are arguments: what they return. A Find Class query awaits
  three times; \<open>fc_waiting\<close> holds the local variables of the queries that are past their file search.
\<close>

section \<open>Find Action\<close>

record command_entry =
  cm_id :: string
  cm_label :: "string option"
  cm_category :: "string option"

record catalog_entry =
  ce_id :: string
  ce_label :: string
  ce_category :: string
  ce_shortcut :: string

record action_item =
  ac_id :: string
  ac_label :: string
  ac_detail :: string
  ac_commandId :: string
  ac_score :: int

record action_finder = "action_item finder" +
  ac_catalog :: "catalog_entry list option"

text \<open>\<open>s.replace(p, r)\<close> with the \<open>g\<close> flag, for a non-empty literal \<open>p\<close>.\<close>

function replace_all :: "string \<Rightarrow> string \<Rightarrow> string \<Rightarrow> string" where
  "replace_all p r s =
    (if p = [] \<or> s = [] then s
     else if take (length p) s = p then r @ replace_all p r (drop (length p) s)
     else hd s # replace_all p r (tl s))"
  by pat_completeness auto
termination
  by (relation "measure (\<lambda>(p, r, s). length s)") auto

declare replace_all.simps [simp del]

definition shown_keys :: "bool \<Rightarrow> string list \<Rightarrow> string" where
  "shown_keys isOSX bindings =
    (case bindings of
       [] \<Rightarrow> []
     | b # _ \<Rightarrow> replace_all ''+'' '' + '' (replace_all ''ctrlcmd'' (if isOSX then ''Cmd'' else ''Ctrl'') b))"

definition build_catalog :: "bool \<Rightarrow> (string \<Rightarrow> bool) \<Rightarrow> (string \<Rightarrow> string list) \<Rightarrow> command_entry list \<Rightarrow> catalog_entry list" where
  "build_catalog isOSX isVisible bindings commands =
    List.map_filter
      (\<lambda>c. case cm_label c of
             None \<Rightarrow> None
           | Some label \<Rightarrow>
               if label = [] \<or> starts_with_at (cm_id c) ''_'' 0 \<or> \<not> isVisible (cm_id c) then None
               else Some \<lparr> ce_id = cm_id c, ce_label = label,
                           ce_category = (case cm_category c of Some k \<Rightarrow> k | None \<Rightarrow> []),
                           ce_shortcut = shown_keys isOSX (bindings (cm_id c)) \<rparr>)
      commands"

definition getCatalog :: "catalog_entry list \<Rightarrow> action_finder \<Rightarrow> catalog_entry list \<times> action_finder" where
  "getCatalog built m =
    (case ac_catalog m of Some c \<Rightarrow> (c, m) | None \<Rightarrow> (built, m\<lparr> ac_catalog := Some built \<rparr>))"

definition keybindings_changed :: "action_finder \<Rightarrow> action_finder" where
  "keybindings_changed m = m\<lparr> ac_catalog := None \<rparr>"

definition action_entry :: "string \<Rightarrow> catalog_entry \<Rightarrow> action_item" where
  "action_entry trimmed e =
    \<lparr> ac_id = ''action:'' @ ce_id e, ac_label = ce_label e,
      ac_detail = (if ce_shortcut e \<noteq> [] then ce_shortcut e else ce_category e), ac_commandId = ce_id e,
      ac_score = (case fuzzyScore trimmed (ce_label e @ '' '' @ ce_category e) of Some s \<Rightarrow> s | None \<Rightarrow> 0) \<rparr>"

definition compare_by_score :: "(string \<Rightarrow> string \<Rightarrow> int) \<Rightarrow> ('i \<Rightarrow> int) \<Rightarrow> ('i \<Rightarrow> string) \<Rightarrow> 'i \<Rightarrow> 'i \<Rightarrow> int" where
  "compare_by_score lc score label a b =
    (let diff = score b - score a in if diff \<noteq> 0 then diff else lc (label a) (label b))"

definition action_items :: "(string \<Rightarrow> string \<Rightarrow> int) \<Rightarrow> string \<Rightarrow> nat \<Rightarrow> catalog_entry list \<Rightarrow> action_item list" where
  "action_items lc trimmed limit catalog =
    take limit (sort_by (compare_by_score lc ac_score ac_label) (map (action_entry trimmed) catalog))"

text \<open>The query of Find Action does not await; \<open>built\<close> is the catalog of the registries when it runs.\<close>

definition find_action ::
  "(string \<Rightarrow> string \<Rightarrow> int) \<Rightarrow> catalog_entry list \<Rightarrow> string \<Rightarrow> nat \<Rightarrow> action_finder \<Rightarrow> action_finder"
where
  "find_action lc built q limit m =
    (let m1 = m\<lparr> fd_generation := Suc (fd_generation m) \<rparr>; trimmed = trim q
     in if trimmed = [] then m1\<lparr> fd_state := finder_shows FIdle [] [] \<rparr>
        else (let (catalog, m2) = getCatalog built m1
              in m2\<lparr> fd_state := finder_shows FEmpty trimmed (action_items lc trimmed limit catalog) \<rparr>))"

section \<open>Find Class\<close>

record class_item =
  ci_id :: string
  ci_label :: string
  ci_detail :: string
  ci_uri :: string
  ci_line :: int
  ci_character :: int
  ci_kind :: nat
  ci_score :: int

record class_symbol =
  cs_kind :: nat
  cs_name :: string
  cs_container :: "string option"
  cs_uri :: string
  cs_line :: int
  cs_character :: int

record class_finder = "class_item finder" +
  fc_cache :: "(string \<times> class_item list \<times> int) option"
  fc_waiting :: "(nat \<times> string \<times> nat \<times> class_item list) list"

definition TYPE_KINDS :: "nat list" where "TYPE_KINDS = [5, 10, 11, 23]"

definition CLASS_CACHE_TTL_MS :: int where "CLASS_CACHE_TTL_MS = 3000"

text \<open>\<open>/\.java$/i\<close> and its removal.\<close>

definition is_java_name :: "string \<Rightarrow> bool" where
  "is_java_name s \<longleftrightarrow> ends_with (to_lower s) ''.java''"

definition without_java :: "string \<Rightarrow> string" where
  "without_java s = (if is_java_name s then take (length s - 5) s else s)"

text \<open>
  \<open>path.replace(/^.*?((?:src\/(?:main|test)\/java\/)|(?:src\/)|(?:WebRoot\/WEB-INF\/classes\/))?/, '')\<close>: \<open>lazy_from\<close> are the
  matches in the order in which the engine tries them, the shortest \<open>.*?\<close> first.
\<close>

definition source_root :: regex where
  "source_root =
    Opt (Or (re_seq [re_lit ''src/'', Or (re_lit ''main'') (re_lit ''test''), re_lit ''/java/''])
           (Or (re_lit ''src/'') (re_lit ''WebRoot/WEB-INF/classes/'')))"

definition lazy_from :: "string \<Rightarrow> regex \<Rightarrow> match_state list" where
  "lazy_from s r =
    concat (map (\<lambda>i. rmatch False s r (i, [])) [0..<Suc (length (takeWhile (\<lambda>c. c \<noteq> NL \<and> c \<noteq> CR) s))])"

definition strip_source_root :: "string \<Rightarrow> string" where
  "strip_source_root s = (case lazy_from s source_root of [] \<Rightarrow> s | st # _ \<Rightarrow> drop (fst st) s)"

definition package_of :: "string \<Rightarrow> string" where
  "package_of path =
    join_with ''.'' (filter (\<lambda>s. s \<noteq> []) (butlast (split_on (CHR ''/'') (strip_source_root (without_java (slashes path))))))"

definition class_of_file :: "(string \<Rightarrow> string) \<Rightarrow> string \<Rightarrow> string \<times> string \<Rightarrow> class_item option" where
  "class_of_file resolve_uri q entry =
    (let simpleName = without_java (fst entry); uri = resolve_uri (snd entry)
     in map_option (\<lambda>score.
          \<lparr> ci_id = ''class-file:'' @ uri @ '':'' @ simpleName, ci_label = simpleName, ci_detail = package_of (snd entry),
            ci_uri = uri, ci_line = 0, ci_character = 0, ci_kind = 5, ci_score = score + 40 \<rparr>)
        (fuzzyScore q simpleName))"

text \<open>The loop over the entries: it stops at \<open>3 * limit\<close> results, and tests this after a push.\<close>

fun class_files :: "(string \<Rightarrow> string) \<Rightarrow> string \<Rightarrow> nat \<Rightarrow> (string \<times> string) list \<Rightarrow> class_item list \<Rightarrow> class_item list" where
  "class_files resolve_uri q limit [] results = results"
| "class_files resolve_uri q limit (e # es) results =
    (case class_of_file resolve_uri q e of
       None \<Rightarrow> class_files resolve_uri q limit es results
     | Some item \<Rightarrow>
         (let results' = results @ [item]
          in if limit * 3 \<le> length results' then results' else class_files resolve_uri q limit es results'))"

text \<open>The walk over the folders when the index is not available.\<close>

definition SKIP_DIRS :: "string list" where
  "SKIP_DIRS = [''.git'', ''.svn'', ''node_modules'', ''target'', ''build'', ''dist'', ''.kairo'', ''classes'']"

definition java_children :: "(string \<Rightarrow> string option) \<Rightarrow> file_child list \<Rightarrow> (string \<times> string) list" where
  "java_children relative children =
    map (\<lambda>c. (ch_base c, relative_or_base relative c))
      (filter (\<lambda>c. \<not> ch_isDirectory c \<and> ch_isFile c \<and> is_java_name (ch_base c)) children)"

definition walked_folders :: "file_child list \<Rightarrow> string list" where
  "walked_folders children = map ch_uri (filter (\<lambda>c. ch_isDirectory c \<and> ch_base c \<notin> set SKIP_DIRS) children)"

function walkJavaFiles ::
  "(string \<Rightarrow> file_child list option) \<Rightarrow> (string \<Rightarrow> string option) \<Rightarrow> string list \<Rightarrow> nat \<Rightarrow> (string \<times> string) list \<Rightarrow>
   (string \<times> string) list"
where
  "walkJavaFiles resolve relative queue visited results =
    (case queue of
       [] \<Rightarrow> results
     | u # rest \<Rightarrow>
         if 8000 \<le> visited \<or> 2000 \<le> length results then results
         else (case resolve u of
                 None \<Rightarrow> walkJavaFiles resolve relative rest visited results
               | Some children \<Rightarrow>
                   walkJavaFiles resolve relative (rest @ walked_folders children) (visited + length children)
                     (results @ java_children relative children)))"
  by pat_completeness auto
termination
  by (relation "measures [\<lambda>(_, _, _, visited, _). 8000 - visited, \<lambda>(_, _, queue, _, _). length queue]")
    (auto simp: walked_folders_def, case_tac x2, auto)

declare walkJavaFiles.simps [simp del]

abbreviation best_classes :: "(string \<Rightarrow> string \<Rightarrow> int) \<Rightarrow> nat \<Rightarrow> class_item list \<Rightarrow> class_item list" where
  "best_classes lc limit items \<equiv> take limit (sort_by (compare_by_score lc ci_score ci_label) items)"

definition searchClassesFromFiles ::
  "(string \<Rightarrow> string \<Rightarrow> int) \<Rightarrow> (string \<Rightarrow> string) \<Rightarrow> string \<Rightarrow> nat \<Rightarrow> (string \<times> string) list \<Rightarrow> class_item list"
where
  "searchClassesFromFiles lc resolve_uri q limit listed =
    best_classes lc limit (class_files resolve_uri q limit (filter (is_java_name \<circ> fst) listed) [])"

definition class_of_symbol :: "string \<Rightarrow> class_symbol \<Rightarrow> class_item" where
  "class_of_symbol q s =
    \<lparr> ci_id = ''class:'' @ cs_uri s @ '':'' @ cs_name s, ci_label = cs_name s,
      ci_detail = (case cs_container s of Some p \<Rightarrow> p | None \<Rightarrow> []), ci_uri = cs_uri s, ci_line = cs_line s,
      ci_character = cs_character s, ci_kind = cs_kind s,
      ci_score = (case fuzzyScore q (cs_name s) of Some n \<Rightarrow> n | None \<Rightarrow> 0)
        + (if is_java_name (cs_uri s) \<or> starts_with_at (cs_uri s) ''file:'' 0 then 50 else 0) \<rparr>"

definition symbol_classes :: "(string \<Rightarrow> string \<Rightarrow> int) \<Rightarrow> string \<Rightarrow> nat \<Rightarrow> class_symbol list \<Rightarrow> class_item list" where
  "symbol_classes lc q limit symbols =
    best_classes lc limit (map (class_of_symbol q) (filter (\<lambda>s. cs_kind s \<in> set TYPE_KINDS) symbols))"

definition cached_classes :: "string \<Rightarrow> int \<Rightarrow> class_finder \<Rightarrow> class_item list option" where
  "cached_classes q now m =
    (case fc_cache m of
       Some (cq, items, at) \<Rightarrow> if cq = q \<and> now - at < CLASS_CACHE_TTL_MS \<and> items \<noteq> [] then Some items else None
     | None \<Rightarrow> None)"

definition find_class :: "string \<Rightarrow> class_finder \<Rightarrow> class_finder" where
  "find_class q m =
    (let m1 = m\<lparr> fd_generation := Suc (fd_generation m), fd_cancelled := False \<rparr>; trimmed = trim q
     in if trimmed = [] then m1\<lparr> fd_state := finder_shows FIdle [] [] \<rparr>
        else m1\<lparr> fd_state := finder_loading trimmed \<rparr>)"

text \<open>The file search returned: of a query that still counts the items wait for the state of the language server.\<close>

definition class_files_arrived ::
  "(string \<Rightarrow> string \<Rightarrow> int) \<Rightarrow> (string \<Rightarrow> string) \<Rightarrow> nat \<Rightarrow> string \<Rightarrow> nat \<Rightarrow> (string \<times> string) list \<Rightarrow> class_finder \<Rightarrow> class_finder"
where
  "class_files_arrived lc resolve_uri g trimmed limit listed m =
    (if superseded g m then m
     else m\<lparr> fc_waiting := AList.update g (trimmed, limit, searchClassesFromFiles lc resolve_uri trimmed limit listed) (fc_waiting m) \<rparr>)"

definition publish_classes :: "nat \<Rightarrow> string \<Rightarrow> class_item list \<Rightarrow> class_finder \<Rightarrow> class_finder" where
  "publish_classes g trimmed items m =
    m\<lparr> fd_state := finder_shows FEmpty trimmed items, fc_waiting := AList.delete g (fc_waiting m) \<rparr>"

definition end_class_query :: "nat \<Rightarrow> string \<Rightarrow> class_item list \<Rightarrow> class_item list \<Rightarrow> class_finder \<Rightarrow> class_finder" where
  "end_class_query g trimmed items jdtItems m =
    (if superseded g m then m\<lparr> fc_waiting := AList.delete g (fc_waiting m) \<rparr>
     else publish_classes g trimmed (if jdtItems \<noteq> [] then jdtItems else items) m)"

text \<open>\<open>fetchState\<close> returned. When the server is not ready the query publishes what it has.\<close>

definition java_state_arrived :: "nat \<Rightarrow> bool \<Rightarrow> int \<Rightarrow> class_finder \<Rightarrow> class_finder" where
  "java_state_arrived g ready now m =
    (case map_of (fc_waiting m) g of
       None \<Rightarrow> m
     | Some (trimmed, limit, items) \<Rightarrow>
         if \<not> ready then publish_classes g trimmed items m
         else (case cached_classes trimmed now m of
                 Some jdtItems \<Rightarrow> end_class_query g trimmed items jdtItems m
               | None \<Rightarrow> m))"

text \<open>\<open>workspaceSymbols\<close> returned; an aborted query caches nothing.\<close>

definition class_symbols_arrived ::
  "(string \<Rightarrow> string \<Rightarrow> int) \<Rightarrow> nat \<Rightarrow> int \<Rightarrow> class_symbol list \<Rightarrow> class_finder \<Rightarrow> class_finder"
where
  "class_symbols_arrived lc g now symbols m =
    (case map_of (fc_waiting m) g of
       None \<Rightarrow> m
     | Some (trimmed, limit, items) \<Rightarrow>
         if superseded g m then end_class_query g trimmed items [] m
         else (let jdtItems = symbol_classes lc trimmed limit symbols;
                   m1 = (if jdtItems \<noteq> [] then m\<lparr> fc_cache := Some (trimmed, jdtItems, now) \<rparr> else m)
               in end_class_query g trimmed items jdtItems m1))"

section \<open>The file index\<close>

record 'f file_index =
  ix_cache :: "(string \<times> 'f list \<times> int) option"
  ix_inFlight :: "(string \<times> nat) list"
  ix_fetches :: nat

datatype 'f index_reply = Listing "'f list" | Pending nat

definition INDEX_TTL_MS :: int where "INDEX_TTL_MS = 60000"

definition INDEX_MAX_STALE_MS :: int where "INDEX_MAX_STALE_MS = 300000"

text \<open>A request of the agent; the number stands for its promise.\<close>

definition start_fetch :: "string \<Rightarrow> 'f file_index \<Rightarrow> nat \<times> 'f file_index" where
  "start_fetch key ix =
    (ix_fetches ix, ix\<lparr> ix_inFlight := AList.update key (ix_fetches ix) (ix_inFlight ix), ix_fetches := Suc (ix_fetches ix) \<rparr>)"

definition revalidateInBackground :: "string \<Rightarrow> 'f file_index \<Rightarrow> 'f file_index" where
  "revalidateInBackground key ix = (if map_of (ix_inFlight ix) key \<noteq> None then ix else snd (start_fetch key ix))"

definition join_fetch :: "string \<Rightarrow> 'f file_index \<Rightarrow> 'f index_reply \<times> 'f file_index" where
  "join_fetch key ix =
    (case map_of (ix_inFlight ix) key of
       Some p \<Rightarrow> (Pending p, ix)
     | None \<Rightarrow> (let (p, ix1) = start_fetch key ix in (Pending p, ix1)))"

definition listFiles :: "string \<Rightarrow> int \<Rightarrow> 'f file_index \<Rightarrow> 'f index_reply \<times> 'f file_index" where
  "listFiles key now ix =
    (case ix_cache ix of
       Some (k, files, at) \<Rightarrow>
         if k = key \<and> now - at < INDEX_TTL_MS then (Listing files, ix)
         else if k = key \<and> now - at < INDEX_MAX_STALE_MS then (Listing files, revalidateInBackground key ix)
         else join_fetch key ix
     | None \<Rightarrow> join_fetch key ix)"

text \<open>The agent answered, and the promise settled.\<close>

definition fetch_answered :: "string \<Rightarrow> 'f list \<Rightarrow> int \<Rightarrow> 'f file_index \<Rightarrow> 'f file_index" where
  "fetch_answered key files now ix = ix\<lparr> ix_cache := Some (key, files, now) \<rparr>"

definition fetch_settled :: "string \<Rightarrow> 'f file_index \<Rightarrow> 'f file_index" where
  "fetch_settled key ix = ix\<lparr> ix_inFlight := AList.delete key (ix_inFlight ix) \<rparr>"

definition invalidate_index :: "'f file_index \<Rightarrow> 'f file_index" where
  "invalidate_index ix = ix\<lparr> ix_cache := None, ix_inFlight := [] \<rparr>"

section \<open>Facts\<close>

lemma length_action_items: "length (action_items lc trimmed limit catalog) = min limit (length catalog)"
  by (simp add: action_items_def)

lemma action_items_mset:
  "length catalog \<le> limit \<Longrightarrow> mset (action_items lc trimmed limit catalog) = mset (map (action_entry trimmed) catalog)"
  by (simp add: action_items_def)

lemma rmatch_lit: "rmatch False s (re_lit p) (i, cs) = (if starts_with_at s p i then [(i + length p, cs)] else [])"
proof (induction p arbitrary: i)
  case Nil
  then show ?case by (simp add: re_lit_def re_seq_def)
next
  case (Cons c p)
  then show ?case by (auto simp: re_lit_def re_seq_def one_char_def same_char_def)
qed

lemma source_root_elsewhere:
  assumes "\<not> starts_with_at s ''src/'' 0" and "\<not> starts_with_at s ''WebRoot/WEB-INF/classes/'' 0"
  shows "strip_source_root s = s"
proof -
  have "rmatch False s source_root (0, []) = [(0, [])]"
    using assms by (simp add: source_root_def Opt_def re_seq_def rmatch_lit del: starts_with_at_Cons)
  then have "\<exists>rest. lazy_from s source_root = (0, []) # rest"
    by (simp add: lazy_from_def upt_conv_Cons del: upt_Suc)
  then show ?thesis by (auto simp: strip_source_root_def)
qed

lemma late_class_query_publishes:
  assumes "map_of (fc_waiting m) g = Some (trimmed, limit, items)"
  shows "fd_state (java_state_arrived g False now m) = finder_shows FEmpty trimmed items"
  using assms by (simp add: java_state_arrived_def publish_classes_def)

text \<open>A listing the index hands out is younger than five minutes.\<close>

lemma listing_age:
  assumes "listFiles key now ix = (Listing files, ix1)"
  shows "\<exists>at. ix_cache ix = Some (key, files, at) \<and> now - at < INDEX_MAX_STALE_MS"
  using assms
  by (auto simp: listFiles_def join_fetch_def INDEX_TTL_MS_def INDEX_MAX_STALE_MS_def split: option.splits prod.splits if_splits)

end
