(* ===== verification/SearchStream.thy ===== *)
theory SearchStream
  imports NewestWins Prelude
begin

text \<open>
  \<open>search-extension/src/browser/search-stream-service.ts\<close>: the incremental search over a web socket. Each search is a
  session with a number, which also names its socket and its match buffer. The buffer is one mutable array that the
  published states share: a state holds the number of the buffer and \<open>sv_buffers\<close> is the store. \<open>sv_log\<close> are the states
  given to the listeners, the newest last. Socket events, the idle timer and the notification timer are operations.
\<close>

datatype stream_status = StreamIdle | Streaming | StreamDone | StreamError

record stream_state =
  ss_status :: stream_status
  ss_buffer :: "nat option"
  ss_totalMatches :: int
  ss_batchIndex :: int
  ss_error :: "string option"
  ss_truncated :: "bool option"
  ss_interrupted :: bool
  ss_filesSearched :: "int option"
  ss_revision :: "nat option"

definition INITIAL_STREAM_STATE :: stream_state where
  "INITIAL_STREAM_STATE =
    \<lparr> ss_status = StreamIdle, ss_buffer = None, ss_totalMatches = 0, ss_batchIndex = 0, ss_error = None,
      ss_truncated = None, ss_interrupted = False, ss_filesSearched = None, ss_revision = None \<rparr>"

text \<open>How the promise of a session settled.\<close>

datatype stream_outcome = Resolved | Rejected string | RejectedCancelled

record stream_session =
  se_doneReceived :: bool
  se_settled :: bool
  se_aborted :: bool
  se_outcome :: "stream_outcome option"

definition new_session :: stream_session where
  "new_session = \<lparr> se_doneReceived = False, se_settled = False, se_aborted = False, se_outcome = None \<rparr>"

record 'm stream_service =
  sv_state :: stream_state
  sv_buffers :: "nat \<Rightarrow> 'm list"
  sv_buffer :: "nat option"
  sv_revision :: nat
  sv_notifyTimer :: "nat option"
  sv_pendingTotal :: int
  sv_pendingBatchIndex :: int
  sv_counter :: nat
  sv_current :: "nat option"
  sv_ws :: "nat option"
  sv_sessions :: "nat \<Rightarrow> stream_session"
  sv_log :: "stream_state list"

text \<open>The fields of a message that is JSON with the kind \<open>searchStream\<close>; another message does nothing.\<close>

record 'm stream_event =
  me_error :: "string option"
  me_done :: bool
  me_batch :: "'m list"
  me_total :: "int option"
  me_batchIndex :: int
  me_truncated :: "bool option"
  me_filesSearched :: "int option"

definition publish :: "stream_state \<Rightarrow> 'm stream_service \<Rightarrow> 'm stream_service" where
  "publish st sv = sv\<lparr> sv_state := st, sv_log := sv_log sv @ [st] \<rparr>"

definition buffer_of :: "'m stream_service \<Rightarrow> 'm list" where
  "buffer_of sv = (case sv_buffer sv of Some b \<Rightarrow> sv_buffers sv b | None \<Rightarrow> [])"

definition shown_matches :: "'m stream_service \<Rightarrow> stream_state \<Rightarrow> 'm list" where
  "shown_matches sv st = (case ss_buffer st of Some b \<Rightarrow> sv_buffers sv b | None \<Rightarrow> [])"

definition stream_reset :: "'m stream_service \<Rightarrow> 'm stream_service" where
  "stream_reset sv = publish INITIAL_STREAM_STATE sv"

definition clearNotifyTimer :: "'m stream_service \<Rightarrow> 'm stream_service" where
  "clearNotifyTimer sv = sv\<lparr> sv_notifyTimer := None \<rparr>"

definition set_session :: "nat \<Rightarrow> stream_session \<Rightarrow> 'm stream_service \<Rightarrow> 'm stream_service" where
  "set_session sid se sv = sv\<lparr> sv_sessions := (sv_sessions sv)(sid := se) \<rparr>"

text \<open>\<open>cancel\<close>.\<close>

definition stream_cancel :: "'m stream_service \<Rightarrow> 'm stream_service" where
  "stream_cancel sv =
    (let sv1 = clearNotifyTimer sv;
         sv2 = (case sv_current sv1 of
                  None \<Rightarrow> sv1
                | Some sid \<Rightarrow>
                    (let se = sv_sessions sv1 sid;
                         se1 = se\<lparr> se_aborted := True, se_settled := True,
                                   se_outcome := (if se_settled se then se_outcome se else Some RejectedCancelled) \<rparr>
                     in set_session sid se1
                          (sv1\<lparr> sv_ws := (if sv_ws sv1 = Some sid then None else sv_ws sv1), sv_current := None \<rparr>)))
     in if ss_status (sv_state sv2) = Streaming
        then publish INITIAL_STREAM_STATE (sv2\<lparr> sv_buffer := None \<rparr>)
        else sv2)"

text \<open>
  \<open>searchStream\<close>; \<open>connected\<close> is whether the constructor of the socket returned. The outcome of a search without a socket
  is that of its number in \<open>sv_sessions\<close>, which has no events.
\<close>

definition searchStream :: "bool \<Rightarrow> 'm stream_service \<Rightarrow> 'm stream_service" where
  "searchStream connected sv =
    (let sv1 = stream_cancel sv; sid = Suc (sv_counter sv1);
         sv2 = publish (INITIAL_STREAM_STATE\<lparr> ss_status := Streaming, ss_buffer := Some sid, ss_revision := Some 0 \<rparr>)
                 (clearNotifyTimer (sv1\<lparr> sv_counter := sid, sv_buffer := Some sid, sv_buffers := (sv_buffers sv1)(sid := []),
                    sv_revision := 0, sv_pendingTotal := 0, sv_pendingBatchIndex := 0 \<rparr>))
     in if \<not> connected
        then set_session sid (new_session\<lparr> se_settled := True, se_outcome := Some (Rejected ''Failed to create WebSocket connection'') \<rparr>)
               (publish (INITIAL_STREAM_STATE\<lparr> ss_status := StreamError, ss_error := Some ''Failed to create WebSocket connection'' \<rparr>) sv2)
        else set_session sid new_session (sv2\<lparr> sv_current := Some sid, sv_ws := Some sid \<rparr>))"

definition finish :: "nat \<Rightarrow> string option \<Rightarrow> 'm stream_service \<Rightarrow> 'm stream_service" where
  "finish sid err sv =
    (let se = sv_sessions sv sid in
     if se_settled se then sv
     else
       (let outcome = (if se_aborted se then se_outcome se
                       else case err of Some e \<Rightarrow> Some (Rejected e) | None \<Rightarrow> Some Resolved)
        in set_session sid (se\<lparr> se_settled := True, se_outcome := outcome \<rparr>)
             (sv\<lparr> sv_current := (if sv_current sv = Some sid then None else sv_current sv),
                  sv_ws := (if sv_ws sv = Some sid then None else sv_ws sv) \<rparr>)))"

abbreviation dead :: "nat \<Rightarrow> 'm stream_service \<Rightarrow> bool" where
  "dead sid sv \<equiv> sv_current sv \<noteq> Some sid \<or> se_aborted (sv_sessions sv sid) \<or> se_settled (sv_sessions sv sid)"

text \<open>The error states the handlers publish, and \<open>??\<close>.\<close>

definition or_else :: "'a option \<Rightarrow> 'a option \<Rightarrow> 'a option" where
  "or_else a b = (case a of Some _ \<Rightarrow> a | None \<Rightarrow> b)"

definition error_state :: "string \<Rightarrow> bool option \<Rightarrow> int option \<Rightarrow> 'm stream_service \<Rightarrow> stream_state" where
  "error_state e trunc searched sv =
    \<lparr> ss_status = StreamError, ss_buffer = sv_buffer sv, ss_totalMatches = ss_totalMatches (sv_state sv),
      ss_batchIndex = ss_batchIndex (sv_state sv), ss_error = Some e, ss_truncated = trunc, ss_interrupted = False,
      ss_filesSearched = searched, ss_revision = Some (sv_revision sv) \<rparr>"

definition idle_timeout :: "nat \<Rightarrow> 'm stream_service \<Rightarrow> 'm stream_service" where
  "idle_timeout sid sv =
    (if dead sid sv \<or> ss_status (sv_state sv) \<noteq> Streaming then sv
     else finish sid (Some ''Search timed out waiting for results'')
            (publish (error_state ''Search timed out waiting for results'' None None sv) sv))"

definition scheduleStreamingUpdate :: "nat \<Rightarrow> int \<Rightarrow> int \<Rightarrow> 'm stream_service \<Rightarrow> 'm stream_service" where
  "scheduleStreamingUpdate sid n batchIndex sv =
    (let sv1 = sv\<lparr> sv_pendingTotal := n, sv_pendingBatchIndex := batchIndex \<rparr>
     in if sv_notifyTimer sv1 \<noteq> None then sv1 else sv1\<lparr> sv_notifyTimer := Some sid \<rparr>)"

text \<open>The notification timer fires; its callback belongs to the session that set it.\<close>

definition notify_timeout :: "'m stream_service \<Rightarrow> 'm stream_service" where
  "notify_timeout sv =
    (case sv_notifyTimer sv of
       None \<Rightarrow> sv
     | Some sid \<Rightarrow>
         (let sv1 = sv\<lparr> sv_notifyTimer := None \<rparr> in
          if dead sid sv1 \<or> ss_status (sv_state sv1) \<noteq> Streaming then sv1
          else
            (let sv2 = sv1\<lparr> sv_revision := Suc (sv_revision sv1) \<rparr>
             in publish
                  \<lparr> ss_status = Streaming, ss_buffer = sv_buffer sv2, ss_totalMatches = sv_pendingTotal sv2,
                    ss_batchIndex = sv_pendingBatchIndex sv2, ss_error = None, ss_truncated = ss_truncated (sv_state sv2),
                    ss_interrupted = False, ss_filesSearched = ss_filesSearched (sv_state sv2),
                    ss_revision = Some (sv_revision sv2) \<rparr> sv2)))"

definition message :: "nat \<Rightarrow> 'm stream_event \<Rightarrow> 'm stream_service \<Rightarrow> 'm stream_service" where
  "message sid ev sv =
    (if dead sid sv then sv
     else (case me_error ev of
             Some (c # e) \<Rightarrow>
               (let sv1 = clearNotifyTimer sv
                in finish sid (Some (c # e))
                     (publish (error_state (c # e) (or_else (me_truncated ev) (ss_truncated (sv_state sv1)))
                        (or_else (me_filesSearched ev) (ss_filesSearched (sv_state sv1))) sv1) sv1))
           | _ \<Rightarrow>
               if me_done ev then
                 (let sv1 = clearNotifyTimer (set_session sid ((sv_sessions sv sid)\<lparr> se_doneReceived := True \<rparr>) sv);
                      sv2 = sv1\<lparr> sv_revision := Suc (sv_revision sv1) \<rparr>;
                      n = int (length (buffer_of sv2));
                      total' = (case me_total ev of Some t \<Rightarrow> t | None \<Rightarrow> n)
                  in finish sid None
                       (publish
                          \<lparr> ss_status = StreamDone, ss_buffer = sv_buffer sv2,
                            ss_totalMatches = (if total' = 0 then n else total'),
                            ss_batchIndex = ss_batchIndex (sv_state sv2), ss_error = None,
                            ss_truncated = Some (case me_truncated ev of Some b \<Rightarrow> b | None \<Rightarrow> n < total'),
                            ss_interrupted = False,
                            ss_filesSearched = or_else (me_filesSearched ev) (ss_filesSearched (sv_state sv2)),
                            ss_revision = Some (sv_revision sv2) \<rparr> sv2))
               else if me_batch ev = [] then sv
               else
                 (let sv1 = (case sv_buffer sv of
                               Some b \<Rightarrow> sv\<lparr> sv_buffers := (sv_buffers sv)(b := sv_buffers sv b @ me_batch ev) \<rparr>
                             | None \<Rightarrow> sv)
                  in scheduleStreamingUpdate sid
                       (case me_total ev of Some t \<Rightarrow> t | None \<Rightarrow> int (length (buffer_of sv1))) (me_batchIndex ev) sv1)))"

abbreviation detach :: "nat \<Rightarrow> 'm stream_service \<Rightarrow> 'm stream_service" where
  "detach sid sv \<equiv>
    sv\<lparr> sv_ws := (if sv_ws sv = Some sid then None else sv_ws sv),
        sv_current := (if sv_current sv = Some sid then None else sv_current sv) \<rparr>"

definition socket_closed :: "nat \<Rightarrow> 'm stream_service \<Rightarrow> 'm stream_service" where
  "socket_closed sid sv =
    (let sv1 = detach sid sv; se = sv_sessions sv1 sid in
     if se_settled se \<or> se_aborted se then sv1
     else
       (let sv2 = clearNotifyTimer sv1 in
        if \<not> se_doneReceived se then
          (let sv3 = sv2\<lparr> sv_revision := Suc (sv_revision sv2) \<rparr>
           in finish sid (Some ''interrupted'')
                (publish
                   \<lparr> ss_status = StreamError, ss_buffer = sv_buffer sv3, ss_totalMatches = int (length (buffer_of sv3)),
                     ss_batchIndex = ss_batchIndex (sv_state sv3), ss_error = Some ''interrupted'', ss_truncated = Some True,
                     ss_interrupted = True, ss_filesSearched = ss_filesSearched (sv_state sv3),
                     ss_revision = Some (sv_revision sv3) \<rparr> sv3))
        else finish sid None sv2))"

definition socket_failed :: "nat \<Rightarrow> 'm stream_service \<Rightarrow> 'm stream_service" where
  "socket_failed sid sv =
    (let sv1 = detach sid sv; se = sv_sessions sv1 sid in
     if se_settled se \<or> se_aborted se then sv1
     else
       (let sv2 = clearNotifyTimer sv1
        in finish sid (Some ''WebSocket connection error'')
             (publish (error_state ''WebSocket connection error'' (ss_truncated (sv_state sv2))
                (ss_filesSearched (sv_state sv2)) sv2) sv2)))"

section \<open>Runs\<close>

datatype 'm stream_op =
    SearchStream bool
  | CancelStream
  | ResetStream
  | IdleTimeout nat
  | NotifyTimeout
  | Message nat "'m stream_event"
  | SocketClosed nat
  | SocketFailed nat

fun stream_step :: "'m stream_op \<Rightarrow> 'm stream_service \<Rightarrow> 'm stream_service" where
  "stream_step (SearchStream connected) sv = searchStream connected sv"
| "stream_step CancelStream sv = stream_cancel sv"
| "stream_step ResetStream sv = stream_reset sv"
| "stream_step (IdleTimeout sid) sv = idle_timeout sid sv"
| "stream_step NotifyTimeout sv = notify_timeout sv"
| "stream_step (Message sid ev) sv = message sid ev sv"
| "stream_step (SocketClosed sid) sv = socket_closed sid sv"
| "stream_step (SocketFailed sid) sv = socket_failed sid sv"

fun stream_answers :: "'m stream_op \<Rightarrow> nat option" where
  "stream_answers (IdleTimeout sid) = Some sid"
| "stream_answers (Message sid _) = Some sid"
| "stream_answers (SocketClosed sid) = Some sid"
| "stream_answers (SocketFailed sid) = Some sid"
| "stream_answers _ = None"

definition initial_stream :: "'m stream_service" where
  "initial_stream =
    \<lparr> sv_state = INITIAL_STREAM_STATE, sv_buffers = (\<lambda>_. []), sv_buffer = None, sv_revision = 0, sv_notifyTimer = None,
      sv_pendingTotal = 0, sv_pendingBatchIndex = 0, sv_counter = 0, sv_current = None, sv_ws = None,
      sv_sessions = (\<lambda>_. new_session\<lparr> se_settled := True \<rparr>), sv_log = [] \<rparr>"

text \<open>
  Only the newest session can be current, and the socket is its own; every other session is settled, and those that were
  begun have an outcome.
\<close>

definition stream_inv :: "'m stream_service \<Rightarrow> bool" where
  "stream_inv sv \<longleftrightarrow>
    (\<forall>sid. sv_current sv = Some sid \<longrightarrow> sid = sv_counter sv \<and> \<not> se_settled (sv_sessions sv sid) \<and> \<not> se_aborted (sv_sessions sv sid)
        \<and> sv_buffer sv = Some sid)
    \<and> (\<forall>sid. sv_current sv \<noteq> Some sid \<longrightarrow> se_settled (sv_sessions sv sid))
    \<and> (\<forall>sid. 0 < sid \<and> sid \<le> sv_counter sv \<and> se_settled (sv_sessions sv sid) \<longrightarrow> se_outcome (sv_sessions sv sid) \<noteq> None)
    \<and> sv_ws sv = sv_current sv"

lemma stream_inv_initial: "stream_inv initial_stream"
  by (simp add: stream_inv_def initial_stream_def)

section \<open>Facts\<close>

lemmas stream_ops = stream_cancel_def searchStream_def finish_def idle_timeout_def scheduleStreamingUpdate_def
  notify_timeout_def message_def socket_closed_def socket_failed_def stream_reset_def

lemmas stream_parts = publish_def clearNotifyTimer_def set_session_def new_session_def

lemma publish_inv [simp]: "stream_inv (publish st sv) = stream_inv sv"
  by (simp add: publish_def stream_inv_def)

lemma timer_inv [simp]: "stream_inv (sv\<lparr> sv_notifyTimer := x \<rparr>) = stream_inv sv" "stream_inv (clearNotifyTimer sv) = stream_inv sv"
  by (simp_all add: stream_inv_def clearNotifyTimer_def)

lemma small_inv [simp]:
  "stream_inv (sv\<lparr> sv_revision := n \<rparr>) = stream_inv sv" "stream_inv (sv\<lparr> sv_buffers := bs \<rparr>) = stream_inv sv"
  "stream_inv (sv\<lparr> sv_pendingTotal := a, sv_pendingBatchIndex := c \<rparr>) = stream_inv sv"
  by (simp_all add: stream_inv_def)

lemma schedule_inv [simp]: "stream_inv (scheduleStreamingUpdate sid n b sv) = stream_inv sv"
  by (simp add: scheduleStreamingUpdate_def Let_def stream_inv_def)

lemma done_inv: "stream_inv sv \<Longrightarrow> stream_inv (set_session sid ((sv_sessions sv sid)\<lparr> se_doneReceived := True \<rparr>) sv)"
  by (simp add: stream_inv_def set_session_def)

lemma finish_inv: "stream_inv sv \<Longrightarrow> stream_inv (finish sid err sv)"
  by (auto simp: stream_inv_def finish_def set_session_def Let_def split: option.splits)

lemma cancel_inv: "stream_inv sv \<Longrightarrow> stream_inv (stream_cancel sv)"
  by (auto simp: stream_cancel_def stream_inv_def stream_parts Let_def split: option.splits)

lemma cancel_current [simp]: "sv_current (stream_cancel sv) = None" "sv_counter (stream_cancel sv) = sv_counter sv"
  by (auto simp: stream_cancel_def stream_parts Let_def split: option.splits)

lemma search_inv: "stream_inv sv \<Longrightarrow> stream_inv (searchStream connected sv)"
  using cancel_inv [of sv] cancel_current [of sv]
  by (auto simp: searchStream_def stream_inv_def stream_parts Let_def)

lemma detach_dead: "stream_inv sv \<Longrightarrow> se_settled (sv_sessions sv sid) \<Longrightarrow> detach sid sv = sv"
  by (auto simp: stream_inv_def)

lemma closed_alive:
  "stream_inv sv \<Longrightarrow> \<not> se_settled (sv_sessions sv sid) \<Longrightarrow> sv_current sv = Some sid \<and> \<not> se_aborted (sv_sessions sv sid)"
  by (auto simp: stream_inv_def)

text \<open>\<open>finish\<close> after the handlers of a socket that ended have detached it.\<close>

lemma finish_detach: "\<not> se_settled (sv_sessions sv sid) \<Longrightarrow> finish sid err (detach sid sv) = finish sid err sv"
  by (simp add: finish_def Let_def set_session_def)

lemma socket_closed_alt:
  assumes "stream_inv sv"
  shows "socket_closed sid sv =
    (if se_settled (sv_sessions sv sid) then sv
     else if se_doneReceived (sv_sessions sv sid) then finish sid None (clearNotifyTimer sv)
     else finish sid (Some ''interrupted'')
       (publish
          \<lparr> ss_status = StreamError, ss_buffer = sv_buffer sv, ss_totalMatches = int (length (buffer_of sv)),
            ss_batchIndex = ss_batchIndex (sv_state sv), ss_error = Some ''interrupted'', ss_truncated = Some True,
            ss_interrupted = True, ss_filesSearched = ss_filesSearched (sv_state sv),
            ss_revision = Some (Suc (sv_revision sv)) \<rparr>
          ((clearNotifyTimer sv)\<lparr> sv_revision := Suc (sv_revision sv) \<rparr>)))"
  using detach_dead [OF assms, of sid] closed_alive [OF assms, of sid]
  by (auto simp: socket_closed_def Let_def finish_def stream_parts buffer_of_def split: option.splits)

lemma socket_failed_alt:
  assumes "stream_inv sv"
  shows "socket_failed sid sv =
    (if se_settled (sv_sessions sv sid) then sv
     else finish sid (Some ''WebSocket connection error'')
       (publish (error_state ''WebSocket connection error'' (ss_truncated (sv_state sv)) (ss_filesSearched (sv_state sv)) sv)
          (clearNotifyTimer sv)))"
  using detach_dead [OF assms, of sid] closed_alive [OF assms, of sid]
  by (auto simp: socket_failed_def Let_def finish_def stream_parts error_state_def)

lemma step_inv: "stream_inv sv \<Longrightarrow> stream_inv (stream_step e sv)"
proof (cases e)
  case (Message sid ev)
  assume "stream_inv sv"
  then show ?thesis
    unfolding Message stream_step.simps message_def Let_def
    by (auto intro!: finish_inv done_inv split: option.splits list.splits)
qed (auto simp: socket_closed_alt socket_failed_alt stream_reset_def idle_timeout_def notify_timeout_def Let_def
    intro!: finish_inv cancel_inv search_inv split: option.splits)

lemma step_counter: "sv_counter (stream_step e sv) = (case e of SearchStream _ \<Rightarrow> Suc (sv_counter sv) | _ \<Rightarrow> sv_counter sv)"
  by (cases e) (auto simp: searchStream_def idle_timeout_def notify_timeout_def message_def socket_closed_def socket_failed_def
      stream_reset_def finish_def scheduleStreamingUpdate_def stream_parts Let_def split: option.splits list.splits)

lemma settled_ignored:
  assumes "stream_inv sv" and "se_settled (sv_sessions sv sid)" and "stream_answers e = Some sid"
  shows "stream_step e sv = sv"
  using assms
  by (cases e) (auto simp: idle_timeout_def message_def socket_closed_alt socket_failed_alt)

interpretation streams: newest_wins stream_step sv_counter stream_answers stream_inv
proof
  show "stream_inv (stream_step e s)" if "stream_inv s" for s :: "'m stream_service" and e
    using that by (rule step_inv)
  show "sv_counter s \<le> sv_counter (stream_step e s)" if "stream_inv s" for s :: "'m stream_service" and e
    by (simp add: step_counter split: stream_op.splits)
  show "stream_step e s = s" if "stream_inv s" "stream_answers e = Some g" "g < sv_counter s" for s :: "'m stream_service" and e g
  proof (rule settled_ignored [OF that(1) _ that(2)])
    have "sv_current s \<noteq> Some g" using that(1,3) by (auto simp: stream_inv_def)
    then show "se_settled (sv_sessions s g)" using that(1) by (simp add: stream_inv_def)
  qed
qed

section \<open>What a search shows\<close>

fun progress :: "nat \<Rightarrow> 'm stream_op \<Rightarrow> bool" where
  "progress sid (Message s ev) \<longleftrightarrow> s = sid \<and> me_error ev = None \<and> \<not> me_done ev"
| "progress sid NotifyTimeout \<longleftrightarrow> True"
| "progress sid _ \<longleftrightarrow> False"

fun received :: "'m stream_op \<Rightarrow> 'm list" where
  "received (Message _ ev) = me_batch ev"
| "received _ = []"

definition streams :: "nat \<Rightarrow> 'm stream_service \<Rightarrow> bool" where
  "streams sid sv \<longleftrightarrow>
    stream_inv sv \<and> sv_current sv = Some sid \<and> \<not> se_doneReceived (sv_sessions sv sid) \<and> ss_status (sv_state sv) = Streaming"

lemma streams_facts:
  "streams sid sv \<Longrightarrow> sv_buffer sv = Some sid \<and> \<not> se_settled (sv_sessions sv sid) \<and> \<not> se_aborted (sv_sessions sv sid)"
  by (auto simp: streams_def stream_inv_def)

lemma search_streams:
  assumes "stream_inv sv"
  shows "streams (Suc (sv_counter sv)) (searchStream True sv)" and "sv_buffers (searchStream True sv) (Suc (sv_counter sv)) = []"
  using search_inv [OF assms, of True] cancel_current [of sv]
  by (auto simp: streams_def searchStream_def stream_parts INITIAL_STREAM_STATE_def Let_def)

lemma progress_step:
  assumes "streams sid sv" and "progress sid e"
  shows "streams sid (stream_step e sv)"
    and "sv_buffers (stream_step e sv) sid = sv_buffers sv sid @ received e"
proof -
  have "stream_inv (stream_step e sv)" using assms(1) step_inv by (auto simp: streams_def)
  then show "streams sid (stream_step e sv)" and "sv_buffers (stream_step e sv) sid = sv_buffers sv sid @ received e"
    using assms streams_facts [OF assms(1)]
    by (cases e; auto simp: streams_def message_def notify_timeout_def scheduleStreamingUpdate_def publish_def Let_def
        split: option.splits)+
qed

lemma progress_run:
  assumes "streams sid sv" and "list_all (progress sid) ops"
  shows "streams sid (fold stream_step ops sv) \<and>
    sv_buffers (fold stream_step ops sv) sid = sv_buffers sv sid @ concat (map received ops)"
  using assms by (induction ops arbitrary: sv) (simp_all add: progress_step)

text \<open>How the search ends: a message that says so, or a socket that closes.\<close>

lemma done_end:
  assumes "streams sid sv" and "me_error ev = None" and "me_done ev"
  shows "ss_status (sv_state (message sid ev sv)) = StreamDone"
    and "shown_matches (message sid ev sv) (sv_state (message sid ev sv)) = sv_buffers sv sid"
    and "se_outcome (sv_sessions (message sid ev sv) sid) = Some Resolved"
  using assms streams_facts [OF assms(1)]
  by (auto simp: streams_def message_def finish_def stream_parts shown_matches_def Let_def)

lemma closed_end:
  assumes "streams sid sv"
  shows "ss_status (sv_state (socket_closed sid sv)) = StreamError \<and> ss_interrupted (sv_state (socket_closed sid sv))"
    and "shown_matches (socket_closed sid sv) (sv_state (socket_closed sid sv)) = sv_buffers sv sid"
    and "ss_totalMatches (sv_state (socket_closed sid sv)) = int (length (sv_buffers sv sid))"
    and "se_outcome (sv_sessions (socket_closed sid sv) sid) = Some (Rejected ''interrupted'')"
  using assms streams_facts [OF assms(1)]
  by (auto simp: streams_def socket_closed_alt finish_def stream_parts shown_matches_def buffer_of_def Let_def)

text \<open>An error of the socket publishes the matches that arrived, under the revision and the total of the last notification.\<close>

lemma failed_end:
  assumes "streams sid sv"
  shows "shown_matches (socket_failed sid sv) (sv_state (socket_failed sid sv)) = sv_buffers sv sid"
    and "ss_revision (sv_state (socket_failed sid sv)) = Some (sv_revision sv)"
    and "ss_totalMatches (sv_state (socket_failed sid sv)) = ss_totalMatches (sv_state sv)"
  using assms streams_facts [OF assms(1)]
  by (auto simp: streams_def socket_failed_alt finish_def error_state_def stream_parts shown_matches_def Let_def)

lemma message_revision: "streams sid sv \<Longrightarrow> progress sid (Message sid ev) \<Longrightarrow>
    sv_revision (message sid ev sv) = sv_revision sv \<and> ss_totalMatches (sv_state (message sid ev sv)) = ss_totalMatches (sv_state sv)"
  by (auto simp: message_def scheduleStreamingUpdate_def Let_def split: option.splits)

section \<open>Promises\<close>

text \<open>A settled outcome stays.\<close>

lemma outcome_stays:
  assumes "stream_inv sv" and "0 < sid" "sid \<le> sv_counter sv" and "se_settled (sv_sessions sv sid)"
  shows "sv_sessions (stream_step e sv) sid = sv_sessions sv sid"
proof -
  have nc: "sv_current sv \<noteq> Some sid" using assms(1,4) by (auto simp: stream_inv_def)
  have cancel: "sv_sessions (stream_cancel sv) sid = sv_sessions sv sid"
    using nc by (auto simp: stream_cancel_def stream_parts Let_def split: option.splits)
  show ?thesis
  proof (cases "stream_answers e = Some sid")
    case True
    then show ?thesis using settled_ignored [OF assms(1,4)] by simp
  next
    case False
    then show ?thesis using assms cancel
      by (cases e) (auto simp: searchStream_def stream_reset_def idle_timeout_def notify_timeout_def message_def socket_closed_alt
          socket_failed_alt finish_def scheduleStreamingUpdate_def stream_parts Let_def split: option.splits list.splits)
  qed
qed

lemma outcome_stays_run:
  assumes "stream_inv sv" and "0 < sid" "sid \<le> sv_counter sv" and "se_settled (sv_sessions sv sid)"
  shows "sv_sessions (fold stream_step ops sv) sid = sv_sessions sv sid"
  using assms
proof (induction ops arbitrary: sv)
  case (Cons e ops)
  have "sid \<le> sv_counter (stream_step e sv)" using Cons.prems(3) by (simp add: step_counter split: stream_op.splits)
  then show ?case using Cons step_inv [OF Cons.prems(1), of e] outcome_stays [OF Cons.prems, of e] by simp
qed simp

end
