(* ===== verification/SearchSession.thy ===== *)
theory SearchSession
  imports SearchStream JsRegex
begin

text \<open>
  \<open>search-extension/src/browser/search-session-model.ts\<close> on top of the stream of \<open>SearchStream\<close>: the state a search view
  shows. The model subscribes to the stream service; \<open>sx_sub\<close> is the request its subscription belongs to and the options
  of it. What follows an \<open>await\<close> is an operation that names the request. The state of a streamed search shares the match
  buffer of the stream.
\<close>

section \<open>Options\<close>

record search_options =
  so_workspaceId :: string
  so_rootPath :: "string option"
  so_query :: "string option"
  so_isRegex :: "bool option"
  so_caseSensitive :: "bool option"
  so_wholeWord :: "bool option"
  so_include :: "string list option"
  so_exclude :: "string list option"
  so_contextLines :: "int option"
  so_maxResults :: "int option"
  so_previewReplace :: "string option"
  so_displayLimit :: "int option"

text \<open>\<open>[...new Set(xs)]\<close>: the first occurrences.\<close>

definition unique :: "'a list \<Rightarrow> 'a list" where
  "unique xs = rev (remdups (rev xs))"

definition normalizeGlobs :: "string list option \<Rightarrow> string list option" where
  "normalizeGlobs globs =
    (case globs of
       None \<Rightarrow> None
     | Some gs \<Rightarrow>
         (let normalized = unique (filter (\<lambda>g. g \<noteq> []) (map trim gs)) in if normalized = [] then None else Some normalized))"

definition normalizeOptions :: "search_options \<Rightarrow> search_options" where
  "normalizeOptions options =
    options\<lparr> so_query := or_else (so_query options) (Some []), so_isRegex := or_else (so_isRegex options) (Some False),
      so_caseSensitive := or_else (so_caseSensitive options) (Some False),
      so_wholeWord := or_else (so_wholeWord options) (Some False),
      so_include := normalizeGlobs (so_include options), so_exclude := normalizeGlobs (so_exclude options) \<rparr>"

section \<open>The state\<close>

datatype session_status = SessIdle | SessLoading | SessResults | SessEmpty | SessError | SessCancelled

datatype 'm match_list = Own "'m list" | Shared "nat option"

record 'm session_state =
  sn_status :: session_status
  sn_requestId :: nat
  sn_options :: "search_options option"
  sn_matches :: "'m match_list"
  sn_totalMatches :: int
  sn_truncated :: bool
  sn_elapsedMs :: "int option"
  sn_erroredFiles :: "string list"
  sn_error :: "string option"
  sn_streamState :: "stream_state option"

definition SESSION_INITIAL_STATE :: "'m session_state" where
  "SESSION_INITIAL_STATE =
    \<lparr> sn_status = SessIdle, sn_requestId = 0, sn_options = None, sn_matches = Own [], sn_totalMatches = 0, sn_truncated = False,
      sn_elapsedMs = None, sn_erroredFiles = [], sn_error = None, sn_streamState = None \<rparr>"

record 'm search_response =
  sr_matches :: "'m list"
  sr_totalMatches :: int
  sr_truncated :: bool
  sr_elapsedMs :: int
  sr_erroredFiles :: "string list"

record 'm search_session =
  sx_state :: "'m session_state"
  sx_requestId :: nat
  sx_sub :: "(nat \<times> search_options) option"
  sx_service :: "'m stream_service"

datatype search_failure = SearchCancelled | SearchError string

definition bare_state :: "session_status \<Rightarrow> nat \<Rightarrow> search_options option \<Rightarrow> 'm session_state" where
  "bare_state st rid options = SESSION_INITIAL_STATE\<lparr> sn_status := st, sn_requestId := rid, sn_options := options \<rparr>"

section \<open>One request and its answer\<close>

definition session_search :: "search_options \<Rightarrow> 'm search_session \<Rightarrow> 'm search_session" where
  "session_search options m =
    (let rid = Suc (sx_requestId m)
     in m\<lparr> sx_requestId := rid, sx_state := bare_state SessLoading rid (Some (normalizeOptions options)) \<rparr>)"

definition search_answered ::
  "nat \<Rightarrow> search_options \<Rightarrow> search_failure + 'm search_response \<Rightarrow> 'm search_session \<Rightarrow> 'm search_session"
where
  "search_answered rid normalized answer m =
    (if rid \<noteq> sx_requestId m then m
     else m\<lparr> sx_state :=
       (case answer of
          Inr r \<Rightarrow>
            \<lparr> sn_status = (if sr_matches r \<noteq> [] then SessResults else SessEmpty), sn_requestId = rid,
              sn_options = Some normalized, sn_matches = Own (sr_matches r), sn_totalMatches = sr_totalMatches r,
              sn_truncated = sr_truncated r, sn_elapsedMs = Some (sr_elapsedMs r), sn_erroredFiles = sr_erroredFiles r,
              sn_error = None, sn_streamState = None \<rparr>
        | Inl SearchCancelled \<Rightarrow> bare_state SessCancelled rid (Some normalized)
        | Inl (SearchError e) \<Rightarrow> (bare_state SessError rid (Some normalized))\<lparr> sn_error := Some e \<rparr>) \<rparr>)"

definition session_cancel :: "'m search_session \<Rightarrow> 'm search_session" where
  "session_cancel m =
    (if sn_status (sx_state m) \<noteq> SessLoading then m
     else (let rid = Suc (sx_requestId m)
           in m\<lparr> sx_requestId := rid, sx_state := bare_state SessCancelled rid (sn_options (sx_state m)) \<rparr>))"

definition session_reset :: "'m search_session \<Rightarrow> 'm search_session" where
  "session_reset m =
    (let rid = Suc (sx_requestId m) in m\<lparr> sx_requestId := rid, sx_state := bare_state SessIdle rid None \<rparr>)"

section \<open>The streamed search\<close>

definition stream_view :: "session_status \<Rightarrow> nat \<Rightarrow> search_options \<Rightarrow> bool \<Rightarrow> string option \<Rightarrow> stream_state \<Rightarrow> 'm session_state" where
  "stream_view st rid normalized trunc e ss =
    \<lparr> sn_status = st, sn_requestId = rid, sn_options = Some normalized, sn_matches = Shared (ss_buffer ss),
      sn_totalMatches = ss_totalMatches ss, sn_truncated = trunc, sn_elapsedMs = None, sn_erroredFiles = [],
      sn_error = e, sn_streamState = Some ss \<rparr>"

definition or_bool :: "bool option \<Rightarrow> bool \<Rightarrow> bool" where
  "or_bool a d = (case a of Some b \<Rightarrow> b | None \<Rightarrow> d)"

definition or_text :: "string option \<Rightarrow> string \<Rightarrow> string" where
  "or_text a d = (case a of Some s \<Rightarrow> s | None \<Rightarrow> d)"

definition finished_view :: "nat \<Rightarrow> search_options \<Rightarrow> 'm list \<Rightarrow> stream_state \<Rightarrow> 'm session_state" where
  "finished_view rid normalized ms ss =
    stream_view (if ms \<noteq> [] then SessResults else SessEmpty) rid normalized
      (or_bool (ss_truncated ss) (int (length ms) < ss_totalMatches ss)) None ss"

text \<open>The callback of the subscription.\<close>

definition stream_notified :: "nat \<Rightarrow> search_options \<Rightarrow> stream_state \<Rightarrow> 'm search_session \<Rightarrow> 'm search_session" where
  "stream_notified rid normalized ss m =
    (if rid \<noteq> sx_requestId m then m
     else (case ss_status ss of
             Streaming \<Rightarrow> m\<lparr> sx_state := stream_view SessLoading rid normalized (or_bool (ss_truncated ss) False) None ss \<rparr>
           | StreamDone \<Rightarrow> m\<lparr> sx_state := finished_view rid normalized (shown_matches (sx_service m) ss) ss \<rparr>
           | StreamError \<Rightarrow>
               m\<lparr> sx_state := stream_view SessError rid normalized (or_bool (ss_truncated ss) False)
                    (Some (or_text (ss_error ss) ''Stream search failed'')) ss \<rparr>
           | StreamIdle \<Rightarrow> m))"

text \<open>An operation of the stream service, and the states it publishes delivered to the subscription.\<close>

definition with_service :: "('m stream_service \<Rightarrow> 'm stream_service) \<Rightarrow> 'm search_session \<Rightarrow> 'm search_session" where
  "with_service f m =
    (let sv = f ((sx_service m)\<lparr> sv_log := [] \<rparr>); m1 = m\<lparr> sx_service := sv \<rparr>
     in case sx_sub m of
          None \<Rightarrow> m1
        | Some (rid, normalized) \<Rightarrow> fold (stream_notified rid normalized) (sv_log sv) m1)"

definition cancelStream :: "'m search_session \<Rightarrow> 'm search_session" where
  "cancelStream m =
    (if sn_status (sx_state m) \<noteq> SessLoading then (with_service stream_cancel m)\<lparr> sx_sub := None \<rparr>
     else
       (let rid = Suc (sx_requestId m);
            m1 = (with_service stream_cancel (m\<lparr> sx_requestId := rid \<rparr>))\<lparr> sx_sub := None \<rparr>
        in m1\<lparr> sx_state := bare_state SessCancelled rid (sn_options (sx_state m1)) \<rparr>))"

definition session_searchStream :: "search_options \<Rightarrow> bool \<Rightarrow> 'm search_session \<Rightarrow> 'm search_session" where
  "session_searchStream options connected m =
    (let m1 = cancelStream m; normalized = normalizeOptions options; rid = Suc (sx_requestId m1);
         m2 = with_service stream_reset (m1\<lparr> sx_requestId := rid \<rparr>);
         m3 = m2\<lparr> sx_state := bare_state SessLoading rid (Some normalized), sx_sub := Some (rid, normalized) \<rparr>;
         m4 = stream_notified rid normalized (sv_state (sx_service m3)) m3
     in with_service (searchStream connected) m4)"

text \<open>What follows the awaited promise of the stream.\<close>

definition stream_settled :: "nat \<Rightarrow> search_options \<Rightarrow> stream_outcome \<Rightarrow> 'm search_session \<Rightarrow> 'm search_session" where
  "stream_settled rid normalized outcome m =
    (let ss = sv_state (sx_service m); ms = shown_matches (sx_service m) ss in
     if rid \<noteq> sx_requestId m then m
     else (case outcome of
             Resolved \<Rightarrow>
               if sn_status (sx_state m) \<noteq> SessLoading then m
               else if ss_status ss = StreamError \<or> ss_interrupted ss
               then m\<lparr> sx_state := stream_view SessError rid normalized True (Some (or_text (ss_error ss) ''interrupted'')) ss \<rparr>
               else m\<lparr> sx_state := finished_view rid normalized ms ss \<rparr>
           | RejectedCancelled \<Rightarrow> m\<lparr> sx_state := bare_state SessCancelled rid (Some normalized) \<rparr>
           | Rejected e \<Rightarrow>
               if sn_status (sx_state m) \<in> {SessLoading, SessResults}
               then m\<lparr> sx_state := stream_view SessError rid normalized (or_bool (ss_truncated ss) True) (Some e) ss \<rparr>
               else m))"

section \<open>Runs\<close>

datatype 'm session_event =
    Search search_options
  | SearchAnswered nat search_options "search_failure + 'm search_response"
  | CancelSearch
  | ResetSearch
  | StartStream search_options bool
  | StopStream
  | StreamOp "'m stream_op"
  | StreamSettled nat search_options stream_outcome

fun session_step :: "'m session_event \<Rightarrow> 'm search_session \<Rightarrow> 'm search_session" where
  "session_step (Search options) m = session_search options m"
| "session_step (SearchAnswered rid normalized answer) m = search_answered rid normalized answer m"
| "session_step CancelSearch m = session_cancel m"
| "session_step ResetSearch m = session_reset m"
| "session_step (StartStream options connected) m = session_searchStream options connected m"
| "session_step StopStream m = cancelStream m"
| "session_step (StreamOp e) m = with_service (stream_step e) m"
| "session_step (StreamSettled rid normalized outcome) m = stream_settled rid normalized outcome m"

fun session_answers :: "'m session_event \<Rightarrow> nat option" where
  "session_answers (SearchAnswered rid _ _) = Some rid"
| "session_answers (StreamSettled rid _ _) = Some rid"
| "session_answers _ = None"

definition initial_session :: "'m search_session" where
  "initial_session = \<lparr> sx_state = SESSION_INITIAL_STATE, sx_requestId = 0, sx_sub = None, sx_service = initial_stream \<rparr>"

text \<open>The matches a view reads from the state.\<close>

definition session_matches :: "'m search_session \<Rightarrow> 'm list" where
  "session_matches m =
    (case sn_matches (sx_state m) of
       Own ms \<Rightarrow> ms
     | Shared (Some b) \<Rightarrow> sv_buffers (sx_service m) b
     | Shared None \<Rightarrow> [])"

definition session_inv :: "'m search_session \<Rightarrow> bool" where
  "session_inv m \<longleftrightarrow> sn_requestId (sx_state m) = sx_requestId m \<and> stream_inv (sx_service m)"

section \<open>Facts\<close>

lemma log_inv [simp]: "stream_inv (sv\<lparr> sv_log := l \<rparr>) = stream_inv sv"
  by (simp add: stream_inv_def)

lemma log_stream_inv: "stream_inv sv \<Longrightarrow> stream_inv (stream_step e (sv\<lparr> sv_log := [] \<rparr>))"
  by (rule step_inv) simp

lemma stream_notified_facts:
  "sx_requestId (stream_notified rid o' ss m) = sx_requestId m" "sx_service (stream_notified rid o' ss m) = sx_service m"
  "sx_sub (stream_notified rid o' ss m) = sx_sub m"
  "sn_requestId (sx_state m) = sx_requestId m \<Longrightarrow> sn_requestId (sx_state (stream_notified rid o' ss m)) = sx_requestId m"
  by (auto simp: stream_notified_def stream_view_def finished_view_def split: stream_status.splits)

lemma fold_notified_facts:
  "sx_requestId (fold (stream_notified rid o') log m) = sx_requestId m"
  "sx_service (fold (stream_notified rid o') log m) = sx_service m"
  "sx_sub (fold (stream_notified rid o') log m) = sx_sub m"
  "sn_requestId (sx_state m) = sx_requestId m \<Longrightarrow> sn_requestId (sx_state (fold (stream_notified rid o') log m)) = sx_requestId m"
  by (induction log arbitrary: m) (simp_all add: stream_notified_facts)

lemma with_service_facts:
  "sx_requestId (with_service f m) = sx_requestId m" "sx_sub (with_service f m) = sx_sub m"
  "sx_service (with_service f m) = f ((sx_service m)\<lparr> sv_log := [] \<rparr>)"
  "sn_requestId (sx_state m) = sx_requestId m \<Longrightarrow> sn_requestId (sx_state (with_service f m)) = sx_requestId m"
  by (auto simp: with_service_def Let_def fold_notified_facts split: option.splits)

lemma bare_state_requestId [simp]: "sn_requestId (bare_state st rid o') = rid"
  by (simp add: bare_state_def)

lemma cancelStream_facts:
  assumes "session_inv m"
  shows "session_inv (cancelStream m)" "sx_sub (cancelStream m) = None" "sx_requestId m \<le> sx_requestId (cancelStream m)"
    and "sv_counter (sx_service (cancelStream m)) = sv_counter (sx_service m)"
    and "sn_status (sx_state m) \<noteq> SessLoading \<longrightarrow> sx_requestId (cancelStream m) = sx_requestId m"
  using assms by (auto simp: cancelStream_def session_inv_def with_service_facts Let_def cancel_inv)

lemma searchStream_facts:
  assumes "session_inv m"
  shows "session_inv (session_searchStream options connected m)"
    and "sx_requestId (cancelStream m) < sx_requestId (session_searchStream options connected m)"
  using cancelStream_facts [OF assms]
  by (auto simp: session_searchStream_def session_inv_def with_service_facts stream_notified_facts Let_def
      stream_reset_def intro!: search_inv)

lemma session_step_inv:
  assumes "session_inv m"
  shows "session_inv (session_step e m)"
proof (cases e)
  case (StreamOp x)
  then show ?thesis using assms unfolding session_inv_def by (simp add: with_service_facts log_stream_inv)
next
  case (StartStream options connected)
  then show ?thesis using searchStream_facts [OF assms] by simp
next
  case StopStream
  then show ?thesis using cancelStream_facts [OF assms] by simp
qed (use assms in \<open>auto simp: session_search_def search_answered_def session_cancel_def session_reset_def
    stream_settled_def session_inv_def stream_view_def finished_view_def Let_def
    split: sum.splits search_failure.splits stream_outcome.splits\<close>)

interpretation sessions: newest_wins session_step sx_requestId session_answers session_inv
proof
  show "session_inv (session_step e s)" if "session_inv s" for s :: "'m search_session" and e
    using that by (rule session_step_inv)
  show "sx_requestId s \<le> sx_requestId (session_step e s)" if inv: "session_inv s" for s :: "'m search_session" and e
  proof (cases e)
    case (StartStream options connected)
    then show ?thesis using searchStream_facts(2) [OF inv, of options connected] cancelStream_facts(3) [OF inv] by simp
  next
    case StopStream
    then show ?thesis using cancelStream_facts(3) [OF inv] by simp
  qed (auto simp: session_search_def search_answered_def session_cancel_def session_reset_def stream_settled_def
      with_service_facts Let_def split: stream_outcome.splits)
  show "session_step e s = s" if "session_answers e = Some g" "g < sx_requestId s" for s :: "'m search_session" and e g
    using that by (cases e) (auto simp: search_answered_def stream_settled_def Let_def)
qed

lemma initial_session_inv: "session_inv initial_session"
  by (simp add: session_inv_def initial_session_def SESSION_INITIAL_STATE_def stream_inv_initial)

section \<open>A streamed search from its start to its end\<close>

text \<open>The session follows the stream of its newest request.\<close>

definition follows :: "nat \<Rightarrow> nat \<Rightarrow> search_options \<Rightarrow> 'm search_session \<Rightarrow> bool" where
  "follows sid rid normalized m \<longleftrightarrow>
    streams sid (sx_service m) \<and> sx_requestId m = rid \<and> sx_sub m = Some (rid, normalized)"

lemma streams_log [simp]: "streams sid (sv\<lparr> sv_log := l \<rparr>) = streams sid sv"
  by (simp add: streams_def)

lemma start_follows:
  fixes options :: search_options
  assumes "session_inv m"
  defines "m1 \<equiv> session_searchStream options True m"
  shows "follows (Suc (sv_counter (sx_service m))) (sx_requestId m1) (normalizeOptions options) m1"
    and "sv_buffers (sx_service m1) (Suc (sv_counter (sx_service m))) = []"
proof -
  let ?c = "cancelStream m"
  define sv where "sv = (stream_reset ((sx_service ?c)\<lparr> sv_log := [] \<rparr>))\<lparr> sv_log := [] \<rparr>"
  have svc: "sx_service m1 = searchStream True sv"
    by (simp add: m1_def session_searchStream_def Let_def with_service_facts stream_notified_facts sv_def)
  have "stream_inv sv" using cancelStream_facts(1) [OF assms(1)] by (simp add: sv_def stream_reset_def session_inv_def)
  moreover have "sv_counter sv = sv_counter (sx_service m)"
    using cancelStream_facts(4) [OF assms(1)] by (simp add: sv_def stream_reset_def publish_def)
  ultimately show "follows (Suc (sv_counter (sx_service m))) (sx_requestId m1) (normalizeOptions options) m1"
    and "sv_buffers (sx_service m1) (Suc (sv_counter (sx_service m))) = []"
    using search_streams [of sv] svc
    by (auto simp: follows_def m1_def session_searchStream_def Let_def with_service_facts stream_notified_facts)
qed

lemma progress_follows:
  assumes "follows sid rid normalized m" and "list_all (progress sid) ops"
  shows "follows sid rid normalized (fold session_step (map StreamOp ops) m) \<and>
    sv_buffers (sx_service (fold session_step (map StreamOp ops) m)) sid
      = sv_buffers (sx_service m) sid @ concat (map received ops)"
  using assms
proof (induction ops arbitrary: m)
  case (Cons e ops)
  let ?m = "with_service (stream_step e) m"
  have "streams sid ((sx_service m)\<lparr> sv_log := [] \<rparr>)" and e: "progress sid e" using Cons.prems by (simp_all add: follows_def)
  from progress_step [OF this] Cons.prems(1)
  have "follows sid rid normalized ?m" and "sv_buffers (sx_service ?m) sid = sv_buffers (sx_service m) sid @ received e"
    by (simp_all add: follows_def with_service_facts)
  then show ?case using Cons.IH [of ?m] Cons.prems(2) by simp
qed simp

lemma done_shown:
  assumes "follows sid rid normalized m" and "me_error ev = None" and "me_done ev"
  defines "m1 \<equiv> with_service (message sid ev) m"
  shows "sn_status (sx_state m1) = (if sv_buffers (sx_service m) sid = [] then SessEmpty else SessResults)"
    and "session_matches m1 = sv_buffers (sx_service m) sid"
    and "sn_requestId (sx_state m1) = rid \<and> sn_options (sx_state m1) = Some normalized"
proof -
  define sv where "sv = (sx_service m)\<lparr> sv_log := [] \<rparr>"
  have s: "streams sid sv" and log: "sv_log sv = []" using assms(1) by (simp_all add: follows_def sv_def)
  note facts = streams_facts [OF s]
  obtain ss where ss: "sv_log (message sid ev sv) = [ss]" "ss_status ss = StreamDone" "ss_buffer ss = Some sid"
      "sv_buffers (message sid ev sv) sid = sv_buffers (sx_service m) sid"
    using s facts assms(2,3) log
    by (auto simp: streams_def message_def finish_def stream_parts Let_def sv_def)
  have "m1 = stream_notified rid normalized ss (m\<lparr> sx_service := message sid ev sv \<rparr>)"
    using assms(1) ss(1) by (simp add: m1_def with_service_def follows_def sv_def Let_def)
  then show "sn_status (sx_state m1) = (if sv_buffers (sx_service m) sid = [] then SessEmpty else SessResults)"
    and "session_matches m1 = sv_buffers (sx_service m) sid"
    and "sn_requestId (sx_state m1) = rid \<and> sn_options (sx_state m1) = Some normalized"
    using ss assms(1)
    by (simp_all add: stream_notified_def finished_view_def stream_view_def session_matches_def shown_matches_def follows_def)
qed

section \<open>Options\<close>

lemma unique_facts [simp]: "set (unique xs) = set xs" "distinct (unique xs)" "unique xs = [] \<longleftrightarrow> xs = []"
  by (simp_all add: unique_def)

lemma unique_distinct: "distinct xs \<Longrightarrow> unique xs = xs"
  by (simp add: unique_def distinct_remdups_id)

lemma normalizeGlobs_idem: "normalizeGlobs (normalizeGlobs g) = normalizeGlobs g"
proof (cases g)
  case (Some gs)
  let ?n = "unique (filter (\<lambda>g. g \<noteq> []) (map trim gs))"
  have "map trim ?n = ?n" by (rule map_idI) auto
  moreover have "filter (\<lambda>g. g \<noteq> []) ?n = ?n" by (rule filter_True) auto
  ultimately show ?thesis using Some by (simp add: normalizeGlobs_def Let_def unique_distinct)
qed (simp add: normalizeGlobs_def)

lemma normalizeOptions_idem: "normalizeOptions (normalizeOptions options) = normalizeOptions options"
  by (simp add: normalizeOptions_def normalizeGlobs_idem or_else_def split: option.splits)

end
