(* ===== verification/SearchProperties.thy ===== *)
theory SearchProperties
  imports SearchReplaceFacts FindSymbols SearchSession
begin

text \<open>
  The properties of the search extension: replace in files, the finders, and the search session with its stream.
\<close>

section \<open>Replace in files\<close>

text \<open>A file system in memory: each file has a text and the number of the write that made it; the writes in \<open>faults\<close> throw.\<close>

record memory_fs =
  mf_files :: "(string \<times> js_text \<times> nat) list"
  mf_writes :: nat
  mf_faults :: "nat list"

definition mf_content :: "memory_fs \<Rightarrow> string \<Rightarrow> js_text option" where
  "mf_content w u = map_option fst (map_of (mf_files w) u)"

definition mf_read :: "(string, memory_fs) reader" where
  "mf_read u w =
    (case map_of (mf_files w) u of
       None \<Rightarrow> (Inl ''missing'', w)
     | Some (v, n) \<Rightarrow> (Inr \<lparr> fs_value = v, fs_encoding = ''utf8'', fs_mtime = int n, fs_etag = [] \<rparr>, w))"

definition mf_write :: "(string, memory_fs) writer" where
  "mf_write u v opts w =
    (let n = Suc (mf_writes w); w1 = w\<lparr> mf_writes := n \<rparr> in
     case map_of (mf_files w) u of
       None \<Rightarrow> (Inl ''missing'', w1)
     | Some (_, m) \<Rightarrow>
         if n \<in> set (mf_faults w) then (Inl ''disk full'', w1)
         else if int m \<noteq> wo_mtime opts then (Inl ''modified'', w1)
         else (Inr (int n, []), w1\<lparr> mf_files := AList.update u (v, n) (mf_files w) \<rparr>))"

lemma mf_service: "file_service mf_content mf_read mf_write"
  by (auto simp: file_service_def mf_content_def mf_read_def mf_write_def Let_def update_conv' split: option.splits prod.splits if_splits)

definition ab :: js_text where "ab = [97, 98]"

definition two_matches :: "search_match list" where
  "two_matches =
    [\<lparr> sm_file = ''f'', sm_line = 1, sm_column = 1, sm_matchText = ab \<rparr>, \<lparr> sm_file = ''f'', sm_line = 1, sm_column = 4, sm_matchText = ab \<rparr>,
     \<lparr> sm_file = ''g'', sm_line = 2, sm_column = 2, sm_matchText = ab \<rparr>]"

definition two_files :: "nat list \<Rightarrow> memory_fs" where
  "two_files faults = \<lparr> mf_files = [(''f'', ab @ [32] @ ab, 0), (''g'', [10, 32] @ ab, 0)], mf_writes = 0, mf_faults = faults \<rparr>"

definition in_workspace :: "string \<Rightarrow> replace_error + string" where
  "in_workspace = resolveWorkspaceMatchUri (\<lambda>s. s) (\<lambda>_. True) (\<lambda>s. s)"

definition two_edit :: "int \<Rightarrow> int \<Rightarrow> replace_edit" where
  "two_edit line column = \<lparr> ed_line = line, ed_column = column, ed_before = ab, ed_after = [99], ed_selected = True \<rparr>"

definition two_plan :: replace_plan where
  "two_plan =
    \<lparr> rp_replacement = [99],
      rp_files =
       [\<lparr> fp_file = ''f'', fp_fingerprint = (5, 15383645), fp_encoding = ''utf8'', fp_mtime = 0, fp_etag = [],
          fp_original = ab @ [32] @ ab, fp_preview = [99, 32, 99], fp_edits = [two_edit 1 4, two_edit 1 1] \<rparr>,
        \<lparr> fp_file = ''g'', fp_fingerprint = (4, 1104467984), fp_encoding = ''utf8'', fp_mtime = 0, fp_etag = [],
          fp_original = [10, 32] @ ab, fp_preview = [10, 32, 99], fp_edits = [two_edit 2 2] \<rparr>] \<rparr>"

text \<open>
  C2. Applying a plan whose files are different, with any file service that may fail at any call, leaves
  every content as it was, or writes every selected file, each with its selected edits applied to the text the plan was
  made for, and touches no other file. The one exception is reported: a file whose rollback failed or whose content could
  not be determined.
\<close>

theorem replace_all_or_nothing:
  assumes "file_service content read write"
    and "distinct (map (resolve \<circ> fp_file) (selected_plans plan))"
    and "apply_plan resolve read write plan w = (results, lastApply, w1)"
  shows "content w1 = content w
    \<or> (\<exists>r \<in> set results. ar_status r \<in> {RollbackFailed, RollbackUnknown})
    \<or> (\<forall>r \<in> set results. ar_status r \<in> {Applied, Skipped})
      \<and> (\<forall>p \<in> set (selected_plans plan). \<exists>u new. resolve (fp_file p) = Inr u
           \<and> applyReplaceEdits (fp_original p) (selected_edits p) = Inr new
           \<and> content w u = Some (fp_original p) \<and> content w1 u = Some new)
      \<and> (\<forall>x. Inr x \<notin> (resolve \<circ> fp_file) ` set (selected_plans plan) \<longrightarrow> content w1 x = content w x)"
proof (cases lastApply)
  case None
  then show ?thesis using apply_plan_content [OF assms(3,1,2)] by auto
next
  case (Some transaction)
  note facts = apply_plan_content [OF assms(3,1,2), unfolded Some option.case]
  have plans: "set (selected_plans plan) = (pf_plan \<circ> af_target) ` set transaction"
    using arg_cong [OF conjunct1 [OF facts], of set] by simp
  have ok: "prepared_ok resolve (content w) (af_target a)" if "a \<in> set transaction" for a using facts that by blast
  have texts: "with_texts (content w) pf_applied (map af_target transaction) (content w1)" using facts by blast
  have "\<exists>u new. resolve (fp_file p) = Inr u \<and> applyReplaceEdits (fp_original p) (selected_edits p) = Inr new
      \<and> content w u = Some (fp_original p) \<and> content w1 u = Some new" if p: "p \<in> set (selected_plans plan)" for p
  proof -
    obtain a where a: "a \<in> set transaction" "p = pf_plan (af_target a)" using p plans by auto
    then have "content w1 (pf_uri (af_target a)) = Some (pf_applied (af_target a))" using texts by (simp add: with_texts_def)
    then show ?thesis using ok [OF a(1)] a(2) by (auto simp: prepared_ok_def)
  qed
  moreover have "content w1 x = content w x" if x: "Inr x \<notin> (resolve \<circ> fp_file) ` set (selected_plans plan)" for x
  proof (rule with_texts_outside [OF texts], rule notI)
    assume "x \<in> pf_uri ` set (map af_target transaction)"
    then obtain a where "a \<in> set transaction" "x = pf_uri (af_target a)" by auto
    then have "Inr x = (resolve \<circ> fp_file) (pf_plan (af_target a))" "pf_plan (af_target a) \<in> set (selected_plans plan)"
      using plans ok [of a] by (simp_all add: prepared_ok_def)
    then show False using x by blast
  qed
  ultimately show ?thesis using facts by blast
qed

lemma replace_all_or_nothing_witness:
  "(let (results, lastApply, w1) = apply_plan in_workspace mf_read mf_write two_plan (two_files [2])
    in mf_content w1 = mf_content (two_files [2])
      \<or> (\<exists>r \<in> set results. ar_status r \<in> {RollbackFailed, RollbackUnknown})
      \<or> (\<forall>r \<in> set results. ar_status r \<in> {Applied, Skipped}))
   \<and> map ar_status (fst (apply_plan in_workspace mf_read mf_write two_plan (two_files [2]))) = [Failed, RolledBack]"
proof (intro conjI)
  have dist: "distinct (map (in_workspace \<circ> fp_file) (selected_plans two_plan))" by code_simp
  show "let (results, lastApply, w1) = apply_plan in_workspace mf_read mf_write two_plan (two_files [2])
    in mf_content w1 = mf_content (two_files [2])
      \<or> (\<exists>r \<in> set results. ar_status r \<in> {RollbackFailed, RollbackUnknown})
      \<or> (\<forall>r \<in> set results. ar_status r \<in> {Applied, Skipped})"
    using replace_all_or_nothing [OF mf_service dist, of "two_files [2]"] unfolding Let_def by (auto split: prod.splits)
  show "map ar_status (fst (apply_plan in_workspace mf_read mf_write two_plan (two_files [2]))) = [Failed, RolledBack]"
    by code_simp
qed


text \<open>
  C21. Undo after a plan was applied, when the contents have not changed in between, gives back all contents
  the files had before the plan, or leaves them all as the plan wrote them, or reports a file that it could not put back.
\<close>

theorem undo_gives_back_the_texts:
  assumes "file_service content read write"
    and "distinct (map (resolve \<circ> fp_file) (selected_plans plan))"
    and "apply_plan resolve read write plan w = (results, lastApply, w1)"
    and "lastApply = Some transaction" and "content w2 = content w1"
    and "undoLastApply read write lastApply w2 = (undone, lastApply', w3)"
  shows "content w3 = content w2
    \<or> (\<exists>r \<in> set undone. ar_status r \<in> {UndoRollbackFailed, RollbackUnknown})
    \<or> (\<forall>r \<in> set undone. ar_status r = Undone) \<and> lastApply' = None \<and> content w3 = content w"
proof -
  note facts = apply_plan_content [OF assms(3,1,2), unfolded assms(4) option.case]
  have dist: "\<forall>tr. lastApply = Some tr \<longrightarrow> distinct (map (pf_uri \<circ> af_target) tr)"
    using facts assms(4) by simp
  note undo = undoLastApply_content [OF assms(6,1) dist]
  have "content w3 = content w"
    if "with_texts (content w2) pf_original (map af_target transaction) (content w3)"
  proof
    fix x
    have ok: "\<forall>a \<in> set transaction. content w (pf_uri (af_target a)) = Some (pf_original (af_target a))"
      using facts by (auto simp: prepared_ok_def)
    show "content w3 x = content w x"
      using that facts ok assms(5) by (cases "x \<in> pf_uri ` af_target ` set transaction") (auto simp: with_texts_def)
  qed
  then show ?thesis using undo assms(4) by auto
qed

text \<open>
  C24. For any selection among the edits that were located in a text, the single pass that applies them
  succeeds and gives what splicing the edits one by one into the text gives, from the last one to the first.
\<close>

theorem selected_edits_are_splices:
  assumes "locateEdits content matches replacement = Inr edits" and "\<forall>m \<in> set matches. sm_matchText m \<noteq> []"
  shows "applyReplaceEdits content (filter P edits) = Inr (fold (splice_replace content) (filter P edits) content)"
  by (rule applyReplaceEdits_splices [OF assms])


lemma undo_gives_back_the_texts_witness:
  "(let (results, lastApply, w1) = apply_plan in_workspace mf_read mf_write two_plan (two_files []);
        (undone, lastApply', w3) = undoLastApply mf_read mf_write lastApply w1
    in mf_content w3 = mf_content w1
      \<or> (\<exists>r \<in> set undone. ar_status r \<in> {UndoRollbackFailed, RollbackUnknown})
      \<or> mf_content w3 = mf_content (two_files []))
   \<and> map ar_status (fst (undoLastApply mf_read mf_write
        (fst (snd (apply_plan in_workspace mf_read mf_write two_plan (two_files []))))
        (snd (snd (apply_plan in_workspace mf_read mf_write two_plan (two_files [])))))) = [Undone, Undone]"
proof (intro conjI)
  have dist: "distinct (map (in_workspace \<circ> fp_file) (selected_plans two_plan))" by code_simp
  obtain results lastApply w1 where ap: "apply_plan in_workspace mf_read mf_write two_plan (two_files []) = (results, lastApply, w1)"
    by (metis prod_cases3)
  obtain undone lastApply' w3 where un: "undoLastApply mf_read mf_write lastApply w1 = (undone, lastApply', w3)"
    by (metis prod_cases3)
  have "fst (snd (apply_plan in_workspace mf_read mf_write two_plan (two_files []))) \<noteq> None" by code_simp
  then obtain transaction where tr: "lastApply = Some transaction" using ap by auto
  show "let (results, lastApply, w1) = apply_plan in_workspace mf_read mf_write two_plan (two_files []);
        (undone, lastApply', w3) = undoLastApply mf_read mf_write lastApply w1
    in mf_content w3 = mf_content w1
      \<or> (\<exists>r \<in> set undone. ar_status r \<in> {UndoRollbackFailed, RollbackUnknown})
      \<or> mf_content w3 = mf_content (two_files [])"
    using undo_gives_back_the_texts [OF mf_service dist ap tr refl un] ap un by auto
  show "map ar_status (fst (undoLastApply mf_read mf_write
        (fst (snd (apply_plan in_workspace mf_read mf_write two_plan (two_files []))))
        (snd (snd (apply_plan in_workspace mf_read mf_write two_plan (two_files [])))))) = [Undone, Undone]"
    by code_simp
qed

lemma selected_edits_are_splices_witness:
  "\<exists>edits. locateEdits (ab @ [32] @ ab) (take 2 two_matches) [99] = Inr edits
    \<and> applyReplaceEdits (ab @ [32] @ ab) (filter (\<lambda>e. ed_column e = 4) edits) = Inr (ab @ [32, 99])"
proof -
  let ?c = "ab @ [32] @ ab"
  let ?e = "\<lambda>n. \<lparr> ed_line = 1, ed_column = n, ed_before = ab, ed_after = [99], ed_selected = True \<rparr>"
  have loc: "locateEdits ?c (take 2 two_matches) [99] = Inr [?e 4, ?e 1]" by code_simp
  have non: "\<forall>m \<in> set (take 2 two_matches). sm_matchText m \<noteq> []" by code_simp
  have "fold (splice_replace ?c) (filter (\<lambda>e. ed_column e = 4) [?e 4, ?e 1]) ?c = ab @ [32, 99]" by code_simp
  then show ?thesis using loc selected_edits_are_splices [OF loc non, of "\<lambda>e. ed_column e = 4"] by simp
qed

text \<open>A failed undo that was compensated cannot be repeated: the stamps of the transaction are those of the first write.\<close>

lemma failed_undo_refused:
  "(let (results, lastApply, w1) = apply_plan in_workspace mf_read mf_write two_plan (two_files [4]);
        (undone, lastApply1, w2) = undoLastApply mf_read mf_write lastApply w1;
        (again, lastApply2, w3) = undoLastApply mf_read mf_write lastApply1 w2
    in (map ar_status undone, map ar_error again))
   = ([Undone, Failed, UndoRolledBack], [Some ChangedAfterReplace, Some UndoPreflightFailed])"
  by code_simp

section \<open>Finders\<close>

definition no_locale :: "string \<Rightarrow> string \<Rightarrow> int" where "no_locale a b = 0"

lemma no_locale_comparator: "comparator no_locale"
  by (simp add: comparator_def no_locale_def)

definition four_files :: "file_item list" where
  "four_files = map (\<lambda>(n, p). file_entry p n p) [(''a'', ''src/a''), (''ba'', ''ba''), (''a'', ''dist/a''), (''a'', ''lib/a'')]"

definition empty_finder :: file_finder where
  "empty_finder = \<lparr> fd_state = initial_finder, fd_generation = 0, fd_cancelled = False, fd_recent = [], ff_cache = None \<rparr>"

definition empty_class_finder :: class_finder where
  "empty_class_finder =
    \<lparr> fd_state = initial_finder, fd_generation = 0, fd_cancelled = False, fd_recent = [], fc_cache = None, fc_waiting = [] \<rparr>"

text \<open>
  C14. The bounded selection of Find File, which keeps \<open>limit\<close> candidates and lets a better
  one bubble up, gives the same items in the same order as a stable sort of all matches cut at \<open>limit\<close>.
\<close>

theorem best_files_are_the_first_sorted:
  assumes "comparator lc" and "0 < limit"
  shows "best_files lc limit needle allFiles
    = Some (map fst (take limit (sort_by (compareScoredItems lc) (scored_files needle allFiles))))"
  by (rule best_files_sorted [OF assms])

lemma best_files_are_the_first_sorted_witness:
  "map_option (map fl_detail) (best_files no_locale 2 ''a'' four_files) = Some [''src/a'', ''lib/a'']"
proof -
  have "map fl_detail (map fst (take 2 (sort_by (compareScoredItems no_locale) (scored_files ''a'' four_files)))) = [''src/a'', ''lib/a'']"
    by code_simp
  then show ?thesis using best_files_are_the_first_sorted [OF no_locale_comparator, of 2 "''a''" four_files] by simp
qed

text \<open>
  Find File scores an item exactly when the units of the query occur in this order in its name or in its
  path: the fast check in front of the score drops no item that the score would accept.
\<close>

theorem scored_iff_subsequence:
  "score_file needle item \<noteq> None \<longleftrightarrow> subseq needle (searched_label item) \<or> subseq needle (searched_detail item)"
  by (rule score_file_defined)

text \<open>
  Once a newer query of Find File has begun, the file list an older query waits for changes
  nothing, at any later moment: a run is the same without it.
\<close>

theorem late_file_list_ignored:
  assumes "g < fd_generation m"
  shows "fold (file_step lc resolve_uri) events m
    = fold (file_step lc resolve_uri) (filter (\<lambda>e. file_answers e \<noteq> Some g) events) m"
  by (rule find_files.late_ignored [OF TrueI assms])

lemma late_file_list_ignored_witness:
  "fold (file_step no_locale id) [FilesArrive 1 ''a'' 5 0 (Walked four_files), SelectFile 2]
     (fold (file_step no_locale id) [AskFile ''a'' 5, AskFile ''b'' 5] empty_finder)
   = fold (file_step no_locale id) [SelectFile 2] (fold (file_step no_locale id) [AskFile ''a'' 5, AskFile ''b'' 5] empty_finder)"
proof -
  have "(1::nat) < fd_generation (fold (file_step no_locale id) [AskFile ''a'' 5, AskFile ''b'' 5] empty_finder)" by code_simp
  from late_file_list_ignored [OF this, of no_locale id "[FilesArrive 1 ''a'' 5 0 (Walked four_files), SelectFile 2]"]
  show ?thesis by simp
qed

text \<open>
  A Find Class query that is past its file search publishes when the language server turns out not
  to be ready, although a newer query has begun: the state then shows the old text and its classes.
\<close>

theorem late_class_query_shown:
  assumes "map_of (fc_waiting m) g = Some (trimmed, limit, items)" and "g < fd_generation m"
  shows "fd_state (java_state_arrived g False now m) = finder_shows FEmpty trimmed items
    \<and> g < fd_generation (java_state_arrived g False now m)"
  using assms by (simp_all add: java_state_arrived_def publish_classes_def)

lemma late_class_query_shown_witness:
  "fi_query (fd_state (java_state_arrived 1 False 0 (find_class ''new''
     (class_files_arrived no_locale id 1 ''old'' 30 [(''Old.java'', ''Old.java'')] (find_class ''old'' empty_class_finder))))) = ''old''"
proof -
  let ?m = "find_class ''new'' (class_files_arrived no_locale id 1 ''old'' 30 [(''Old.java'', ''Old.java'')]
    (find_class ''old'' empty_class_finder))"
  have "(1::nat) < fd_generation ?m" and "map_option fst (map_of (fc_waiting ?m) 1) = Some ''old''" by code_simp+
  then obtain limit items where "map_of (fc_waiting ?m) 1 = Some (''old'', limit, items)" and "(1::nat) < fd_generation ?m" by auto
  from late_class_query_shown [OF this, of 0] show ?thesis by (simp add: finder_shows_def)
qed

text \<open>
  The expression that is to cut a source root off a path does so at the start of the path only:
  below a module folder the package a class is shown with has the folders of the module in it.
\<close>

theorem source_root_only_at_start:
  assumes "\<not> starts_with_at path ''src/'' 0" and "\<not> starts_with_at path ''WebRoot/WEB-INF/classes/'' 0"
    and "BSL \<notin> set path" and "\<not> is_java_name path"
  shows "package_of path = join_with ''.'' (filter (\<lambda>s. s \<noteq> []) (butlast (split_on (CHR ''/'') path)))"
proof -
  have "slashes path = path" using assms(3) by (induction path) auto
  then show ?thesis using source_root_elsewhere [OF assms(1,2)] assms(4) by (simp add: package_of_def without_java_def)
qed

lemma source_root_only_at_start_witness: "package_of ''app/src/main/java/com/A.JAV'' = ''app.src.main.java.com''"
proof -
  let ?p = "''app/src/main/java/com/A.JAV''"
  have "join_with ''.'' (filter (\<lambda>s. s \<noteq> []) (butlast (split_on (CHR ''/'') ?p))) = ''app.src.main.java.com''"
    and "\<not> starts_with_at ?p ''src/'' 0" "\<not> starts_with_at ?p ''WebRoot/WEB-INF/classes/'' 0" "BSL \<notin> set ?p" "\<not> is_java_name ?p"
    by code_simp+
  with source_root_only_at_start [of ?p] show ?thesis by simp
qed

text \<open>
  Find Action lists every visible command for every query, matching or not, when the limit
  allows: a command that does not match counts as one with score 0.
\<close>

theorem find_action_keeps_every_command:
  assumes "trim q \<noteq> []" and "ac_catalog m = Some catalog" and "length catalog \<le> limit"
  shows "mset (fi_items (fd_state (find_action lc built q limit m))) = mset (map (action_entry (trim q)) catalog)"
  using assms action_items_mset [of catalog limit lc "trim q"] by (simp add: find_action_def getCatalog_def finder_shows_def Let_def)

definition alpha_finder :: action_finder where
  "alpha_finder =
    \<lparr> fd_state = initial_finder, fd_generation = 0, fd_cancelled = False, fd_recent = [],
      ac_catalog = Some [\<lparr> ce_id = ''a'', ce_label = ''alpha'', ce_category = [], ce_shortcut = [] \<rparr>] \<rparr>"

lemma find_action_keeps_every_command_witness:
  "size (mset (fi_items (fd_state (find_action no_locale [] ''xq'' 30 alpha_finder)))) = 1
   \<and> fuzzyScore ''xq'' ''alpha '' = None"
proof -
  have "trim ''xq'' \<noteq> []" and fs: "fuzzyScore ''xq'' ''alpha '' = None" by code_simp+
  then show ?thesis
    using find_action_keeps_every_command [of "''xq''" alpha_finder _ 30 no_locale "[]"] by (simp add: alpha_finder_def del: size_mset)
qed

section \<open>Search session and stream\<close>

text \<open>
  C4. A streamed search that gets its batches, in any number of messages and with the notification
  timer firing anywhere between them, and then the final message ends with exactly the received matches, in the order of
  arrival, under the newest request and its normalized options; the status says whether there are any.
\<close>

theorem streamed_search_shows_all:
  fixes options :: search_options
  assumes "session_inv m" and "list_all (progress (Suc (sv_counter (sx_service m)))) ops"
    and "me_error ev = None" and "me_done ev"
    and "m1 = session_searchStream options True m"
    and "m2 = fold session_step (map StreamOp (ops @ [Message (Suc (sv_counter (sx_service m))) ev])) m1"
  shows "session_matches m2 = concat (map received ops)
    \<and> sn_status (sx_state m2) = (if concat (map received ops) = [] then SessEmpty else SessResults)
    \<and> sn_requestId (sx_state m2) = sx_requestId m1 \<and> sn_options (sx_state m2) = Some (normalizeOptions options)"
proof -
  note start = start_follows [OF assms(1), of options, folded assms(5)]
  note run = progress_follows [OF start(1) assms(2)]
  have "stream_step (Message (Suc (sv_counter (sx_service m))) ev) = message (Suc (sv_counter (sx_service m))) ev" by (rule ext) simp
  then show ?thesis
    using done_shown [OF conjunct1 [OF run] assms(3,4)] run start(2) by (simp add: assms(6))
qed

definition a_batch :: "nat list \<Rightarrow> nat stream_event" where
  "a_batch ms = \<lparr> me_error = None, me_done = False, me_batch = ms, me_total = None, me_batchIndex = 0, me_truncated = None,
    me_filesSearched = None \<rparr>"

definition some_options :: search_options where
  "some_options = \<lparr> so_workspaceId = ''w'', so_rootPath = None, so_query = Some ''x'', so_isRegex = None, so_caseSensitive = None,
    so_wholeWord = None, so_include = Some ['' *.java '', ''*.java'', '' ''], so_exclude = None, so_contextLines = None,
    so_maxResults = None, so_previewReplace = None, so_displayLimit = None \<rparr>"

lemma streamed_search_shows_all_witness:
  "session_matches (fold session_step (map StreamOp [Message 1 (a_batch [4, 7]), NotifyTimeout, Message 1 (a_batch [9]),
      Message 1 ((a_batch [])\<lparr> me_done := True \<rparr>)]) (session_searchStream some_options True initial_session)) = [4, 7, 9]"
proof -
  have "list_all (progress (Suc (sv_counter (sx_service initial_session))))
      [Message 1 (a_batch [4, 7]), NotifyTimeout, Message 1 (a_batch [9])]"
    by (simp add: a_batch_def initial_session_def initial_stream_def)
  from streamed_search_shows_all [OF initial_session_inv this, of "(a_batch [])\<lparr> me_done := True \<rparr>", OF _ _ refl refl, of some_options]
  show ?thesis by (simp add: a_batch_def initial_session_def initial_stream_def)
qed

text \<open>
  C28. In every run of a search session, whatever order requests, answers, cancellations, socket
  events and timers come in, the state that is shown carries the number of the newest request.
\<close>

theorem session_shows_newest_request:
  "sn_requestId (sx_state (fold session_step events initial_session)) = sx_requestId (fold session_step events initial_session)"
  using sessions.inv_run [OF initial_session_inv, of events] by (simp add: session_inv_def)

text \<open>
  C13. Once a newer request of the session has begun, what an older one still gets, the response of the
  server or the end of its stream, changes nothing at any later moment of the run.
\<close>

theorem late_answers_ignored:
  assumes "session_inv m" and "rid < sx_requestId m"
  shows "fold session_step events m = fold session_step (filter (\<lambda>e. session_answers e \<noteq> Some rid) events) m"
  by (rule sessions.late_ignored [OF assms])

lemma late_answers_ignored_witness:
  "sn_status (sx_state (fold session_step [Search some_options, SearchAnswered 1 some_options (Inl (SearchError ''late'')), ResetSearch]
     (session_search some_options initial_session))) = SessIdle"
proof -
  let ?m = "session_search some_options (session_search some_options (initial_session :: nat search_session))"
  have "session_inv ?m" using session_step_inv [OF session_step_inv [OF initial_session_inv], of "Search some_options" "Search some_options"] by simp
  moreover have "1 < sx_requestId ?m" by (simp add: session_search_def initial_session_def Let_def)
  ultimately have "fold session_step [SearchAnswered 1 some_options (Inl (SearchError ''late'')), ResetSearch] ?m
    = fold session_step [ResetSearch] ?m"
    using late_answers_ignored [of ?m 1 "[SearchAnswered 1 some_options (Inl (SearchError ''late'')), ResetSearch]"] by simp
  then show ?thesis by (simp add: session_reset_def bare_state_def Let_def)
qed

text \<open>
  C27. In every run of the stream service each search that was begun is either the one whose socket is open, or
  its promise is settled; and a settled promise keeps its outcome for the rest of the run.
\<close>

theorem stream_settles_once:
  assumes "0 < sid" and "sid \<le> sv_counter (fold stream_step ops initial_stream)"
    and "sv_current (fold stream_step ops initial_stream) \<noteq> Some sid"
  shows "\<exists>outcome. se_outcome (sv_sessions (fold stream_step ops initial_stream) sid) = Some outcome
    \<and> se_outcome (sv_sessions (fold stream_step (ops @ later) initial_stream) sid) = Some outcome"
proof -
  let ?sv = "fold stream_step ops initial_stream"
  have inv: "stream_inv ?sv" by (rule streams.inv_run [OF stream_inv_initial])
  then have settled: "se_settled (sv_sessions ?sv sid)" using assms(3) by (simp add: stream_inv_def)
  then obtain x where "se_outcome (sv_sessions ?sv sid) = Some x" using inv assms(1,2) by (auto simp: stream_inv_def)
  then show ?thesis using outcome_stays_run [OF inv assms(1,2) settled, of later] by simp
qed

lemma stream_settles_once_witness:
  "\<exists>outcome. se_outcome (sv_sessions (fold stream_step [SearchStream True, Message 1 (a_batch [3]), SocketClosed 1] initial_stream) 1) = Some outcome
    \<and> se_outcome (sv_sessions (fold stream_step ([SearchStream True, Message 1 (a_batch [3]), SocketClosed 1] @ [SocketFailed 1]) initial_stream) 1)
      = Some outcome"
proof -
  let ?sv = "fold stream_step [SearchStream True, Message 1 (a_batch [3]), SocketClosed 1] initial_stream"
  have "sv_counter ?sv = 1" by (simp add: fold_simps step_counter del: stream_step.simps) (simp add: initial_stream_def)
  moreover have "stream_inv ?sv" by (rule streams.inv_run [OF stream_inv_initial])
  moreover have "sv_current ?sv = None"
    by (simp add: searchStream_def message_def socket_closed_def finish_def stream_cancel_def stream_parts initial_stream_def
        scheduleStreamingUpdate_def a_batch_def Let_def INITIAL_STREAM_STATE_def)
  ultimately show ?thesis
    using stream_settles_once [of 1 "[SearchStream True, Message 1 (a_batch [3]), SocketClosed 1]" "[SocketFailed 1]"] by simp
qed

text \<open>
  When the socket of a search fails, the published state has the matches that arrived since the
  last notification, under the revision and the total of that notification.
\<close>

theorem failed_stream_keeps_old_revision:
  assumes "streams sid sv" and "progress sid (Message sid ev)"
    and "sv1 = socket_failed sid (message sid ev sv)"
  shows "shown_matches sv1 (sv_state sv1) = sv_buffers sv sid @ me_batch ev
    \<and> ss_revision (sv_state sv1) = Some (sv_revision sv) \<and> ss_totalMatches (sv_state sv1) = ss_totalMatches (sv_state sv)"
  using progress_step [OF assms(1,2)] failed_end [of sid "message sid ev sv"] message_revision [OF assms(1,2)] assms(3) by simp

lemma failed_stream_keeps_old_revision_witness:
  "let sv = socket_failed 1 (message 1 (a_batch [3, 5]) (searchStream True initial_stream))
   in shown_matches sv (sv_state sv) = [3, 5] \<and> ss_totalMatches (sv_state sv) = 0"
proof -
  let ?sv = "searchStream True (initial_stream :: nat stream_service)"
  have s: "streams 1 ?sv" "sv_buffers ?sv 1 = []"
    using search_streams [OF stream_inv_initial] by (simp_all add: initial_stream_def)
  moreover have "ss_totalMatches (sv_state ?sv) = 0"
    by (simp add: searchStream_def stream_parts INITIAL_STREAM_STATE_def Let_def)
  moreover have "progress 1 (Message 1 (a_batch [3, 5]))" by (simp add: a_batch_def)
  ultimately show ?thesis using failed_stream_keeps_old_revision [of 1 ?sv "a_batch [3, 5]"] by (simp add: a_batch_def Let_def)
qed

text \<open>
  Normalizing the options of a search twice is normalizing them once.
\<close>

theorem normalized_options_stable: "normalizeOptions (normalizeOptions options) = normalizeOptions options"
  by (rule normalizeOptions_idem)

end
