(* ===== verification/GitPaths.thy ===== *)
theory GitPaths
  imports JsRegex
begin

text \<open>
  \<open>git-extension/src/common/git-path-utils.ts\<close> and \<open>git-extension/src/browser/git-diff-parse.ts\<close>: paths, the quoting of
  \<open>core.quotepath\<close>, the output of \<open>git status --porcelain\<close> and of \<open>git diff\<close>. A unit is a byte where the code makes a byte
  of it. \<open>fsPath\<close> is \<open>FileUri.fsPath\<close> and \<open>utf8\<close> the \<open>TextDecoder\<close>. What git writes is stated here from its
  documentation: \<open>quote_path\<close> and \<open>z_record\<close> are references, not code of the repository.
\<close>

section \<open>Paths\<close>

abbreviation forward :: "string \<Rightarrow> string" where
  "forward \<equiv> map (\<lambda>c. if c = BSL then CHR ''/'' else c)"

definition normalizeFsPath :: "string \<Rightarrow> string" where
  "normalizeFsPath p = rev (dropWhile (\<lambda>c. c = CHR ''/'') (rev (forward p)))"

text \<open>\<open>/^\/[a-zA-Z]:\//\<close> and \<open>/^[a-zA-Z]:\//\<close>.\<close>

fun drive_path :: "string \<Rightarrow> bool" where
  "drive_path (d # c # s # _) \<longleftrightarrow> is_letter d \<and> c = CHR '':'' \<and> s = CHR ''/''"
| "drive_path _ \<longleftrightarrow> False"

definition slash_drive :: "string \<Rightarrow> bool" where
  "slash_drive p \<longleftrightarrow> (case p of c # rest \<Rightarrow> c = CHR ''/'' \<and> drive_path rest | [] \<Rightarrow> False)"

definition uriToFsPath :: "(string \<Rightarrow> string) \<Rightarrow> string \<Rightarrow> string" where
  "uriToFsPath fsPath uriOrPath =
    (if uriOrPath = [] then []
     else if starts_with_at uriOrPath ''file:'' 0 then
       (let p = normalizeFsPath (fsPath uriOrPath) in if slash_drive p then tl p else p)
     else
       (let barePath = normalizeFsPath uriOrPath in if slash_drive barePath then tl barePath else barePath))"

definition toRepoRelativePath :: "(string \<Rightarrow> string) \<Rightarrow> string \<Rightarrow> string \<Rightarrow> string option" where
  "toRepoRelativePath fsPath uriOrPath repoRoot =
    (if repoRoot = [] then None
     else
       (let path = uriToFsPath fsPath uriOrPath; normRoot = normalizeFsPath repoRoot;
            lowerPath = map lower path; lowerRoot = map lower normRoot
        in if lowerPath = lowerRoot then Some []
           else if starts_with_at lowerPath (lowerRoot @ ''/'') 0 then Some (drop (length normRoot + 1) path)
           else if \<not> drive_path path \<and> \<not> starts_with_at path ''/'' 0 \<and> \<not> starts_with_at uriOrPath ''file:'' 0 then Some path
           else None))"

section \<open>Quoted paths\<close>

definition is_octal :: "char \<Rightarrow> bool" where
  "is_octal c \<longleftrightarrow> (let n = (of_char c :: nat) in 48 \<le> n \<and> n \<le> 55)"

definition octal_value :: "string \<Rightarrow> nat" where
  "octal_value ds = foldl (\<lambda>v d. v * 8 + (of_char d - 48)) 0 ds"

text \<open>\<open>Uint8Array.from\<close> takes a number modulo 256.\<close>

definition escape_byte :: "char \<Rightarrow> char" where
  "escape_byte c =
    (if c = CHR ''n'' then CHR 0x0A else if c = CHR ''t'' then CHR 0x09 else if c = CHR ''r'' then CHR 0x0D
     else if c = CHR ''b'' then CHR 0x08 else if c = CHR ''f'' then CHR 0x0C else if c = CHR ''a'' then CHR 0x07
     else if c = CHR ''v'' then CHR 0x0B else c)"

function unquote_bytes :: "string \<Rightarrow> string" where
  "unquote_bytes s =
    (case s of
       [] \<Rightarrow> []
     | [c] \<Rightarrow> [c]
     | c # d # rest \<Rightarrow>
         if c = BSL then
           (if is_octal d then
              (let oct = d # takeWhile is_octal (take 2 rest)
               in char_of (octal_value oct) # unquote_bytes (drop (length oct - 1) rest))
            else escape_byte d # unquote_bytes rest)
         else c # unquote_bytes (d # rest))"
  by pat_completeness auto
termination
  by (relation "measure length") auto

declare unquote_bytes.simps [simp del]

definition decodeGitQuotedPath :: "(string \<Rightarrow> string) \<Rightarrow> string \<Rightarrow> string" where
  "decodeGitQuotedPath utf8 raw =
    (if length raw < 2 \<or> hd raw \<noteq> DQ \<or> last raw \<noteq> DQ then raw
     else utf8 (unquote_bytes (butlast (tl raw))))"

section \<open>Status\<close>

record porcelain_file =
  pp_path :: string
  pp_status :: string
  pp_staged :: bool
  pp_origPath :: "string option"

record porcelain_status =
  ps_branch :: string
  ps_ahead :: int
  ps_behind :: int
  ps_files :: "porcelain_file list"

definition statusFromXy :: "string \<Rightarrow> string \<times> bool" where
  "statusFromXy xy =
    (if xy = ''??'' then (''?'', False)
     else ((if trim xy = [] then '' '' else trim xy), hd xy \<noteq> CHR '' '' \<and> hd xy \<noteq> CHR ''?''))"

definition decimal_value :: "string \<Rightarrow> int" where
  "decimal_value ds = foldl (\<lambda>v d. v * 10 + (of_char d - 48)) 0 ds"

definition counter_of :: "string \<Rightarrow> string \<Rightarrow> int" where
  "counter_of word info =
    (case exec False (re_seq [re_lit word, Plus Space, Capture 1 (Plus (OneOf ''0123456789''))]) info 0 of
       Some m \<Rightarrow> decimal_value (capture 1 m)
     | None \<Rightarrow> 0)"

text \<open>\<open>s.split('...')[0]\<close>.\<close>

definition before_dots :: "string \<Rightarrow> string" where
  "before_dots s = (case index_of s ''...'' 0 of Some i \<Rightarrow> take i s | None \<Rightarrow> s)"

definition parseBranchHeader :: "string \<Rightarrow> string \<times> int \<times> int" where
  "parseBranchHeader l =
    (let branchLine = (if starts_with_at l ''## '' 0 then drop 3 l else l) in
     case index_of branchLine '' '' 0 of
       Some (Suc k) \<Rightarrow>
         (let info = drop (Suc (Suc k)) branchLine
          in (before_dots (take (Suc k) branchLine), counter_of ''ahead'' info, counter_of ''behind'' info))
     | _ \<Rightarrow> (before_dots branchLine, 0, 0))"

abbreviation is_rename :: "string \<Rightarrow> bool" where
  "is_rename xy \<equiv> CHR ''R'' \<in> set xy \<or> CHR ''C'' \<in> set xy"

fun parse_z :: "string list \<Rightarrow> porcelain_status \<Rightarrow> porcelain_status" where
  "parse_z [] st = st"
| "parse_z (part # parts) st =
    (if part = [] then parse_z parts st
     else if starts_with_at part ''## '' 0 then
       (let (branch, ahead, behind) = parseBranchHeader part
        in parse_z parts (st\<lparr> ps_branch := branch, ps_ahead := ahead, ps_behind := behind \<rparr>))
     else if 3 \<le> length part then
       (let xy = take 2 part; pathPart = drop 3 part; (status, staged) = statusFromXy xy in
        if is_rename xy then
          parse_z (tl parts) (st\<lparr> ps_files := ps_files st @
            [\<lparr> pp_path = (if parts = [] then [] else hd parts), pp_status = status, pp_staged = staged,
               pp_origPath = Some pathPart \<rparr>] \<rparr>)
        else
          parse_z parts (st\<lparr> ps_files := ps_files st @
            [\<lparr> pp_path = pathPart, pp_status = status, pp_staged = staged, pp_origPath = None \<rparr>] \<rparr>))
     else parse_z parts st)"

definition no_status :: porcelain_status where
  "no_status = \<lparr> ps_branch = [], ps_ahead = 0, ps_behind = 0, ps_files = [] \<rparr>"

abbreviation NUL :: char where "NUL \<equiv> CHR 0x00"

definition parsePorcelainStatusZ :: "string \<Rightarrow> porcelain_status" where
  "parsePorcelainStatusZ stdout = parse_z (split_on NUL stdout) no_status"

fun parse_lines :: "(string \<Rightarrow> string) \<Rightarrow> string list \<Rightarrow> porcelain_status \<Rightarrow> porcelain_status" where
  "parse_lines utf8 [] st = st"
| "parse_lines utf8 (l # ls) st =
    (if l = [] then parse_lines utf8 ls st
     else if starts_with_at l ''## '' 0 then
       (let (branch, ahead, behind) = parseBranchHeader l
        in parse_lines utf8 ls (st\<lparr> ps_branch := branch, ps_ahead := ahead, ps_behind := behind \<rparr>))
     else if 3 \<le> length l then
       (let xy = take 2 l; rest = drop 3 l; (status, staged) = statusFromXy xy;
            arrow = (if is_rename xy then index_of rest '' -> '' 0 else None)
        in case arrow of
             Some (Suc k) \<Rightarrow>
               parse_lines utf8 ls (st\<lparr> ps_files := ps_files st @
                 [\<lparr> pp_path = decodeGitQuotedPath utf8 (drop (Suc k + 4) rest), pp_status = status, pp_staged = staged,
                    pp_origPath = Some (decodeGitQuotedPath utf8 (take (Suc k) rest)) \<rparr>] \<rparr>)
           | _ \<Rightarrow>
               parse_lines utf8 ls (st\<lparr> ps_files := ps_files st @
                 [\<lparr> pp_path = decodeGitQuotedPath utf8 rest, pp_status = status, pp_staged = staged, pp_origPath = None \<rparr>] \<rparr>))
     else parse_lines utf8 ls st)"

definition parsePorcelainStatusLines :: "(string \<Rightarrow> string) \<Rightarrow> string \<Rightarrow> porcelain_status" where
  "parsePorcelainStatusLines utf8 stdout =
    parse_lines utf8 (if trim stdout = [] then [] else split_nl (trim stdout)) no_status"

section \<open>Diffs\<close>

datatype diff_line_type = DiffHeader | DiffAdd | DiffRemove | DiffContext | DiffHunk | DiffMeta

record diff_line =
  dl_type :: diff_line_type
  dl_oldLine :: "int option"
  dl_newLine :: "int option"
  dl_content :: string

definition no_newline :: "string \<Rightarrow> bool" where
  "no_newline l \<longleftrightarrow> exec False (re_seq [AtStart, Chr BSL, re_lit '' No newline at end of file'', Star Space, AtEnd]) l 0 \<noteq> None"

definition number :: regex where "number = Plus (OneOf ''0123456789'')"

definition hunk_start :: "string \<Rightarrow> (int \<times> int) option" where
  "hunk_start l =
    (case exec False (re_seq [re_lit ''@@ -'', Capture 1 number, Opt (Then (Chr (CHR '','')) (Capture 2 number)), re_lit '' +'',
         Capture 3 number, Opt (Then (Chr (CHR '','')) (Capture 4 number)), re_lit '' @@'']) l 0 of
       Some m \<Rightarrow> Some (decimal_value (capture 1 m), decimal_value (capture 3 m))
     | None \<Rightarrow> None)"

definition file_header :: "string \<Rightarrow> bool" where
  "file_header l \<longleftrightarrow> starts_with_at l ''diff '' 0 \<or> starts_with_at l ''index '' 0
    \<or> starts_with_at l ''--- '' 0 \<or> starts_with_at l ''+++ '' 0"

fun diff_lines :: "string list \<Rightarrow> int \<Rightarrow> int \<Rightarrow> diff_line list" where
  "diff_lines [] oldLine newLine = []"
| "diff_lines (l # ls) oldLine newLine =
    (if l = [] \<and> ls = [] then []
     else if no_newline l then
       \<lparr> dl_type = DiffMeta, dl_oldLine = None, dl_newLine = None, dl_content = l \<rparr> # diff_lines ls oldLine newLine
     else if file_header l then
       \<lparr> dl_type = DiffHeader, dl_oldLine = None, dl_newLine = None, dl_content = l \<rparr> # diff_lines ls oldLine newLine
     else if starts_with_at l ''@@'' 0 then
       (let (o', n') = (case hunk_start l of Some p \<Rightarrow> p | None \<Rightarrow> (oldLine, newLine))
        in \<lparr> dl_type = DiffHunk, dl_oldLine = None, dl_newLine = None, dl_content = l \<rparr> # diff_lines ls o' n')
     else if starts_with_at l ''+'' 0 then
       \<lparr> dl_type = DiffAdd, dl_oldLine = None, dl_newLine = Some newLine, dl_content = l \<rparr> # diff_lines ls oldLine (newLine + 1)
     else if starts_with_at l ''-'' 0 then
       \<lparr> dl_type = DiffRemove, dl_oldLine = Some oldLine, dl_newLine = None, dl_content = l \<rparr> # diff_lines ls (oldLine + 1) newLine
     else
       \<lparr> dl_type = DiffContext, dl_oldLine = Some oldLine, dl_newLine = Some newLine, dl_content = l \<rparr>
         # diff_lines ls (oldLine + 1) (newLine + 1))"

definition parseDiff :: "string \<Rightarrow> diff_line list" where
  "parseDiff d = diff_lines (split_nl d) 0 0"

section \<open>References\<close>

text \<open>How git quotes the bytes of a path: letters for the control characters that have one, three octal digits for the others.\<close>

definition quoted_letter :: "char \<Rightarrow> char option" where
  "quoted_letter b =
    map_of [(CHR 0x07, CHR ''a''), (CHR 0x08, CHR ''b''), (CHR 0x09, CHR ''t''), (CHR 0x0A, CHR ''n''), (CHR 0x0B, CHR ''v''),
      (CHR 0x0C, CHR ''f''), (CHR 0x0D, CHR ''r''), (DQ, DQ), (BSL, BSL)] b"

definition octal3 :: "nat \<Rightarrow> string" where
  "octal3 n = map (\<lambda>d. char_of (48 + d)) [n div 64, n div 8 mod 8, n mod 8]"

definition quote_byte :: "char \<Rightarrow> string" where
  "quote_byte b =
    (case quoted_letter b of
       Some l \<Rightarrow> [BSL, l]
     | None \<Rightarrow>
         (let n = (of_char b :: nat) in if n < 32 \<or> 127 \<le> n then BSL # octal3 n else [b]))"

definition quote_path :: "string \<Rightarrow> string" where
  "quote_path bs = DQ # concat (map quote_byte bs) @ [DQ]"

section \<open>Facts\<close>

lemma unquote_plain: "c \<noteq> BSL \<Longrightarrow> unquote_bytes (c # rest) = c # unquote_bytes rest"
  by (cases rest) (simp_all add: unquote_bytes.simps [of "c # _"] unquote_bytes.simps [of "[]"])

lemma unquote_letter: "\<not> is_octal d \<Longrightarrow> unquote_bytes (BSL # d # rest) = escape_byte d # unquote_bytes rest"
  by (simp add: unquote_bytes.simps [of "BSL # _"])

lemma unquote_octal:
  "is_octal a \<Longrightarrow> is_octal b \<Longrightarrow> is_octal c \<Longrightarrow>
    unquote_bytes (BSL # a # b # c # rest) = char_of (octal_value [a, b, c]) # unquote_bytes rest"
  by (simp add: unquote_bytes.simps [of "BSL # _"] Let_def)

lemma octal_digit: "d < 8 \<Longrightarrow> is_octal (char_of (48 + d)) \<and> (of_char (char_of (48 + d)) :: nat) = 48 + d"
  by (simp add: is_octal_def)

lemma unquote_quote_byte: "unquote_bytes (quote_byte b @ rest) = b # unquote_bytes rest"
proof (cases "quoted_letter b")
  case None
  define n where "n = (of_char b :: nat)"
  have n: "n < 256" unfolding n_def by simp
  show ?thesis
  proof (cases "n < 32 \<or> 127 \<le> n")
    case True
    have d: "n div 64 < 8" "n div 8 mod 8 < 8" "n mod 8 < 8" using n by auto
    have eq: "octal_value [x, y, z] = (of_char x - 48) * 64 + (of_char y - 48) * 8 + (of_char z - 48)" for x y z
      by (simp add: octal_value_def)
    have "octal_value [char_of (48 + n div 64), char_of (48 + n div 8 mod 8), char_of (48 + n mod 8)]
        = n div 64 * 64 + n div 8 mod 8 * 8 + n mod 8"
      by (simp only: eq octal_digit [OF d(1), THEN conjunct2] octal_digit [OF d(2), THEN conjunct2]
          octal_digit [OF d(3), THEN conjunct2] add_diff_cancel_left')
    also have "\<dots> = n"
    proof -
      have "n div 8 div 8 = n div 64" by (simp add: div_mult2_eq [symmetric])
      then show ?thesis using div_mult_mod_eq [of n 8] div_mult_mod_eq [of "n div 8" 8] by linarith
    qed
    finally have val: "char_of (octal_value [char_of (48 + n div 64), char_of (48 + n div 8 mod 8), char_of (48 + n mod 8)]) = b"
      by (simp add: n_def)
    have "quote_byte b = [BSL, char_of (48 + n div 64), char_of (48 + n div 8 mod 8), char_of (48 + n mod 8)]"
      using True None unfolding quote_byte_def by (simp only: option.case n_def [symmetric] Let_def if_True octal3_def list.map)
    moreover have "unquote_bytes (BSL # char_of (48 + n div 64) # char_of (48 + n div 8 mod 8) # char_of (48 + n mod 8) # rest)
        = b # unquote_bytes rest"
      using unquote_octal [OF conjunct1 [OF octal_digit [OF d(1)]] conjunct1 [OF octal_digit [OF d(2)]]
          conjunct1 [OF octal_digit [OF d(3)]], of rest] unfolding val .
    ultimately show ?thesis by simp
  next
    case False
    moreover have "b \<noteq> BSL" using None by (auto simp: quoted_letter_def)
    ultimately show ?thesis using None unquote_plain by (simp add: quote_byte_def n_def [symmetric] Let_def)
  qed
next
  case (Some l)
  then show ?thesis
    by (auto simp: quoted_letter_def quote_byte_def unquote_letter is_octal_def escape_byte_def split: if_splits)
qed

lemma unquote_quote: "unquote_bytes (concat (map quote_byte bs)) = bs"
  by (induction bs) (simp_all add: unquote_quote_byte unquote_bytes.simps [of "[]"])

lemma decode_quote_path: "decodeGitQuotedPath utf8 (quote_path bs) = utf8 bs"
  by (simp add: decodeGitQuotedPath_def quote_path_def unquote_quote)

section \<open>Records of \<open>git status -z\<close>\<close>

text \<open>
  The documentation of git gives a record as \<open>XY\<close>, a blank and the path, and with \<open>-z\<close> a rename as \<open>XY\<close>, a blank, the new path,
  NUL and the old path.
\<close>

datatype z_record = ZFile string string | ZRename string string string

fun z_fields :: "z_record \<Rightarrow> string list" where
  "z_fields (ZFile xy path) = [xy @ '' '' @ path]"
| "z_fields (ZRename xy new old) = [xy @ '' '' @ new, old]"

fun z_ok :: "z_record \<Rightarrow> bool" where
  "z_ok (ZFile xy path) \<longleftrightarrow> length xy = 2 \<and> \<not> is_rename xy \<and> hd xy \<noteq> CHR ''#'' \<and> NUL \<notin> set xy \<and> NUL \<notin> set path"
| "z_ok (ZRename xy new old) \<longleftrightarrow>
     length xy = 2 \<and> is_rename xy \<and> hd xy \<noteq> CHR ''#'' \<and> NUL \<notin> set xy \<and> NUL \<notin> set new \<and> NUL \<notin> set old"

text \<open>What the code makes of a record: of a rename the second field becomes the path.\<close>

fun z_file :: "z_record \<Rightarrow> porcelain_file" where
  "z_file (ZFile xy path) =
    \<lparr> pp_path = path, pp_status = fst (statusFromXy xy), pp_staged = snd (statusFromXy xy), pp_origPath = None \<rparr>"
| "z_file (ZRename xy new old) =
    \<lparr> pp_path = old, pp_status = fst (statusFromXy xy), pp_staged = snd (statusFromXy xy), pp_origPath = Some new \<rparr>"

definition z_output :: "z_record list \<Rightarrow> string" where
  "z_output rs = concat (map (\<lambda>f. f @ [NUL]) (concat (map z_fields rs)))"

lemma split_on_fields:
  "\<forall>f \<in> set fs. d \<notin> set f \<Longrightarrow> split_on d (concat (map (\<lambda>f. f @ [d]) fs)) = fs @ [[]]"
proof (induction fs)
  case (Cons f fs)
  have "split_on d (f @ d # s) = f # split_on d s" if "d \<notin> set f" for f s
    using that by (induction f) auto
  then show ?case using Cons by simp
qed simp

lemma length2: "length xy = 2 \<Longrightarrow> \<exists>a b. xy = [a, b]"
  by (cases xy; cases "tl xy") auto

lemma parse_z_record:
  assumes "z_ok r"
  shows "parse_z (z_fields r @ fs) st = parse_z fs (st\<lparr> ps_files := ps_files st @ [z_file r] \<rparr>)"
proof (cases r)
  case (ZFile xy path)
  then obtain a b where "xy = [a, b]" using assms length2 [of xy] by auto
  then show ?thesis using assms ZFile by (auto simp: Let_def split: prod.splits)
next
  case (ZRename xy new old)
  then obtain a b where "xy = [a, b]" using assms length2 [of xy] by auto
  then show ?thesis using assms ZRename by (auto simp: Let_def split: prod.splits)
qed

lemma parse_z_records:
  "list_all z_ok rs \<Longrightarrow> parse_z (concat (map z_fields rs) @ [[]]) st = st\<lparr> ps_files := ps_files st @ map z_file rs \<rparr>"
  by (induction rs arbitrary: st) (simp_all add: parse_z_record)

lemma parse_z_output:
  assumes "list_all z_ok rs"
  shows "parsePorcelainStatusZ (z_output rs) = no_status\<lparr> ps_files := map z_file rs \<rparr>"
proof -
  have "NUL \<notin> set f" if f: "f \<in> set (concat (map z_fields rs))" for f
  proof -
    obtain r where r: "r \<in> set rs" "f \<in> set (z_fields r)" using f by auto
    then have "z_ok r" using assms by (auto simp: list_all_iff)
    then show ?thesis using r(2) by (cases r) auto
  qed
  then have "split_on NUL (z_output rs) = concat (map z_fields rs) @ [[]]"
    unfolding z_output_def by (intro split_on_fields) blast
  then show ?thesis using assms by (simp add: parsePorcelainStatusZ_def parse_z_records no_status_def)
qed

section \<open>Line numbers of a hunk\<close>

text \<open>A line of a hunk as git writes it: its kind and its text.\<close>

datatype hunk_kind = Kept | Added | Removed

fun hunk_line :: "hunk_kind \<times> string \<Rightarrow> string" where
  "hunk_line (Kept, s) = CHR '' '' # s"
| "hunk_line (Added, s) = CHR ''+'' # s"
| "hunk_line (Removed, s) = CHR ''-'' # s"

text \<open>The lines the parser takes for file headers: a removed text with \<open>-- \<close> in front or an added one with \<open>++ \<close>.\<close>

fun like_header :: "hunk_kind \<times> string \<Rightarrow> bool" where
  "like_header (Kept, s) = False"
| "like_header (Added, s) = starts_with_at s ''++ '' 0"
| "like_header (Removed, s) = starts_with_at s ''-- '' 0"

text \<open>The numbers a diff gives the lines: the old file counts what was kept or removed, the new one what was kept or added.\<close>

fun numbered :: "(hunk_kind \<times> string) list \<Rightarrow> int \<Rightarrow> int \<Rightarrow> diff_line list" where
  "numbered [] a b = []"
| "numbered ((Kept, s) # ls) a b =
    \<lparr> dl_type = DiffContext, dl_oldLine = Some a, dl_newLine = Some b, dl_content = CHR '' '' # s \<rparr> # numbered ls (a + 1) (b + 1)"
| "numbered ((Added, s) # ls) a b =
    \<lparr> dl_type = DiffAdd, dl_oldLine = None, dl_newLine = Some b, dl_content = CHR ''+'' # s \<rparr> # numbered ls a (b + 1)"
| "numbered ((Removed, s) # ls) a b =
    \<lparr> dl_type = DiffRemove, dl_oldLine = Some a, dl_newLine = None, dl_content = CHR ''-'' # s \<rparr> # numbered ls (a + 1) b"

lemma not_no_newline: "c \<noteq> BSL \<Longrightarrow> \<not> no_newline (c # s)"
proof -
  assume "c \<noteq> BSL"
  then have "rmatch False (c # s) (re_seq [AtStart, Chr BSL, re_lit '' No newline at end of file'', Star Space, AtEnd]) (j, []) = []" for j
    by (cases j) (simp_all add: re_seq_def one_char_def same_char_def)
  moreover have "find (\<lambda>j. False) js = None" for js :: "nat list" by (induction js) auto
  ultimately show ?thesis by (simp add: no_newline_def exec_def del: upt_Suc)
qed

lemma starts_with_shift: "starts_with_at (c # s) p (Suc i) = starts_with_at s p i"
  by (simp add: starts_with_at_def)

lemma diff_lines_hunk:
  assumes "list_all (\<lambda>l. \<not> like_header l) ls"
  shows "diff_lines (map hunk_line ls @ [[]]) a b = numbered ls a b"
  using assms
proof (induction ls arbitrary: a b)
  case (Cons l ls)
  obtain k s where l: "l = (k, s)" by fastforce
  have IH: "diff_lines (map hunk_line ls @ [[]]) a b = numbered ls a b" for a b using Cons by simp
  show ?case
  proof (cases k)
    case Kept
    then show ?thesis using l not_no_newline [of "CHR '' ''" s] IH by (simp add: file_header_def)
  next
    case Added
    then show ?thesis using l not_no_newline [of "CHR ''+''" s] IH Cons.prems by (auto simp: file_header_def starts_with_shift)
  next
    case Removed
    then show ?thesis using l not_no_newline [of "CHR ''-''" s] IH Cons.prems by (auto simp: file_header_def starts_with_shift)
  qed
qed simp

end
