(* ===== verification/EncodingIds.thy ===== *)
theory EncodingIds
  imports JsRegex
begin

text \<open>
  \<open>encoding-extension/src/browser/encoding-utils.ts\<close> and \<open>reopen-strategy.ts\<close>: the names of encodings in the three
  domains, and how an editor is reloaded with another encoding. The tables are association lists. A name that every
  object inherits, such as \<open>constructor\<close>, is in the tables of the code and not in these.
\<close>

definition KAIRO_ENCODING_OPTIONS :: "string list" where
  "KAIRO_ENCODING_OPTIONS =
    [''utf-8'', ''utf-8-bom'', ''gbk'', ''gb18030'', ''iso-8859-1'', ''us-ascii'', ''utf-16le'', ''utf-16be'']"

definition normalizeEncodingLabel :: "string \<Rightarrow> string" where
  "normalizeEncodingLabel encoding = (if encoding = ''utf-8-bom'' then ''utf-8'' else encoding)"

definition KAIRO_TO_THEIA_ENCODING :: "(string \<times> string) list" where
  "KAIRO_TO_THEIA_ENCODING =
    [(''utf-8'', ''utf8''), (''utf-8-bom'', ''utf8bom''), (''utf-16le'', ''utf16le''), (''utf-16be'', ''utf16be''),
     (''iso-8859-1'', ''iso88591''), (''gbk'', ''gbk''), (''gb18030'', ''gb18030''), (''us-ascii'', ''utf8'')]"

definition THEIA_TO_KAIRO_ENCODING :: "(string \<times> string) list" where
  "THEIA_TO_KAIRO_ENCODING =
    [(''utf8'', ''utf-8''), (''utf8bom'', ''utf-8-bom''), (''utf16le'', ''utf-16le''), (''utf16be'', ''utf-16be''),
     (''iso88591'', ''iso-8859-1''), (''gbk'', ''gbk''), (''gb18030'', ''gb18030'')]"

definition toKairoEncodingId :: "string \<Rightarrow> string" where
  "toKairoEncodingId ident =
    (let l = trim (map lower ident) in
     case map_of THEIA_TO_KAIRO_ENCODING l of
       Some k \<Rightarrow> k
     | None \<Rightarrow>
         if map_of KAIRO_TO_THEIA_ENCODING l \<noteq> None then l
         else if l = ''utf8'' then ''utf-8''
         else if l = ''utf8bom'' \<or> l = ''utf-8-bom'' then ''utf-8-bom''
         else if l = ''latin1'' \<or> l = ''latin-1'' \<or> l = ''iso8859-1'' then ''iso-8859-1''
         else if l = ''ascii'' then ''us-ascii''
         else if l = ''gb2312'' \<or> l = ''cp936'' \<or> l = ''ms936'' then ''gbk''
         else l)"

definition toGoEncodingId :: "string \<Rightarrow> string" where "toGoEncodingId ident = toKairoEncodingId ident"

definition toTheiaEncodingId :: "string \<Rightarrow> string" where
  "toTheiaEncodingId label =
    (let kairo = toKairoEncodingId label in case map_of KAIRO_TO_THEIA_ENCODING kairo of Some t \<Rightarrow> t | None \<Rightarrow> kairo)"

definition fromTheiaEncodingId :: "string \<Rightarrow> string" where "fromTheiaEncodingId ident = toKairoEncodingId ident"

definition sameEncodingId :: "string \<Rightarrow> string \<Rightarrow> bool" where
  "sameEncodingId a b \<longleftrightarrow> toKairoEncodingId a = toKairoEncodingId b"

section \<open>Reloading an editor\<close>

datatype reopen_outcome = Redecoded | Reopened | RefusedDirty

datatype reopen_action = Warn | SetEncoding string | CloseEditor | AwaitDispose | OpenEditor

text \<open>What the command does, in order; \<open>can_set\<close> is whether the editor has \<open>setEncoding\<close>.\<close>

definition reloadEditorWithEncoding :: "bool \<Rightarrow> bool \<Rightarrow> string \<Rightarrow> reopen_action list \<times> reopen_outcome" where
  "reloadEditorWithEncoding dirty can_set encoding =
    (if dirty then ([Warn], RefusedDirty)
     else if can_set then ([SetEncoding encoding], Redecoded)
     else ([CloseEditor, AwaitDispose, OpenEditor], Reopened))"

section \<open>Facts\<close>

lemma lower_lower [simp]: "lower (lower c) = lower c"
  by (auto simp: lower_def Let_def)

definition folded :: "string \<Rightarrow> string" where "folded s = trim (map lower s)"

definition kairo_of :: "string \<Rightarrow> string" where
  "kairo_of l =
    (case map_of THEIA_TO_KAIRO_ENCODING l of
       Some k \<Rightarrow> k
     | None \<Rightarrow>
         if map_of KAIRO_TO_THEIA_ENCODING l \<noteq> None then l
         else if l = ''utf8'' then ''utf-8''
         else if l = ''utf8bom'' \<or> l = ''utf-8-bom'' then ''utf-8-bom''
         else if l = ''latin1'' \<or> l = ''latin-1'' \<or> l = ''iso8859-1'' then ''iso-8859-1''
         else if l = ''ascii'' then ''us-ascii''
         else if l = ''gb2312'' \<or> l = ''cp936'' \<or> l = ''ms936'' then ''gbk''
         else l)"

lemma toKairo_alt: "toKairoEncodingId ident = kairo_of (folded ident)"
  by (simp add: toKairoEncodingId_def kairo_of_def folded_def Let_def)

lemma folded_folded: "folded (folded s) = folded s"
proof -
  have "set (trim xs) \<subseteq> set xs" for xs
    unfolding trim_def set_rev using set_dropWhileD [of _ is_js_space] by (metis set_rev subsetI)
  then have "map lower (trim (map lower s)) = trim (map lower s)" by (intro map_idI) fastforce
  then show ?thesis by (simp add: folded_def)
qed

lemma kairo_of_cases: "kairo_of l = l \<or> kairo_of l \<in> set KAIRO_ENCODING_OPTIONS"
  by (simp add: kairo_of_def THEIA_TO_KAIRO_ENCODING_def KAIRO_ENCODING_OPTIONS_def)

lemma canonical: "list_all (\<lambda>k. toKairoEncodingId k = k) KAIRO_ENCODING_OPTIONS"
  by code_simp

lemma canonical_id: "k \<in> set KAIRO_ENCODING_OPTIONS \<Longrightarrow> toKairoEncodingId k = k"
  using canonical by (simp add: list_all_iff)

lemma toKairo_idem: "toKairoEncodingId (toKairoEncodingId ident) = toKairoEncodingId ident"
  using kairo_of_cases [of "folded ident"] canonical_id folded_folded [of ident]
  by (auto simp: toKairo_alt)

lemma theia_names: "list_all (\<lambda>(k, t). toTheiaEncodingId t = t \<and> (k \<noteq> ''us-ascii'' \<longrightarrow> toKairoEncodingId t = k)) KAIRO_TO_THEIA_ENCODING"
  by code_simp

lemma theia_name:
  assumes "map_of KAIRO_TO_THEIA_ENCODING k = Some t"
  shows "toTheiaEncodingId t = t" and "k \<noteq> ''us-ascii'' \<Longrightarrow> toKairoEncodingId t = k"
proof -
  have "(k, t) \<in> set KAIRO_TO_THEIA_ENCODING" using assms by (rule map_of_SomeD)
  then have "toTheiaEncodingId t = t \<and> (k \<noteq> ''us-ascii'' \<longrightarrow> toKairoEncodingId t = k)"
    using theia_names by (auto simp: list_all_iff)
  then show "toTheiaEncodingId t = t" and "k \<noteq> ''us-ascii'' \<Longrightarrow> toKairoEncodingId t = k" by auto
qed

lemma toTheia_idem: "toTheiaEncodingId (toTheiaEncodingId ident) = toTheiaEncodingId ident"
proof (cases "map_of KAIRO_TO_THEIA_ENCODING (toKairoEncodingId ident)")
  case None
  then show ?thesis by (simp add: toTheiaEncodingId_def toKairo_idem)
next
  case (Some t)
  then show ?thesis using theia_name(1) [OF Some] by (simp add: toTheiaEncodingId_def [of ident])
qed

lemma same_as_theia: "toKairoEncodingId ident \<noteq> ''us-ascii'' \<Longrightarrow> sameEncodingId (toTheiaEncodingId ident) ident"
  using theia_name(2)
  by (cases "map_of KAIRO_TO_THEIA_ENCODING (toKairoEncodingId ident)")
    (auto simp: sameEncodingId_def toTheiaEncodingId_def [of ident] toKairo_idem)

end
