(* ===== verification/ToolProperties.thy ===== *)
theory ToolProperties
  imports GitPaths EncodingIds
begin

text \<open>
  The properties of the output of git and of the names of encodings.
\<close>

section \<open>Git output and encodings\<close>

text \<open>
  Decoding a path that git has quoted, with letters for the control characters and three octal digits
  for the other bytes, gives the bytes of the path to the UTF-8 decoder.
\<close>

theorem quoted_path_roundtrip: "decodeGitQuotedPath utf8 (quote_path bytes) = utf8 bytes"
  by (rule decode_quote_path)

text \<open>
  From the NUL-separated status of any list of changes the parser gets every change with its status and its
  path; of a rename, whose record has the new path first, it takes the old path for the path and the new one for the original.
\<close>

theorem status_z_swaps_renames:
  assumes "list_all z_ok records"
  shows "ps_files (parsePorcelainStatusZ (z_output records)) = map z_file records"
  using parse_z_output [OF assms] by simp

lemma status_z_swaps_renames_witness:
  "map (\<lambda>f. (pp_path f, pp_origPath f)) (ps_files (parsePorcelainStatusZ (z_output [ZFile '' M'' ''a.c'', ZRename ''R '' ''new.c'' ''old.c''])))
   = [(''a.c'', None), (''old.c'', Some ''new.c'')]"
proof -
  have "list_all z_ok [ZFile '' M'' ''a.c'', ZRename ''R '' ''new.c'' ''old.c'']" by code_simp
  from status_z_swaps_renames [OF this] show ?thesis by simp
qed

text \<open>
  The lines of a hunk get the numbers they have in the two files, counted on from the numbers of the hunk, when
  no removed text begins with \<open>-- \<close> and no added text with \<open>++ \<close>.
\<close>

theorem hunk_lines_numbered:
  assumes "list_all (\<lambda>l. \<not> like_header l) ls"
  shows "diff_lines (map hunk_line ls @ [[]]) a b = numbered ls a b"
  by (rule diff_lines_hunk [OF assms])

lemma hunk_lines_numbered_witness:
  "map dl_oldLine (diff_lines (map hunk_line [(Kept, ''x''), (Removed, ''y''), (Added, ''z''), (Kept, ''w'')] @ [[]]) 7 9)
   = [Some 7, Some 8, None, Some 9]"
proof -
  have "list_all (\<lambda>l. \<not> like_header l) [(Kept, ''x''), (Removed, ''y''), (Added, ''z''), (Kept, ''w'')]" by code_simp
  from hunk_lines_numbered [OF this, of 7 9] show ?thesis by simp
qed

lemma like_header_line_witness:
  "map dl_type (parseDiff ''@@ -1,2 +1 @@
--- old comment
 kept
'') = [DiffHunk, DiffHeader, DiffContext]
   \<and> map dl_oldLine (parseDiff ''@@ -1,2 +1 @@
--- old comment
 kept
'') = [None, None, Some 1]"
  by code_simp

text \<open>
  The conversions between the domains of encoding names are idempotent, and the name Theia gets stands for the
  same encoding as the name it was made from, for every encoding but \<open>us-ascii\<close>.
\<close>

theorem encoding_ids_agree:
  "toKairoEncodingId (toKairoEncodingId name) = toKairoEncodingId name
   \<and> toTheiaEncodingId (toTheiaEncodingId name) = toTheiaEncodingId name
   \<and> (sameEncodingId (toTheiaEncodingId name) name \<or> toKairoEncodingId name = ''us-ascii'')"
  using toKairo_idem toTheia_idem same_as_theia by blast

end
