(* ===== verification/FileUris.thy ===== *)
theory FileUris
  imports PropertiesEscape JsRegex
begin

text \<open>
  \<open>pathToFileUri\<close> of \<open>java-extension/src/browser/java-ls-lifecycle.ts\<close> with \<open>encodeURIComponent\<close> of the
  language: the URI of a path, over UTF-16 units. \<open>None\<close> is the \<open>URIError\<close> that a lone surrogate raises.
  \<open>decodeURIComponent\<close> is the reference against which the URI is read.
\<close>

section \<open>UTF-8 of a code point\<close>

definition utf8_bytes :: "nat \<Rightarrow> nat list" where
  "utf8_bytes cp =
    (if cp < 0x80 then [cp]
     else if cp < 0x800 then [0xC0 + cp div 0x40, 0x80 + cp mod 0x40]
     else if cp < 0x10000 then [0xE0 + cp div 0x1000, 0x80 + cp div 0x40 mod 0x40, 0x80 + cp mod 0x40]
     else [0xF0 + cp div 0x40000, 0x80 + cp div 0x1000 mod 0x40, 0x80 + cp div 0x40 mod 0x40, 0x80 + cp mod 0x40])"

text \<open>How many bytes a leading byte announces.\<close>

definition utf8_count :: "nat \<Rightarrow> nat" where
  "utf8_count b = (if b < 0x80 then 1 else if b < 0xC0 then 0 else if b < 0xE0 then 2 else if b < 0xF0 then 3
    else if b < 0xF8 then 4 else 0)"

definition utf8_value :: "nat list \<Rightarrow> nat" where
  "utf8_value bs = foldl (\<lambda>n b. n * 0x40 + b mod 0x40)
    (case length bs of Suc 0 \<Rightarrow> hd bs | Suc (Suc 0) \<Rightarrow> hd bs - 0xC0 | Suc (Suc (Suc 0)) \<Rightarrow> hd bs - 0xE0 | _ \<Rightarrow> hd bs - 0xF0)
    (tl bs)"

lemma base64_digits:
  fixes cp :: nat
  shows "cp div 0x1000 * 0x40 + cp div 0x40 mod 0x40 = cp div 0x40"
    and "cp div 0x40000 * 0x40 + cp div 0x1000 mod 0x40 = cp div 0x1000"
    and "cp div 0x40 * 0x40 + cp mod 0x40 = cp"
  using div_mult_mod_eq [of "cp div 0x40" "0x40"] div_mult_mod_eq [of "cp div 0x1000" "0x40"] div_mult_mod_eq [of cp "0x40"]
  by (simp_all add: div_mult2_eq [symmetric])

lemma continuation_byte: "(0x80 + n mod 0x40) mod 0x40 = n mod 0x40" for n :: nat
  using mod_add_left_eq [of "0x80" "0x40" "n mod 0x40"] by simp

lemma utf8_value_simps:
  "utf8_value [a] = a"
  "utf8_value [a, b] = (a - 0xC0) * 0x40 + b mod 0x40"
  "utf8_value [a, b, c] = ((a - 0xE0) * 0x40 + b mod 0x40) * 0x40 + c mod 0x40"
  "utf8_value [a, b, c, d] = (((a - 0xF0) * 0x40 + b mod 0x40) * 0x40 + c mod 0x40) * 0x40 + d mod 0x40"
  by (simp_all add: utf8_value_def)

lemma utf8_value_bytes: "utf8_value (utf8_bytes cp) = cp"
  by (simp only: utf8_bytes_def if_distrib [of utf8_value] utf8_value_simps add_diff_cancel_left' continuation_byte
    base64_digits if_cancel)

lemma utf8_count_bytes: "cp < 0x110000 \<Longrightarrow> utf8_count (hd (utf8_bytes cp)) = length (utf8_bytes cp)"
  by (auto simp: utf8_count_def utf8_bytes_def)

lemma utf8_bytes_bounded: "cp < 0x110000 \<Longrightarrow> b \<in> set (utf8_bytes cp) \<Longrightarrow> b < 0x100"
  by (auto simp: utf8_bytes_def split: if_splits)

lemma utf8_bytes_not_Nil [simp]: "utf8_bytes cp \<noteq> []"
  by (simp add: utf8_bytes_def)

section \<open>\<open>encodeURIComponent\<close>\<close>

abbreviation PERCENT :: code_unit where "PERCENT \<equiv> 0x25"
abbreviation SLASH :: code_unit where "SLASH \<equiv> 0x2F"

definition units :: "string \<Rightarrow> code_unit list" where
  "units s = map unit_of s"

text \<open>The units that stand for themselves: letters, digits and \<open>- _ . ! ~ * ' ( )\<close>.\<close>

definition unreserved :: "code_unit \<Rightarrow> bool" where
  "unreserved u \<longleftrightarrow> 0x41 \<le> u \<and> u \<le> 0x5A \<or> 0x61 \<le> u \<and> u \<le> 0x7A \<or> 0x30 \<le> u \<and> u \<le> 0x39
    \<or> u \<in> set (units ''-_.!~*()'') \<or> u = unit_of SQ"

definition percent_byte :: "nat \<Rightarrow> code_unit list" where
  "percent_byte b = [PERCENT, HEX ! (b div 16), HEX ! (b mod 16)]"

definition encode_char :: "nat \<Rightarrow> code_unit list option" where
  "encode_char cp =
    (if cp < 0x80 \<and> unreserved (word_of_nat cp) then Some [word_of_nat cp]
     else if 0xD800 \<le> cp \<and> cp \<le> 0xDFFF then None
     else Some (concat (map percent_byte (utf8_bytes cp))))"

fun concat_opt :: "'a list option list \<Rightarrow> 'a list option" where
  "concat_opt [] = Some []"
| "concat_opt (x # xs) =
     (case (x, concat_opt xs) of (Some a, Some as) \<Rightarrow> Some (a @ as) | _ \<Rightarrow> None)"

definition encodeURIComponent :: "code_unit list \<Rightarrow> code_unit list option" where
  "encodeURIComponent s = concat_opt (map encode_char (code_points s))"

section \<open>\<open>pathToFileUri\<close>\<close>

text \<open>\<open>segments.map(encodeURIComponent).join('/')\<close>.\<close>

fun all_some :: "'a option list \<Rightarrow> 'a list option" where
  "all_some [] = Some []"
| "all_some (x # xs) =
     (case (x, all_some xs) of (Some a, Some as) \<Rightarrow> Some (a # as) | _ \<Rightarrow> None)"

definition encode_segments :: "code_unit list list \<Rightarrow> code_unit list option" where
  "encode_segments segs = map_option (join_with [SLASH]) (all_some (map encodeURIComponent segs))"

definition normalized_path :: "code_unit list \<Rightarrow> code_unit list" where
  "normalized_path p = map (\<lambda>u. if u = BS then SLASH else u) p"

definition line_terminator :: "code_unit \<Rightarrow> bool" where
  "line_terminator u \<longleftrightarrow> u = 0x0A \<or> u = 0x0D \<or> u = 0x2028 \<or> u = 0x2029"

text \<open>\<open>/^\/([A-Za-z]):(\/.*)?$/\<close>: the letter, and the group or the empty text.\<close>

definition drive_parts :: "code_unit list \<Rightarrow> (code_unit \<times> code_unit list) option" where
  "drive_parts n =
    (case n of
       s # l # c # rest \<Rightarrow>
         if s = SLASH \<and> (0x41 \<le> l \<and> l \<le> 0x5A \<or> 0x61 \<le> l \<and> l \<le> 0x7A) \<and> c = unit_of (CHR '':'')
            \<and> (rest = [] \<or> hd rest = SLASH \<and> list_all (\<lambda>u. \<not> line_terminator u) (tl rest))
         then Some (l, rest) else None
     | _ \<Rightarrow> None)"

definition unc_uri :: "code_unit list \<Rightarrow> code_unit list option" where
  "unc_uri n =
    (let parts = split_on SLASH n in
     case (encodeURIComponent (parts ! 2), encode_segments (drop 3 parts)) of
       (Some host, Some path) \<Rightarrow>
         Some (if path \<noteq> [] then units ''file://'' @ host @ [SLASH] @ path else units ''file://'' @ host)
     | _ \<Rightarrow> None)"

definition pathToFileUri :: "code_unit list \<Rightarrow> code_unit list option" where
  "pathToFileUri p =
    (let normalized = normalized_path p in
     if take 2 normalized = [SLASH, SLASH] then unc_uri normalized
     else
       let rooted = (if take 1 normalized = [SLASH] then normalized else SLASH # normalized) in
       case drive_parts rooted of
         Some (l, r) \<Rightarrow>
           map_option (\<lambda>rest. if rest \<noteq> [] then units ''file:///'' @ [l] @ units '':/'' @ rest else units ''file:///'' @ [l] @ units '':'')
             (encode_segments (tl (split_on SLASH r)))
       | None \<Rightarrow>
           map_option (\<lambda>rest. units ''file://'' @ [SLASH] @ rest) (encode_segments (tl (split_on SLASH rooted))))"

section \<open>Reading a URI\<close>

text \<open>The reference: \<open>%XX\<close> are bytes, and bytes are read as UTF-8 that only the shortest form encodes.\<close>

fun percent_tokens :: "code_unit list \<Rightarrow> (code_unit + nat) list option" where
  "percent_tokens [] = Some []"
| "percent_tokens (u # us) =
     (if u = PERCENT
      then (case us of
              a # b # r \<Rightarrow>
                (case (hex_value a, hex_value b) of
                   (Some x, Some y) \<Rightarrow> map_option (Cons (Inr (16 * x + y))) (percent_tokens r)
                 | _ \<Rightarrow> None)
            | _ \<Rightarrow> None)
      else map_option (Cons (Inl u)) (percent_tokens us))"

definition surrogate :: "nat \<Rightarrow> bool" where
  "surrogate cp \<longleftrightarrow> 0xD800 \<le> cp \<and> cp \<le> 0xDFFF"

definition point_units :: "nat \<Rightarrow> code_unit list" where
  "point_units cp = (if cp < 0x10000 then [word_of_nat cp] else fromCodePoint cp)"

fun from_byte :: "code_unit + nat \<Rightarrow> nat option" where
  "from_byte (Inr b) = Some b"
| "from_byte (Inl u) = None"

definition read_point :: "nat \<Rightarrow> (code_unit + nat) list \<Rightarrow> nat option" where
  "read_point b ts =
    (case all_some (map from_byte (take (utf8_count b - 1) ts)) of
       None \<Rightarrow> None
     | Some bs \<Rightarrow>
         (let cp = utf8_value (b # bs)
          in if cp < 0x110000 \<and> \<not> surrogate cp \<and> utf8_bytes cp = b # bs then Some cp else None))"

function token_units :: "(code_unit + nat) list \<Rightarrow> code_unit list option" where
  "token_units [] = Some []"
| "token_units (Inl u # ts) = map_option (Cons u) (token_units ts)"
| "token_units (Inr b # ts) =
     (case read_point b ts of
        None \<Rightarrow> None
      | Some cp \<Rightarrow> map_option (append (point_units cp)) (token_units (drop (utf8_count b - 1) ts)))"
  by pat_completeness auto
termination
  by (relation "measure length") auto

definition decodeURIComponent :: "code_unit list \<Rightarrow> code_unit list option" where
  "decodeURIComponent s = (case percent_tokens s of None \<Rightarrow> None | Some ts \<Rightarrow> token_units ts)"

definition well_formed :: "code_unit list \<Rightarrow> bool" where
  "well_formed s \<longleftrightarrow> list_all (\<lambda>cp. \<not> surrogate cp) (code_points s)"

text \<open>
  What reading the URI of a path gives, for the proofs: without the last slash where the code drops it.
  What it should give is \<open>absolute_path\<close> below.
\<close>

definition file_path :: "code_unit list \<Rightarrow> code_unit list" where
  "file_path p =
    (let n = normalized_path p in
     if take 2 n = [SLASH, SLASH]
     then (if count_list (drop 2 n) SLASH = 1 \<and> last n = SLASH then butlast (drop 2 n) else drop 2 n)
     else
       let rooted = (if take 1 n = [SLASH] then n else SLASH # n)
       in if drive_parts rooted \<noteq> None \<and> length rooted = 4 then butlast rooted else rooted)"

section \<open>Facts\<close>

lemma all_some_Some: "all_some xs = Some ys \<longleftrightarrow> xs = map Some ys"
proof (induction xs arbitrary: ys)
  case (Cons x xs)
  have "all_some (x # xs) = Some ys \<longleftrightarrow> (\<exists>a as. x = Some a \<and> all_some xs = Some as \<and> ys = a # as)"
    by (auto split: option.splits)
  then show ?case unfolding Cons.IH by (cases ys) auto
qed auto

lemma all_some_length: "all_some xs = Some ys \<Longrightarrow> length ys = length xs"
  by (simp add: all_some_Some)

lemma all_some_map: "(\<And>x. x \<in> set xs \<Longrightarrow> f x = Some (g x)) \<Longrightarrow> all_some (map f xs) = Some (map g xs)"
  by (induction xs) auto

lemma join_split: "join_with [d] (split_on d s) = s"
proof (induction s)
  case (Cons c s)
  obtain l ls where "split_on d s = l # ls" by (cases "split_on d s") auto
  with Cons show ?case by (cases ls) auto
qed simp

lemma code_points_bounded: "cp \<in> set (code_points s) \<Longrightarrow> cp < 0x110000"
  by (induction s rule: code_points.induct)
     (auto simp: unit_bounds intro: less_trans [OF unit_bounds(3)] split: if_splits)

lemma point_units_code_points: "concat (map point_units (code_points s)) = s"
proof (induction s rule: code_points.induct)
  case (1 u v us)
  have "u = word_of_nat (unat u)" "unat u < 0x10000" using unit_bounds(3) by simp_all
  with 1 show ?case by (auto simp: point_units_def fromCodePoint_pair)
next
  case (2 u)
  then show ?case using unit_bounds(3) [of u] by (simp add: point_units_def)
qed simp

lemma percent_byte_tokens:
  "b < 0x100 \<Longrightarrow> percent_tokens (percent_byte b @ r) = map_option (Cons (Inr b)) (percent_tokens r)"
  using div_mult_mod_eq [of b 16] by (simp add: percent_byte_def HEX_value mult.commute)

lemma percent_bytes_tokens:
  "list_all (\<lambda>b. b < 0x100) bs \<Longrightarrow>
     percent_tokens (concat (map percent_byte bs) @ r) = map_option (append (map Inr bs)) (percent_tokens r)"
proof (induction bs)
  case Nil
  then show ?case by (simp add: option.map_ident)
next
  case (Cons b bs)
  then show ?case by (simp add: percent_byte_tokens option.map_comp comp_def)
qed

definition char_tokens :: "nat \<Rightarrow> (code_unit + nat) list" where
  "char_tokens cp =
    (if cp < 0x80 \<and> unreserved (word_of_nat cp) then [Inl (word_of_nat cp)] else map Inr (utf8_bytes cp))"

lemma unreserved_not_percent: "unreserved u \<Longrightarrow> u \<noteq> PERCENT"
  by (auto simp: unreserved_def units_def unit_of_def)

lemma encode_char_tokens:
  assumes "encode_char cp = Some e" and "cp < 0x110000"
  shows "percent_tokens (e @ r) = map_option (append (char_tokens cp)) (percent_tokens r)"
  using assms unreserved_not_percent [of "word_of_nat cp"] utf8_bytes_bounded [OF assms(2)]
  by (auto simp: encode_char_def char_tokens_def list_all_iff intro!: percent_bytes_tokens option.map_cong0 split: if_splits)

lemma read_point_bytes:
  assumes "cp < 0x110000" and "\<not> surrogate cp"
  shows "read_point (hd (utf8_bytes cp)) (map Inr (tl (utf8_bytes cp)) @ ts) = Some cp"
proof -
  let ?bs = "tl (utf8_bytes cp)"
  have n: "utf8_count (hd (utf8_bytes cp)) - 1 = length ?bs" using utf8_count_bytes [OF assms(1)] by simp
  have s: "all_some (map from_byte (map Inr ?bs)) = Some ?bs" by (simp add: all_some_Some comp_def)
  have t: "take (length ?bs) (map Inr ?bs @ ts) = map Inr ?bs" by simp
  show ?thesis using assms utf8_value_bytes [of cp]
    unfolding read_point_def n t s by simp
qed

lemma char_token_units:
  assumes "cp < 0x110000" and "\<not> surrogate cp"
  shows "token_units (char_tokens cp @ ts) = map_option (append (point_units cp)) (token_units ts)"
proof (cases "cp < 0x80 \<and> unreserved (word_of_nat cp)")
  case True
  then show ?thesis by (cases "token_units ts") (simp_all add: char_tokens_def point_units_def)
next
  case False
  then have "char_tokens cp @ ts = Inr (hd (utf8_bytes cp)) # map Inr (tl (utf8_bytes cp)) @ ts"
    by (cases "utf8_bytes cp") (auto simp: char_tokens_def)
  then show ?thesis using read_point_bytes [OF assms] utf8_count_bytes [OF assms(1)] by simp
qed

lemma encode_char_surrogate: "encode_char cp = None \<longleftrightarrow> surrogate cp"
  by (auto simp: encode_char_def surrogate_def)

text \<open>Decoding goes through an encoded text unit by unit.\<close>

definition tokens_of :: "code_unit list \<Rightarrow> (code_unit + nat) list" where
  "tokens_of s = concat (map char_tokens (code_points s))"

lemma concat_opt_Some:
  "concat_opt xs = Some ys \<Longrightarrow> \<exists>zs. xs = map Some zs \<and> ys = concat zs"
proof (induction xs arbitrary: ys)
  case (Cons x xs)
  then obtain a as where a: "x = Some a" "concat_opt xs = Some as" "ys = a @ as"
    by (auto split: option.splits)
  from Cons.IH [OF a(2)] obtain zs where "xs = map Some zs" "as = concat zs" by blast
  with a show ?case by (intro exI [of _ "a # zs"]) simp
qed simp

lemma concat_opt_None: "concat_opt xs = None \<longleftrightarrow> None \<in> set xs"
  by (induction xs) (auto split: option.splits)

lemma encode_defined: "encodeURIComponent s \<noteq> None \<longleftrightarrow> well_formed s"
  by (auto simp: encodeURIComponent_def concat_opt_None well_formed_def list_all_iff image_iff
      encode_char_surrogate [symmetric] eq_commute [of None])

lemma chars_tokens:
  "\<forall>cp \<in> set cps. cp < 0x110000 \<Longrightarrow> concat_opt (map encode_char cps) = Some e \<Longrightarrow>
     percent_tokens (e @ r) = map_option (append (concat (map char_tokens cps))) (percent_tokens r)"
proof (induction cps arbitrary: e)
  case Nil
  then show ?case by (simp add: option.map_ident)
next
  case (Cons cp cps)
  then obtain a b where ab: "encode_char cp = Some a" "concat_opt (map encode_char cps) = Some b" "e = a @ b"
    by (auto split: option.splits)
  with Cons show ?case by (simp add: encode_char_tokens option.map_comp comp_def)
qed

lemma chars_token_units:
  "\<forall>cp \<in> set cps. cp < 0x110000 \<and> \<not> surrogate cp \<Longrightarrow>
     token_units (concat (map char_tokens cps) @ ts) = map_option (append (concat (map point_units cps))) (token_units ts)"
proof (induction cps)
  case Nil
  then show ?case by (simp add: option.map_ident)
next
  case (Cons cp cps)
  then show ?case by (simp add: char_token_units option.map_comp comp_def)
qed

lemma decode_encoded:
  assumes "encodeURIComponent s = Some e"
  shows "decodeURIComponent (e @ r) = map_option (append s) (decodeURIComponent r)"
proof -
  have b: "\<forall>cp \<in> set (code_points s). cp < 0x110000" using code_points_bounded by blast
  have "well_formed s" using assms encode_defined [of s] by simp
  then have w: "\<forall>cp \<in> set (code_points s). cp < 0x110000 \<and> \<not> surrogate cp"
    using b by (simp add: well_formed_def list_all_iff)
  show ?thesis
    using chars_tokens [OF b, of e r] chars_token_units [OF w] assms
    by (cases "percent_tokens r") (simp_all add: decodeURIComponent_def encodeURIComponent_def point_units_code_points)
qed

lemma decode_unit: "u \<noteq> PERCENT \<Longrightarrow> decodeURIComponent (u # r) = map_option (Cons u) (decodeURIComponent r)"
  by (cases "percent_tokens r") (simp_all add: decodeURIComponent_def)

lemma decode_Nil [simp]: "decodeURIComponent [] = Some []"
  by (simp add: decodeURIComponent_def)

lemma join_Cons: "ss \<noteq> [] \<Longrightarrow> join_with sep (s # ss) = s @ sep @ join_with sep ss"
  by (cases ss) auto

lemma encode_segments_Cons:
  "encode_segments (s # ss) =
     (case (encodeURIComponent s, encode_segments ss) of
        (Some a, Some b) \<Rightarrow> Some (if ss = [] then a else a @ [SLASH] @ b) | _ \<Rightarrow> None)"
proof (cases "all_some (map encodeURIComponent ss)")
  case (Some es)
  then have "es = [] \<longleftrightarrow> ss = []" using all_some_length [of "map encodeURIComponent ss" es] by auto
  with Some show ?thesis by (auto simp: encode_segments_def join_Cons split: option.splits)
qed (auto simp: encode_segments_def split: option.splits)

lemma encode_segments_Nil: "encode_segments [] = Some []"
  by (simp add: encode_segments_def)

lemma decode_segments: "encode_segments ss = Some e \<Longrightarrow> decodeURIComponent e = Some (join_with [SLASH] ss)"
proof (induction ss arbitrary: e)
  case Nil
  then show ?case by (simp add: encode_segments_Nil)
next
  case (Cons s ss)
  then obtain a b where ab: "encodeURIComponent s = Some a" "encode_segments ss = Some b"
    "e = (if ss = [] then a else a @ [SLASH] @ b)"
    by (auto simp: encode_segments_Cons split: option.splits)
  then show ?case
    using Cons.IH [OF ab(2)] decode_encoded [OF ab(1), of "[]"] decode_encoded [OF ab(1), of "SLASH # b"]
    by (simp add: join_Cons decode_unit)
qed

text \<open>Splitting at slashes does not touch surrogate pairs.\<close>

lemma slash_no_surrogate: "\<not> is_lead SLASH" "\<not> is_trail SLASH" "\<not> surrogate (unat SLASH)"
  by (simp_all add: is_lead_def is_trail_def surrogate_def)

lemma code_points_slash: "code_points (s @ SLASH # r) = code_points s @ unat SLASH # code_points r"
proof (induction s rule: code_points.induct)
  case (2 u)
  then show ?case using slash_no_surrogate by (cases r) simp_all
next
  case 3
  then show ?case using slash_no_surrogate by (cases r) simp_all
qed auto

lemma well_formed_slash: "well_formed (s @ SLASH # r) \<longleftrightarrow> well_formed s \<and> well_formed r"
  using slash_no_surrogate(3) by (simp add: well_formed_def code_points_slash)

lemma well_formed_join: "well_formed (join_with [SLASH] ss) \<longleftrightarrow> (\<forall>s \<in> set ss. well_formed s)"
proof (induction ss)
  case (Cons s ss)
  then show ?case by (cases "ss = []") (auto simp: join_Cons well_formed_slash)
qed (simp add: well_formed_def)

lemma encode_segments_defined: "encode_segments ss \<noteq> None \<longleftrightarrow> well_formed (join_with [SLASH] ss)"
proof (induction ss)
  case (Cons s ss)
  then show ?case using encode_defined [of s]
    by (auto simp: encode_segments_Cons well_formed_join split: option.splits)
qed (simp add: encode_segments_Nil well_formed_def)

text \<open>The characters of an encoded text.\<close>

lemma HEX_unreserved: "d < 16 \<Longrightarrow> unreserved (HEX ! d)"
proof -
  have "list_all (\<lambda>d. unreserved (HEX ! d)) [0..<16]" by code_simp
  then show "d < 16 \<Longrightarrow> ?thesis" by (simp add: list_all_iff)
qed

lemma encode_char_units:
  assumes "encode_char cp = Some e" and "cp < 0x110000" and "u \<in> set e"
  shows "unreserved u \<or> u = PERCENT"
proof (cases "cp < 0x80 \<and> unreserved (word_of_nat cp)")
  case True
  then show ?thesis using assms by (auto simp: encode_char_def)
next
  case False
  with assms obtain b where b: "b \<in> set (utf8_bytes cp)" "u \<in> set (percent_byte b)"
    by (auto simp: encode_char_def split: if_splits)
  then have "b < 0x100" using utf8_bytes_bounded assms(2) by blast
  with b(2) show ?thesis by (auto simp: percent_byte_def HEX_unreserved)
qed

lemma encoded_units:
  assumes "encodeURIComponent s = Some e" and "u \<in> set e"
  shows "unreserved u \<or> u = PERCENT"
proof -
  obtain zs where z: "map encode_char (code_points s) = map Some zs" "e = concat zs"
    using concat_opt_Some assms(1) unfolding encodeURIComponent_def by blast
  from assms(2) z(2) obtain z where m: "z \<in> set zs" "u \<in> set z" by auto
  then have "Some z \<in> set (map encode_char (code_points s))" unfolding z(1) by simp
  then obtain cp where "cp \<in> set (code_points s)" "encode_char cp = Some z" by auto
  then show ?thesis using encode_char_units m(2) code_points_bounded by blast
qed

lemma segments_units:
  "encode_segments ss = Some e \<Longrightarrow> u \<in> set e \<Longrightarrow> unreserved u \<or> u = PERCENT \<or> u = SLASH"
proof (induction ss arbitrary: e)
  case (Cons s ss)
  then obtain a b where "encodeURIComponent s = Some a" "encode_segments ss = Some b"
    "e = (if ss = [] then a else a @ [SLASH] @ b)"
    by (auto simp: encode_segments_Cons split: option.splits)
  with Cons show ?case using encoded_units [of s a u] by (auto split: if_splits)
qed (simp add: encode_segments_Nil)

section \<open>The URI of a path\<close>

definition slash :: "code_unit \<Rightarrow> code_unit" where
  "slash u = (if u = BS then SLASH else u)"

lemma point_slash: "unat (slash u) = (if unat u = unat BS then unat SLASH else unat u)"
  using word_unat_eq_iff [of u BS] by (auto simp: slash_def)

lemma code_points_normalized:
  "code_points (normalized_path s) = map (\<lambda>cp. if cp = unat BS then unat SLASH else cp) (code_points s)"
proof -
  have n: "normalized_path s = map slash s" for s by (simp add: normalized_path_def slash_def [abs_def])
  show ?thesis
proof (induction s rule: code_points.induct)
  case (1 u v us)
  have "(unat u - 0xD800) * 0x400 + (unat v - 0xDC00) + 0x10000 \<noteq> unat BS" by simp
  moreover have "is_lead (slash u) = is_lead u" "is_trail (slash v) = is_trail v"
    "is_lead u \<Longrightarrow> slash u = u" "is_trail v \<Longrightarrow> slash v = v"
    by (auto simp: slash_def is_lead_def is_trail_def)
  ultimately show ?case using 1 by (simp add: n point_slash del: unat_numeral)
qed (simp_all add: n point_slash)
qed

lemma well_formed_normalized: "well_formed (normalized_path p) \<longleftrightarrow> well_formed p"
  by (auto simp: well_formed_def code_points_normalized list_all_iff surrogate_def)

lemma well_formed_rooted: "well_formed (SLASH # n) \<longleftrightarrow> well_formed n"
  using well_formed_slash [of "[]" n] by (simp add: well_formed_def)

lemma segments_empty:
  assumes "encode_segments ss = Some e"
  shows "e = [] \<longleftrightarrow> join_with [SLASH] ss = []"
proof
  assume "e = []"
  then show "join_with [SLASH] ss = []" using decode_segments [OF assms] by simp
next
  assume "join_with [SLASH] ss = []"
  then have "ss = [] \<or> ss = [[]]" by (cases "([SLASH], ss)" rule: join_with.cases) auto
  then show "e = []" using assms by (auto simp: encode_segments_Cons encode_segments_Nil encodeURIComponent_def)
qed

lemma split_on_slash: "split_on d (d # s) = [] # split_on d s"
  by simp

lemma length_split_on: "length (split_on d s) = Suc (count_list s d)"
  by (induction s) (auto split: list.splits)

definition uri_unit :: "code_unit \<Rightarrow> bool" where
  "uri_unit u \<longleftrightarrow> unreserved u \<or> u \<in> {PERCENT, SLASH, unit_of (CHR '':'')}"

text \<open>What the cases below have in common: the part of a URI after \<open>file://\<close> and the path it names.\<close>

definition uri_names :: "code_unit list option \<Rightarrow> code_unit list \<Rightarrow> bool" where
  "uri_names u path \<longleftrightarrow>
    (if well_formed path then \<exists>v. u = Some (units ''file://'' @ v) \<and> decodeURIComponent v = Some path \<and> list_all uri_unit v
     else u = None)"

lemma uri_namesI:
  "well_formed path \<Longrightarrow> decodeURIComponent v = Some path \<Longrightarrow> list_all uri_unit v \<Longrightarrow> uri_names (Some (units ''file://'' @ v)) path"
  by (simp add: uri_names_def)

lemma general_uri: "uri_names (map_option (\<lambda>rest. units ''file://'' @ [SLASH] @ rest) (encode_segments (split_on SLASH m))) (SLASH # m)"
proof (cases "encode_segments (split_on SLASH m)")
  case None
  then show ?thesis using encode_segments_defined [of "split_on SLASH m"]
    by (simp add: uri_names_def join_split well_formed_rooted)
next
  case (Some e)
  then have "well_formed m" using encode_segments_defined [of "split_on SLASH m"] by (simp add: join_split)
  with Some show ?thesis using decode_segments [OF Some] segments_units [OF Some]
    by (auto simp: uri_names_def well_formed_rooted join_split decode_unit list_all_iff uri_unit_def)
qed

lemma unreserved_letter: "0x41 \<le> l \<and> l \<le> 0x5A \<or> 0x61 \<le> l \<and> l \<le> 0x7A \<Longrightarrow> unreserved l"
  by (auto simp: unreserved_def)

lemma drive_parts_Some:
  assumes "drive_parts n = Some (l, r)"
  shows "n = SLASH # l # unit_of (CHR '':'') # r" and "unreserved l" and "r = [] \<or> (\<exists>m. r = SLASH # m)"
proof -
  obtain s c where n: "n = s # l # c # r"
    using assms by (auto simp: drive_parts_def split: list.splits if_splits)
  show "n = SLASH # l # unit_of (CHR '':'') # r" "unreserved l" "r = [] \<or> (\<exists>m. r = SLASH # m)"
    using assms unreserved_letter [of l] unfolding n by (cases r; auto simp: drive_parts_def split: if_splits)+
qed

lemma colon_slash: "SLASH \<noteq> unit_of (CHR '':'')" "unit_of (CHR '':'') \<noteq> PERCENT" "SLASH \<noteq> PERCENT"
  by (simp_all add: unit_of_def)

lemma well_formed_drive:
  assumes "unreserved l"
  shows "well_formed (SLASH # l # unit_of (CHR '':'') # n) \<longleftrightarrow> well_formed n"
proof -
  have u: "\<not> is_lead l" "\<not> is_trail l" "\<not> surrogate (unat l)"
    using assms unit_bounds [of l] by (auto simp: unreserved_def units_def unit_of_def surrogate_def word_le_nat_alt)
  have c: "\<not> is_lead (unit_of (CHR '':''))" "\<not> surrogate (unat (unit_of (CHR '':'')))"
    by (simp_all add: unit_of_def is_lead_def surrogate_def)
  have "code_points (unit_of (CHR '':'') # n) = unat (unit_of (CHR '':'')) # code_points n"
    using c by (cases n) simp_all
  then show ?thesis using u c slash_no_surrogate by (simp add: well_formed_def)
qed

lemma drive_uri:
  assumes d: "drive_parts n = Some (l, r)"
  shows "uri_names
     (map_option (\<lambda>rest. if rest \<noteq> [] then units ''file:///'' @ [l] @ units '':/'' @ rest else units ''file:///'' @ [l] @ units '':'')
       (encode_segments (tl (split_on SLASH r))))
     (if length n = 4 then butlast n else n)"
proof (cases "r = [] \<or> r = [SLASH]")
  case True
  let ?v = "[SLASH, l] @ units '':''"
  have dec: "decodeURIComponent ?v = Some [SLASH, l, unit_of (CHR '':'')]"
    using drive_parts_Some(2) [OF d] unreserved_not_percent [of l] colon_slash
    by (simp add: units_def decode_unit)
  have w: "well_formed [SLASH, l, unit_of (CHR '':'')]"
    using well_formed_drive [OF drive_parts_Some(2) [OF d], of "[]"] by (simp add: well_formed_def)
  have u: "list_all uri_unit ?v" using drive_parts_Some(2) [OF d] by (simp add: uri_unit_def units_def)
  have e: "encode_segments (tl (split_on SLASH r)) = Some []"
    using True by (auto simp: encode_segments_Cons encode_segments_Nil encodeURIComponent_def)
  have p: "(if length n = 4 then butlast n else n) = [SLASH, l, unit_of (CHR '':'')]"
    using True drive_parts_Some(1) [OF d] by auto
  have f: "units ''file:///'' @ [l] @ units '':'' = units ''file://'' @ ?v" by (simp add: units_def unit_of_def)
  show ?thesis unfolding e p option.map(2) by (simp only: f simp_thms if_False) (rule uri_namesI [OF w dec u])
next
  case False
  then obtain m where m: "r = SLASH # m" "m \<noteq> []" using drive_parts_Some(3) [OF d] by auto
  have n: "n = SLASH # l # unit_of (CHR '':'') # SLASH # m" "length n \<noteq> 4"
    using drive_parts_Some(1) [OF d] m by auto
  have w: "well_formed n \<longleftrightarrow> well_formed m"
    unfolding n(1) well_formed_drive [OF drive_parts_Some(2) [OF d]] by (rule well_formed_rooted)
  show ?thesis
  proof (cases "encode_segments (split_on SLASH m)")
    case None
    then show ?thesis using encode_segments_defined [of "split_on SLASH m"] m n(2) w
      by (simp add: uri_names_def join_split)
  next
    case (Some e)
    then have ne: "e \<noteq> []" using segments_empty [OF Some] m(2) by (simp add: join_split)
    have dec: "decodeURIComponent ([SLASH, l] @ units '':/'' @ e) = Some n"
      using decode_segments [OF Some] drive_parts_Some(2) [OF d] unreserved_not_percent [of l] colon_slash n(1)
      by (simp add: units_def decode_unit join_split) (simp add: unit_of_def decode_unit)
    have u: "list_all uri_unit ([SLASH, l] @ units '':/'' @ e)"
      using drive_parts_Some(2) [OF d] segments_units [OF Some]
      by (auto simp: uri_unit_def units_def list_all_iff) (simp_all add: unit_of_def)
    have f: "units ''file:///'' @ [l] @ units '':/'' @ e = units ''file://'' @ [SLASH, l] @ units '':/'' @ e"
      by (simp add: units_def unit_of_def)
    have "well_formed n" using encode_segments_defined [of "split_on SLASH m"] Some w by (simp add: join_split)
    from uri_namesI [OF this dec u] show ?thesis
      unfolding f [symmetric] using Some m(1) n(2) ne by simp
  qed
qed

lemma split_member: "p \<in> set (split_on d s) \<Longrightarrow> d \<notin> set p"
proof (induction s arbitrary: p)
  case (Cons c s)
  then show ?case by (cases "split_on d s") (auto split: if_splits)
qed simp

text \<open>A host alone: with or without one slash after it.\<close>

lemma host_alone:
  assumes "split_on d m = h # hs"
  shows "hs = [] \<longleftrightarrow> count_list m d = 0" and "hs = [[]] \<longleftrightarrow> count_list m d = 1 \<and> last m = d"
proof -
  have l: "length hs = count_list m d" using length_split_on [of d m] assms by simp
  then show "hs = [] \<longleftrightarrow> count_list m d = 0" by auto
  have m: "m = join_with [d] (h # hs)" using join_split [of d m] assms by simp
  show "hs = [[]] \<longleftrightarrow> count_list m d = 1 \<and> last m = d"
  proof
    assume "hs = [[]]"
    with l m show "count_list m d = 1 \<and> last m = d" by simp
  next
    assume a: "count_list m d = 1 \<and> last m = d"
    with l obtain x where x: "hs = [x]" by (cases hs) auto
    moreover have "x = []"
    proof (rule ccontr)
      assume ne: "x \<noteq> []"
      then have "last m = last x" using m x by simp
      moreover have "d \<notin> set x" using split_member [of x d m] assms x by simp
      ultimately show False using a ne last_in_set [of x] by auto
    qed
    ultimately show "hs = [[]]" by simp
  qed
qed

lemma host_uri:
  assumes "take 2 n = [SLASH, SLASH]"
  shows "uri_names (unc_uri n) (if count_list (drop 2 n) SLASH = 1 \<and> last n = SLASH then butlast (drop 2 n) else drop 2 n)"
proof -
  define m where "m = drop 2 n"
  have n: "n = SLASH # SLASH # m" using assms append_take_drop_id [of 2 n] by (simp add: m_def)
  obtain h hs where s: "split_on SLASH m = h # hs" by (cases "split_on SLASH m") auto
  have j: "m = join_with [SLASH] (h # hs)" using join_split [of SLASH m] s by simp
  have c: "count_list m SLASH = 1 \<and> last n = SLASH \<longleftrightarrow> hs = [[]]"
    using host_alone(2) [OF s] n by (cases "m = []") auto
  have u: "unc_uri n =
      (case (encodeURIComponent h, encode_segments hs) of
        (Some host, Some path) \<Rightarrow>
          Some (if path \<noteq> [] then units ''file://'' @ host @ [SLASH] @ path else units ''file://'' @ host)
      | _ \<Rightarrow> None)"
    unfolding unc_uri_def n by (simp add: s cong: option.case_cong)
  define path where "path = (if hs = [] \<or> hs = [[]] then h else m)"
  have "(if hs = [[]] then butlast m else m) = path" using j by (auto simp: path_def)
  then have p: "(if count_list (drop 2 n) SLASH = 1 \<and> last n = SLASH then butlast (drop 2 n) else drop 2 n) = path"
    by (simp only: m_def [symmetric] c)
  have w: "well_formed path \<longleftrightarrow> encodeURIComponent h \<noteq> None \<and> encode_segments hs \<noteq> None"
    unfolding encode_defined encode_segments_defined j well_formed_join path_def
    by (auto simp: well_formed_join) (simp_all add: well_formed_def)
  show ?thesis unfolding p
  proof (cases "encodeURIComponent h \<noteq> None \<and> encode_segments hs \<noteq> None")
    case False
    then have "unc_uri n = None" unfolding u by (auto split: option.splits)
    with False w show "uri_names (unc_uri n) path" by (simp add: uri_names_def)
  next
    case True
    then obtain a b where ab: "encodeURIComponent h = Some a" "encode_segments hs = Some b" by auto
    have b: "b = [] \<longleftrightarrow> hs = [] \<or> hs = [[]]"
      unfolding segments_empty [OF ab(2)] by (cases "([SLASH], hs)" rule: join_with.cases) auto
    define v where "v = (if b \<noteq> [] then a @ [SLASH] @ b else a)"
    have dec: "decodeURIComponent v = Some path"
      using decode_encoded [OF ab(1), of "[]"] decode_encoded [OF ab(1), of "SLASH # b"] decode_segments [OF ab(2)] b
      by (auto simp: v_def path_def decode_unit j join_Cons)
    have "list_all uri_unit v"
      using encoded_units [OF ab(1)] segments_units [OF ab(2)] by (auto simp: v_def list_all_iff uri_unit_def)
    moreover have "unc_uri n = Some (units ''file://'' @ v)" unfolding u v_def using ab by simp
    ultimately show "uri_names (unc_uri n) path" using uri_namesI [OF _ dec] w True by simp
  qed
qed

lemma path_to_file_uri: "uri_names (pathToFileUri p) (file_path p)"
proof -
  define n where "n = normalized_path p"
  define rooted where "rooted = (if take 1 n = [SLASH] then n else SLASH # n)"
  have u: "pathToFileUri p = (if take 2 n = [SLASH, SLASH] then unc_uri n
      else case drive_parts rooted of
          Some (l, r) \<Rightarrow>
            map_option (\<lambda>rest. if rest \<noteq> [] then units ''file:///'' @ [l] @ units '':/'' @ rest else units ''file:///'' @ [l] @ units '':'')
              (encode_segments (tl (split_on SLASH r)))
        | None \<Rightarrow> map_option (\<lambda>rest. units ''file://'' @ [SLASH] @ rest) (encode_segments (tl (split_on SLASH rooted))))"
    unfolding pathToFileUri_def n_def rooted_def Let_def by (rule refl)
  have f: "file_path p = (if take 2 n = [SLASH, SLASH]
      then (if count_list (drop 2 n) SLASH = 1 \<and> last n = SLASH then butlast (drop 2 n) else drop 2 n)
      else if drive_parts rooted \<noteq> None \<and> length rooted = 4 then butlast rooted else rooted)"
    unfolding file_path_def n_def rooted_def Let_def by (rule refl)
  show ?thesis
  proof (cases "take 2 n = [SLASH, SLASH]")
    case True
    then show ?thesis unfolding u f using host_uri [OF True] by simp
  next
    case False
    obtain m where m: "rooted = SLASH # m" by (cases n; cases "hd n = SLASH") (auto simp: rooted_def)
    show ?thesis
    proof (cases "drive_parts rooted")
      case None
      then show ?thesis unfolding u f using False general_uri [of m] m by simp
    next
      case (Some d)
      obtain l r where "d = (l, r)" by (cases d)
      then show ?thesis unfolding u f using False drive_uri [of rooted l r] Some by simp
    qed
  qed
qed

lemma well_formed_butlast_slash: "well_formed (s @ [SLASH]) \<longleftrightarrow> well_formed s"
  using well_formed_slash [of s "[]"] by (simp add: well_formed_def)

lemma well_formed_file_path: "well_formed (file_path p) \<longleftrightarrow> well_formed p"
proof -
  define n where "n = normalized_path p"
  have w: "well_formed n \<longleftrightarrow> well_formed p" by (simp add: n_def well_formed_normalized)
  have b: "well_formed (butlast s) \<longleftrightarrow> well_formed s" if "s \<noteq> []" "last s = SLASH" for s
    using well_formed_butlast_slash [of "butlast s"] append_butlast_last_id [OF that(1)] that(2) by simp
  show ?thesis
  proof (cases "take 2 n = [SLASH, SLASH]")
    case True
    then have n: "n = SLASH # SLASH # drop 2 n" using append_take_drop_id [of 2 n] by simp
    then have d: "well_formed (drop 2 n) \<longleftrightarrow> well_formed p" using w by (metis well_formed_rooted)
    have e: "last (drop 2 n) = SLASH" "drop 2 n \<noteq> []" if "count_list (drop 2 n) SLASH = 1 \<and> last n = SLASH"
    proof -
      show ne: "drop 2 n \<noteq> []" using that by auto
      show "last (drop 2 n) = SLASH" using that ne n by (metis last_ConsR list.distinct(1))
    qed
    have "well_formed (if c then butlast (drop 2 n) else drop 2 n) \<longleftrightarrow> well_formed p"
      if "c \<longleftrightarrow> count_list (drop 2 n) SLASH = 1 \<and> last n = SLASH" for c
      using d b [OF e(2) e(1)] that by (cases c) (simp_all only: if_True if_False)
    moreover have "file_path p =
        (if count_list (drop 2 n) SLASH = 1 \<and> last n = SLASH then butlast (drop 2 n) else drop 2 n)"
      using True unfolding file_path_def n_def Let_def by (simp only: refl if_True)
    ultimately show ?thesis by simp
  next
    case False
    define rooted where "rooted = (if take 1 n = [SLASH] then n else SLASH # n)"
    have r: "well_formed rooted \<longleftrightarrow> well_formed p" using w by (simp add: rooted_def well_formed_rooted)
    have e: "last rooted = SLASH" "rooted \<noteq> []" if x: "drive_parts rooted \<noteq> None \<and> length rooted = 4"
    proof -
      obtain l q where d: "drive_parts rooted = Some (l, q)" using x by auto
      then show "last rooted = SLASH" "rooted \<noteq> []"
        using drive_parts_Some [OF d] x by auto
    qed
    have "well_formed (if c then butlast rooted else rooted) \<longleftrightarrow> well_formed p"
      if "c \<longleftrightarrow> drive_parts rooted \<noteq> None \<and> length rooted = 4" for c
      using r b [OF e(2) e(1)] that by (cases c) simp_all
    moreover have "file_path p = (if drive_parts rooted \<noteq> None \<and> length rooted = 4 then butlast rooted else rooted)"
      using False unfolding file_path_def n_def rooted_def Let_def by (simp only: if_False)
    ultimately show ?thesis by simp
  qed
qed

section \<open>The path that a URI names\<close>

text \<open>
  What a reader of the URI should get: the path with the slashes of a URI, with one at its beginning; of a share the
  part after the two slashes, its host first.
\<close>

definition absolute_path :: "code_unit list \<Rightarrow> code_unit list" where
  "absolute_path p =
    (let n = normalized_path p
     in if take 2 n = [SLASH, SLASH] then drop 2 n else if take 1 n = [SLASH] then n else SLASH # n)"

text \<open>
  Where the code gives less: the root of a drive, as \<open>C:\\<close>, and a host with one slash after it and nothing else.
  Their last slash is not in the URI.
\<close>

definition loses_slash :: "code_unit list \<Rightarrow> bool" where
  "loses_slash p \<longleftrightarrow>
    (if take 2 (normalized_path p) = [SLASH, SLASH]
     then count_list (absolute_path p) SLASH = 1 \<and> last (absolute_path p) = SLASH
     else (case absolute_path p of
             [_, l, c, s] \<Rightarrow> (0x41 \<le> l \<and> l \<le> 0x5A \<or> 0x61 \<le> l \<and> l \<le> 0x7A) \<and> c = unit_of (CHR '':'') \<and> s = SLASH
           | _ \<Rightarrow> False))"

lemma drive_root:
  "drive_parts (SLASH # m) \<noteq> None \<and> length (SLASH # m) = 4 \<longleftrightarrow>
    (case SLASH # m of
       [_, l, c, s] \<Rightarrow> (0x41 \<le> l \<and> l \<le> 0x5A \<or> 0x61 \<le> l \<and> l \<le> 0x7A) \<and> c = unit_of (CHR '':'') \<and> s = SLASH
     | _ \<Rightarrow> False)"
proof (cases "\<exists>l c s. m = [l, c, s]")
  case True
  then obtain l c s where "m = [l, c, s]" by blast
  then show ?thesis by (simp add: drive_parts_def)
next
  case False
  then have "length m \<noteq> 3" by (auto simp: numeral_3_eq_3 length_Suc_conv)
  then have "length (SLASH # m) \<noteq> 4" by simp
  moreover have "\<not> (case SLASH # m of
       [_, l, c, s] \<Rightarrow> (0x41 \<le> l \<and> l \<le> 0x5A \<or> 0x61 \<le> l \<and> l \<le> 0x7A) \<and> c = unit_of (CHR '':'') \<and> s = SLASH
     | _ \<Rightarrow> False)"
    using False by (auto split: list.splits)
  ultimately show ?thesis by blast
qed

lemma file_path_absolute:
  "file_path p = (if loses_slash p then butlast (absolute_path p) else absolute_path p)"
  "loses_slash p \<Longrightarrow> absolute_path p = butlast (absolute_path p) @ [SLASH]"
proof -
  define n where "n = normalized_path p"
  have "file_path p = (if loses_slash p then butlast (absolute_path p) else absolute_path p)
      \<and> (loses_slash p \<longrightarrow> absolute_path p \<noteq> [] \<and> last (absolute_path p) = SLASH)"
  proof (cases "take 2 n = [SLASH, SLASH]")
    case True
    then have n: "n = SLASH # SLASH # drop 2 n" using append_take_drop_id [of 2 n] by simp
    have a: "absolute_path p = drop 2 n" using True by (simp add: absolute_path_def n_def Let_def)
    have l: "loses_slash p \<longleftrightarrow> count_list (drop 2 n) SLASH = 1 \<and> last (drop 2 n) = SLASH"
      using True a by (simp add: loses_slash_def n_def)
    have "last (drop 2 n) = last n" if "count_list (drop 2 n) SLASH = 1"
    proof -
      have "drop 2 n \<noteq> []" using that by auto
      then show ?thesis using n by (metis last_ConsR list.distinct(1))
    qed
    then have e: "count_list (drop 2 n) SLASH = 1 \<and> last n = SLASH \<longleftrightarrow> loses_slash p" unfolding l by auto
    have "file_path p = (if loses_slash p then butlast (drop 2 n) else drop 2 n)"
      using True unfolding file_path_def n_def [symmetric] Let_def e [symmetric] by (simp only: if_True refl)
    moreover have "drop 2 n \<noteq> []" if "loses_slash p" using that l by force
    moreover have "last (drop 2 n) = SLASH" if "loses_slash p" using that l by blast
    ultimately show ?thesis unfolding a by blast
  next
    case False
    define rooted where "rooted = (if take 1 n = [SLASH] then n else SLASH # n)"
    obtain m where m: "rooted = SLASH # m" by (cases n; cases "hd n = SLASH") (auto simp: rooted_def)
    have a: "absolute_path p = rooted" using False by (simp add: absolute_path_def n_def rooted_def Let_def)
    have l: "loses_slash p \<longleftrightarrow> drive_parts rooted \<noteq> None \<and> length rooted = 4"
      using False unfolding loses_slash_def n_def [symmetric] a m drive_root by (simp only: if_False)
    have "file_path p = (if drive_parts rooted \<noteq> None \<and> length rooted = 4 then butlast rooted else rooted)"
      using False unfolding file_path_def n_def rooted_def Let_def by (simp only: if_False)
    moreover have "last rooted = SLASH" if "loses_slash p"
    proof -
      obtain d r where "drive_parts rooted = Some (d, r)" "length rooted = 4" using \<open>loses_slash p\<close> l by auto
      then show ?thesis using drive_parts_Some [of rooted d r] by auto
    qed
    ultimately show ?thesis using a l m by simp
  qed
  then show "file_path p = (if loses_slash p then butlast (absolute_path p) else absolute_path p)"
    "loses_slash p \<Longrightarrow> absolute_path p = butlast (absolute_path p) @ [SLASH]"
    by (blast, metis append_butlast_last_id)
qed

text \<open>The URI gives the path back, up to the slash that the code loses.\<close>

lemma file_uri_decodes:
  assumes "well_formed p"
  shows "\<exists>v q. pathToFileUri p = Some (units ''file://'' @ v) \<and> list_all uri_unit v \<and> decodeURIComponent v = Some q
    \<and> absolute_path p = (if loses_slash p then q @ [SLASH] else q)"
proof -
  obtain v where "pathToFileUri p = Some (units ''file://'' @ v)" "decodeURIComponent v = Some (file_path p)" "list_all uri_unit v"
    using path_to_file_uri [of p] assms by (auto simp: uri_names_def well_formed_file_path)
  then show ?thesis using file_path_absolute [of p]
    by (intro exI [of _ v] exI [of _ "file_path p"]) simp
qed

lemma file_uri_throws: "\<not> well_formed p \<Longrightarrow> pathToFileUri p = None"
  using path_to_file_uri [of p] by (simp add: uri_names_def well_formed_file_path)

end
