(* ===== verification/LanguageServer.thy ===== *)
theory LanguageServer
  imports FileUris
begin

text \<open>
  \<open>java-extension/src/browser/java-ls-lifecycle.ts\<close>: when the Java language server is prepared, started, stopped and
  restarted. What follows an \<open>await\<close> is an operation of its own, and the answer that it waits for is its argument: a value,
  or the text of the error. The continuations that can be pending are part of the state: the activations (by their token, each in
  its loop of attempts), the chain of transitions, whose first one runs, and the checks after a restart. The calls that the
  code makes are recorded in their order. \<open>skip\<close> is the environment variable \<open>KAIRO_SKIP_JDTLS\<close>.
  The fields of a launch descriptor have their declared types.
\<close>

section \<open>Launch descriptors\<close>

record launch_descriptor =
  ld_command :: string
  ld_args :: "string list"
  ld_workingDir :: "code_unit list"
  ld_envAllowlist :: "string list"

text \<open>The first \<open>prefix\<close> entry whose value, read by \<open>f\<close>, is not empty.\<close>

fun env_value :: "(string \<Rightarrow> string) \<Rightarrow> string \<Rightarrow> string list \<Rightarrow> string option" where
  "env_value f p [] = None"
| "env_value f p (entry # entries) =
     (if starts_with_at entry p 0 \<and> f (drop (length p) entry) \<noteq> []
      then Some (f (drop (length p) entry)) else env_value f p entries)"

text \<open>\<open>args[args.indexOf(flag) + 1]\<close> if it is there.\<close>

fun arg_after :: "string \<Rightarrow> string list \<Rightarrow> string option" where
  "arg_after flag [] = None"
| "arg_after flag (a # as) =
     (if a = flag then (case as of [] \<Rightarrow> None | b # _ \<Rightarrow> Some b) else arg_after flag as)"

definition extractWorkspaceDataDir :: "launch_descriptor \<Rightarrow> string option" where
  "extractWorkspaceDataDir d =
    (case env_value id ''JDTLS_WORKSPACE='' (ld_envAllowlist d) of
       Some v \<Rightarrow> Some v
     | None \<Rightarrow> arg_after ''-data'' (ld_args d))"

abbreviation AnyChars :: regex where "AnyChars \<equiv> Star (NoneOf [NL, CR])"

definition java_command :: regex where
  "java_command = re_seq [AtStart, Capture 1 AnyChars, re_lit ''/bin/java'', Opt (re_lit ''.exe''), AtEnd]"

definition launcher_jar :: regex where
  "launcher_jar = re_seq [AtStart, Capture 1 AnyChars, re_lit ''/plugins/org.eclipse.equinox.launcher_'',
     Star (NoneOf ''/''), re_lit ''.jar'', AtEnd]"

text \<open>The first group of a match if it is not empty.\<close>

definition first_group :: "regex \<Rightarrow> string \<Rightarrow> string option" where
  "first_group r s =
    (case exec True r (slashes s) 0 of
       Some m \<Rightarrow> if capture 1 m \<noteq> [] then Some (capture 1 m) else None
     | None \<Rightarrow> None)"

definition extractJavaHome :: "launch_descriptor \<Rightarrow> string option" where
  "extractJavaHome d =
    (case env_value trim ''JAVA_HOME='' (ld_envAllowlist d) of
       Some v \<Rightarrow> Some v
     | None \<Rightarrow> if ld_command d \<noteq> [] then first_group java_command (ld_command d) else None)"

fun first_some :: "('a \<Rightarrow> 'b option) \<Rightarrow> 'a list \<Rightarrow> 'b option" where
  "first_some f [] = None"
| "first_some f (x # xs) = (case f x of Some y \<Rightarrow> Some y | None \<Rightarrow> first_some f xs)"

definition extractJdtLsHome :: "launch_descriptor \<Rightarrow> string option" where
  "extractJdtLsHome d =
    first_some (first_group launcher_jar)
      (case arg_after ''-jar'' (ld_args d) of Some a \<Rightarrow> [a] | None \<Rightarrow> ld_args d)"

section \<open>Messages\<close>

definition fatal_patterns :: "regex list" where
  "fatal_patterns =
    [re_lit ''requires a JDK/JRE 21'',
     re_seq [re_lit ''osgi.ee'', AnyChars, re_lit ''JavaSE'', AnyChars, re_lit ''21''],
     re_seq [re_lit ''Require-Capability:'', AnyChars, re_lit ''JavaSE'', AnyChars, re_lit ''21''],
     re_seq [re_lit ''application'', AnyChars, re_lit ''org.eclipse.jdt.ls.core.id1'', AnyChars, re_lit ''not found'']]"

definition tests :: "regex \<Rightarrow> string \<Rightarrow> bool" where
  "tests r s \<longleftrightarrow> exec True r s 0 \<noteq> None"

definition isFatalJdtLsFailure :: "string \<Rightarrow> int option \<Rightarrow> bool" where
  "isFatalJdtLsFailure msg exitCode \<longleftrightarrow> exitCode = Some 13 \<or> list_ex (\<lambda>r. tests r msg) fatal_patterns"

definition exit_code :: regex where
  "exit_code = Capture 1 (Then (Opt (Chr (CHR ''-''))) (Plus (OneOf ''0123456789'')))"

definition exit_patterns :: "regex list" where
  "exit_patterns =
    [re_seq [re_lit ''[exit]'', Star Space, re_lit ''code='', exit_code],
     re_seq [re_lit ''JDT LS exited code='', exit_code]]"

definition digits_value :: "string \<Rightarrow> int" where
  "digits_value ds = foldl (\<lambda>n c. n * 10 + (of_char c - 48)) 0 ds"

text \<open>\<open>Number(s)\<close> of what \<open>exit_code\<close> matches.\<close>

definition number_of :: "string \<Rightarrow> int" where
  "number_of s = (if take 1 s = ''-'' then - digits_value (tl s) else digits_value s)"

definition capability_patterns :: "regex list" where
  "capability_patterns =
    [re_seq [re_lit ''Require-Capability:'', AnyChars, re_lit ''JavaSE'', AnyChars, re_lit ''21''],
     re_seq [re_lit ''osgi.ee=JavaSE'', AnyChars, re_lit ''version=21'']]"

text \<open>The exit code after a line of the server's log.\<close>

definition log_exit_code :: "string \<Rightarrow> int option \<Rightarrow> int option" where
  "log_exit_code line old =
    (let seen = (case first_some (\<lambda>r. exec True r line 0) exit_patterns of
                   Some m \<Rightarrow> Some (number_of (capture 1 m)) | None \<Rightarrow> old)
     in if list_ex (\<lambda>r. tests r line) capability_patterns
        then (case seen of Some c \<Rightarrow> Some c | None \<Rightarrow> Some 13) else seen)"

abbreviation mentions :: "string \<Rightarrow> string \<Rightarrow> bool" where
  "mentions msg part \<equiv> index_of msg part 0 \<noteq> None"

definition retryable :: "string \<Rightarrow> bool" where
  "retryable msg \<longleftrightarrow> list_ex (mentions msg)
    [''not found'', ''404'', ''belongs to workspace'', ''connection got disposed'', ''Pending response rejected'',
     ''connection is disposed'', ''Backend service not available'']"

definition archive_missing :: "string \<Rightarrow> bool" where
  "archive_missing msg \<longleftrightarrow> list_ex (mentions msg) [''archive not available'', ''offline/air-gapped'']"

definition runtime_too_old :: "string \<Rightarrow> bool" where
  "runtime_too_old msg \<longleftrightarrow> list_ex (mentions msg)
    [''requires a JDK/JRE 21'', ''requires a JRE 21'', ''osgi.ee JavaSE 21'', ''KAIRO_JDT_LS_JRE'']"

text \<open>The transient failures of a start, reported by its result or thrown.\<close>

definition transient_result :: "string \<Rightarrow> bool" where
  "transient_result msg \<longleftrightarrow> list_ex (mentions msg)
    [''connection got disposed'', ''Pending response rejected'', ''Backend service not available'',
     ''WebSocket is not open'', ''already open'']"

definition transient_error :: "string \<Rightarrow> bool" where
  "transient_error msg \<longleftrightarrow> list_ex (mentions msg)
    [''connection got disposed'', ''Pending response rejected'', ''connection is disposed'',
     ''Backend service not available'', ''WebSocket is not open'', ''already open'']"

definition belongs_to :: regex where
  "belongs_to = Then (re_lit ''belongs to workspace '')
     (Capture 1 (Then (re_lit ''ws_'') (Plus (OneOf ''abcdefghijklmnopqrstuvwxyz0123456789''))))"

definition corrected_workspace :: "string \<Rightarrow> string option \<Rightarrow> string option" where
  "corrected_workspace msg old =
    (case exec False belongs_to msg 0 of
       Some m \<Rightarrow> if capture 1 m \<noteq> [] then Some (capture 1 m) else old
     | None \<Rightarrow> old)"

section \<open>The state\<close>

datatype jdt_state = Uninitialized | Starting | Initializing | Ready | Stopping | Stopped | Crashed | Failed

record java_project =
  jp_workspaceId :: string
  jp_projectId :: string

record start_params =
  sp_rootUri :: "code_unit list"
  sp_workspaceDataDir :: string
  sp_home :: "string option"
  sp_jreHome :: "string option"

text \<open>What the code calls: the agent for an activation (its token), the client, a timer; and the error that is logged once.\<close>

datatype ls_call =
    PreparePost nat string string
  | DescriptorGet nat string string
  | FetchState
  | StopCall
  | StartCall nat start_params
  | RestartIn nat
  | ErrorLogged

text \<open>Where an activation waits: for its delay, for the agent (with the workspace it asked for), for its transition.\<close>

datatype activation_phase = InDelay | InPrepare string | InDescriptor | InTransition

record activation =
  av_project :: java_project
  av_attempt :: nat
  av_forced :: "string option"
  av_phase :: activation_phase

datatype transition_phase = Queued | AtState | AtStop | AtStart

record transition =
  tn_descriptor :: launch_descriptor
  tn_project :: java_project
  tn_token :: nat
  tn_restart :: bool
  tn_phase :: transition_phase

record lifecycle =
  lc_launchDescriptor :: "launch_descriptor option"
  lc_lastStartKey :: "code_unit list option"
  lc_desiredProject :: "java_project option"
  lc_activationToken :: nat
  lc_restartAttempts :: nat
  lc_restartTimer :: "(java_project \<times> launch_descriptor \<times> nat) option"
  lc_restartInFlight :: bool
  lc_disposed :: bool
  lc_restartExhausted :: bool
  lc_fatalFailureLogged :: bool
  lc_lastExitCode :: "int option"
  lc_transitions :: "transition list"
  lc_inFlightActivation :: "nat option"
  lc_stopping :: bool
  lc_activations :: "(nat, activation) jsmap"
  lc_checks :: nat
  lc_calls :: "ls_call list"

definition initial_lifecycle :: lifecycle where
  "initial_lifecycle =
    \<lparr> lc_launchDescriptor = None, lc_lastStartKey = None, lc_desiredProject = None, lc_activationToken = 0,
      lc_restartAttempts = 0, lc_restartTimer = None, lc_restartInFlight = False, lc_disposed = False,
      lc_restartExhausted = False, lc_fatalFailureLogged = False, lc_lastExitCode = None, lc_transitions = [],
      lc_inFlightActivation = None, lc_stopping = False, lc_activations = [], lc_checks = 0, lc_calls = [] \<rparr>"

definition emit :: "ls_call \<Rightarrow> lifecycle \<Rightarrow> lifecycle" where
  "emit c st = st\<lparr> lc_calls := lc_calls st @ [c] \<rparr>"

section \<open>Restarts\<close>

definition JDT_LS_MAX_AUTO_RESTARTS :: nat where "JDT_LS_MAX_AUTO_RESTARTS = 3"

definition restartDelayMs :: "nat \<Rightarrow> nat" where
  "restartDelayMs attempt = min 10000 (1000 * 2 ^ (attempt - 1))"

definition isCurrentActivation :: "java_project \<Rightarrow> nat \<Rightarrow> lifecycle \<Rightarrow> bool" where
  "isCurrentActivation p t st \<longleftrightarrow> \<not> lc_disposed st \<and> t = lc_activationToken st \<and> lc_desiredProject st = Some p"

definition clearRestartTimer :: "lifecycle \<Rightarrow> lifecycle" where
  "clearRestartTimer st = st\<lparr> lc_restartTimer := None \<rparr>"

definition log_failure :: "lifecycle \<Rightarrow> lifecycle" where
  "log_failure st = (if lc_fatalFailureLogged st then st else emit ErrorLogged (st\<lparr> lc_fatalFailureLogged := True \<rparr>))"

definition markFatalFailure :: "lifecycle \<Rightarrow> lifecycle" where
  "markFatalFailure st = log_failure (clearRestartTimer (st\<lparr> lc_restartExhausted := True \<rparr>))"

definition scheduleRestart :: "lifecycle \<Rightarrow> lifecycle" where
  "scheduleRestart st =
    (case (lc_desiredProject st, lc_launchDescriptor st) of
       (Some p, Some d) \<Rightarrow>
         if lc_disposed st \<or> lc_restartTimer st \<noteq> None \<or> lc_restartInFlight st \<or> lc_restartExhausted st then st
         else if isFatalJdtLsFailure [] (lc_lastExitCode st) then markFatalFailure st
         else if JDT_LS_MAX_AUTO_RESTARTS \<le> lc_restartAttempts st then log_failure (st\<lparr> lc_restartExhausted := True \<rparr>)
         else
           let attempt = Suc (lc_restartAttempts st)
           in emit (RestartIn (restartDelayMs attempt))
                (st\<lparr> lc_restartAttempts := attempt, lc_restartTimer := Some (p, d, lc_activationToken st) \<rparr>)
     | _ \<Rightarrow> st)"

definition onClientState :: "jdt_state \<Rightarrow> lifecycle \<Rightarrow> lifecycle" where
  "onClientState s st =
    (if s = Crashed \<or> s = Failed
     then (if isFatalJdtLsFailure [] (lc_lastExitCode st) then markFatalFailure st else scheduleRestart st)
     else st)"

text \<open>\<open>enqueueTransition(() => startLanguageClientNow(...))\<close>.\<close>

definition startLanguageClient :: "launch_descriptor \<Rightarrow> java_project \<Rightarrow> nat \<Rightarrow> bool \<Rightarrow> lifecycle \<Rightarrow> lifecycle" where
  "startLanguageClient d p t restart st =
    st\<lparr> lc_transitions := lc_transitions st @
      [\<lparr> tn_descriptor = d, tn_project = p, tn_token = t, tn_restart = restart, tn_phase = Queued \<rparr>] \<rparr>"

definition restart_timer_fires :: "lifecycle \<Rightarrow> lifecycle" where
  "restart_timer_fires st =
    (case lc_restartTimer st of
       None \<Rightarrow> st
     | Some (p, d, t) \<Rightarrow>
         let st1 = st\<lparr> lc_restartTimer := None \<rparr> in
         if \<not> isCurrentActivation p t st1 then st1
         else startLanguageClient d p t True (st1\<lparr> lc_restartInFlight := True \<rparr>))"

text \<open>The \<open>finally\<close> of a restart, and the answer to the check that it starts.\<close>

definition restart_settled :: "java_project \<Rightarrow> nat \<Rightarrow> lifecycle \<Rightarrow> lifecycle" where
  "restart_settled p t st =
    (let st1 = st\<lparr> lc_restartInFlight := False \<rparr> in
     if \<not> isCurrentActivation p t st1 then st1
     else emit FetchState (st1\<lparr> lc_checks := Suc (lc_checks st1) \<rparr>))"

definition check_answered :: "string + jdt_state \<Rightarrow> lifecycle \<Rightarrow> lifecycle" where
  "check_answered answer st =
    (if lc_checks st = 0 then st
     else
       let st1 = st\<lparr> lc_checks := lc_checks st - 1 \<rparr> in
       case answer of
         Inl e \<Rightarrow> scheduleRestart st1
       | Inr s \<Rightarrow> if s = Crashed \<or> s = Failed then scheduleRestart st1 else st1)"

section \<open>Activations\<close>

definition activation_ends :: "nat \<Rightarrow> lifecycle \<Rightarrow> lifecycle" where
  "activation_ends t st =
    st\<lparr> lc_activations := jm_delete t (lc_activations st),
       lc_inFlightActivation := (if lc_inFlightActivation st = Some t then None else lc_inFlightActivation st) \<rparr>"

definition MAX_RETRIES :: nat where "MAX_RETRIES = 12"

text \<open>
  \<open>onProjectChanged\<close> up to its first \<open>await\<close>. A promise that is settled at once is no activation in flight; a second
  event in the same turn, before the \<open>finally\<close> of it runs, does nothing in the code and starts nothing here.
\<close>

definition onProjectChanged :: "bool \<Rightarrow> java_project \<Rightarrow> nat \<Rightarrow> lifecycle \<Rightarrow> lifecycle" where
  "onProjectChanged skip p t st =
    (if lc_restartExhausted st \<or> skip then st\<lparr> lc_inFlightActivation := None \<rparr>
     else st\<lparr> lc_inFlightActivation := Some t,
             lc_activations := jm_set t
               \<lparr> av_project = p, av_attempt = 0, av_forced = (if jp_workspaceId p = [] then None else Some (jp_workspaceId p)),
                 av_phase = InDelay \<rparr> (lc_activations st) \<rparr>)"

definition activate :: "bool \<Rightarrow> java_project \<Rightarrow> lifecycle \<Rightarrow> lifecycle" where
  "activate skip p st =
    (if lc_disposed st then st
     else
       let changed = (lc_desiredProject st \<noteq> Some p);
           st1 = st\<lparr> lc_desiredProject := Some p \<rparr>;
           st2 = (if changed then st1\<lparr> lc_restartAttempts := 0, lc_restartExhausted := False, lc_fatalFailureLogged := False,
                    lc_lastExitCode := None \<rparr> else st1) in
       if \<not> changed \<and> lc_inFlightActivation st \<noteq> None then st1
       else
         let token = Suc (lc_activationToken st2)
         in onProjectChanged skip p token ((clearRestartTimer st2)\<lparr> lc_activationToken := token \<rparr>))"

definition deactivate :: "lifecycle \<Rightarrow> lifecycle" where
  "deactivate st =
    (let st1 = clearRestartTimer (st\<lparr> lc_activationToken := Suc (lc_activationToken st), lc_inFlightActivation := None,
        lc_desiredProject := None, lc_launchDescriptor := None, lc_lastStartKey := None, lc_restartAttempts := 0,
        lc_restartExhausted := False, lc_fatalFailureLogged := False, lc_lastExitCode := None \<rparr>)
     in if lc_stopping st1 then st1 else emit StopCall (st1\<lparr> lc_stopping := True \<rparr>))"

definition dispose_lifecycle :: "lifecycle \<Rightarrow> lifecycle" where
  "dispose_lifecycle st =
    (if lc_disposed st then st
     else emit StopCall (clearRestartTimer (st\<lparr> lc_disposed := True, lc_activationToken := Suc (lc_activationToken st),
        lc_desiredProject := None, lc_launchDescriptor := None, lc_lastStartKey := None \<rparr>)))"

text \<open>The \<open>catch\<close> of an attempt, with the head of the next one.\<close>

definition attempt_failed :: "nat \<Rightarrow> activation \<Rightarrow> string \<Rightarrow> lifecycle \<Rightarrow> lifecycle" where
  "attempt_failed t a msg st =
    (let forced = corrected_workspace msg (av_forced a) in
     if archive_missing msg then activation_ends t st
     else if runtime_too_old msg then activation_ends t (st\<lparr> lc_restartExhausted := True \<rparr>)
     else if \<not> retryable msg \<or> MAX_RETRIES \<le> av_attempt a then activation_ends t st
     else if \<not> isCurrentActivation (av_project a) t st then activation_ends t st
     else (clearRestartTimer st)\<lparr> lc_activations := jm_set t
            (a\<lparr> av_attempt := Suc (av_attempt a), av_forced := forced, av_phase := InDelay \<rparr>) (lc_activations st) \<rparr>)"

text \<open>\<open>forcedWorkspaceId || project.workspaceId || ctx.workspaceId\<close>.\<close>

definition attempt_workspace :: "activation \<Rightarrow> string \<Rightarrow> string" where
  "attempt_workspace a ctx =
    (case av_forced a of
       Some w \<Rightarrow> w
     | None \<Rightarrow> if jp_workspaceId (av_project a) \<noteq> [] then jp_workspaceId (av_project a) else ctx)"

text \<open>The answer of \<open>requireContext\<close> is the workspace of the context.\<close>

definition delay_elapsed :: "nat \<Rightarrow> string + string \<Rightarrow> lifecycle \<Rightarrow> lifecycle" where
  "delay_elapsed t ctx st =
    (case jm_get (lc_activations st) t of
       None \<Rightarrow> st
     | Some a \<Rightarrow>
         if av_phase a \<noteq> InDelay then st
         else if \<not> isCurrentActivation (av_project a) t st then activation_ends t st
         else case ctx of
             Inl e \<Rightarrow> attempt_failed t a e st
           | Inr c \<Rightarrow>
               let w = attempt_workspace a c in
               emit (PreparePost t w (jp_projectId (av_project a)))
                 (st\<lparr> lc_activations := jm_set t (a\<lparr> av_phase := InPrepare w \<rparr>) (lc_activations st) \<rparr>))"

definition prepare_answered :: "nat \<Rightarrow> string option \<Rightarrow> lifecycle \<Rightarrow> lifecycle" where
  "prepare_answered t failure st =
    (case jm_get (lc_activations st) t of
       None \<Rightarrow> st
     | Some a \<Rightarrow>
         (case av_phase a of
            InPrepare w \<Rightarrow>
              (case failure of
                 Some e \<Rightarrow> attempt_failed t a e st
               | None \<Rightarrow>
                   if \<not> isCurrentActivation (av_project a) t st then activation_ends t st
                   else emit (DescriptorGet t w (jp_projectId (av_project a)))
                     (st\<lparr> lc_activations := jm_set t (a\<lparr> av_phase := InDescriptor \<rparr>) (lc_activations st) \<rparr>))
          | _ \<Rightarrow> st))"

definition descriptor_answered :: "nat \<Rightarrow> string + launch_descriptor \<Rightarrow> lifecycle \<Rightarrow> lifecycle" where
  "descriptor_answered t answer st =
    (case jm_get (lc_activations st) t of
       None \<Rightarrow> st
     | Some a \<Rightarrow>
         if av_phase a \<noteq> InDescriptor then st
         else case answer of
             Inl e \<Rightarrow> attempt_failed t a e st
           | Inr d \<Rightarrow>
               if \<not> isCurrentActivation (av_project a) t st then activation_ends t st
               else startLanguageClient d (av_project a) t False
                 (st\<lparr> lc_launchDescriptor := Some d,
                    lc_activations := jm_set t (a\<lparr> av_phase := InTransition \<rparr>) (lc_activations st) \<rparr>))"

section \<open>Transitions\<close>

text \<open>
  The end of the running transition, resolved or rejected with an error, and what waits for it. In the code the \<open>finally\<close> of a
  restart runs some microtasks after the transition has ended, and the next transition may begin in between; here it is part of
  the same step.
\<close>

definition transition_ends :: "string option \<Rightarrow> lifecycle \<Rightarrow> lifecycle" where
  "transition_ends failure st =
    (case lc_transitions st of
       [] \<Rightarrow> st
     | tn # rest \<Rightarrow>
         let st1 = st\<lparr> lc_transitions := rest \<rparr> in
         if tn_restart tn then restart_settled (tn_project tn) (tn_token tn) st1
         else case jm_get (lc_activations st1) (tn_token tn) of
             None \<Rightarrow> st1
           | Some a \<Rightarrow> (case failure of None \<Rightarrow> activation_ends (tn_token tn) st1 | Some e \<Rightarrow> attempt_failed (tn_token tn) a e st1))"

definition start_error :: "string \<Rightarrow> lifecycle \<Rightarrow> lifecycle" where
  "start_error msg st =
    (if isFatalJdtLsFailure msg (lc_lastExitCode st) then transition_ends None (markFatalFailure st)
     else if transient_error msg then transition_ends (Some msg) st
     else transition_ends None (scheduleRestart st))"

definition start_key :: "start_params \<Rightarrow> code_unit list" where
  "start_key sp = sp_rootUri sp @ units (''|'' @ sp_workspaceDataDir sp @ ''|''
     @ (case sp_home sp of Some h \<Rightarrow> h | None \<Rightarrow> []) @ ''|'' @ (case sp_jreHome sp of Some h \<Rightarrow> h | None \<Rightarrow> []))"

text \<open>What the descriptor says of a start: nothing if a directory is missing, an error if the path has no URI.\<close>

definition start_of :: "launch_descriptor \<Rightarrow> (string + start_params) option" where
  "start_of d =
    (case extractWorkspaceDataDir d of
       None \<Rightarrow> None
     | Some dir \<Rightarrow>
         if ld_workingDir d = [] \<or> dir = [] then None
         else case pathToFileUri (ld_workingDir d) of
             None \<Rightarrow> Some (Inl ''URIError: URI malformed'')
           | Some uri \<Rightarrow> Some (Inr \<lparr> sp_rootUri = uri, sp_workspaceDataDir = dir, sp_home = extractJdtLsHome d,
               sp_jreHome = extractJavaHome d \<rparr>))"

definition transition_stale :: "transition \<Rightarrow> lifecycle \<Rightarrow> bool" where
  "transition_stale tn st \<longleftrightarrow> lc_desiredProject st = None \<or> tn_token tn \<noteq> lc_activationToken st \<or> lc_disposed st"

definition set_phase :: "transition_phase \<Rightarrow> lifecycle \<Rightarrow> lifecycle" where
  "set_phase ph st =
    (case lc_transitions st of [] \<Rightarrow> st | tn # rest \<Rightarrow> st\<lparr> lc_transitions := tn\<lparr> tn_phase := ph \<rparr> # rest \<rparr>)"

definition in_phase :: "transition_phase \<Rightarrow> lifecycle \<Rightarrow> (transition \<Rightarrow> lifecycle \<Rightarrow> lifecycle) \<Rightarrow> lifecycle" where
  "in_phase ph st f =
    (case lc_transitions st of [] \<Rightarrow> st | tn # rest \<Rightarrow> if tn_phase tn = ph then f tn st else st)"

definition transition_begins :: "lifecycle \<Rightarrow> lifecycle" where
  "transition_begins st = in_phase Queued st (\<lambda>tn st.
    if transition_stale tn st then transition_ends None st
    else case start_of (tn_descriptor tn) of
        None \<Rightarrow> transition_ends None st
      | Some (Inl e) \<Rightarrow> start_error e st
      | Some (Inr sp) \<Rightarrow> emit FetchState (set_phase AtState st))"

definition start_client :: "transition \<Rightarrow> lifecycle \<Rightarrow> lifecycle" where
  "start_client tn st =
    (case start_of (tn_descriptor tn) of
       Some (Inr sp) \<Rightarrow> emit (StartCall (tn_token tn) sp) (set_phase AtStart st)
     | _ \<Rightarrow> st)"

definition state_fetched :: "string + jdt_state \<Rightarrow> lifecycle \<Rightarrow> lifecycle" where
  "state_fetched answer st = in_phase AtState st (\<lambda>tn st.
    case answer of
      Inl e \<Rightarrow> start_error e st
    | Inr s \<Rightarrow>
        if transition_stale tn st then transition_ends None st
        else if s = Starting \<or> s = Initializing \<or> s = Ready
        then (case start_of (tn_descriptor tn) of
                Some (Inr sp) \<Rightarrow>
                  if lc_lastStartKey st = Some (start_key sp) then transition_ends None st
                  else emit StopCall (set_phase AtStop st)
              | _ \<Rightarrow> st)
        else start_client tn st)"

definition stop_answered :: "string option \<Rightarrow> lifecycle \<Rightarrow> lifecycle" where
  "stop_answered failure st = in_phase AtStop st (\<lambda>tn st.
    case failure of
      Some e \<Rightarrow> start_error e st
    | None \<Rightarrow> if transition_stale tn st then transition_ends None st else start_client tn st)"

text \<open>A start answers that it failed for a reason (\<open>Inr (Some reason)\<close>), succeeds, or throws.\<close>

definition start_answered :: "string + string option \<Rightarrow> lifecycle \<Rightarrow> lifecycle" where
  "start_answered answer st = in_phase AtStart st (\<lambda>tn st.
    case answer of
      Inl e \<Rightarrow> start_error e st
    | Inr None \<Rightarrow>
        (case start_of (tn_descriptor tn) of
           Some (Inr sp) \<Rightarrow> transition_ends None (st\<lparr> lc_lastStartKey := Some (start_key sp) \<rparr>)
         | _ \<Rightarrow> st)
    | Inr (Some reason) \<Rightarrow>
        if isFatalJdtLsFailure reason (lc_lastExitCode st) then transition_ends None (markFatalFailure st)
        else if transient_result reason then start_error (''Error: '' @ reason) st
        else transition_ends None (scheduleRestart st))"

section \<open>Runs\<close>

text \<open>The events. Those of the project, of the context and of the client come through listeners, which are disposed with the service.\<close>

datatype ls_event =
    ProjectChanged "java_project option"
  | ContextChanged bool "java_project option"
  | ClientState jdt_state
  | ClientLog string
  | DisposeService
  | RestartTimer
  | DelayElapsed nat "string + string"
  | PrepareAnswered nat "string option"
  | DescriptorAnswered nat "string + launch_descriptor"
  | TransitionBegins
  | StateFetched "string + jdt_state"
  | StopAnswered "string option"
  | StartAnswered "string + string option"
  | CheckAnswered "string + jdt_state"
  | DeactivateSettled

fun ls_step :: "bool \<Rightarrow> lifecycle \<Rightarrow> ls_event \<Rightarrow> lifecycle" where
  "ls_step skip st (ProjectChanged p) =
     (if lc_disposed st then st else case p of None \<Rightarrow> deactivate st | Some p \<Rightarrow> activate skip p st)"
| "ls_step skip st (ContextChanged ctx p) =
     (if lc_disposed st then st
      else if \<not> ctx then deactivate st
      else case p of None \<Rightarrow> st | Some p \<Rightarrow> activate skip p st)"
| "ls_step skip st (ClientState s) = (if lc_disposed st then st else onClientState s st)"
| "ls_step skip st (ClientLog l) =
     (if lc_disposed st then st else st\<lparr> lc_lastExitCode := log_exit_code l (lc_lastExitCode st) \<rparr>)"
| "ls_step skip st DisposeService = dispose_lifecycle st"
| "ls_step skip st RestartTimer = restart_timer_fires st"
| "ls_step skip st (DelayElapsed t ctx) = delay_elapsed t ctx st"
| "ls_step skip st (PrepareAnswered t e) = prepare_answered t e st"
| "ls_step skip st (DescriptorAnswered t d) = descriptor_answered t d st"
| "ls_step skip st TransitionBegins = transition_begins st"
| "ls_step skip st (StateFetched a) = state_fetched a st"
| "ls_step skip st (StopAnswered e) = stop_answered e st"
| "ls_step skip st (StartAnswered a) = start_answered a st"
| "ls_step skip st (CheckAnswered a) = check_answered a st"
| "ls_step skip st DeactivateSettled = st\<lparr> lc_stopping := False \<rparr>"

abbreviation ls_run :: "bool \<Rightarrow> lifecycle \<Rightarrow> ls_event list \<Rightarrow> lifecycle" where
  "ls_run skip \<equiv> foldl (ls_step skip)"

end
