(* ===== verification/LanguageServerFacts.thy ===== *)
theory LanguageServerFacts
  imports LanguageServer
begin

text \<open>
  Facts about the life cycle of the language server. \<open>frame\<close> holds between the states before and after each part of an
  operation that follows an \<open>await\<close>: what such a part leaves alone and which calls it can add. With it the budget of
  restarts, and that nothing starts without a project. \<open>one_restart\<close> and \<open>posts_bounded\<close> are invariants of runs.
\<close>

section \<open>What a continuation leaves alone\<close>

definition restart_delays :: "ls_call list \<Rightarrow> nat list" where
  "restart_delays cs = concat (map (\<lambda>c. case c of RestartIn d \<Rightarrow> [d] | _ \<Rightarrow> []) cs)"

lemma restart_delays_simps [simp]:
  "restart_delays [] = []"
  "restart_delays (c # cs) = (case c of RestartIn d \<Rightarrow> [d] | _ \<Rightarrow> []) @ restart_delays cs"
  "restart_delays (cs @ ds) = restart_delays cs @ restart_delays ds"
  by (simp_all add: restart_delays_def)

definition restart_steps :: "nat \<Rightarrow> nat \<Rightarrow> nat list" where
  "restart_steps a b = drop a (take b [1000, 2000, 4000])"

lemma restart_steps_simps [simp]: "restart_steps a a = []"
  by (simp add: restart_steps_def)

lemma restart_steps_append: "a \<le> b \<Longrightarrow> b \<le> c \<Longrightarrow> restart_steps a b @ restart_steps b c = restart_steps a c"
proof -
  assume "a \<le> b" "b \<le> c"
  define L :: "nat list" where "L = [1000, 2000, 4000]"
  have "take b L @ drop b (take c L) = take c L"
    using \<open>b \<le> c\<close> append_take_drop_id [of b "take c L"] by (simp add: min_def)
  then have "drop a (take b L) @ drop (a - length (take b L)) (drop b (take c L)) = drop a (take c L)"
    by (metis drop_append)
  moreover have "drop (a - length (take b L)) (drop b (take c L)) = drop b (take c L)"
    using \<open>a \<le> b\<close> by (cases "b \<le> length L") auto
  ultimately show ?thesis by (simp add: restart_steps_def L_def)
qed

definition harmless :: "ls_call list \<Rightarrow> bool" where
  "harmless cs \<longleftrightarrow> set cs \<subseteq> {StopCall, ErrorLogged}"

text \<open>A timer that is set anew is one of the activation that is current then.\<close>

definition timer_framed :: "lifecycle \<Rightarrow> lifecycle \<Rightarrow> bool" where
  "timer_framed st st' \<longleftrightarrow>
     lc_restartTimer st' = lc_restartTimer st \<or> lc_restartTimer st' = None
     \<or> (\<exists>p d. lc_restartTimer st' = Some (p, d, lc_activationToken st) \<and> isCurrentActivation p (lc_activationToken st) st)"

lemma timer_framed_same: "lc_restartTimer st' = lc_restartTimer st \<or> lc_restartTimer st' = None \<Longrightarrow> timer_framed st st'"
  by (auto simp: timer_framed_def)

definition framed :: "ls_call list \<Rightarrow> lifecycle \<Rightarrow> lifecycle \<Rightarrow> bool" where
  "framed cs st st' \<longleftrightarrow>
     lc_desiredProject st' = lc_desiredProject st \<and> lc_activationToken st' = lc_activationToken st
     \<and> lc_disposed st' = lc_disposed st \<and> lc_calls st' = lc_calls st @ cs
     \<and> lc_restartAttempts st \<le> lc_restartAttempts st'
     \<and> (lc_restartAttempts st \<le> 3 \<longrightarrow> lc_restartAttempts st' \<le> 3
          \<and> restart_delays cs = restart_steps (lc_restartAttempts st) (lc_restartAttempts st'))
     \<and> (lc_desiredProject st = None \<longrightarrow> harmless cs) \<and> timer_framed st st'"

definition frame :: "lifecycle \<Rightarrow> lifecycle \<Rightarrow> bool" where
  "frame st st' \<longleftrightarrow> (\<exists>cs. framed cs st st')"

lemma frame_refl [simp, intro]: "frame st st"
  unfolding frame_def by (rule exI [of _ "[]"]) (simp add: framed_def harmless_def timer_framed_same)

lemma framed_trans: "framed cs a b \<Longrightarrow> framed ds b c \<Longrightarrow> framed (cs @ ds) a c"
  using restart_steps_append [of "lc_restartAttempts a" "lc_restartAttempts b" "lc_restartAttempts c"]
  by (auto simp: framed_def harmless_def timer_framed_def isCurrentActivation_def)

lemma frame_trans: "frame a b \<Longrightarrow> frame b c \<Longrightarrow> frame a c"
  unfolding frame_def using framed_trans by blast

text \<open>Fields that a frame does not mention, and a call that is no timer.\<close>

lemma frame_update:
  assumes "lc_desiredProject st' = lc_desiredProject st" "lc_activationToken st' = lc_activationToken st"
    "lc_disposed st' = lc_disposed st" "lc_restartAttempts st' = lc_restartAttempts st"
    "lc_calls st' = lc_calls st @ cs" "restart_delays cs = []" "lc_desiredProject st = None \<Longrightarrow> harmless cs"
    "lc_restartTimer st' = lc_restartTimer st \<or> lc_restartTimer st' = None"
  shows "frame st st'"
  using assms timer_framed_same [OF assms(8)] by (auto simp: frame_def framed_def intro!: exI [of _ cs])

lemmas frame_simple = frame_update [where cs = "[]", simplified harmless_def restart_delays_simps, simplified]

lemma not_fatal: "isFatalJdtLsFailure [] c \<longleftrightarrow> c = Some 13"
proof -
  have "\<not> list_ex (\<lambda>r. tests r []) fatal_patterns" by code_simp
  then show ?thesis by (simp add: isFatalJdtLsFailure_def)
qed

lemma restart_delay_step: "a < 3 \<Longrightarrow> [restartDelayMs (Suc a)] = restart_steps a (Suc a)"
  by (auto simp: less_Suc_eq numeral_3_eq_3 restartDelayMs_def restart_steps_def)

lemma frame_log: "frame st (log_failure st)"
  by (auto simp: log_failure_def emit_def harmless_def intro!: frame_update [where cs = "[ErrorLogged]"])

lemma frame_fatal: "frame st (markFatalFailure st)"
  unfolding markFatalFailure_def
  by (rule frame_trans [OF _ frame_log]) (rule frame_simple; simp add: clearRestartTimer_def)

lemma frame_schedule: "frame st (scheduleRestart st)"
proof (cases "lc_desiredProject st = None \<or> lc_launchDescriptor st = None")
  case True
  then show ?thesis by (auto simp: scheduleRestart_def split: option.splits)
next
  case False
  then obtain p d where pd: "lc_desiredProject st = Some p" "lc_launchDescriptor st = Some d" by auto
  have "frame st (log_failure (st\<lparr> lc_restartExhausted := True \<rparr>))"
    by (rule frame_trans [OF _ frame_log]) (rule frame_simple; simp)
  moreover have "frame st (emit (RestartIn (restartDelayMs (Suc (lc_restartAttempts st))))
      (st\<lparr> lc_restartAttempts := Suc (lc_restartAttempts st), lc_restartTimer := Some (p, d, lc_activationToken st) \<rparr>))"
    if "lc_restartAttempts st < 3" "\<not> lc_disposed st"
    using that pd restart_delay_step [OF that(1)]
    by (auto simp: frame_def framed_def emit_def timer_framed_def isCurrentActivation_def intro!: exI [of _ "[RestartIn (restartDelayMs (Suc (lc_restartAttempts st)))]"])
  ultimately show ?thesis using pd frame_fatal
    by (auto simp: scheduleRestart_def Let_def JDT_LS_MAX_AUTO_RESTARTS_def not_le)
qed

lemma frame_activation_ends: "frame st (activation_ends t st)"
  by (rule frame_simple) (simp_all add: activation_ends_def)

lemma frame_attempt_failed: "frame st (attempt_failed t a msg st)"
proof -
  have "frame st (activation_ends t (st\<lparr> lc_restartExhausted := True \<rparr>))"
    by (rule frame_trans [OF _ frame_activation_ends]) (rule frame_simple; simp)
  moreover have "frame st ((clearRestartTimer st)\<lparr> lc_activations := x \<rparr>)" for x
    by (rule frame_simple) (simp_all add: clearRestartTimer_def)
  ultimately show ?thesis using frame_activation_ends by (simp add: attempt_failed_def Let_def)
qed

lemma frame_restart_settled: "frame st (restart_settled p t st)"
proof -
  have "frame st (emit FetchState (st\<lparr> lc_restartInFlight := False, lc_checks := n \<rparr>))" if "lc_desiredProject st \<noteq> None" for n
    by (rule frame_update [where cs = "[FetchState]"]) (use that in \<open>simp_all add: emit_def\<close>)
  moreover have "frame st (st\<lparr> lc_restartInFlight := False \<rparr>)" by (rule frame_simple) simp_all
  ultimately show ?thesis by (auto simp: restart_settled_def Let_def isCurrentActivation_def)
qed

lemma frame_transition_ends: "frame st (transition_ends failure st)"
proof (cases "lc_transitions st")
  case Nil
  then show ?thesis by (simp add: transition_ends_def)
next
  case (Cons tn rest)
  have f: "frame st (st\<lparr> lc_transitions := rest \<rparr>)" by (rule frame_simple) simp_all
  show ?thesis
    using frame_trans [OF f frame_restart_settled] frame_trans [OF f frame_activation_ends]
      frame_trans [OF f frame_attempt_failed] f Cons
    by (auto simp: transition_ends_def Let_def split: option.split)
qed

lemma frame_start_error: "frame st (start_error msg st)"
  using frame_trans [OF frame_fatal frame_transition_ends] frame_trans [OF frame_schedule frame_transition_ends]
    frame_transition_ends
  by (simp add: start_error_def)

lemmas frame_parts = frame_refl frame_log frame_fatal frame_schedule frame_activation_ends frame_attempt_failed
  frame_restart_settled frame_transition_ends frame_start_error

section \<open>The parts after an \<open>await\<close>\<close>

lemma frame_call:
  assumes "frame st st'" and "restart_delays [c] = []" and "lc_desiredProject st = None \<Longrightarrow> harmless [c]"
  shows "frame st (emit c st')"
proof (rule frame_trans [OF assms(1)])
  have "lc_desiredProject st' = lc_desiredProject st" using assms(1) by (auto simp: frame_def framed_def)
  then show "frame st' (emit c st')"
    using assms(2,3) by (intro frame_update [where cs = "[c]"]) (simp_all add: emit_def)
qed

lemma frame_set_phase: "frame st (set_phase ph st)"
  by (rule frame_simple) (simp_all add: set_phase_def split: list.split)

lemma frame_activations: "frame st (st\<lparr> lc_activations := x \<rparr>)"
  by (rule frame_simple) simp_all

lemma frame_some_call:
  assumes "lc_desiredProject st \<noteq> None" and "\<And>d. c \<noteq> RestartIn d"
  shows "frame st (emit c (st\<lparr> lc_activations := x \<rparr>))" and "frame st (emit c (set_phase ph st))"
proof -
  have r: "restart_delays [c] = []" using assms(2) by (auto split: ls_call.split)
  show "frame st (emit c (st\<lparr> lc_activations := x \<rparr>))"
    by (rule frame_call [OF frame_activations r]) (simp add: assms(1))
  show "frame st (emit c (set_phase ph st))"
    by (rule frame_call [OF frame_set_phase r]) (simp add: assms(1))
qed

lemma frame_client_state: "frame st (onClientState s st)"
  by (simp add: onClientState_def frame_parts)

lemma frame_timer: "frame st (restart_timer_fires st)"
proof -
  have "frame st (st\<lparr> lc_restartTimer := None \<rparr>)"
    "frame st (startLanguageClient d p t True (st\<lparr> lc_restartTimer := None, lc_restartInFlight := True \<rparr>))" for d p t
    by (rule frame_simple; simp add: startLanguageClient_def)+
  then show ?thesis by (auto simp: restart_timer_fires_def Let_def split: option.split)
qed

lemma frame_check: "frame st (check_answered a st)"
proof -
  have f: "frame st (st\<lparr> lc_checks := n \<rparr>)" for n by (rule frame_simple) simp_all
  show ?thesis using f frame_trans [OF f frame_schedule] by (auto simp: check_answered_def Let_def split: sum.split)
qed

lemma current_desired: "isCurrentActivation p t st \<Longrightarrow> lc_desiredProject st \<noteq> None"
  by (simp add: isCurrentActivation_def)

lemma frame_delay: "frame st (delay_elapsed t ctx st)"
  by (auto simp: delay_elapsed_def Let_def frame_parts intro!: frame_some_call dest: current_desired split: option.split sum.split)

lemma frame_prepare: "frame st (prepare_answered t e st)"
  by (auto simp: prepare_answered_def Let_def frame_parts intro!: frame_some_call dest: current_desired
    split: option.split activation_phase.split)

lemma frame_descriptor: "frame st (descriptor_answered t a st)"
proof -
  have "frame st (startLanguageClient d p t False (st\<lparr> lc_launchDescriptor := x, lc_activations := y \<rparr>))" for d p x y
    by (rule frame_simple) (simp_all add: startLanguageClient_def)
  then show ?thesis by (auto simp: descriptor_answered_def frame_parts split: option.split sum.split)
qed

lemma stale_without_project: "\<not> transition_stale tn st \<Longrightarrow> lc_desiredProject st \<noteq> None"
  by (simp add: transition_stale_def)

lemma frame_begin: "frame st (transition_begins st)"
  by (auto simp: transition_begins_def in_phase_def frame_parts intro!: frame_some_call dest: stale_without_project
    split: list.split option.split sum.split)

lemma frame_start_client: "lc_desiredProject st \<noteq> None \<Longrightarrow> frame st (start_client tn st)"
  by (auto simp: start_client_def intro!: frame_some_call split: option.split sum.split)

lemma frame_fetched: "frame st (state_fetched a st)"
  by (auto simp: state_fetched_def in_phase_def frame_parts intro!: frame_some_call frame_start_client
    dest: stale_without_project split: list.split option.split sum.split)

lemma frame_stopped: "frame st (stop_answered e st)"
  by (auto simp: stop_answered_def in_phase_def frame_parts intro!: frame_start_client dest: stale_without_project
    split: list.split option.split)

lemma frame_started: "frame st (start_answered a st)"
proof -
  have k: "frame st (transition_ends None (st\<lparr> lc_lastStartKey := x \<rparr>))" for x
    by (rule frame_trans [OF _ frame_transition_ends]) (rule frame_simple; simp)
  show ?thesis
    using k frame_trans [OF frame_fatal frame_transition_ends] frame_trans [OF frame_schedule frame_transition_ends]
    by (auto simp: start_answered_def in_phase_def frame_parts split: list.split option.split sum.split)
qed

text \<open>The events that are neither of a project nor of the end of the service.\<close>

definition starts_project :: "ls_event \<Rightarrow> bool" where
  "starts_project e \<longleftrightarrow> (case e of ProjectChanged p \<Rightarrow> p \<noteq> None | ContextChanged ctx p \<Rightarrow> ctx \<and> p \<noteq> None | _ \<Rightarrow> False)"

definition ends_project :: "ls_event \<Rightarrow> bool" where
  "ends_project e \<longleftrightarrow> (case e of ProjectChanged p \<Rightarrow> p = None | ContextChanged ctx p \<Rightarrow> \<not> ctx | DisposeService \<Rightarrow> True | _ \<Rightarrow> False)"

lemma frame_step: "\<not> starts_project e \<Longrightarrow> \<not> ends_project e \<Longrightarrow> frame st (ls_step skip st e)"
proof (cases e)
  case (ClientLog l)
  have "frame st (st\<lparr> lc_lastExitCode := x \<rparr>)" for x by (rule frame_simple) simp_all
  with ClientLog show ?thesis by simp
next
  case DeactivateSettled
  have "frame st (st\<lparr> lc_stopping := False \<rparr>)" by (rule frame_simple) simp_all
  with DeactivateSettled show ?thesis by simp
qed (auto simp: starts_project_def ends_project_def frame_client_state frame_timer frame_delay frame_prepare frame_descriptor
    frame_begin frame_fetched frame_stopped frame_started frame_check split: option.split)

section \<open>The budget of restarts\<close>

text \<open>An activation of the project that is there already keeps the count.\<close>

lemma activate_same:
  "lc_desiredProject st = Some p \<Longrightarrow>
     lc_restartAttempts (activate skip p st) = lc_restartAttempts st \<and> lc_calls (activate skip p st) = lc_calls st
     \<and> lc_desiredProject (activate skip p st) = Some p"
  by (simp add: activate_def onProjectChanged_def clearRestartTimer_def Let_def)

lemma ends_project_none: "ends_project e \<Longrightarrow> \<not> lc_disposed st \<Longrightarrow> lc_desiredProject (ls_step skip st e) = None"
  by (cases e) (auto simp: ends_project_def deactivate_def dispose_lifecycle_def clearRestartTimer_def emit_def Let_def)

lemma disposed_same: "lc_disposed st \<Longrightarrow> starts_project e \<or> ends_project e \<Longrightarrow> ls_step skip st e = st"
  by (cases e) (auto simp: starts_project_def ends_project_def dispose_lifecycle_def)

lemma starts_project_activate:
  "starts_project e \<Longrightarrow> \<not> lc_disposed st \<Longrightarrow> \<exists>p. ls_step skip st e = activate skip p st"
  by (cases e) (auto simp: starts_project_def split: option.splits)

lemma activate_desired: "\<not> lc_disposed st \<Longrightarrow> lc_desiredProject (activate skip p st) = Some p"
  by (simp add: activate_def onProjectChanged_def clearRestartTimer_def Let_def)

definition within_budget :: "lifecycle \<Rightarrow> lifecycle \<Rightarrow> bool" where
  "within_budget st st' \<longleftrightarrow>
     lc_restartAttempts st \<le> lc_restartAttempts st' \<and> lc_restartAttempts st' \<le> 3
     \<and> restart_delays (lc_calls st') = restart_delays (lc_calls st) @ restart_steps (lc_restartAttempts st) (lc_restartAttempts st')"

lemma within_budget_trans: "within_budget a b \<Longrightarrow> within_budget b c \<Longrightarrow> within_budget a c"
  using restart_steps_append [of "lc_restartAttempts a" "lc_restartAttempts b" "lc_restartAttempts c"]
  by (simp add: within_budget_def)

lemma frame_budget: "frame st st' \<Longrightarrow> lc_restartAttempts st \<le> 3 \<Longrightarrow> within_budget st st'"
  by (auto simp: frame_def framed_def within_budget_def)

lemma step_budget:
  assumes "lc_desiredProject st = Some p" and "lc_desiredProject (ls_step skip st e) = Some p" and "lc_restartAttempts st \<le> 3"
  shows "within_budget st (ls_step skip st e)"
proof (cases "starts_project e \<or> ends_project e")
  case False
  then show ?thesis using frame_budget [OF frame_step assms(3)] by blast
next
  case True
  show ?thesis
  proof (cases "lc_disposed st")
    case d: True
    then show ?thesis using disposed_same [OF d True] assms(3) by (simp add: within_budget_def)
  next
    case d: False
    then have "starts_project e" using ends_project_none [OF _ d] assms(2) True by (metis option.distinct(1))
    then obtain q where q: "ls_step skip st e = activate skip q st" using starts_project_activate d by blast
    then have "q = p" using activate_desired [OF d, of skip q] assms(2) by simp
    then show ?thesis using q activate_same [OF assms(1), of skip] assms(3) by (simp add: within_budget_def)
  qed
qed

lemma run_budget:
  "lc_restartAttempts st \<le> 3 \<Longrightarrow> \<forall>k \<le> length evs. lc_desiredProject (ls_run skip st (take k evs)) = Some p \<Longrightarrow>
     within_budget st (ls_run skip st evs)"
proof (induction evs rule: rev_induct)
  case Nil
  then show ?case by (simp add: within_budget_def)
next
  case (snoc e evs)
  have d: "lc_desiredProject (ls_run skip st (take k (evs @ [e]))) = Some p" if "k \<le> Suc (length evs)" for k
    using snoc.prems(2) that by simp
  have "\<forall>k \<le> length evs. lc_desiredProject (ls_run skip st (take k evs)) = Some p"
  proof (intro allI impI)
    fix k assume "k \<le> length evs"
    then show "lc_desiredProject (ls_run skip st (take k evs)) = Some p" using d [of k] by simp
  qed
  then have b: "within_budget st (ls_run skip st evs)" using snoc by blast
  have "within_budget (ls_run skip st evs) (ls_step skip (ls_run skip st evs) e)"
    using step_budget [of "ls_run skip st evs" p skip e] d [of "length evs"] d [of "Suc (length evs)"] b
    by (simp add: within_budget_def)
  with b show ?case using within_budget_trans by simp
qed

lemma attempts_step: "lc_restartAttempts st \<le> 3 \<Longrightarrow> lc_restartAttempts (ls_step skip st e) \<le> 3"
proof (cases "starts_project e \<or> ends_project e")
  case False
  assume a: "lc_restartAttempts st \<le> 3"
  from False obtain cs where "framed cs st (ls_step skip st e)" using frame_step [of e st skip] unfolding frame_def by blast
  with a show ?thesis by (simp add: framed_def)
next
  case True
  assume "lc_restartAttempts st \<le> 3"
  then show ?thesis using True
    by (cases e) (auto simp: starts_project_def ends_project_def activate_def deactivate_def dispose_lifecycle_def
      onProjectChanged_def clearRestartTimer_def emit_def Let_def split: option.split)
qed

lemma attempts_run: "lc_restartAttempts (ls_run skip initial_lifecycle evs) \<le> 3"
proof (induction evs rule: rev_induct)
  case Nil
  show ?case by (simp add: initial_lifecycle_def)
qed (simp add: attempts_step)

section \<open>Nothing starts without a project\<close>

lemma disposed_no_project_step:
  assumes "lc_disposed st \<longrightarrow> lc_desiredProject st = None"
  shows "lc_disposed (ls_step skip st e) \<longrightarrow> lc_desiredProject (ls_step skip st e) = None"
proof (cases "starts_project e \<or> ends_project e")
  case False
  then obtain cs where "framed cs st (ls_step skip st e)" using frame_step [of e st skip] unfolding frame_def by blast
  with assms show ?thesis by (simp add: framed_def)
next
  case True
  show ?thesis
  proof (cases "lc_disposed st")
    case d: True
    then show ?thesis using disposed_same [OF d True] assms by simp
  next
    case d: False
    then show ?thesis
    proof (cases "ends_project e")
      case False
      with True obtain q where "ls_step skip st e = activate skip q st" using starts_project_activate d by blast
      then show ?thesis using d by (simp add: activate_def onProjectChanged_def clearRestartTimer_def Let_def)
    qed (simp add: ends_project_none)
  qed
qed

lemma disposed_no_project: "lc_disposed (ls_run skip initial_lifecycle evs) \<Longrightarrow>
    lc_desiredProject (ls_run skip initial_lifecycle evs) = None"
proof (induction evs rule: rev_induct)
  case (snoc e evs)
  then show ?case using disposed_no_project_step [of "ls_run skip initial_lifecycle evs" skip e] by simp
qed (simp add: initial_lifecycle_def)

lemma quiet_step:
  assumes "lc_desiredProject st = None" and "\<not> starts_project e \<or> lc_disposed st"
  shows "lc_desiredProject (ls_step skip st e) = None \<and> (lc_disposed st \<longrightarrow> lc_disposed (ls_step skip st e))
    \<and> (\<exists>cs. lc_calls (ls_step skip st e) = lc_calls st @ cs \<and> harmless cs)"
proof (cases "starts_project e \<or> ends_project e")
  case False
  then obtain cs where "framed cs st (ls_step skip st e)" using frame_step [of e st skip] unfolding frame_def by blast
  with assms(1) show ?thesis by (auto simp: framed_def)
next
  case True
  show ?thesis
  proof (cases "lc_disposed st")
    case d: True
    then show ?thesis using disposed_same [OF d True] assms by (auto simp: harmless_def intro: exI [of _ "[]"])
  next
    case d: False
    with True assms(2) have e: "ends_project e" by blast
    then have "\<exists>cs. lc_calls (ls_step skip st e) = lc_calls st @ cs \<and> harmless cs" using d
      by (cases e) (auto simp: ends_project_def deactivate_def dispose_lifecycle_def clearRestartTimer_def emit_def Let_def
        harmless_def)
    then show ?thesis using ends_project_none [OF e d] d by simp
  qed
qed

lemma quiet_run:
  "lc_desiredProject st = None \<Longrightarrow> (\<forall>e \<in> set evs. \<not> starts_project e) \<or> lc_disposed st \<Longrightarrow>
     \<exists>cs. lc_calls (ls_run skip st evs) = lc_calls st @ cs \<and> harmless cs"
proof (induction evs arbitrary: st)
  case (Cons e evs)
  have s: "lc_desiredProject (ls_step skip st e) = None" "lc_disposed st \<longrightarrow> lc_disposed (ls_step skip st e)"
    "\<exists>cs. lc_calls (ls_step skip st e) = lc_calls st @ cs \<and> harmless cs"
    using quiet_step [of st e skip] Cons.prems by auto
  then obtain cs where c: "lc_calls (ls_step skip st e) = lc_calls st @ cs" "harmless cs" by blast
  have "(\<forall>e \<in> set evs. \<not> starts_project e) \<or> lc_disposed (ls_step skip st e)" using Cons.prems(2) s(2) by auto
  from Cons.IH [OF s(1) this] obtain ds
    where d: "lc_calls (ls_run skip (ls_step skip st e) evs) = lc_calls (ls_step skip st e) @ ds" "harmless ds" by blast
  then have "lc_calls (ls_run skip st (e # evs)) = lc_calls st @ cs @ ds" "harmless (cs @ ds)"
    using c by (auto simp: harmless_def)
  then show ?case by blast
qed (auto simp: harmless_def intro: exI [of _ "[]"])

section \<open>The timer of a restart\<close>

text \<open>A timer that is pending is one of the current activation.\<close>

definition timer_current :: "lifecycle \<Rightarrow> bool" where
  "timer_current st \<longleftrightarrow> (\<forall>p d t. lc_restartTimer st = Some (p, d, t) \<longrightarrow> isCurrentActivation p t st)"

lemma timer_current_step: "timer_current st \<Longrightarrow> timer_current (ls_step skip st e)"
proof (cases "starts_project e \<or> ends_project e")
  case False
  assume c: "timer_current st"
  from False obtain cs where f: "framed cs st (ls_step skip st e)" using frame_step [of e st skip] unfolding frame_def by blast
  then have "isCurrentActivation p t (ls_step skip st e) = isCurrentActivation p t st" for p t
    by (simp add: framed_def isCurrentActivation_def)
  with c f show ?thesis by (auto simp: timer_current_def framed_def timer_framed_def)
next
  case True
  assume "timer_current st"
  then show ?thesis using True
    by (cases e) (auto simp: starts_project_def ends_project_def activate_def deactivate_def dispose_lifecycle_def
      onProjectChanged_def clearRestartTimer_def emit_def Let_def timer_current_def isCurrentActivation_def split: option.split)
qed

lemma timer_current_run: "timer_current (ls_run skip initial_lifecycle evs)"
proof (induction evs rule: rev_induct)
  case Nil
  show ?case by (simp add: timer_current_def initial_lifecycle_def)
qed (simp add: timer_current_step)

text \<open>What a crash starts, what the timer adds to the chain of transitions, and what this transition calls.\<close>

lemma crash_schedules:
  fixes skip :: bool
  assumes "lc_desiredProject st = Some p" "lc_launchDescriptor st = Some d" "\<not> lc_disposed st" "lc_restartTimer st = None"
    and "\<not> lc_restartInFlight st" "\<not> lc_restartExhausted st" "s = Crashed \<or> s = Failed"
  defines "st1 \<equiv> ls_step skip st (ClientState s)"
  shows "lc_lastExitCode st = Some 13 \<or> 3 \<le> lc_restartAttempts st \<Longrightarrow>
      lc_restartExhausted st1 \<and> lc_restartTimer st1 = None \<and> lc_transitions st1 = lc_transitions st
      \<and> lc_calls st1 = lc_calls st @ (if lc_fatalFailureLogged st then [] else [ErrorLogged])"
    and "lc_lastExitCode st \<noteq> Some 13 \<Longrightarrow> lc_restartAttempts st < 3 \<Longrightarrow>
      lc_restartTimer st1 = Some (p, d, lc_activationToken st) \<and> lc_restartAttempts st1 = Suc (lc_restartAttempts st)
      \<and> lc_calls st1 = lc_calls st @ [RestartIn (1000 * 2 ^ lc_restartAttempts st)]"
proof -
  have d: "restartDelayMs (Suc (lc_restartAttempts st)) = 1000 * 2 ^ lc_restartAttempts st" if "lc_restartAttempts st < 3"
    using that by (auto simp: restartDelayMs_def less_Suc_eq numeral_3_eq_3)
  note defs = st1_def onClientState_def scheduleRestart_def not_fatal JDT_LS_MAX_AUTO_RESTARTS_def Let_def emit_def
    markFatalFailure_def log_failure_def clearRestartTimer_def
  show "lc_lastExitCode st = Some 13 \<or> 3 \<le> lc_restartAttempts st \<Longrightarrow>
      lc_restartExhausted st1 \<and> lc_restartTimer st1 = None \<and> lc_transitions st1 = lc_transitions st
      \<and> lc_calls st1 = lc_calls st @ (if lc_fatalFailureLogged st then [] else [ErrorLogged])"
    using assms(1-7) by (auto simp: defs)
  show "lc_lastExitCode st \<noteq> Some 13 \<Longrightarrow> lc_restartAttempts st < 3 \<Longrightarrow>
      lc_restartTimer st1 = Some (p, d, lc_activationToken st) \<and> lc_restartAttempts st1 = Suc (lc_restartAttempts st)
      \<and> lc_calls st1 = lc_calls st @ [RestartIn (1000 * 2 ^ lc_restartAttempts st)]"
    using assms(1-7) d by (auto simp: defs)
qed

abbreviation restart_transition :: "java_project \<Rightarrow> launch_descriptor \<Rightarrow> nat \<Rightarrow> transition" where
  "restart_transition p d t \<equiv> \<lparr> tn_descriptor = d, tn_project = p, tn_token = t, tn_restart = True, tn_phase = Queued \<rparr>"

lemma timer_queues_restart:
  assumes "timer_current st" and "lc_restartTimer st = Some (p, d, t)"
  shows "lc_transitions (ls_step skip st RestartTimer) = lc_transitions st @ [restart_transition p d t]"
  using assms by (auto simp: timer_current_def restart_timer_fires_def startLanguageClient_def isCurrentActivation_def Let_def)

lemma restart_starts:
  assumes "lc_transitions st = restart_transition p d t # rest" and "isCurrentActivation p t st"
    and "start_of d = Some (Inr sp)" and "s \<notin> {Starting, Initializing, Ready}"
  shows "lc_calls (ls_run skip st [TransitionBegins, StateFetched (Inr s)]) = lc_calls st @ [FetchState, StartCall t sp]"
  using assms by (simp add: transition_begins_def in_phase_def transition_stale_def set_phase_def state_fetched_def start_client_def
    emit_def isCurrentActivation_def)

section \<open>One restart at a time\<close>

definition pending_restarts :: "lifecycle \<Rightarrow> nat" where
  "pending_restarts st =
    length (filter tn_restart (lc_transitions st)) + (if lc_restartTimer st = None then 0 else 1)"

definition one_restart :: "lifecycle \<Rightarrow> bool" where
  "one_restart st \<longleftrightarrow>
     pending_restarts st \<le> 1 \<and> (lc_restartInFlight st \<longleftrightarrow> (\<exists>tn \<in> set (lc_transitions st). tn_restart tn))"

text \<open>Most parts clear the timer at most and leave the chain of transitions as it is.\<close>

definition keeps_chain :: "lifecycle \<Rightarrow> lifecycle \<Rightarrow> bool" where
  "keeps_chain st st' \<longleftrightarrow>
     map tn_restart (lc_transitions st') = map tn_restart (lc_transitions st)
     \<and> lc_restartInFlight st' = lc_restartInFlight st
     \<and> (lc_restartTimer st' = None \<or> lc_restartTimer st' = lc_restartTimer st)"

lemma filter_restart: "length (filter tn_restart ts) = length (filter id (map tn_restart ts))"
  by (simp add: filter_map comp_def)

lemma some_restart: "(\<exists>tn \<in> set ts. tn_restart tn) \<longleftrightarrow> True \<in> set (map tn_restart ts)"
  by auto

lemma one_restart_keeps: "one_restart st \<Longrightarrow> keeps_chain st st' \<Longrightarrow> one_restart st'"
  unfolding one_restart_def pending_restarts_def filter_restart some_restart keeps_chain_def
  by (auto split: if_splits)

lemma one_restart_update [simp]:
  "one_restart (st\<lparr> lc_launchDescriptor := a \<rparr>) = one_restart st" "one_restart (st\<lparr> lc_lastStartKey := b \<rparr>) = one_restart st"
  "one_restart (st\<lparr> lc_activations := c \<rparr>) = one_restart st" "one_restart (st\<lparr> lc_restartExhausted := d \<rparr>) = one_restart st"
  "one_restart (st\<lparr> lc_checks := n \<rparr>) = one_restart st" "one_restart (st\<lparr> lc_lastExitCode := x \<rparr>) = one_restart st"
  "one_restart (st\<lparr> lc_stopping := d \<rparr>) = one_restart st" "one_restart (emit y st) = one_restart st"
  by (simp_all add: one_restart_def pending_restarts_def emit_def)

lemma keeps_log [simp]: "one_restart (log_failure st) = one_restart st"
  by (simp add: log_failure_def one_restart_def pending_restarts_def emit_def)

lemma one_restart_clear: "one_restart st \<Longrightarrow> one_restart (clearRestartTimer st)"
  by (erule one_restart_keeps) (simp_all add: keeps_chain_def clearRestartTimer_def)

lemma one_restart_fatal: "one_restart st \<Longrightarrow> one_restart (markFatalFailure st)"
  by (simp add: markFatalFailure_def one_restart_clear)

lemma no_restart_queued: "one_restart st \<Longrightarrow> \<not> lc_restartInFlight st \<Longrightarrow> filter tn_restart (lc_transitions st) = []"
  by (simp add: one_restart_def filter_empty_conv)

lemma one_restart_schedule: "one_restart st \<Longrightarrow> one_restart (scheduleRestart st)"
proof -
  assume o: "one_restart st"
  have "one_restart (st\<lparr> lc_restartAttempts := n, lc_restartTimer := Some x \<rparr>)" if "\<not> lc_restartInFlight st" for n x
    using no_restart_queued [OF o that] o that by (simp add: one_restart_def pending_restarts_def)
  with o one_restart_fatal [OF o] show ?thesis by (auto simp: scheduleRestart_def Let_def split: option.split)
qed

lemma one_restart_ends: "one_restart st \<Longrightarrow> one_restart (activation_ends t st)"
  by (erule one_restart_keeps) (simp_all add: keeps_chain_def activation_ends_def)

lemma one_restart_failed: "one_restart st \<Longrightarrow> one_restart (attempt_failed t a msg st)"
  by (simp add: attempt_failed_def Let_def one_restart_ends one_restart_clear)

lemma one_restart_transition_ends: "one_restart st \<Longrightarrow> one_restart (transition_ends failure st)"
proof (cases "lc_transitions st")
  case (Cons tn rest)
  assume o: "one_restart st"
  show ?thesis
  proof (cases "tn_restart tn")
    case True
    then have "filter tn_restart rest = []" using o Cons by (simp add: one_restart_def pending_restarts_def split: if_splits)
    then have "one_restart (st\<lparr> lc_transitions := rest, lc_restartInFlight := False \<rparr>)"
      using o Cons by (auto simp: one_restart_def pending_restarts_def filter_empty_conv split: if_splits)
    then show ?thesis using True Cons by (simp add: transition_ends_def restart_settled_def Let_def)
  next
    case False
    then have "one_restart (st\<lparr> lc_transitions := rest \<rparr>)"
      using o Cons by (simp add: one_restart_def pending_restarts_def)
    then show ?thesis using False Cons
      by (auto simp: transition_ends_def Let_def one_restart_ends one_restart_failed split: option.split)
  qed
qed (simp add: transition_ends_def)

lemma one_restart_start_error: "one_restart st \<Longrightarrow> one_restart (start_error msg st)"
  by (simp add: start_error_def one_restart_transition_ends one_restart_fatal one_restart_schedule)

lemma one_restart_enqueue: "one_restart st \<Longrightarrow> one_restart (startLanguageClient d p t False st)"
  by (auto simp: one_restart_def pending_restarts_def startLanguageClient_def)

lemma one_restart_phase [simp]: "one_restart (set_phase ph st) = one_restart st"
  by (auto simp: one_restart_def pending_restarts_def set_phase_def split: list.split)

lemma one_restart_timer: "one_restart st \<Longrightarrow> one_restart (restart_timer_fires st)"
proof (cases "lc_restartTimer st")
  case (Some x)
  obtain p d t where x: "x = (p, d, t)" by (cases x)
  assume o: "one_restart st"
  then have "filter tn_restart (lc_transitions st) = []" using Some by (simp add: one_restart_def pending_restarts_def)
  then have "one_restart (startLanguageClient d p t True (st\<lparr> lc_restartTimer := None, lc_restartInFlight := True \<rparr>))"
    by (simp add: one_restart_def pending_restarts_def startLanguageClient_def)
  moreover have "one_restart (st\<lparr> lc_restartTimer := None \<rparr>)"
    using one_restart_clear [OF o] by (simp add: clearRestartTimer_def)
  ultimately show ?thesis using Some x by (simp add: restart_timer_fires_def Let_def)
qed (simp add: restart_timer_fires_def)

lemma one_restart_client: "one_restart st \<Longrightarrow> one_restart (start_client tn st)"
  by (simp add: start_client_def split: option.split sum.split)

lemma one_restart_activate: "one_restart st \<Longrightarrow> one_restart (activate skip p st)"
  by (erule one_restart_keeps) (simp add: keeps_chain_def activate_def onProjectChanged_def clearRestartTimer_def Let_def)

lemma one_restart_deactivate: "one_restart st \<Longrightarrow> one_restart (deactivate st)"
  by (erule one_restart_keeps) (simp add: keeps_chain_def deactivate_def clearRestartTimer_def emit_def Let_def)

lemma one_restart_dispose: "one_restart st \<Longrightarrow> one_restart (dispose_lifecycle st)"
  by (erule one_restart_keeps) (simp add: keeps_chain_def dispose_lifecycle_def clearRestartTimer_def emit_def)

lemmas one_restart_parts = one_restart_ends one_restart_failed one_restart_transition_ends one_restart_start_error
  one_restart_schedule one_restart_fatal one_restart_client one_restart_enqueue one_restart_timer one_restart_activate
  one_restart_deactivate one_restart_dispose

lemma one_restart_step: "one_restart st \<Longrightarrow> one_restart (ls_step skip st e)"
proof (cases e)
  case (DescriptorAnswered t a)
  assume "one_restart st"
  with DescriptorAnswered show ?thesis
    by (auto simp: descriptor_answered_def one_restart_parts intro!: one_restart_enqueue split: option.split sum.split)
qed (auto simp: onClientState_def check_answered_def delay_elapsed_def prepare_answered_def transition_begins_def
    state_fetched_def stop_answered_def start_answered_def in_phase_def Let_def one_restart_parts
    split: option.split sum.split list.split activation_phase.split)

lemma one_restart_run: "one_restart (ls_run skip initial_lifecycle evs)"
proof (induction evs rule: rev_induct)
  case Nil
  show ?case by (simp add: one_restart_def pending_restarts_def initial_lifecycle_def)
qed (simp add: one_restart_step)

section \<open>The attempts of an activation\<close>

definition posts :: "nat \<Rightarrow> ls_call list \<Rightarrow> nat" where
  "posts t cs = length (filter (\<lambda>c. case c of PreparePost u w p \<Rightarrow> u = t | _ \<Rightarrow> False) cs)"

lemma posts_simps [simp]:
  "posts t [] = 0" "posts t (cs @ ds) = posts t cs + posts t ds"
  "posts t (c # cs) = (case c of PreparePost u w p \<Rightarrow> if u = t then 1 else 0 | _ \<Rightarrow> 0) + posts t cs"
  by (simp_all add: posts_def split: ls_call.split)

definition attempts_ok :: "nat \<Rightarrow> nat \<Rightarrow> nat \<Rightarrow> activation \<Rightarrow> bool" where
  "attempts_ok token n t a \<longleftrightarrow> t \<le> token \<and> av_attempt a \<le> MAX_RETRIES
     \<and> n \<le> av_attempt a + (if av_phase a = InDelay then 0 else 1)"

definition post_ok :: "nat \<Rightarrow> nat \<Rightarrow> nat \<Rightarrow> activation option \<Rightarrow> bool" where
  "post_ok token n t act \<longleftrightarrow> n \<le> Suc MAX_RETRIES \<and> (token < t \<longrightarrow> n = 0)
     \<and> (case act of None \<Rightarrow> True | Some a \<Rightarrow> attempts_ok token n t a)"

definition posts_bounded :: "lifecycle \<Rightarrow> bool" where
  "posts_bounded st \<longleftrightarrow>
    (\<forall>t. post_ok (lc_activationToken st) (posts t (lc_calls st)) t (jm_get (lc_activations st) t))"

lemma post_ok_later: "post_ok token n t act \<Longrightarrow> token \<le> token' \<Longrightarrow> act' = None \<or> act' = act \<Longrightarrow> post_ok token' n t act'"
  by (auto simp: post_ok_def attempts_ok_def split: option.splits)

lemma posts_boundedD:
  "posts_bounded st \<Longrightarrow> post_ok (lc_activationToken st) (posts t (lc_calls st)) t (jm_get (lc_activations st) t)"
  by (simp add: posts_bounded_def)

text \<open>Parts that send no request of an activation and let none go on.\<close>

definition calm :: "lifecycle \<Rightarrow> lifecycle \<Rightarrow> bool" where
  "calm st st' \<longleftrightarrow>
     lc_activationToken st \<le> lc_activationToken st' \<and> (\<forall>t. posts t (lc_calls st') = posts t (lc_calls st))
     \<and> (\<forall>t. jm_get (lc_activations st') t \<in> {None, jm_get (lc_activations st) t})"

lemma calm_trans:
  assumes "calm a b" and "calm b c"
  shows "calm a c"
proof -
  have "jm_get (lc_activations c) t \<in> {None, jm_get (lc_activations a) t}" for t
  proof -
    have "jm_get (lc_activations c) t \<in> {None, jm_get (lc_activations b) t}"
      "jm_get (lc_activations b) t \<in> {None, jm_get (lc_activations a) t}"
      using assms unfolding calm_def by blast+
    then show ?thesis by auto
  qed
  then show ?thesis using assms by (simp add: calm_def)
qed

lemma posts_calm:
  assumes "posts_bounded st" and "calm st st'"
  shows "posts_bounded st'"
  unfolding posts_bounded_def
proof
  fix t
  have "lc_activationToken st \<le> lc_activationToken st'" "posts t (lc_calls st') = posts t (lc_calls st)"
    "jm_get (lc_activations st') t \<in> {None, jm_get (lc_activations st) t}"
    using assms(2) unfolding calm_def by blast+
  then show "post_ok (lc_activationToken st') (posts t (lc_calls st')) t (jm_get (lc_activations st') t)"
    using post_ok_later [OF posts_boundedD [OF assms(1), of t]] by simp
qed

text \<open>One activation changes, with at most one request.\<close>

lemma posts_change:
  assumes "posts_bounded st" and "lc_activationToken st' = lc_activationToken st"
    and "\<And>u. u \<noteq> t \<Longrightarrow> posts u (lc_calls st') = posts u (lc_calls st)"
    and "lc_activations st' = jm_set t a' (lc_activations st)"
    and "post_ok (lc_activationToken st) (posts t (lc_calls st')) t (Some a')"
  shows "posts_bounded st'"
  unfolding posts_bounded_def
proof
  fix u
  show "post_ok (lc_activationToken st') (posts u (lc_calls st')) u (jm_get (lc_activations st') u)"
    using posts_boundedD [OF assms(1), of u] assms(2-5) by (cases "u = t") simp_all
qed

lemma calm_refl [simp]: "calm st st"
  by (simp add: calm_def)

lemma calm_log: "calm st (log_failure st)"
  by (simp add: calm_def log_failure_def emit_def)

lemma calm_fatal: "calm st (markFatalFailure st)"
  by (simp add: calm_def markFatalFailure_def log_failure_def clearRestartTimer_def emit_def)

lemma calm_schedule: "calm st (scheduleRestart st)"
  using calm_fatal
  by (auto simp: scheduleRestart_def Let_def split: option.split)
     (auto simp: calm_def log_failure_def emit_def)

lemma calm_ends: "calm st (activation_ends t st)"
  by (simp add: calm_def activation_ends_def)

lemma calm_settled: "calm st (restart_settled p t st)"
  by (simp add: calm_def restart_settled_def Let_def emit_def)

lemma calm_deactivate: "calm st (deactivate st)"
  by (simp add: calm_def deactivate_def Let_def clearRestartTimer_def emit_def)

lemma calm_dispose: "calm st (dispose_lifecycle st)"
  by (simp add: calm_def dispose_lifecycle_def clearRestartTimer_def emit_def)

lemma calm_timer: "calm st (restart_timer_fires st)"
  by (simp add: calm_def restart_timer_fires_def startLanguageClient_def Let_def split: option.split)

lemma calm_check: "calm st (check_answered a st)"
proof -
  have "calm st (st\<lparr> lc_checks := n \<rparr>)" for n by (simp add: calm_def)
  then show ?thesis using calm_trans [OF _ calm_schedule]
    by (auto simp: check_answered_def Let_def split: sum.split)
qed

lemma posts_failed:
  assumes "posts_bounded st" and "jm_get (lc_activations st) t = Some a"
  shows "posts_bounded (attempt_failed t a msg st)"
proof -
  have "calm st (activation_ends t (st\<lparr> lc_restartExhausted := True \<rparr>))"
    by (rule calm_trans [OF _ calm_ends]) (simp add: calm_def)
  moreover have "posts_bounded ((clearRestartTimer st)\<lparr> lc_activations := jm_set t
      (a\<lparr> av_attempt := Suc (av_attempt a), av_forced := f, av_phase := InDelay \<rparr>) (lc_activations st) \<rparr>)"
    if "av_attempt a < MAX_RETRIES" for f
  proof (rule posts_change [OF assms(1), of _ t])
    have "post_ok (lc_activationToken st) (posts t (lc_calls st)) t (Some a)"
      using posts_boundedD [OF assms(1), of t] assms(2) by simp
    then show "post_ok (lc_activationToken st) (posts t (lc_calls ((clearRestartTimer st)\<lparr> lc_activations := jm_set t
        (a\<lparr> av_attempt := Suc (av_attempt a), av_forced := f, av_phase := InDelay \<rparr>) (lc_activations st) \<rparr>))) t
        (Some (a\<lparr> av_attempt := Suc (av_attempt a), av_forced := f, av_phase := InDelay \<rparr>))"
      using that by (simp add: post_ok_def attempts_ok_def clearRestartTimer_def split: if_splits)
  qed (simp_all add: clearRestartTimer_def)
  ultimately show ?thesis using posts_calm [OF assms(1)] calm_ends
    by (simp add: attempt_failed_def Let_def)
qed

lemma posts_transition_ends: "posts_bounded st \<Longrightarrow> posts_bounded (transition_ends failure st)"
proof (cases "lc_transitions st")
  case (Cons tn rest)
  assume p: "posts_bounded st"
  have "posts_bounded (st\<lparr> lc_transitions := rest \<rparr>)" by (rule posts_calm [OF p]) (simp add: calm_def)
  with Cons show ?thesis
    by (auto simp: transition_ends_def Let_def intro: posts_calm calm_settled calm_ends posts_failed split: option.split)
qed (simp add: transition_ends_def)

lemma posts_start_error: "posts_bounded st \<Longrightarrow> posts_bounded (start_error msg st)"
  by (auto simp: start_error_def intro!: posts_transition_ends intro: posts_calm calm_fatal calm_schedule)

lemma posts_phase:
  assumes "posts_bounded st" and "jm_get (lc_activations st) t = Some a" and "ph \<noteq> InDelay" and "av_phase a \<noteq> InDelay"
  shows "posts_bounded (st\<lparr> lc_activations := jm_set t (a\<lparr> av_phase := ph \<rparr>) (lc_activations st) \<rparr>)"
proof (rule posts_change [OF assms(1), of _ t])
  show "post_ok (lc_activationToken st) (posts t (lc_calls (st\<lparr> lc_activations := jm_set t (a\<lparr> av_phase := ph \<rparr>)
      (lc_activations st) \<rparr>))) t (Some (a\<lparr> av_phase := ph \<rparr>))"
    using posts_boundedD [OF assms(1), of t] assms(2-4) by (simp add: post_ok_def attempts_ok_def)
qed simp_all

lemma posts_prepare:
  assumes "posts_bounded st" and "jm_get (lc_activations st) t = Some a" and "av_phase a = InDelay"
  shows "posts_bounded (emit (PreparePost t w p)
    (st\<lparr> lc_activations := jm_set t (a\<lparr> av_phase := InPrepare w \<rparr>) (lc_activations st) \<rparr>))"
proof (rule posts_change [OF assms(1), of _ t])
  show "post_ok (lc_activationToken st) (posts t (lc_calls (emit (PreparePost t w p)
      (st\<lparr> lc_activations := jm_set t (a\<lparr> av_phase := InPrepare w \<rparr>) (lc_activations st) \<rparr>)))) t
      (Some (a\<lparr> av_phase := InPrepare w \<rparr>))"
    using posts_boundedD [OF assms(1), of t] assms(2,3) by (simp add: post_ok_def attempts_ok_def emit_def)
qed (simp_all add: emit_def)

lemma posts_get: "posts_bounded st \<Longrightarrow> posts_bounded (emit (DescriptorGet t w p) st)"
  by (simp add: posts_bounded_def emit_def)

lemma posts_fields:
  "posts_bounded st \<Longrightarrow> lc_activationToken st' = lc_activationToken st \<Longrightarrow> lc_calls st' = lc_calls st \<Longrightarrow>
     lc_activations st' = lc_activations st \<Longrightarrow> posts_bounded st'"
  by (simp add: posts_bounded_def)

lemma posts_activate:
  assumes p: "posts_bounded st"
  shows "posts_bounded (activate skip p st)"
proof -
  define st1 where "st1 = st\<lparr> lc_activationToken := Suc (lc_activationToken st) \<rparr>"
  have b: "posts_bounded st1" by (rule posts_calm [OF p]) (simp add: calm_def st1_def)
  have n: "posts (Suc (lc_activationToken st)) (lc_calls st) = 0"
    using posts_boundedD [OF p, of "Suc (lc_activationToken st)"] by (simp add: post_ok_def)
  have c: "post_ok (Suc (lc_activationToken st)) 0 (Suc (lc_activationToken st))
      (Some \<lparr> av_project = p, av_attempt = 0, av_forced = f, av_phase = InDelay \<rparr>)" for f
    by (simp add: post_ok_def attempts_ok_def)
  show ?thesis
    using b p
    by (simp add: activate_def onProjectChanged_def clearRestartTimer_def Let_def posts_bounded_def st1_def n c)
qed

lemma calm_client: "calm st (start_client tn st)"
  by (simp add: calm_def start_client_def set_phase_def emit_def split: option.split sum.split list.split)

lemma calm_fetch: "calm st (emit FetchState (set_phase ph st))" "calm st (emit StopCall (set_phase ph st))"
  by (simp_all add: calm_def set_phase_def emit_def split: list.split)

lemma posts_step: "posts_bounded st \<Longrightarrow> posts_bounded (ls_step skip st e)"
proof -
  assume p: "posts_bounded st"
  note calm = posts_calm [OF p]
  have k: "posts_bounded (transition_ends None (st\<lparr> lc_lastStartKey := x \<rparr>))" for x
    by (rule posts_transition_ends, rule calm) (simp add: calm_def)
  note parts = p k posts_transition_ends [OF p] posts_start_error [OF p] calm [OF calm_client] calm [OF calm_fetch(1)]
    calm [OF calm_fetch(2)] posts_transition_ends [OF calm [OF calm_fatal]] posts_transition_ends [OF calm [OF calm_schedule]]
  show ?thesis
  proof (cases e)
    case (DelayElapsed t ctx)
    then show ?thesis using p
      by (auto simp: delay_elapsed_def Let_def intro: calm calm_ends posts_failed posts_prepare split: option.split sum.split)
  next
    case (PrepareAnswered t f)
    show ?thesis
    proof (cases "jm_get (lc_activations st) t")
      case (Some a)
      then show ?thesis using p PrepareAnswered posts_failed [OF p Some] calm [OF calm_ends]
        by (auto simp: prepare_answered_def intro!: posts_get posts_phase split: option.split activation_phase.split)
    qed (use p PrepareAnswered in \<open>simp add: prepare_answered_def\<close>)
  next
    case (DescriptorAnswered t a)
    show ?thesis
    proof (cases "jm_get (lc_activations st) t")
      case (Some b)
      have "posts_bounded (startLanguageClient d q t False (st\<lparr> lc_launchDescriptor := x,
          lc_activations := jm_set t (b\<lparr> av_phase := InTransition \<rparr>) (lc_activations st) \<rparr>))"
        if "av_phase b = InDescriptor" for d q x
        by (rule posts_fields [OF posts_phase [OF p Some, of InTransition]]) (simp_all add: startLanguageClient_def that)
      then show ?thesis using p DescriptorAnswered posts_failed [OF p Some] calm [OF calm_ends] Some
        by (simp add: descriptor_answered_def split: sum.split)
    qed (use p DescriptorAnswered in \<open>simp add: descriptor_answered_def\<close>)
  next
    case (ClientLog l)
    then show ?thesis using p calm [of "st\<lparr> lc_lastExitCode := x \<rparr>" for x] by (simp add: posts_bounded_def)
  next
    case DeactivateSettled
    then show ?thesis using p by (simp add: posts_bounded_def)
  qed (auto simp: onClientState_def transition_begins_def state_fetched_def stop_answered_def start_answered_def in_phase_def
      parts intro: calm calm_fatal calm_schedule calm_timer calm_check calm_deactivate calm_dispose posts_activate p
      split: option.split sum.split list.split)
qed

lemma posts_run: "posts_bounded (ls_run skip initial_lifecycle evs)"
proof (induction evs rule: rev_induct)
  case Nil
  show ?case by (simp add: posts_bounded_def post_ok_def initial_lifecycle_def)
qed (simp add: posts_step)

end
