(* ===== verification/ServerProperties.thy ===== *)
theory ServerProperties
  imports LanguageServerFacts
begin

text \<open>
  The properties of the life cycle of the Java language server and of the URIs of paths.
\<close>

section \<open>Sample events\<close>

definition sample_project :: "string \<Rightarrow> java_project" where
  "sample_project i = \<lparr> jp_workspaceId = ''ws_1'', jp_projectId = i \<rparr>"

definition sample_descriptor :: "string \<Rightarrow> launch_descriptor" where
  "sample_descriptor dir =
    \<lparr> ld_command = [], ld_args = [], ld_workingDir = units dir, ld_envAllowlist = [''JDTLS_WORKSPACE=/data''] \<rparr>"

text \<open>A project is opened and its server started.\<close>

definition open_project :: "ls_event list" where
  "open_project =
    [ProjectChanged (Some (sample_project ''a'')), DelayElapsed 1 (Inr ''ws_1''), PrepareAnswered 1 None,
     DescriptorAnswered 1 (Inr (sample_descriptor ''/a'')), TransitionBegins, StateFetched (Inr Uninitialized),
     StartAnswered (Inr None)]"

definition crash_and_restart :: "ls_event list" where
  "crash_and_restart =
    [ClientState Crashed, RestartTimer, TransitionBegins, StateFetched (Inr Crashed), StartAnswered (Inr None), CheckAnswered (Inr Ready)]"

section \<open>Restarts\<close>

text \<open>
  C19. As long as the same project is open, whatever the server, the agent and the clock do, the restarts that the
  service schedules continue the list of 1, 2 and 4 seconds where it stands: there are never more than three of them,
  and only another project begins the list anew.
\<close>

theorem restart_budget:
  assumes "st = ls_run skip initial_lifecycle past"
    and "\<forall>k \<le> length evs. lc_desiredProject (ls_run skip st (take k evs)) = Some p"
  shows "lc_restartAttempts (ls_run skip st evs) \<le> 3
    \<and> restart_delays (lc_calls (ls_run skip st evs)) =
        restart_delays (lc_calls st) @ drop (lc_restartAttempts st) (take (lc_restartAttempts (ls_run skip st evs)) [1000, 2000, 4000])"
  using run_budget [of st evs skip p] attempts_run [of skip past] assms
  by (simp add: within_budget_def restart_steps_def)

lemma restart_budget_witness:
  "restart_delays (lc_calls (ls_run False initial_lifecycle (open_project @ crash_and_restart @ [ClientState Crashed]))) = [1000, 2000]"
proof -
  let ?evs = "crash_and_restart @ [ClientState Crashed]"
  let ?st = "ls_run False initial_lifecycle open_project"
  have "list_all (\<lambda>k. lc_desiredProject (ls_run False ?st (take k ?evs)) = Some (sample_project ''a'')) [0..<Suc (length ?evs)]"
    by code_simp
  then have p: "\<forall>k \<le> length ?evs. lc_desiredProject (ls_run False ?st (take k ?evs)) = Some (sample_project ''a'')"
    unfolding list_all_iff by (simp del: upt_Suc)
  have a: "lc_restartAttempts (ls_run False ?st ?evs) = 2 \<and> lc_restartAttempts ?st = 0 \<and> restart_delays (lc_calls ?st) = []"
    by code_simp
  show ?thesis using restart_budget [OF refl p] a by simp
qed

text \<open>
  C20. In every run at most one restart is under way: it waits for its timer, or its transition is queued or
  runs; and the flag for a restart in flight is set exactly while its transition is there, so it never stays set.
\<close>

theorem one_restart_pending:
  "pending_restarts (ls_run skip initial_lifecycle evs) \<le> 1
   \<and> (lc_restartInFlight (ls_run skip initial_lifecycle evs) \<longleftrightarrow>
        (\<exists>tn \<in> set (lc_transitions (ls_run skip initial_lifecycle evs)). tn_restart tn))"
  using one_restart_run [of skip evs] by (simp add: one_restart_def)

section \<open>Starts\<close>

text \<open>
  C12. After a project or its workspace was closed, until another one is activated, and for ever
  after the service was disposed, the continuations that are still pending prepare, ask for, restart and start nothing: all that the
  service still calls is the stop of the server.
\<close>

theorem nothing_starts_without_project:
  assumes "st = ls_run skip initial_lifecycle past"
    and "lc_disposed st \<or> lc_desiredProject st = None \<and> (\<forall>e \<in> set evs. \<not> starts_project e)"
  shows "\<exists>cs. lc_calls (ls_run skip st evs) = lc_calls st @ cs \<and> set cs \<subseteq> {StopCall, ErrorLogged}"
proof -
  have "lc_desiredProject st = None" using disposed_no_project [of skip past, folded assms(1)] assms(2) by blast
  moreover have "(\<forall>e \<in> set evs. \<not> starts_project e) \<or> lc_disposed st" using assms(2) by blast
  ultimately show ?thesis using quiet_run [of st evs skip] unfolding harmless_def by blast
qed

lemma nothing_starts_without_project_witness:
  "\<exists>cs. lc_calls (ls_run False (ls_run False initial_lifecycle (take 3 open_project @ [DisposeService])) (drop 3 open_project @ open_project))
     = lc_calls (ls_run False initial_lifecycle (take 3 open_project @ [DisposeService])) @ cs \<and> set cs \<subseteq> {StopCall, ErrorLogged}"
proof (rule nothing_starts_without_project [OF refl])
  show "lc_disposed (ls_run False initial_lifecycle (take 3 open_project @ [DisposeService]))
    \<or> lc_desiredProject (ls_run False initial_lifecycle (take 3 open_project @ [DisposeService])) = None
      \<and> (\<forall>e \<in> set (drop 3 open_project @ open_project). \<not> starts_project e)"
    by (rule disjI1) code_simp
qed

text \<open>
  The loop of an activation asks the agent to prepare the server at most thirteen times, whatever the
  agent answers and whatever else happens meanwhile.
\<close>

theorem prepare_at_most_thirteen: "posts t (lc_calls (ls_run skip initial_lifecycle evs)) \<le> 13"
  using posts_boundedD [OF posts_run [of skip evs], of t] by (simp add: post_ok_def MAX_RETRIES_def)

text \<open>
  C34. Let the server of the open project crash or fail in any state that a run reaches, the descriptor of the
  launch being there, while no timer, no restart and no exhausted budget stands in the way. If the exit code was 13 or three
  restarts were made, the service gives up: it is exhausted, calls nothing and sets no timer, and logs the error if it has not.
  Otherwise it sets a timer of one, two or four seconds for the current activation. Whenever the timer fires, whatever has
  happened before as long as it is still pending, the restart joins the end of the chain of transitions. Whenever that
  transition is the first of the chain and its activation is still current, it asks for the state, and unless a
  server is starting, initializing or ready by then, it starts the server with the parameters of the descriptor.
\<close>

theorem crash_is_answered:
  assumes "st = ls_run skip initial_lifecycle past" and "s = Crashed \<or> s = Failed"
    and "lc_desiredProject st = Some p" and "lc_launchDescriptor st = Some d"
    and "lc_restartTimer st = None" and "\<not> lc_restartInFlight st" and "\<not> lc_restartExhausted st"
    and "st1 = ls_step skip st (ClientState s)" and "t = lc_activationToken st"
  shows "if lc_lastExitCode st = Some 13 \<or> 3 \<le> lc_restartAttempts st
    then lc_restartExhausted st1 \<and> lc_restartTimer st1 = None \<and> lc_transitions st1 = lc_transitions st
      \<and> lc_calls st1 = lc_calls st @ (if lc_fatalFailureLogged st then [] else [ErrorLogged])
    else lc_restartTimer st1 = Some (p, d, t) \<and> lc_restartAttempts st1 = Suc (lc_restartAttempts st)
      \<and> lc_calls st1 = lc_calls st @ [RestartIn (1000 * 2 ^ lc_restartAttempts st)]
      \<and> (\<forall>evs. lc_restartTimer (ls_run skip st1 evs) = Some (p, d, t) \<longrightarrow>
          lc_transitions (ls_run skip st1 (evs @ [RestartTimer])) = lc_transitions (ls_run skip st1 evs) @ [restart_transition p d t])
      \<and> (\<forall>evs rest sp s'. lc_transitions (ls_run skip st1 evs) = restart_transition p d t # rest
            \<and> isCurrentActivation p t (ls_run skip st1 evs) \<and> start_of d = Some (Inr sp)
            \<and> s' \<notin> {Starting, Initializing, Ready} \<longrightarrow>
          lc_calls (ls_run skip st1 (evs @ [TransitionBegins, StateFetched (Inr s')])) =
            lc_calls (ls_run skip st1 evs) @ [FetchState, StartCall t sp])"
proof -
  have nd: "\<not> lc_disposed st" using disposed_no_project [of skip past] assms(1,3) by auto
  note c = crash_schedules [OF assms(3,4) nd assms(5-7,2), of skip, folded assms(8,9)]
  have r: "ls_run skip st1 evs = ls_run skip initial_lifecycle (past @ [ClientState s] @ evs)" for evs
    by (simp add: assms(1,8))
  have q: "lc_transitions (ls_run skip st1 (evs @ [RestartTimer])) = lc_transitions (ls_run skip st1 evs) @ [restart_transition p d t]"
    if "lc_restartTimer (ls_run skip st1 evs) = Some (p, d, t)" for evs
    using timer_queues_restart [OF timer_current_run that [unfolded r], of skip] by (simp add: r)
  have s: "lc_calls (ls_run skip st1 (evs @ [TransitionBegins, StateFetched (Inr s')])) =
      lc_calls (ls_run skip st1 evs) @ [FetchState, StartCall t sp]"
    if "lc_transitions (ls_run skip st1 evs) = restart_transition p d t # rest" "isCurrentActivation p t (ls_run skip st1 evs)"
      "start_of d = Some (Inr sp)" "s' \<notin> {Starting, Initializing, Ready}" for evs rest sp s'
    using restart_starts [OF that, of skip] by (simp del: foldl_Cons)
  show ?thesis
  proof (cases "lc_lastExitCode st = Some 13 \<or> 3 \<le> lc_restartAttempts st")
    case True
    then show ?thesis using c(1) by (simp only: if_True)
  next
    case False
    then have f: "lc_lastExitCode st \<noteq> Some 13" "lc_restartAttempts st < 3" by auto
    show ?thesis using c(2) [OF f] q s unfolding if_not_P [OF False] by blast
  qed
qed

lemma crash_is_answered_witness:
  "\<exists>sp. lc_calls (ls_run False (ls_run False initial_lifecycle open_project)
      [ClientState Crashed, RestartTimer, TransitionBegins, StateFetched (Inr Crashed)]) =
    lc_calls (ls_run False initial_lifecycle open_project) @ [RestartIn 1000, FetchState, StartCall 1 sp]"
proof -
  let ?st = "ls_run False initial_lifecycle open_project"
  let ?st1 = "ls_step False ?st (ClientState Crashed)"
  have h: "lc_desiredProject ?st = Some (sample_project ''a'')" "lc_launchDescriptor ?st = Some (sample_descriptor ''/a'')"
    "lc_restartTimer ?st = None" "\<not> lc_restartInFlight ?st" "\<not> lc_restartExhausted ?st"
    "lc_restartAttempts ?st = 0" "lc_lastExitCode ?st = None" "lc_activationToken ?st = 1"
    by code_simp+
  have h1: "isCurrentActivation (sample_project ''a'') 1 (ls_run False ?st1 [RestartTimer])"
    "lc_transitions (ls_run False ?st1 [RestartTimer]) = [restart_transition (sample_project ''a'') (sample_descriptor ''/a'') 1]"
    "lc_calls (ls_run False ?st1 [RestartTimer]) = lc_calls ?st1"
    by code_simp+
  have "case start_of (sample_descriptor ''/a'') of Some (Inr sp) \<Rightarrow> True | _ \<Rightarrow> False" by code_simp
  then obtain sp where s: "start_of (sample_descriptor ''/a'') = Some (Inr sp)" by (auto split: option.splits sum.splits)
  have n: "\<not> (lc_lastExitCode ?st = Some 13 \<or> 3 \<le> lc_restartAttempts ?st)" using h(6,7) by simp
  have cr: "Crashed = Crashed \<or> Crashed = Failed" by (rule disjI1) (rule refl)
  note w = crash_is_answered [OF refl cr h(1-5) refl refl, unfolded if_not_P [OF n], unfolded h(6,8)]
  have a: "lc_calls ?st1 = lc_calls ?st @ [RestartIn 1000]"
    using conjunct1 [OF conjunct2 [OF conjunct2 [OF w]]] by (simp only: power_0 mult_1_right)
  have b: "lc_calls (ls_run False ?st1 ([RestartTimer] @ [TransitionBegins, StateFetched (Inr Crashed)])) =
      lc_calls (ls_run False ?st1 [RestartTimer]) @ [FetchState, StartCall 1 sp]"
    by (rule conjunct2 [OF conjunct2 [OF conjunct2 [OF conjunct2 [OF w]]], rule_format, of "[RestartTimer]" "[]" sp Crashed])
      (intro conjI h1(1,2) s, simp)
  show ?thesis using a b h1(3) by (intro exI [of _ sp]) simp
qed

text \<open>
  The launch descriptor of the old project stays when another project is activated. A crash of the old
  server before the new descriptor has come schedules a restart under the new project, which starts a server on the directory of the
  old one.
\<close>

theorem restart_of_old_project:
  "let st = ls_run False initial_lifecycle (open_project @
      [ProjectChanged (Some (sample_project ''b'')), DelayElapsed 2 (Inr ''ws_1''), ClientState Crashed, RestartTimer,
       TransitionBegins, StateFetched (Inr Crashed)])
   in lc_desiredProject st = Some (sample_project ''b'')
      \<and> map_option (map_sum id sp_rootUri) (start_of (sample_descriptor ''/a'')) = Some (Inr (units ''file:///a''))
      \<and> (case last (lc_calls st) of StartCall t sp \<Rightarrow> t = lc_activationToken st \<and> sp_rootUri sp = units ''file:///a'' | _ \<Rightarrow> False)"
  by code_simp

section \<open>URIs\<close>

text \<open>
  C29. The URI of a path consists of letters, digits, unreserved marks, slashes, colons and percent codes, and reading
  what follows \<open>file://\<close> gives the absolute path back (backslashes as slashes, one slash at its beginning; of a
  share its host and what follows), with one exception: the root of a drive, as \<open>C:\\<close>, and a host with one
  slash after it and nothing else come back without that last slash, which the code drops although it changes
  what the path means. A path with half a surrogate pair has no URI, and the call throws.
\<close>

theorem file_uri_names_path:
  "if well_formed p
   then \<exists>v q. pathToFileUri p = Some (units ''file://'' @ v) \<and> list_all uri_unit v \<and> decodeURIComponent v = Some q
          \<and> absolute_path p = (if loses_slash p then q @ [SLASH] else q)
   else pathToFileUri p = None"
  by (cases "well_formed p") (simp_all only: if_True if_False file_uri_decodes file_uri_throws not_False_eq_True)

end
