(* ===== verification/RuntimeSecurity.thy ===== *)
theory RuntimeSecurity
  imports FileUris
begin

text \<open>
  \<open>runtime-extension/src/browser/runtime-security.ts\<close>: which URL may get the secret of the agent, and which workspace is
  trusted. \<open>parse\<close> is the constructor \<open>URL\<close> of the platform: host name, port and protocol of a text, or nothing if it throws;
  \<open>origin\<close> is the host of the page, if there is one; \<open>lower_case\<close> is \<open>toLowerCase\<close> on texts. Listeners are numbers, and
  the calls that they get are recorded. The redaction of logs is not modelled.
\<close>

type_synonym utext = "code_unit list"

record parsed_url =
  pu_hostname :: string
  pu_port :: string
  pu_protocol :: string

section \<open>Endpoints\<close>

definition DEFAULT_ALLOWED_HOSTS :: "string list" where
  "DEFAULT_ALLOWED_HOSTS = [''127.0.0.1'', ''localhost'', ''::1'', ''[::1]'']"

text \<open>Host names are ASCII.\<close>

definition normalizeHost :: "string \<Rightarrow> string" where
  "normalizeHost h =
    (let l = map lower h
     in if take 1 l = ''['' \<and> l \<noteq> [] \<and> last l = CHR '']'' then butlast (tl l) else l)"

definition port_value :: "string \<Rightarrow> nat" where
  "port_value s = foldl (\<lambda>n c. n * 10 + (of_char c - 48)) 0 s"

definition url_port :: "parsed_url \<Rightarrow> nat" where
  "url_port u = (if pu_port u \<noteq> [] then port_value (pu_port u) else if pu_protocol u = ''https:'' then 443 else 80)"

record url_check =
  uc_allowed :: bool
  uc_host :: "string option"
  uc_port :: "nat option"

definition white_unit :: "code_unit \<Rightarrow> bool" where
  "white_unit u \<longleftrightarrow> 9 \<le> u \<and> u \<le> 13 \<or> u = 32 \<or> u = 0xA0 \<or> u = 0x1680 \<or> 0x2000 \<le> u \<and> u \<le> 0x200A
    \<or> u = 0x2028 \<or> u = 0x2029 \<or> u = 0x202F \<or> u = 0x205F \<or> u = 0x3000 \<or> u = 0xFEFF"

definition trim_text :: "utext \<Rightarrow> utext" where
  "trim_text s = rev (dropWhile white_unit (rev (dropWhile white_unit s)))"

definition allowed_hosts :: "string option \<Rightarrow> string list option \<Rightarrow> string list" where
  "allowed_hosts origin custom =
    map normalizeHost (DEFAULT_ALLOWED_HOSTS
      @ (case origin of Some h \<Rightarrow> if h \<noteq> [] then [h] else [] | None \<Rightarrow> [])
      @ (case custom of Some hs \<Rightarrow> hs | None \<Rightarrow> []))"

definition isAllowedAgentUrl :: "(utext \<Rightarrow> parsed_url option) \<Rightarrow> string option \<Rightarrow> string list option \<Rightarrow> utext \<Rightarrow> url_check" where
  "isAllowedAgentUrl parse origin custom urlStr =
    (if trim_text urlStr = [] then \<lparr> uc_allowed = False, uc_host = None, uc_port = None \<rparr>
     else case parse urlStr of
         None \<Rightarrow> \<lparr> uc_allowed = False, uc_host = None, uc_port = None \<rparr>
       | Some u \<Rightarrow>
           let host = normalizeHost (pu_hostname u) in
           \<lparr> uc_allowed = (host \<in> set (allowed_hosts origin custom)), uc_host = Some host, uc_port = Some (url_port u) \<rparr>)"

definition sanitizeAgentUrl :: "(utext \<Rightarrow> parsed_url option) \<Rightarrow> string option \<Rightarrow> utext \<Rightarrow> utext \<Rightarrow> utext" where
  "sanitizeAgentUrl parse origin urlStr fallbackUrl =
    (if uc_allowed (isAllowedAgentUrl parse origin None urlStr) then trim_text urlStr else fallbackUrl)"

section \<open>\<open>decodeURI\<close>\<close>

text \<open>Like \<open>decodeURIComponent\<close>, but a code of a reserved mark stays as it is written.\<close>

definition uri_reserved :: "nat \<Rightarrow> bool" where
  "uri_reserved x \<longleftrightarrow> word_of_nat x \<in> set (units '';/?:@&=+$,#'')"

function decodeURI :: "utext \<Rightarrow> utext option" where
  "decodeURI [] = Some []"
| "decodeURI (u # us) =
     (if u \<noteq> PERCENT then map_option (Cons u) (decodeURI us)
      else case percent_tokens (u # take 2 us) of
          Some [Inr x] \<Rightarrow>
            if x < 0x80
            then map_option (append (if uri_reserved x then u # take 2 us else [word_of_nat x])) (decodeURI (drop 2 us))
            else
              (case percent_tokens (take (3 * (utf8_count x - 1)) (drop 2 us)) of
                 Some ts \<Rightarrow>
                   (if length ts = utf8_count x - 1
                    then case read_point x ts of
                        Some cp \<Rightarrow> map_option (append (point_units cp)) (decodeURI (drop (2 + 3 * (utf8_count x - 1)) us))
                      | None \<Rightarrow> None
                    else None)
               | None \<Rightarrow> None)
        | _ \<Rightarrow> None)"
  by pat_completeness auto
termination
  by (relation "measure length") auto

section \<open>Trust in workspaces\<close>

datatype trust_state = Trusted | Untrusted | Unknown

datatype trusted_operation = BuildScript | ServerAutostart | CustomToolchain | RemoteAttach | DatabaseWrite

record trust_manager =
  tm_trustStates :: "(utext, trust_state) jsmap"
  tm_listeners :: "nat list"
  tm_notified :: "(nat \<times> utext \<times> trust_state) list"

definition new_trust_manager :: trust_manager where
  "new_trust_manager = \<lparr> tm_trustStates = [], tm_listeners = [], tm_notified = [] \<rparr>"

definition letter_unit :: "code_unit \<Rightarrow> bool" where
  "letter_unit u \<longleftrightarrow> 0x41 \<le> u \<and> u \<le> 0x5A \<or> 0x61 \<le> u \<and> u \<le> 0x7A"

text \<open>\<open>/^(file:\/\/\/)?[a-zA-Z]:[\\/]/i\<close>.\<close>

definition drive_start :: "utext \<Rightarrow> bool" where
  "drive_start s \<longleftrightarrow>
    (case s of l # c # b # _ \<Rightarrow> letter_unit l \<and> c = unit_of (CHR '':'') \<and> (b = BS \<or> b = SLASH) | _ \<Rightarrow> False)"

definition ascii_lower :: "code_unit \<Rightarrow> code_unit" where
  "ascii_lower u = (if 0x41 \<le> u \<and> u \<le> 0x5A then u + 32 else u)"

definition windows_path :: "utext \<Rightarrow> bool" where
  "windows_path s \<longleftrightarrow> drive_start s \<or> map ascii_lower (take 8 s) = units ''file:///'' \<and> drive_start (drop 8 s)"

definition normalizeUri :: "(utext \<Rightarrow> utext) \<Rightarrow> utext \<Rightarrow> utext" where
  "normalizeUri lower_case uri =
    (let decoded = (case decodeURI uri of Some d \<Rightarrow> d | None \<Rightarrow> uri);
         clean = rev (dropWhile (\<lambda>u. u = SLASH) (rev decoded))
     in if windows_path clean then lower_case clean else clean)"

definition getTrustState :: "(utext \<Rightarrow> utext) \<Rightarrow> utext \<Rightarrow> trust_manager \<Rightarrow> trust_state" where
  "getTrustState lc uri m = (case jm_get (tm_trustStates m) (normalizeUri lc uri) of Some s \<Rightarrow> s | None \<Rightarrow> Untrusted)"

definition isWorkspaceTrusted :: "(utext \<Rightarrow> utext) \<Rightarrow> utext \<Rightarrow> trust_manager \<Rightarrow> bool" where
  "isWorkspaceTrusted lc uri m \<longleftrightarrow> getTrustState lc uri m = Trusted"

definition fireChange :: "utext \<Rightarrow> trust_state \<Rightarrow> trust_manager \<Rightarrow> trust_manager" where
  "fireChange uri s m = m\<lparr> tm_notified := tm_notified m @ map (\<lambda>l. (l, uri, s)) (tm_listeners m) \<rparr>"

definition set_trust :: "(utext \<Rightarrow> utext) \<Rightarrow> utext \<Rightarrow> trust_state \<Rightarrow> trust_manager \<Rightarrow> trust_manager" where
  "set_trust lc uri s m =
    (let n = normalizeUri lc uri in fireChange n s (m\<lparr> tm_trustStates := jm_set n s (tm_trustStates m) \<rparr>))"

definition grantTrust :: "(utext \<Rightarrow> utext) \<Rightarrow> utext \<Rightarrow> trust_manager \<Rightarrow> trust_manager" where
  "grantTrust lc uri m = set_trust lc uri Trusted m"

definition revokeTrust :: "(utext \<Rightarrow> utext) \<Rightarrow> utext \<Rightarrow> trust_manager \<Rightarrow> trust_manager" where
  "revokeTrust lc uri m = set_trust lc uri Untrusted m"

text \<open>\<open>Inl\<close> is \<open>WorkspaceUntrustedError\<close>.\<close>

definition assertOperationAllowed :: "(utext \<Rightarrow> utext) \<Rightarrow> utext \<Rightarrow> trusted_operation \<Rightarrow> trust_manager \<Rightarrow> (utext \<times> trusted_operation) + unit" where
  "assertOperationAllowed lc uri op m = (if \<not> isWorkspaceTrusted lc uri m then Inl (uri, op) else Inr ())"

fun never_untrusted :: "trusted_operation \<Rightarrow> bool" where
  "never_untrusted BuildScript = False"
| "never_untrusted ServerAutostart = False"
| "never_untrusted CustomToolchain = False"
| "never_untrusted RemoteAttach = False"
| "never_untrusted DatabaseWrite = False"

definition canExecute :: "(utext \<Rightarrow> utext) \<Rightarrow> utext \<Rightarrow> trusted_operation \<Rightarrow> trust_manager \<Rightarrow> bool" where
  "canExecute lc uri op m = (if isWorkspaceTrusted lc uri m then True else never_untrusted op)"

definition onDidTrustChange :: "nat \<Rightarrow> trust_manager \<Rightarrow> trust_manager" where
  "onDidTrustChange l m = m\<lparr> tm_listeners := (if l \<in> set (tm_listeners m) then tm_listeners m else tm_listeners m @ [l]) \<rparr>"

definition dispose_trust_listener :: "nat \<Rightarrow> trust_manager \<Rightarrow> trust_manager" where
  "dispose_trust_listener l m = m\<lparr> tm_listeners := filter (\<lambda>x. x \<noteq> l) (tm_listeners m) \<rparr>"

definition clear_trust :: "trust_manager \<Rightarrow> trust_manager" where
  "clear_trust m = m\<lparr> tm_trustStates := [] \<rparr>"

datatype trust_event = Granted utext | Revoked utext | Listened nat | Unlistened nat | Cleared

fun trust_step :: "(utext \<Rightarrow> utext) \<Rightarrow> trust_manager \<Rightarrow> trust_event \<Rightarrow> trust_manager" where
  "trust_step lc m (Granted uri) = grantTrust lc uri m"
| "trust_step lc m (Revoked uri) = revokeTrust lc uri m"
| "trust_step lc m (Listened l) = onDidTrustChange l m"
| "trust_step lc m (Unlistened l) = dispose_trust_listener l m"
| "trust_step lc m Cleared = clear_trust m"

section \<open>Facts\<close>

text \<open>What the last event about a workspace was.\<close>

fun last_trust :: "(utext \<Rightarrow> utext) \<Rightarrow> utext \<Rightarrow> trust_event list \<Rightarrow> bool" where
  "last_trust lc n [] = False"
| "last_trust lc n (Granted uri # es) = (normalizeUri lc uri = n \<or> last_trust lc n es)"
| "last_trust lc n (Revoked uri # es) = (normalizeUri lc uri \<noteq> n \<and> last_trust lc n es)"
| "last_trust lc n (Cleared # es) = False"
| "last_trust lc n (_ # es) = last_trust lc n es"

lemma trusted_last:
  "jm_get (tm_trustStates (foldl (trust_step lc) new_trust_manager es)) n = Some Trusted \<longleftrightarrow> last_trust lc n (rev es)"
proof (induction es rule: rev_induct)
  case (snoc e es)
  then show ?case
    by (cases e) (auto simp: grantTrust_def revokeTrust_def set_trust_def fireChange_def Let_def onDidTrustChange_def
      dispose_trust_listener_def clear_trust_def)
qed (simp add: new_trust_manager_def)

lemma canExecute_trusted: "canExecute lc uri op m \<longleftrightarrow> isWorkspaceTrusted lc uri m"
  by (cases op) (simp_all add: canExecute_def)

end
