(* ===== verification/RuntimeRequest.thy ===== *)
theory RuntimeRequest
  imports RuntimeSecurity
begin

text \<open>
  Requests to the runtime agent: \<open>runtime-extension/src/browser/runtime-errors.ts\<close> and \<open>request\<close> with its helpers of
  \<open>runtime-connection-service.ts\<close>. A JSON value has its numbers in the form that \<open>String\<close> gives them. What \<open>fetch\<close> and
  \<open>JSON.parse\<close> make of an attempt is its answer, with the state of the abort signal when the error is handled and at the end of
  the pause. Errors keep their code, message, status, details and flag; causes and times are left out.
\<close>

datatype json =
    JNull
  | JBool bool
  | JNum utext
  | JStr utext
  | JArr "json list"
  | JObj "(utext \<times> json) list"

text \<open>The property of an object; \<open>None\<close> is \<open>undefined\<close>.\<close>

fun json_field :: "string \<Rightarrow> json \<Rightarrow> json option" where
  "json_field k (JObj fs) = map_of fs (units k)"
| "json_field k _ = None"

section \<open>Errors\<close>

record kairo_error =
  ke_code :: utext
  ke_message :: utext
  ke_httpStatus :: "nat option"
  ke_details :: "json option"
  ke_retryable :: bool

definition new_kairo_error :: "string \<Rightarrow> string \<Rightarrow> kairo_error" where
  "new_kairo_error code message =
    \<lparr> ke_code = units code, ke_message = units message, ke_httpStatus = None, ke_details = None, ke_retryable = False \<rparr>"

definition isTransient :: "kairo_error \<Rightarrow> bool" where
  "isTransient e \<longleftrightarrow>
    (if ke_code e = units ''unsupported'' then False
     else if ke_httpStatus e = Some 501 then False
     else if ke_retryable e then True
     else if ke_code e = units ''timeout'' then True
     else if ke_code e = units ''io_error'' then True
     else if ke_code e = units ''process_spawn_failed'' then True
     else (case ke_httpStatus e of Some s \<Rightarrow> 500 \<le> s | None \<Rightarrow> False))"

definition httpStatusToCode :: "nat \<Rightarrow> string" where
  "httpStatusToCode status =
    (if status = 401 then ''unauthenticated''
     else if status = 403 then ''forbidden''
     else if status = 404 then ''not_found''
     else if status = 408 then ''timeout''
     else if status = 409 then ''conflict''
     else if status = 429 then ''rate_limited''
     else if 400 \<le> status \<and> status < 500 then ''invalid_request''
     else if 500 \<le> status then ''internal''
     else ''internal'')"

text \<open>\<open>isProtocolError\<close>, \<open>isErrorEnvelope\<close> with the code and the message it has found, and \<open>isResponseEnvelope\<close> with the payload.\<close>

definition protocol_error :: "json \<Rightarrow> (utext \<times> utext) option" where
  "protocol_error e =
    (case (json_field ''code'' e, json_field ''message'' e) of
       (Some (JStr c), Some (JStr m)) \<Rightarrow> Some (c, m)
     | _ \<Rightarrow> None)"

definition json_truthy :: "json option \<Rightarrow> bool" where
  "json_truthy v = (case v of
       None \<Rightarrow> False
     | Some JNull \<Rightarrow> False
     | Some (JBool b) \<Rightarrow> b
     | Some (JNum t) \<Rightarrow> t \<noteq> units ''0''
     | Some (JStr s) \<Rightarrow> s \<noteq> []
     | Some _ \<Rightarrow> True)"

definition error_envelope :: "nat \<Rightarrow> json option \<Rightarrow> kairo_error option" where
  "error_envelope status body =
    (case body of
       None \<Rightarrow> None
     | Some b \<Rightarrow>
         (case (json_field ''ok'' b, json_field ''error'' b) of
            (Some (JBool False), Some e) \<Rightarrow>
              (case protocol_error e of
                 Some (c, m) \<Rightarrow> Some \<lparr> ke_code = c, ke_message = m, ke_httpStatus = Some status,
                     ke_details = json_field ''details'' e, ke_retryable = json_truthy (json_field ''retryable'' e) \<rparr>
               | None \<Rightarrow> None)
          | _ \<Rightarrow> None))"

definition response_payload :: "json option \<Rightarrow> json option" where
  "response_payload body =
    (case body of
       None \<Rightarrow> None
     | Some b \<Rightarrow> if json_field ''ok'' b = Some (JBool True) then json_field ''payload'' b else None)"

fun digits_of :: "nat \<Rightarrow> string" where
  "digits_of n = (if n < 10 then [char_of (48 + n)] else digits_of (n div 10) @ [char_of (48 + n mod 10)])"

declare digits_of.simps [simp del]

definition unwrapResponse :: "nat \<Rightarrow> utext \<Rightarrow> json option \<Rightarrow> kairo_error + json option" where
  "unwrapResponse status statusText body =
    (if status = 204 then Inr None
     else if status < 200 \<or> 300 \<le> status
     then (case error_envelope status body of
             Some e \<Rightarrow> Inl e
           | None \<Rightarrow> Inl \<lparr> ke_code = units (httpStatusToCode status),
               ke_message = trim_text (units (''Runtime agent returned HTTP '' @ digits_of status @ '' '') @ statusText),
               ke_httpStatus = Some status, ke_details = body, ke_retryable = False \<rparr>)
     else case error_envelope status body of
         Some e \<Rightarrow> Inl e
       | None \<Rightarrow>
           (case response_payload body of
              Some p \<Rightarrow> Inr (Some p)
            | None \<Rightarrow> Inl ((new_kairo_error ''internal'' ''Runtime agent returned a response that did not match the Kairo envelope'')
                \<lparr> ke_httpStatus := Some status, ke_details := body \<rparr>)))"

text \<open>What can be thrown: an error of this kind, the abort of a request, a \<open>TypeError\<close>, another \<open>Error\<close>, any other value.\<close>

datatype thrown = ThrownKairo kairo_error | ThrownAbort | ThrownType utext | ThrownError utext | ThrownValue "json option"

fun normaliseThrown :: "thrown \<Rightarrow> utext \<Rightarrow> kairo_error" where
  "normaliseThrown (ThrownKairo e) fallback = e"
| "normaliseThrown ThrownAbort fallback = new_kairo_error ''timeout'' ''Request was aborted''"
| "normaliseThrown (ThrownType m) fallback =
     (new_kairo_error ''io_error'' [])\<lparr> ke_message := (if m \<noteq> [] then m else units ''Network error''), ke_retryable := True \<rparr>"
| "normaliseThrown (ThrownError m) fallback =
     (new_kairo_error ''internal'' [])\<lparr> ke_message := (if m \<noteq> [] then m else fallback) \<rparr>"
| "normaliseThrown (ThrownValue v) fallback =
     (new_kairo_error ''internal'' [])\<lparr> ke_message := fallback, ke_details := v \<rparr>"

section \<open>URLs and headers\<close>

definition upper_unit :: "code_unit \<Rightarrow> bool" where
  "upper_unit u \<longleftrightarrow> 0x41 \<le> u \<and> u \<le> 0x5A"

text \<open>\<open>/^[A-Z]+\s+/\<close>: the method and the rest.\<close>

definition method_prefix :: "utext \<Rightarrow> (utext \<times> utext) option" where
  "method_prefix e =
    (let m = takeWhile upper_unit e; r = dropWhile upper_unit e; p = dropWhile white_unit r
     in if m \<noteq> [] \<and> length p < length r then Some (m, p) else None)"

definition stripMethod :: "utext \<Rightarrow> utext" where
  "stripMethod e =
    (case method_prefix e of
       Some (m, p) \<Rightarrow> if take 1 p = [SLASH] \<and> list_all (\<lambda>u. \<not> line_terminator u) p then p else e
     | None \<Rightarrow> e)"

definition methodOf :: "utext \<Rightarrow> utext" where
  "methodOf e = (case method_prefix e of Some (m, p) \<Rightarrow> m | None \<Rightarrow> units ''GET'')"

text \<open>\<open>s.replace(p, r)\<close> for texts: the first occurrence. \<open>r\<close> is an encoded text, which has no dollar sign.\<close>

fun replace_first :: "utext \<Rightarrow> utext \<Rightarrow> utext \<Rightarrow> utext" where
  "replace_first p r [] = (if p = [] then r else [])"
| "replace_first p r (u # us) =
     (if take (length p) (u # us) = p then r @ drop (length p) (u # us) else u # replace_first p r us)"

definition without_slash :: "utext \<Rightarrow> utext" where
  "without_slash s = (if s \<noteq> [] \<and> last s = SLASH then butlast s else s)"

fun path_with :: "(utext \<times> utext) list \<Rightarrow> utext \<Rightarrow> utext option" where
  "path_with [] p = Some p"
| "path_with ((k, v) # ps) p =
     (case encodeURIComponent v of
        Some e \<Rightarrow> path_with ps (replace_first (units ''{'' @ k @ units ''}'') e p)
      | None \<Rightarrow> None)"

fun query_parts :: "(utext \<times> utext option) list \<Rightarrow> utext list option" where
  "query_parts [] = Some []"
| "query_parts ((k, None) # qs) = query_parts qs"
| "query_parts ((k, Some v) # qs) =
     (case (encodeURIComponent k, encodeURIComponent v, query_parts qs) of
        (Some a, Some b, Some rest) \<Rightarrow> Some ((a @ units ''='' @ b) # rest)
      | _ \<Rightarrow> None)"

text \<open>\<open>None\<close> is the \<open>URIError\<close> of a lone surrogate.\<close>

definition request_url :: "utext \<Rightarrow> utext \<Rightarrow> (utext \<times> utext) list \<Rightarrow> (utext \<times> utext option) list \<Rightarrow> utext option" where
  "request_url base endpoint pathParams query =
    (case (path_with pathParams (stripMethod endpoint), query_parts query) of
       (Some p, Some q) \<Rightarrow>
         (let url = without_slash base @ p
          in Some (if q \<noteq> [] then url @ (if unit_of (CHR ''?'') \<in> set url then units ''&'' else units ''?'') @ join_with (units ''&'') q
                   else url))
     | _ \<Rightarrow> None)"

text \<open>The fields of the payload of a \<open>GET\<close> that go into the query; those of the call win. Keys that are integers are left out of the
  model: JavaScript would list them first.\<close>

definition payload_query :: "json option \<Rightarrow> (utext \<times> utext option) list" where
  "payload_query payload =
    (case payload of
       Some (JObj fs) \<Rightarrow>
         concat (map (\<lambda>(k, v). case v of
             JStr s \<Rightarrow> [(k, Some s)]
           | JNum s \<Rightarrow> [(k, Some s)]
           | JBool b \<Rightarrow> [(k, Some (units (if b then ''true'' else ''false'')))]
           | _ \<Rightarrow> []) fs)
     | _ \<Rightarrow> [])"

definition request_query :: "utext \<Rightarrow> json option \<Rightarrow> (utext \<times> utext option) list \<Rightarrow> (utext \<times> utext option) list" where
  "request_query m payload query =
    (if (m = units ''GET'' \<or> m = units ''HEAD'') \<and> (case payload of Some (JObj _) \<Rightarrow> True | _ \<Rightarrow> False)
     then fold (\<lambda>(k, v) q. jm_set k v q) query (fold (\<lambda>(k, v) q. jm_set k v q) (payload_query payload) [])
     else query)"

record runtime_config =
  rc_baseUrl :: utext
  rc_csrfToken :: "utext option"
  rc_agentSecret :: "utext option"
  rc_defaultTimeoutMs :: "nat option"
  rc_maxRetries :: "int option"

definition non_empty :: "utext option \<Rightarrow> utext option" where
  "non_empty t = (case t of Some [] \<Rightarrow> None | _ \<Rightarrow> t)"

text \<open>\<open>allowed\<close> is the check of the endpoint.\<close>

definition request_headers ::
    "(utext \<Rightarrow> bool) \<Rightarrow> runtime_config \<Rightarrow> utext \<Rightarrow> utext \<Rightarrow> utext \<Rightarrow> utext \<Rightarrow> (string \<times> utext) list" where
  "request_headers allowed cfg workspaceId requestId m url =
    [(''Accept'', units ''application/json''), (''X-Kairo-Request-Id'', requestId)]
    @ (if workspaceId \<noteq> [] then [(''X-Kairo-Workspace-Id'', workspaceId)] else [])
    @ (case non_empty (rc_csrfToken cfg) of Some c \<Rightarrow> if m \<noteq> units ''GET'' then [(''X-Kairo-CSRF'', c)] else [] | None \<Rightarrow> [])
    @ (case non_empty (rc_agentSecret cfg) of Some s \<Rightarrow> if allowed url then [(''X-Kairo-Secret'', s)] else [] | None \<Rightarrow> [])
    @ (if m \<noteq> units ''GET'' \<and> m \<noteq> units ''HEAD'' then [(''Content-Type'', units ''application/json'')] else [])"

section \<open>The attempts of a request\<close>

datatype response_body = EmptyBody | NotJson utext | Json json

datatype fetch_answer = Answered nat utext response_body | FetchThrew thrown

text \<open>\<open>at_aborted\<close>: the signal is aborted when the error is handled; \<open>at_backoff_aborted\<close>: it is before the pause has ended.\<close>

record attempt =
  at_answer :: fetch_answer
  at_aborted :: bool
  at_backoff_aborted :: bool

definition attempt_result :: "utext \<Rightarrow> fetch_answer \<Rightarrow> kairo_error + json option" where
  "attempt_result fallback a =
    (case a of
       Answered status statusText EmptyBody \<Rightarrow> unwrapResponse status statusText None
     | Answered status statusText (Json j) \<Rightarrow> unwrapResponse status statusText (Some j)
     | Answered status statusText (NotJson t) \<Rightarrow>
         Inl ((new_kairo_error ''internal'' ''Runtime agent returned non-JSON response'')
           \<lparr> ke_httpStatus := Some status, ke_details := Some (JStr (take 200 t)) \<rparr>)
     | FetchThrew t \<Rightarrow> Inl (normaliseThrown t fallback))"

text \<open>What the loop does, in its order: a \<open>fetch\<close>, a report to the listener, a pause.\<close>

datatype request_effect = Fetch | Report kairo_error int | Pause nat

definition backoff_ms :: "int \<Rightarrow> nat" where
  "backoff_ms n = min 2000 (100 * 2 ^ nat n)"

text \<open>\<open>None\<close>: the loop waits for the answer of its last \<open>fetch\<close>.\<close>

fun request_loop :: "utext \<Rightarrow> int \<Rightarrow> int \<Rightarrow> attempt list \<Rightarrow> request_effect list \<times> (kairo_error + json option) option" where
  "request_loop fallback maxRetries n [] =
     (if n \<le> maxRetries then ([Fetch], None) else ([], Some (Inl (new_kairo_error ''internal'' ''unreachable''))))"
| "request_loop fallback maxRetries n (a # as) =
     (if \<not> n \<le> maxRetries then ([], Some (Inl (new_kairo_error ''internal'' ''unreachable'')))
      else case attempt_result fallback (at_answer a) of
          Inr v \<Rightarrow> ([Fetch], Some (Inr v))
        | Inl e \<Rightarrow>
            if \<not> isTransient e \<or> n = maxRetries \<or> at_aborted a then ([Fetch, Report e n], Some (Inl e))
            else if at_backoff_aborted a
            then ([Fetch, Report e n, Pause (backoff_ms n)],
                  Some (Inl (new_kairo_error ''timeout'' ''Request was aborted during backoff'')))
            else (let r = request_loop fallback maxRetries (n + 1) as
                  in ([Fetch, Report e n, Pause (backoff_ms n)] @ fst r, snd r)))"

definition max_retries :: "runtime_config \<Rightarrow> bool \<Rightarrow> int" where
  "max_retries cfg noRetry = (if noRetry then 0 else (case rc_maxRetries cfg of Some n \<Rightarrow> n | None \<Rightarrow> 2))"

text \<open>The health that the service remembers after a request.\<close>

definition health_after :: "utext \<Rightarrow> (kairo_error + json option) option \<Rightarrow> json option \<Rightarrow> json option" where
  "health_after endpoint result old =
    (case result of
       Some (Inr (Some v)) \<Rightarrow>
         if endpoint = units ''GET /api/v1/health'' \<and> (case v of JObj _ \<Rightarrow> True | JArr _ \<Rightarrow> True | _ \<Rightarrow> False) then Some v else old
     | _ \<Rightarrow> old)"

end
