(* ===== verification/RuntimeEvents.thy ===== *)
theory RuntimeEvents
  imports RuntimeRequest
begin

text \<open>
  The event connection of \<open>runtime-extension/src/browser/runtime-connection-service.ts\<close>: the class \<open>EventStream\<close>, and of
  \<open>RuntimeConnectionService\<close> its bootstrap, its endpoints and its subscriptions. Streams, sockets, timers, requests and
  callbacks have numbers; the calls of callbacks, the sockets that are opened and the reports to the error listener are
  recorded. The platform gives the parser of URLs, the host of the page and the arguments for which \<open>WebSocket\<close> throws. A
  socket delivers nothing after its \<open>close\<close> event. A callback does not throw and does not call the service back.
\<close>

record platform =
  pf_parse :: "utext \<Rightarrow> parsed_url option"
  pf_origin :: "string option"
  pf_refuses :: "utext \<Rightarrow> utext list \<Rightarrow> bool"

definition allowed_url :: "platform \<Rightarrow> utext \<Rightarrow> bool" where
  "allowed_url pf u = uc_allowed (isAllowedAgentUrl (pf_parse pf) (pf_origin pf) None u)"

record event_message =
  em_type :: utext
  em_sequence :: "nat option"

section \<open>One stream\<close>

datatype link_status = Connecting | Opened | Disconnected | Closed

record event_stream =
  es_url :: utext
  es_agentSecret :: "utext option"
  es_sockets :: "bool list"
  es_ws :: "nat option"
  es_backoffMs :: nat
  es_closedByCaller :: bool
  es_timers :: "(nat \<times> nat) list"
  es_next_timer :: nat
  es_reconnectTimer :: "nat option"
  es_currentStatus :: link_status
  es_sequence :: nat

text \<open>\<open>es_sockets\<close>: has the socket not yet delivered \<open>close\<close>? \<open>es_timers\<close>: the timers that have not fired, with the bound of their
  random delay.\<close>

datatype stream_effect = Status link_status | Socket utext "utext list"

definition maxBackoffMs :: nat where
  "maxBackoffMs = 15000"

definition KAIRO_WS_SUBPROTOCOL :: utext where
  "KAIRO_WS_SUBPROTOCOL = units ''kairo-secret-v1''"

definition setStatus :: "link_status \<Rightarrow> event_stream \<Rightarrow> event_stream \<times> stream_effect list" where
  "setStatus s st = (if es_currentStatus st = s then (st, []) else (st\<lparr> es_currentStatus := s \<rparr>, [Status s]))"

definition scheduleReconnect :: "event_stream \<Rightarrow> event_stream" where
  "scheduleReconnect st =
    (if es_closedByCaller st then st
     else st\<lparr> es_backoffMs := min maxBackoffMs (es_backoffMs st * 2),
              es_timers := es_timers st @ [(es_next_timer st, es_backoffMs st)],
              es_next_timer := Suc (es_next_timer st),
              es_reconnectTimer := Some (es_next_timer st) \<rparr>)"

definition protocols_of :: "platform \<Rightarrow> event_stream \<Rightarrow> utext list" where
  "protocols_of pf st =
    (case non_empty (es_agentSecret st) of
       Some s \<Rightarrow> if allowed_url pf (es_url st) then [KAIRO_WS_SUBPROTOCOL, s] else []
     | None \<Rightarrow> [])"

definition connect_url :: "event_stream \<Rightarrow> utext" where
  "connect_url st =
    (if 0 < es_sequence st
     then es_url st @ (if unit_of (CHR ''?'') \<in> set (es_url st) then units ''&'' else units ''?'') @ units ''since=''
            @ units (digits_of (es_sequence st))
     else es_url st)"

definition connect :: "platform \<Rightarrow> event_stream \<Rightarrow> event_stream \<times> stream_effect list" where
  "connect pf st =
    (if es_closedByCaller st then (st, [])
     else let (st1, out) = setStatus Connecting st;
              u = connect_url st1; ps = protocols_of pf st1
          in if pf_refuses pf u ps then (scheduleReconnect st1, out)
             else (st1\<lparr> es_sockets := es_sockets st1 @ [True], es_ws := Some (length (es_sockets st1)) \<rparr>, out @ [Socket u ps]))"

definition new_event_stream :: "platform \<Rightarrow> utext \<Rightarrow> utext option \<Rightarrow> nat \<Rightarrow> event_stream \<times> stream_effect list" where
  "new_event_stream pf url secret seq =
    connect pf \<lparr> es_url = url, es_agentSecret = secret, es_sockets = [], es_ws = None, es_backoffMs = 250,
      es_closedByCaller = False, es_timers = [], es_next_timer = 0, es_reconnectTimer = None,
      es_currentStatus = Disconnected, es_sequence = seq \<rparr>"

definition setSequence :: "nat \<Rightarrow> event_stream \<Rightarrow> event_stream" where
  "setSequence seq st = (if es_sequence st < seq then st\<lparr> es_sequence := seq \<rparr> else st)"

definition close_stream :: "event_stream \<Rightarrow> event_stream \<times> stream_effect list" where
  "close_stream st =
    (let st1 = st\<lparr> es_closedByCaller := True \<rparr>;
         st2 = (case es_reconnectTimer st1 of
                  Some t \<Rightarrow> st1\<lparr> es_timers := filter (\<lambda>x. fst x \<noteq> t) (es_timers st1) \<rparr>
                | None \<Rightarrow> st1)
     in setStatus Closed st2)"

definition ws_opened :: "event_stream \<Rightarrow> event_stream \<times> stream_effect list" where
  "ws_opened st = setStatus Opened (st\<lparr> es_backoffMs := 250 \<rparr>)"

definition ws_closed :: "nat \<Rightarrow> event_stream \<Rightarrow> event_stream \<times> stream_effect list" where
  "ws_closed k st =
    (let (st1, out) = setStatus Disconnected (st\<lparr> es_sockets := (es_sockets st)[k := False] \<rparr>)
     in (if \<not> es_closedByCaller st1 then scheduleReconnect st1 else st1, out))"

definition ws_failed :: "event_stream \<Rightarrow> event_stream \<times> stream_effect list" where
  "ws_failed st = setStatus Disconnected st"

definition saw_sequence :: "event_message \<Rightarrow> event_stream \<Rightarrow> event_stream" where
  "saw_sequence e st =
    (case em_sequence e of Some q \<Rightarrow> st\<lparr> es_sequence := max (es_sequence st) q \<rparr> | None \<Rightarrow> st)"

definition timer_fires :: "platform \<Rightarrow> nat \<Rightarrow> event_stream \<Rightarrow> event_stream \<times> stream_effect list" where
  "timer_fires pf t st = connect pf (st\<lparr> es_timers := filter (\<lambda>x. fst x \<noteq> t) (es_timers st) \<rparr>)"

section \<open>The service\<close>

datatype service_effect =
    StatusTo nat link_status
  | EventTo nat event_message
  | SocketOpened utext "utext list"
  | RejectedUrl utext
  | EndpointsFailed

datatype boot_phase = NotBooting | AwaitConfig | AwaitSecret utext bool

text \<open>\<open>AwaitSecret url True\<close>: the secret belongs to a URL of the backend; with \<open>False\<close> to the URL that the service has.\<close>

record connection =
  rt_config :: runtime_config
  rt_workspaceId :: utext
  rt_subscribers :: "(utext, nat list) jsmap"
  rt_cachedEndpoints :: "(utext \<times> utext) option"
  rt_endpointsPromise :: "utext option"
  rt_eager_waiting :: nat
  rt_eager_ready :: nat
  rt_boot :: boot_phase
  rt_streams :: "event_stream list"
  rt_internal :: "nat option"
  rt_statusSubscribers :: "nat list"
  rt_sequence :: nat
  rt_effects :: "service_effect list"

text \<open>\<open>rt_endpointsPromise\<close> has the URL of the request that is under way. \<open>rt_eager_waiting\<close> and \<open>rt_eager_ready\<close> count the calls of
  \<open>eagerFetchEndpoints\<close> that wait for it and those that found the endpoints cached.\<close>

definition new_connection :: connection where
  "new_connection = \<lparr> rt_config = \<lparr> rc_baseUrl = [], rc_csrfToken = None, rc_agentSecret = None, rc_defaultTimeoutMs = None,
      rc_maxRetries = None \<rparr>, rt_workspaceId = [], rt_subscribers = [], rt_cachedEndpoints = None, rt_endpointsPromise = None,
    rt_eager_waiting = 0, rt_eager_ready = 0, rt_boot = NotBooting, rt_streams = [], rt_internal = None,
    rt_statusSubscribers = [], rt_sequence = 0, rt_effects = [] \<rparr>"

definition emit_effects :: "service_effect list \<Rightarrow> connection \<Rightarrow> connection" where
  "emit_effects es c = c\<lparr> rt_effects := rt_effects c @ es \<rparr>"

text \<open>What the service makes of the effects of stream \<open>i\<close>: a status counts while the stream is the current one.\<close>

fun heard :: "nat \<Rightarrow> connection \<Rightarrow> stream_effect \<Rightarrow> service_effect list" where
  "heard i c (Status s) = (if rt_internal c = Some i then map (\<lambda>f. StatusTo f s) (rt_statusSubscribers c) else [])"
| "heard i c (Socket u ps) = [SocketOpened u ps]"

definition with_stream :: "nat \<Rightarrow> event_stream \<times> stream_effect list \<Rightarrow> connection \<Rightarrow> connection" where
  "with_stream i r c = emit_effects (concat (map (heard i c) (snd r))) (c\<lparr> rt_streams := (rt_streams c)[i := fst r] \<rparr>)"

text \<open>\<open>/^https?:\/\//i\<close> and \<open>/\/$/\<close>.\<close>

definition strip_scheme :: "utext \<Rightarrow> utext" where
  "strip_scheme u =
    (if map ascii_lower (take 7 u) = units ''http://'' then drop 7 u
     else if map ascii_lower (take 8 u) = units ''https://'' then drop 8 u else u)"

definition wsHostPortFromBase :: "utext \<Rightarrow> utext" where
  "wsHostPortFromBase baseUrl =
    (let stripped = without_slash (strip_scheme baseUrl) in if stripped \<noteq> [] then stripped else units ''127.0.0.1:0'')"

definition ws_base :: "connection \<Rightarrow> utext" where
  "ws_base c =
    (let hostport = (case rt_cachedEndpoints c of Some (http, events) \<Rightarrow> events | None \<Rightarrow> wsHostPortFromBase (rc_baseUrl (rt_config c)))
     in if take 5 hostport = units ''ws://'' \<or> take 6 hostport = units ''wss://'' then hostport else units ''ws://'' @ hostport)"

text \<open>\<open>None\<close>: \<open>encodeURIComponent\<close> throws.\<close>

definition ws_url :: "connection \<Rightarrow> utext option" where
  "ws_url c =
    (let u = ws_base c @ units ''/api/v1'' @ units ''/events''
     in if rt_workspaceId c \<noteq> []
        then map_option (\<lambda>w. u @ units ''?workspaceId='' @ w) (encodeURIComponent (rt_workspaceId c))
        else Some u)"

definition internal_open :: "connection \<Rightarrow> bool" where
  "internal_open c \<longleftrightarrow>
    (case rt_internal c of Some i \<Rightarrow> es_currentStatus (rt_streams c ! i) \<noteq> Closed | None \<Rightarrow> False)"

definition ensureEventStream :: "platform \<Rightarrow> connection \<Rightarrow> connection" where
  "ensureEventStream pf c =
    (if rc_baseUrl (rt_config c) = [] then c
     else if internal_open c then c
     else case ws_url c of
         None \<Rightarrow> c
       | Some u \<Rightarrow>
           (let (s, out) = new_event_stream pf u (rc_agentSecret (rt_config c)) (rt_sequence c);
                i = length (rt_streams c)
            in emit_effects (map (\<lambda>f. StatusTo f (es_currentStatus s)) (rt_statusSubscribers c))
                 (emit_effects (concat (map (heard i c) out)) (c\<lparr> rt_streams := rt_streams c @ [s] \<rparr>)\<lparr> rt_internal := Some i \<rparr>)))"

definition closeEventStream :: "connection \<Rightarrow> connection" where
  "closeEventStream c =
    (case rt_internal c of
       Some i \<Rightarrow> (with_stream i (close_stream (rt_streams c ! i)) c)\<lparr> rt_internal := None \<rparr>
     | None \<Rightarrow> c)"

definition refreshEventStreamAfterConfig :: "platform \<Rightarrow> connection \<Rightarrow> connection" where
  "refreshEventStreamAfterConfig pf c =
    (if rc_baseUrl (rt_config c) = [] then c
     else let c1 = closeEventStream c
          in if rt_workspaceId c1 \<noteq> [] \<and> rt_subscribers c1 \<noteq> [] then ensureEventStream pf c1
             else if rt_subscribers c1 \<noteq> [] then ensureEventStream pf c1 else c1)"

definition reconnectEventStream :: "platform \<Rightarrow> connection \<Rightarrow> connection" where
  "reconnectEventStream pf c = ensureEventStream pf (closeEventStream c)"

definition setWorkspace :: "platform \<Rightarrow> utext \<Rightarrow> connection \<Rightarrow> connection" where
  "setWorkspace pf w c =
    (if rt_workspaceId c = w then c
     else let c1 = closeEventStream (c\<lparr> rt_workspaceId := w \<rparr>)
          in if rt_workspaceId c1 \<noteq> [] \<and> rt_subscribers c1 \<noteq> [] then ensureEventStream pf c1 else c1)"

definition invalidateEndpoints :: "connection \<Rightarrow> connection" where
  "invalidateEndpoints c = c\<lparr> rt_cachedEndpoints := None \<rparr>"

definition text_of :: "utext option \<Rightarrow> utext" where
  "text_of t = (case t of Some s \<Rightarrow> s | None \<Rightarrow> [])"

definition initialize :: "platform \<Rightarrow> utext \<Rightarrow> utext \<Rightarrow> connection \<Rightarrow> connection" where
  "initialize pf url secret c =
    (if \<not> allowed_url pf url then emit_effects [RejectedUrl url] c
     else let prevUrl = rc_baseUrl (rt_config c);
              prevSecret = text_of (rc_agentSecret (rt_config c));
              c1 = c\<lparr> rt_config := \<lparr> rc_baseUrl = url, rc_csrfToken = None, rc_agentSecret = Some secret, rc_defaultTimeoutMs = None,
                       rc_maxRetries = None \<rparr> \<rparr>
          in if prevUrl \<noteq> url \<or> prevSecret \<noteq> secret
             then refreshEventStreamAfterConfig pf (invalidateEndpoints c1) else c1)"

text \<open>The fields that the argument of \<open>configure\<close> has; it always has a base URL.\<close>

record config_patch =
  cp_baseUrl :: utext
  cp_csrfToken :: "utext option option"
  cp_agentSecret :: "utext option option"
  cp_defaultTimeoutMs :: "nat option option"
  cp_maxRetries :: "int option option"

definition patched :: "'a option \<Rightarrow> 'a \<Rightarrow> 'a" where
  "patched p old = (case p of Some v \<Rightarrow> v | None \<Rightarrow> old)"

definition configure :: "platform \<Rightarrow> config_patch \<Rightarrow> connection \<Rightarrow> connection" where
  "configure pf cfg c =
    (if cp_baseUrl cfg \<noteq> [] \<and> \<not> allowed_url pf (cp_baseUrl cfg) then c
     else c\<lparr> rt_config := \<lparr> rc_baseUrl = cp_baseUrl cfg,
                rc_csrfToken = patched (cp_csrfToken cfg) (rc_csrfToken (rt_config c)),
                rc_agentSecret = patched (cp_agentSecret cfg) (rc_agentSecret (rt_config c)),
                rc_defaultTimeoutMs = patched (cp_defaultTimeoutMs cfg) (rc_defaultTimeoutMs (rt_config c)),
                rc_maxRetries = patched (cp_maxRetries cfg) (rc_maxRetries (rt_config c)) \<rparr> \<rparr>)"

definition setAgentSecret :: "platform \<Rightarrow> utext option \<Rightarrow> connection \<Rightarrow> connection" where
  "setAgentSecret pf secret c =
    (if rc_baseUrl (rt_config c) \<noteq> [] \<and> \<not> allowed_url pf (rc_baseUrl (rt_config c)) then c
     else c\<lparr> rt_config := (rt_config c)\<lparr> rc_agentSecret := secret \<rparr> \<rparr>)"

definition current_status :: "connection \<Rightarrow> link_status" where
  "current_status c = (case rt_internal c of Some i \<Rightarrow> es_currentStatus (rt_streams c ! i) | None \<Rightarrow> Disconnected)"

definition set_insert :: "'a \<Rightarrow> 'a list \<Rightarrow> 'a list" where
  "set_insert x xs = (if x \<in> set xs then xs else xs @ [x])"

definition onStatusChange :: "nat \<Rightarrow> connection \<Rightarrow> connection" where
  "onStatusChange f c =
    emit_effects [StatusTo f (current_status c)] (c\<lparr> rt_statusSubscribers := set_insert f (rt_statusSubscribers c) \<rparr>)"

definition dispose_status :: "nat \<Rightarrow> connection \<Rightarrow> connection" where
  "dispose_status f c = c\<lparr> rt_statusSubscribers := filter (\<lambda>g. g \<noteq> f) (rt_statusSubscribers c) \<rparr>"

definition subscriber_key :: "utext \<Rightarrow> utext" where
  "subscriber_key w = (if w \<noteq> [] then w else units ''__no_workspace__'')"

definition subscribeEvents :: "platform \<Rightarrow> utext \<Rightarrow> nat \<Rightarrow> connection \<Rightarrow> connection" where
  "subscribeEvents pf w f c =
    (let k = subscriber_key w;
         subs = (case jm_get (rt_subscribers c) k of Some s \<Rightarrow> s | None \<Rightarrow> []);
         c1 = c\<lparr> rt_subscribers := jm_set k (set_insert f subs) (rt_subscribers c) \<rparr>
     in if w = [] then c1
        else ensureEventStream pf (if rt_workspaceId c1 \<noteq> w then (closeEventStream c1)\<lparr> rt_workspaceId := w \<rparr> else c1))"

definition unsubscribe :: "utext \<Rightarrow> nat \<Rightarrow> connection \<Rightarrow> connection" where
  "unsubscribe w f c =
    (let k = subscriber_key w
     in case jm_get (rt_subscribers c) k of
         None \<Rightarrow> c
       | Some s \<Rightarrow>
           (let s1 = filter (\<lambda>g. g \<noteq> f) s
            in if s1 = []
               then let c1 = c\<lparr> rt_subscribers := jm_delete k (rt_subscribers c) \<rparr>
                    in if rt_subscribers c1 = [] then closeEventStream c1 else c1
               else c\<lparr> rt_subscribers := jm_set k s1 (rt_subscribers c) \<rparr>))"

section \<open>Endpoints\<close>

definition fetchEndpoints :: "bool \<Rightarrow> connection \<Rightarrow> connection" where
  "fetchEndpoints forceRefresh c =
    (if \<not> forceRefresh \<and> rt_cachedEndpoints c \<noteq> None then c
     else if rt_endpointsPromise c \<noteq> None then c
     else c\<lparr> rt_endpointsPromise := Some (without_slash (rc_baseUrl (rt_config c)) @ units ''/api/v1/endpoints'') \<rparr>)"

definition eagerFetchEndpoints :: "connection \<Rightarrow> connection" where
  "eagerFetchEndpoints c =
    (if rt_cachedEndpoints c \<noteq> None then c\<lparr> rt_eager_ready := Suc (rt_eager_ready c) \<rparr>
     else (fetchEndpoints False c)\<lparr> rt_eager_waiting := Suc (rt_eager_waiting c) \<rparr>)"

text \<open>The endpoints in an answer; nothing if \<open>fetchEndpoints\<close> throws.\<close>

definition endpoints_of :: "nat \<Rightarrow> json option \<Rightarrow> (utext \<times> utext) option" where
  "endpoints_of status body =
    (if status < 200 \<or> 300 \<le> status then None
     else case body of
         None \<Rightarrow> None
       | Some b \<Rightarrow>
           (let p = (if json_truthy (json_field ''payload'' b) then the (json_field ''payload'' b) else b)
            in case (json_field ''http'' p, json_field ''events'' p) of
                 (Some (JStr h), Some (JStr e)) \<Rightarrow> Some (h, e)
               | _ \<Rightarrow> None))"

text \<open>The request for the endpoints settles.\<close>

definition endpoints_answered :: "platform \<Rightarrow> (utext \<times> utext) option \<Rightarrow> connection \<Rightarrow> connection" where
  "endpoints_answered pf answer c =
    (if rt_endpointsPromise c = None then c
     else let n = rt_eager_waiting c; c1 = c\<lparr> rt_endpointsPromise := None, rt_eager_waiting := 0 \<rparr>
          in case answer of
              Some ep \<Rightarrow> (refreshEventStreamAfterConfig pf ^^ n) (c1\<lparr> rt_cachedEndpoints := Some ep \<rparr>)
            | None \<Rightarrow> emit_effects (replicate n EndpointsFailed) c1)"

definition eager_continues :: "platform \<Rightarrow> connection \<Rightarrow> connection" where
  "eager_continues pf c =
    (if rt_eager_ready c = 0 then c
     else refreshEventStreamAfterConfig pf (c\<lparr> rt_eager_ready := rt_eager_ready c - 1 \<rparr>))"

section \<open>Bootstrap\<close>

text \<open>The globals of the window: \<open>__kairo.agentBaseUrl\<close>, what \<open>__kairo.getSecret\<close> returns, \<open>kairoConfig.agentUrl\<close>, the parameter
  \<open>kairoAgent\<close> of the page, the injected default; and the variable \<open>AGENT_PORT\<close>. Of \<open>init\<close>, what follows an \<open>await\<close> of something
  that is there is part of the step.\<close>

record window_env =
  we_agentBaseUrl :: "utext option"
  we_getSecret :: "utext option"
  we_agentUrl :: "utext option"
  we_fromQuery :: "utext option"
  we_injected :: "utext option"
  we_agentPort :: "utext option"

definition DEFAULT_RUNTIME_BASE_URL :: "window_env \<Rightarrow> utext" where
  "DEFAULT_RUNTIME_BASE_URL w =
    (case non_empty (we_agentPort w) of Some p \<Rightarrow> units ''http://127.0.0.1:'' @ p | None \<Rightarrow> units ''http://127.0.0.1:18080'')"

definition only_base :: "utext \<Rightarrow> connection \<Rightarrow> connection" where
  "only_base u c = c\<lparr> rt_config := \<lparr> rc_baseUrl = u, rc_csrfToken = None, rc_agentSecret = None, rc_defaultTimeoutMs = None,
      rc_maxRetries = None \<rparr> \<rparr>"

definition usable :: "platform \<Rightarrow> utext option \<Rightarrow> utext option" where
  "usable pf u = (case non_empty u of Some v \<Rightarrow> if allowed_url pf v then Some v else None | None \<Rightarrow> None)"

definition tryInitFromWindow :: "platform \<Rightarrow> window_env \<Rightarrow> connection \<Rightarrow> connection \<times> bool" where
  "tryInitFromWindow pf w c =
    (if rc_baseUrl (rt_config c) \<noteq> [] then (c, True)
     else case usable pf (we_agentBaseUrl w) of
         Some u \<Rightarrow> (initialize pf u (text_of (we_getSecret w)) c, True)
       | None \<Rightarrow>
           (case usable pf (we_agentUrl w) of
              Some u \<Rightarrow> (initialize pf u (text_of (we_getSecret w)) c, True)
            | None \<Rightarrow>
                (let candidate = (case we_fromQuery w of Some q \<Rightarrow> q | None \<Rightarrow> text_of (we_injected w))
                 in if candidate \<noteq> [] \<and> allowed_url pf candidate then (only_base candidate c, True) else (c, False))))"

definition finishBootstrap :: "platform \<Rightarrow> connection \<Rightarrow> connection" where
  "finishBootstrap pf c = refreshEventStreamAfterConfig pf (eagerFetchEndpoints (c\<lparr> rt_boot := NotBooting \<rparr>))"

text \<open>\<open>resolveAgentSecret\<close>; \<open>None\<close>: it has to ask the backend.\<close>

definition resolveAgentSecret :: "window_env \<Rightarrow> connection \<Rightarrow> utext option" where
  "resolveAgentSecret w c =
    (case non_empty (we_getSecret w) of Some s \<Rightarrow> Some s | None \<Rightarrow> non_empty (rc_agentSecret (rt_config c)))"

text \<open>\<open>ensureAgentSecretFromBackend\<close> and \<open>bootstrapFromTheiaConfig\<close> once they have the secret.\<close>

definition ensured_secret :: "platform \<Rightarrow> utext \<Rightarrow> connection \<Rightarrow> connection" where
  "ensured_secret pf secret c =
    finishBootstrap pf
      (if secret = [] \<or> rc_baseUrl (rt_config c) = [] then c
       else invalidateEndpoints (initialize pf (rc_baseUrl (rt_config c)) secret c))"

definition boot_secret :: "platform \<Rightarrow> utext \<Rightarrow> utext \<Rightarrow> connection \<Rightarrow> connection" where
  "boot_secret pf u secret c = finishBootstrap pf (invalidateEndpoints (initialize pf u secret c))"

definition start_service :: "platform \<Rightarrow> window_env \<Rightarrow> connection" where
  "start_service pf w =
    (let (c, fromWindow) = tryInitFromWindow pf w new_connection
     in if \<not> fromWindow then c\<lparr> rt_boot := AwaitConfig \<rparr>
        else if non_empty (rc_agentSecret (rt_config c)) = None
        then (if rc_baseUrl (rt_config c) = [] \<or> \<not> allowed_url pf (rc_baseUrl (rt_config c)) then finishBootstrap pf c
              else case resolveAgentSecret w c of
                  Some s \<Rightarrow> ensured_secret pf s c
                | None \<Rightarrow> c\<lparr> rt_boot := AwaitSecret [] False \<rparr>)
        else eagerFetchEndpoints c)"

definition default_base :: "window_env \<Rightarrow> connection \<Rightarrow> connection" where
  "default_base w c = (if rc_baseUrl (rt_config c) = [] then only_base (DEFAULT_RUNTIME_BASE_URL w) c else c)"

text \<open>
  The answer to \<open>/kairo-agent-config.json\<close>, nothing if it is an error, with the URL that it has. Only the call at the start of the
  service is modelled as such: when a view calls \<open>bootstrapFromTheiaConfig\<close> again later, what it does to the service are the
  events \<open>Initialize\<close> and \<open>Invalidate\<close>.
\<close>

definition config_answered :: "platform \<Rightarrow> window_env \<Rightarrow> utext option option \<Rightarrow> connection \<Rightarrow> connection" where
  "config_answered pf w answer c =
    (if rt_boot c \<noteq> AwaitConfig then c
     else case answer of
         None \<Rightarrow> finishBootstrap pf (default_base w c)
       | Some u \<Rightarrow>
           (case usable pf u of
              None \<Rightarrow> finishBootstrap pf (default_base w c)
            | Some v \<Rightarrow>
                (case resolveAgentSecret w c of
                   Some s \<Rightarrow> boot_secret pf v s c
                 | None \<Rightarrow> c\<lparr> rt_boot := AwaitSecret v True \<rparr>)))"

definition secret_answered :: "platform \<Rightarrow> utext \<Rightarrow> connection \<Rightarrow> connection" where
  "secret_answered pf secret c =
    (case rt_boot c of
       AwaitSecret v True \<Rightarrow> boot_secret pf v secret c
     | AwaitSecret v False \<Rightarrow> ensured_secret pf secret c
     | _ \<Rightarrow> c)"

section \<open>Events\<close>

definition socket_live :: "nat \<Rightarrow> nat \<Rightarrow> connection \<Rightarrow> bool" where
  "socket_live i k c \<longleftrightarrow> i < length (rt_streams c) \<and> k < length (es_sockets (rt_streams c ! i)) \<and> es_sockets (rt_streams c ! i) ! k"

definition timer_live :: "nat \<Rightarrow> nat \<Rightarrow> connection \<Rightarrow> bool" where
  "timer_live i t c \<longleftrightarrow> i < length (rt_streams c) \<and> t \<in> fst ` set (es_timers (rt_streams c ! i))"

text \<open>A message goes to all subscribers of all workspaces if its stream is the current one.\<close>

definition message_arrives :: "nat \<Rightarrow> event_message \<Rightarrow> connection \<Rightarrow> connection" where
  "message_arrives i e c =
    (let s = saw_sequence e (rt_streams c ! i)
     in if rt_internal c \<noteq> Some i then c\<lparr> rt_streams := (rt_streams c)[i := s] \<rparr>
        else let q = (case em_sequence e of Some n \<Rightarrow> n | None \<Rightarrow> rt_sequence c)
             in emit_effects (map (\<lambda>f. EventTo f e) (concat (jm_values (rt_subscribers c))))
                  (c\<lparr> rt_streams := (rt_streams c)[i := setSequence q s], rt_sequence := q \<rparr>))"

datatype connection_event =
    ConfigAnswered window_env "utext option option"
  | SecretAnswered utext
  | EndpointsAnswered nat "json option"
  | EagerContinues
  | FetchEndpoints bool
  | Invalidate
  | Initialize utext utext
  | Configure config_patch
  | SetAgentSecret "utext option"
  | SetWorkspace utext
  | Subscribe utext nat
  | Unsubscribe utext nat
  | OnStatus nat
  | DisposeStatus nat
  | Reconnect
  | SocketOpen nat nat
  | SocketMessage nat nat event_message
  | SocketClose nat nat
  | SocketError nat nat
  | TimerFires nat nat

fun rt_step :: "platform \<Rightarrow> connection \<Rightarrow> connection_event \<Rightarrow> connection" where
  "rt_step pf c (ConfigAnswered w answer) = config_answered pf w answer c"
| "rt_step pf c (SecretAnswered s) = secret_answered pf s c"
| "rt_step pf c (EndpointsAnswered status body) = endpoints_answered pf (endpoints_of status body) c"
| "rt_step pf c EagerContinues = eager_continues pf c"
| "rt_step pf c (FetchEndpoints force) = fetchEndpoints force c"
| "rt_step pf c Invalidate = invalidateEndpoints c"
| "rt_step pf c (Initialize u s) = initialize pf u s c"
| "rt_step pf c (Configure cfg) = configure pf cfg c"
| "rt_step pf c (SetAgentSecret s) = setAgentSecret pf s c"
| "rt_step pf c (SetWorkspace w) = setWorkspace pf w c"
| "rt_step pf c (Subscribe w f) = subscribeEvents pf w f c"
| "rt_step pf c (Unsubscribe w f) = unsubscribe w f c"
| "rt_step pf c (OnStatus f) = onStatusChange f c"
| "rt_step pf c (DisposeStatus f) = dispose_status f c"
| "rt_step pf c Reconnect = reconnectEventStream pf c"
| "rt_step pf c (SocketOpen i k) = (if socket_live i k c then with_stream i (ws_opened (rt_streams c ! i)) c else c)"
| "rt_step pf c (SocketMessage i k e) = (if socket_live i k c then message_arrives i e c else c)"
| "rt_step pf c (SocketClose i k) = (if socket_live i k c then with_stream i (ws_closed k (rt_streams c ! i)) c else c)"
| "rt_step pf c (SocketError i k) = (if socket_live i k c then with_stream i (ws_failed (rt_streams c ! i)) c else c)"
| "rt_step pf c (TimerFires i t) = (if timer_live i t c then with_stream i (timer_fires pf t (rt_streams c ! i)) c else c)"

definition rt_run :: "platform \<Rightarrow> window_env \<Rightarrow> connection_event list \<Rightarrow> connection" where
  "rt_run pf w es = foldl (rt_step pf) (start_service pf w) es"

end
