(* ===== verification/RuntimeFacts.thy ===== *)
theory RuntimeFacts
  imports RuntimeEvents
begin

text \<open>
  Facts about the connection to the agent: the streams and their sockets and timers, the URL of the current stream, where the
  secret goes, and the attempts of a request.
\<close>

section \<open>Streams\<close>

definition live :: "event_stream \<Rightarrow> nat" where
  "live s = length (filter id (es_sockets s))"

definition armed :: "event_stream \<Rightarrow> bool" where
  "armed s \<longleftrightarrow> (\<exists>t b. es_timers s = [(t, b)] \<and> es_reconnectTimer s = Some t \<and> b \<le> maxBackoffMs)"

definition stream_alive :: "event_stream \<Rightarrow> bool" where
  "stream_alive s \<longleftrightarrow> \<not> es_closedByCaller s \<and> es_currentStatus s \<noteq> Closed \<and> es_backoffMs s \<le> maxBackoffMs
    \<and> (live s = 1 \<and> es_timers s = [] \<or> live s = 0 \<and> armed s)"

definition stream_done :: "event_stream \<Rightarrow> bool" where
  "stream_done s \<longleftrightarrow> es_closedByCaller s \<and> es_timers s = []"

lemma filter_update:
  "k < length bs \<Longrightarrow> bs ! k \<Longrightarrow> length (filter id bs) = Suc (length (filter id (bs[k := False])))"
  by (induction bs arbitrary: k) (auto simp: nth_Cons split: nat.splits)

lemmas stream_ops = setStatus_def scheduleReconnect_def connect_def close_stream_def ws_opened_def ws_closed_def
  ws_failed_def saw_sequence_def timer_fires_def setSequence_def Let_def

lemma connect_alive:
  assumes "\<not> es_closedByCaller s" "live s = 0" "es_timers s = []" "es_backoffMs s \<le> maxBackoffMs"
  shows "stream_alive (fst (connect pf s))"
  using assms by (auto simp: stream_ops stream_alive_def live_def armed_def split: prod.splits if_splits)

lemma new_stream_alive: "stream_alive (fst (new_event_stream pf u sec q))"
  unfolding new_event_stream_def by (rule connect_alive) (simp_all add: live_def maxBackoffMs_def)

lemma close_done: "stream_alive s \<Longrightarrow> stream_done (fst (close_stream s))"
  by (auto simp: stream_ops stream_alive_def armed_def stream_done_def split: option.splits)

lemma opened_keeps:
  "stream_alive s \<Longrightarrow> stream_alive (fst (ws_opened s))"
  "stream_done s \<Longrightarrow> stream_done (fst (ws_opened s))"
  by (auto simp: stream_ops stream_alive_def stream_done_def live_def armed_def maxBackoffMs_def)

lemma failed_keeps:
  "stream_alive s \<Longrightarrow> stream_alive (fst (ws_failed s))"
  "stream_done s \<Longrightarrow> stream_done (fst (ws_failed s))"
  by (auto simp: stream_ops stream_alive_def stream_done_def live_def armed_def)

lemma saw_keeps:
  "stream_alive s \<Longrightarrow> stream_alive (saw_sequence e s)"
  "stream_done s \<Longrightarrow> stream_done (saw_sequence e s)"
  by (auto simp: stream_ops stream_alive_def stream_done_def live_def armed_def split: option.splits)

lemma set_keeps:
  "stream_alive s \<Longrightarrow> stream_alive (setSequence q s)"
  "stream_done s \<Longrightarrow> stream_done (setSequence q s)"
  by (auto simp: stream_ops stream_alive_def stream_done_def live_def armed_def)

lemma closed_keeps:
  assumes k: "k < length (es_sockets s)" "es_sockets s ! k"
  shows "stream_alive s \<Longrightarrow> stream_alive (fst (ws_closed k s))"
    and "stream_done s \<Longrightarrow> stream_done (fst (ws_closed k s))"
  using filter_update [OF k] by (auto simp: stream_ops stream_alive_def stream_done_def live_def armed_def maxBackoffMs_def)

lemma timer_keeps:
  assumes t: "t \<in> fst ` set (es_timers s)"
  shows "stream_alive s \<Longrightarrow> stream_alive (fst (timer_fires pf t s))"
    and "\<not> stream_done s"
proof -
  assume a: "stream_alive s"
  obtain b where ts: "es_timers s = [(t, b)]" and l: "live s = 0"
    using a t by (auto simp: stream_alive_def armed_def)
  show "stream_alive (fst (timer_fires pf t s))"
    unfolding timer_fires_def by (rule connect_alive) (use a ts l in \<open>simp_all add: stream_alive_def live_def\<close>)
qed (use t in \<open>auto simp: stream_done_def\<close>)

lemma connect_url_kept: "es_url (fst (connect pf s)) = es_url s"
  by (auto simp: stream_ops split: prod.splits)

lemma urls_kept:
  "es_url (fst (ws_opened s)) = es_url s" "es_url (fst (ws_failed s)) = es_url s" "es_url (saw_sequence e s) = es_url s"
  "es_url (setSequence q s) = es_url s" "es_url (fst (ws_closed k s)) = es_url s" "es_url (fst (timer_fires pf t s)) = es_url s"
  by (auto simp: stream_ops split: prod.splits option.splits)

section \<open>The streams of the service\<close>

definition url_of_workspace :: "connection \<Rightarrow> utext \<Rightarrow> bool" where
  "url_of_workspace c u \<longleftrightarrow>
    (\<exists>base. u = base @ units ''/api/v1/events''
      @ (if rt_workspaceId c = [] then [] else units ''?workspaceId='' @ the (encodeURIComponent (rt_workspaceId c))))"

definition streams_ok :: "connection \<Rightarrow> bool" where
  "streams_ok c \<longleftrightarrow> (\<forall>i<length (rt_streams c). if rt_internal c = Some i then stream_alive (rt_streams c ! i) else stream_done (rt_streams c ! i))"

definition current_ok :: "connection \<Rightarrow> bool" where
  "current_ok c \<longleftrightarrow> (\<forall>i. rt_internal c = Some i \<longrightarrow> i < length (rt_streams c) \<and> url_of_workspace c (es_url (rt_streams c ! i)))"

definition safe_effect :: "platform \<Rightarrow> service_effect \<Rightarrow> bool" where
  "safe_effect pf e =
    (case e of
       SocketOpened u ps \<Rightarrow> ps = [] \<or> (\<exists>s. allowed_url pf (es_url s) \<and> u = connect_url s)
     | _ \<Rightarrow> True)"

definition safe :: "platform \<Rightarrow> connection \<Rightarrow> bool" where
  "safe pf c \<longleftrightarrow> list_all (safe_effect pf) (rt_effects c)"

definition conn_ok :: "platform \<Rightarrow> connection \<Rightarrow> bool" where
  "conn_ok pf c \<longleftrightarrow> streams_ok c \<and> current_ok c \<and> safe pf c"

lemma conn_okI: "streams_ok c \<Longrightarrow> current_ok c \<Longrightarrow> safe pf c \<Longrightarrow> conn_ok pf c"
  by (simp add: conn_ok_def)

text \<open>Only these fields matter.\<close>

lemma conn_ok_cong:
  assumes "rt_streams d = rt_streams c" "rt_internal d = rt_internal c" "rt_workspaceId d = rt_workspaceId c"
    and "rt_effects d = rt_effects c"
  shows "conn_ok pf d = conn_ok pf c"
  using assms by (simp add: conn_ok_def streams_ok_def current_ok_def safe_def url_of_workspace_def)

lemma workspace_cong: "rt_workspaceId d = rt_workspaceId c \<Longrightarrow> url_of_workspace d u = url_of_workspace c u"
  by (simp add: url_of_workspace_def)

lemma emit_effects_simps [simp]:
  "rt_streams (emit_effects es c) = rt_streams c" "rt_internal (emit_effects es c) = rt_internal c"
  "rt_workspaceId (emit_effects es c) = rt_workspaceId c" "rt_effects (emit_effects es c) = rt_effects c @ es"
  "rt_config (emit_effects es c) = rt_config c" "rt_subscribers (emit_effects es c) = rt_subscribers c"
  "rt_sequence (emit_effects es c) = rt_sequence c" "rt_statusSubscribers (emit_effects es c) = rt_statusSubscribers c"
  "rt_cachedEndpoints (emit_effects es c) = rt_cachedEndpoints c"
  by (simp_all add: emit_effects_def)

lemma workspace_emit [simp]: "url_of_workspace (emit_effects es c) u = url_of_workspace c u"
  by (simp add: url_of_workspace_def)

lemma emit_ok: "conn_ok pf c \<Longrightarrow> list_all (safe_effect pf) es \<Longrightarrow> conn_ok pf (emit_effects es c)"
  by (simp add: conn_ok_def streams_ok_def current_ok_def safe_def workspace_emit)

definition safe_out :: "platform \<Rightarrow> stream_effect list \<Rightarrow> bool" where
  "safe_out pf out \<longleftrightarrow> (\<forall>u ps. Socket u ps \<in> set out \<longrightarrow> safe_effect pf (SocketOpened u ps))"

lemma heard_safe: "safe_out pf out \<Longrightarrow> list_all (safe_effect pf) (concat (map (heard i c) out))"
proof (induction out)
  case (Cons e out)
  then show ?case by (cases e) (auto simp: safe_out_def list_all_iff safe_effect_def)
qed simp

lemma socket_safe: "safe_effect pf (SocketOpened (connect_url s) (protocols_of pf s))"
proof (cases "protocols_of pf s = []")
  case False
  then have "allowed_url pf (es_url s)" by (auto simp: protocols_of_def split: option.splits if_splits)
  then show ?thesis
    by (auto simp: safe_effect_def)
qed (simp add: safe_effect_def)

lemma status_safe: "safe_out pf (snd (setStatus x s))"
  by (simp add: setStatus_def safe_out_def)

lemma connect_safe: "safe_out pf (snd (connect pf s))"
  using socket_safe [of pf "fst (setStatus Connecting s)"]
  by (auto simp: connect_def setStatus_def safe_out_def Let_def split: prod.splits if_splits)

lemma closed_safe: "safe_out pf (snd (ws_closed k s))"
proof -
  have "snd (ws_closed k s) = snd (setStatus Disconnected (s\<lparr> es_sockets := (es_sockets s)[k := False] \<rparr>))"
    by (simp add: ws_closed_def split: prod.splits)
  then show ?thesis by (simp add: status_safe)
qed

lemma outs_safe:
  "safe_out pf (snd (ws_opened s))" "safe_out pf (snd (ws_failed s))" "safe_out pf (snd (close_stream s))"
  "safe_out pf (snd (timer_fires pf t s))" "safe_out pf (snd (new_event_stream pf u sec q))"
  by (simp_all add: ws_opened_def ws_failed_def close_stream_def Let_def status_safe timer_fires_def connect_safe new_event_stream_def)

section \<open>The operations of the service\<close>

lemma with_stream_simps [simp]:
  "rt_streams (with_stream i r c) = (rt_streams c)[i := fst r]" "rt_internal (with_stream i r c) = rt_internal c"
  "rt_workspaceId (with_stream i r c) = rt_workspaceId c" "rt_config (with_stream i r c) = rt_config c"
  "rt_subscribers (with_stream i r c) = rt_subscribers c"
  "rt_effects (with_stream i r c) = rt_effects c @ concat (map (heard i c) (snd r))"
  by (simp_all add: with_stream_def)

text \<open>A step of stream \<open>i\<close> that keeps its kind and its URL.\<close>

lemma stream_step_ok:
  assumes ok: "conn_ok pf c" and i: "i < length (rt_streams c)"
    and alive: "stream_alive (rt_streams c ! i) \<Longrightarrow> stream_alive (fst r)"
    and dn: "stream_done (rt_streams c ! i) \<Longrightarrow> stream_done (fst r)"
    and u: "es_url (fst r) = es_url (rt_streams c ! i)" and out: "safe_out pf (snd r)"
  shows "conn_ok pf (with_stream i r c)"
proof (rule conn_okI)
  show "streams_ok (with_stream i r c)"
    using ok i alive dn by (auto simp: conn_ok_def streams_ok_def nth_list_update)
  show "current_ok (with_stream i r c)"
    using ok i u by (auto simp: conn_ok_def current_ok_def nth_list_update url_of_workspace_def)
  show "safe pf (with_stream i r c)"
    using ok heard_safe [OF out] by (simp add: conn_ok_def safe_def)
qed

lemma closeEventStream_simps [simp]:
  "rt_internal (closeEventStream c) = None" "rt_workspaceId (closeEventStream c) = rt_workspaceId c"
  "rt_config (closeEventStream c) = rt_config c" "rt_subscribers (closeEventStream c) = rt_subscribers c"
  by (simp_all add: closeEventStream_def split: option.splits)

lemma close_ok:
  assumes ok: "conn_ok pf c"
  shows "conn_ok pf (closeEventStream c)"
proof (cases "rt_internal c")
  case None
  then show ?thesis using ok by (simp add: closeEventStream_def)
next
  case (Some i)
  have i: "i < length (rt_streams c)" and a: "stream_alive (rt_streams c ! i)"
    using ok Some by (auto simp: conn_ok_def current_ok_def streams_ok_def)
  show ?thesis
  proof (rule conn_okI)
    show "streams_ok (closeEventStream c)"
      using ok Some i close_done [OF a] by (auto simp: conn_ok_def streams_ok_def closeEventStream_def nth_list_update)
    show "current_ok (closeEventStream c)" by (simp add: current_ok_def)
    show "safe pf (closeEventStream c)"
      using ok Some heard_safe [OF outs_safe(3)] by (simp add: conn_ok_def safe_def closeEventStream_def)
  qed
qed

lemma not_open: "conn_ok pf c \<Longrightarrow> \<not> internal_open c \<Longrightarrow> rt_internal c = None"
  by (auto simp: internal_open_def conn_ok_def current_ok_def streams_ok_def stream_alive_def split: option.splits)

lemma new_url: "es_url (fst (new_event_stream pf u sec q)) = u"
  by (simp add: new_event_stream_def connect_url_kept)

lemma ws_url_workspace: "ws_url c = Some u \<Longrightarrow> url_of_workspace c u"
  by (auto simp: ws_url_def url_of_workspace_def Let_def units_def split: if_splits)

lemma ensure_opened:
  assumes "conn_ok pf c" "rc_baseUrl (rt_config c) \<noteq> []" "\<not> internal_open c" "ws_url c = Some u"
  shows "ensureEventStream pf c =
    emit_effects (map (\<lambda>f. StatusTo f (es_currentStatus (fst (new_event_stream pf u (rc_agentSecret (rt_config c)) (rt_sequence c))))) (rt_statusSubscribers c))
      (emit_effects (concat (map (heard (length (rt_streams c)) c) (snd (new_event_stream pf u (rc_agentSecret (rt_config c)) (rt_sequence c)))))
        (c\<lparr> rt_streams := rt_streams c @ [fst (new_event_stream pf u (rc_agentSecret (rt_config c)) (rt_sequence c))] \<rparr>)
        \<lparr> rt_internal := Some (length (rt_streams c)) \<rparr>)"
  using assms by (simp add: ensureEventStream_def Let_def split: prod.splits)

lemma ensure_other:
  "rc_baseUrl (rt_config c) = [] \<or> internal_open c \<or> ws_url c = None \<Longrightarrow> ensureEventStream pf c = c"
  by (auto simp: ensureEventStream_def)

lemma ensure_ok:
  assumes ok: "conn_ok pf c"
  shows "conn_ok pf (ensureEventStream pf c)"
proof (cases "rc_baseUrl (rt_config c) = [] \<or> internal_open c \<or> ws_url c = None")
  case True
  then show ?thesis using ok by (simp add: ensure_other)
next
  case False
  then obtain u where b: "rc_baseUrl (rt_config c) \<noteq> []" and n: "\<not> internal_open c" and u: "ws_url c = Some u" by auto
  have i: "rt_internal c = None" by (rule not_open [OF ok n])
  define r where "r = new_event_stream pf u (rc_agentSecret (rt_config c)) (rt_sequence c)"
  have a: "stream_alive (fst r)" and url: "es_url (fst r) = u" and out: "safe_out pf (snd r)"
    by (simp_all add: r_def new_stream_alive new_url outs_safe)
  note e = ensure_opened [OF ok b n u, folded r_def]
  show ?thesis
  proof (rule conn_okI)
    show "streams_ok (ensureEventStream pf c)"
      using ok a i by (auto simp: e conn_ok_def streams_ok_def nth_append less_Suc_eq)
    show "current_ok (ensureEventStream pf c)"
      using ws_url_workspace [OF u] url workspace_cong [of "ensureEventStream pf c" c u] by (simp add: e current_ok_def)
    have "list_all (safe_effect pf) (map (\<lambda>f. StatusTo f (es_currentStatus (fst r))) (rt_statusSubscribers c))"
      by (simp add: list_all_iff safe_effect_def)
    then show "safe pf (ensureEventStream pf c)"
      using ok heard_safe [OF out] by (simp add: e conn_ok_def safe_def)
  qed
qed

lemma ensure_simps [simp]:
  "rt_config (ensureEventStream pf c) = rt_config c" "rt_workspaceId (ensureEventStream pf c) = rt_workspaceId c"
  "rt_subscribers (ensureEventStream pf c) = rt_subscribers c"
  by (simp_all add: ensureEventStream_def Let_def split: option.splits prod.splits)

lemma refresh_ok: "conn_ok pf c \<Longrightarrow> conn_ok pf (refreshEventStreamAfterConfig pf c)"
  by (simp add: refreshEventStreamAfterConfig_def Let_def close_ok ensure_ok)

lemma workspace_ok:
  assumes "conn_ok pf c" "rt_internal c = None"
  shows "conn_ok pf (c\<lparr> rt_workspaceId := w \<rparr>)"
  using assms by (simp add: conn_ok_def streams_ok_def current_ok_def safe_def)

lemma cong_ok:
  assumes "conn_ok pf c" "rt_streams d = rt_streams c" "rt_internal d = rt_internal c" "rt_workspaceId d = rt_workspaceId c"
    and "rt_effects d = rt_effects c"
  shows "conn_ok pf d"
  using conn_ok_cong [OF assms(2-)] assms(1) by simp

lemma initialize_ok:
  assumes ok: "conn_ok pf c"
  shows "conn_ok pf (initialize pf u s c)"
proof -
  have "conn_ok pf (c\<lparr> rt_config := x, rt_cachedEndpoints := e \<rparr>)" "conn_ok pf (c\<lparr> rt_config := x \<rparr>)" for x e
    by (rule cong_ok [OF ok]; simp)+
  moreover have "list_all (safe_effect pf) [RejectedUrl u]" by (simp add: safe_effect_def)
  ultimately show ?thesis
    using ok unfolding initialize_def Let_def invalidateEndpoints_def by (auto intro!: refresh_ok emit_ok)
qed

lemma heard_workspace [simp]: "heard i (c\<lparr> rt_workspaceId := w \<rparr>) = heard i c"
proof
  show "heard i (c\<lparr> rt_workspaceId := w \<rparr>) e = heard i c e" for e by (cases e) simp_all
qed

lemma close_workspace: "closeEventStream (c\<lparr> rt_workspaceId := w \<rparr>) = (closeEventStream c)\<lparr> rt_workspaceId := w \<rparr>"
  by (simp add: closeEventStream_def with_stream_def emit_effects_def split: option.splits)

lemma setWorkspace_ok: "conn_ok pf c \<Longrightarrow> conn_ok pf (setWorkspace pf w c)"
  unfolding setWorkspace_def Let_def close_workspace
  by (auto intro!: ensure_ok workspace_ok close_ok)

lemma subscribe_ok:
  assumes "conn_ok pf c"
  shows "conn_ok pf (subscribeEvents pf w f c)"
proof -
  have "conn_ok pf (c\<lparr> rt_subscribers := x \<rparr>)" for x by (rule cong_ok [OF assms]) simp_all
  then show ?thesis
    unfolding subscribeEvents_def Let_def by (auto intro!: ensure_ok workspace_ok close_ok)
qed

lemma unsubscribe_ok:
  assumes "conn_ok pf c"
  shows "conn_ok pf (unsubscribe w f c)"
proof -
  have "conn_ok pf (c\<lparr> rt_subscribers := x \<rparr>)" for x by (rule cong_ok [OF assms]) simp_all
  then show ?thesis
    using assms unfolding unsubscribe_def Let_def by (auto intro!: close_ok split: option.splits)
qed

lemma eager_ok: "conn_ok pf c \<Longrightarrow> conn_ok pf (eagerFetchEndpoints c)"
  by (erule cong_ok) (simp_all add: eagerFetchEndpoints_def fetchEndpoints_def)

lemma finish_ok: "conn_ok pf c \<Longrightarrow> conn_ok pf (finishBootstrap pf c)"
  unfolding finishBootstrap_def by (intro refresh_ok eager_ok) (erule cong_ok; simp)

lemma invalidate_ok: "conn_ok pf c \<Longrightarrow> conn_ok pf (invalidateEndpoints c)"
  by (erule cong_ok) (simp_all add: invalidateEndpoints_def)

lemma ensured_ok: "conn_ok pf c \<Longrightarrow> conn_ok pf (ensured_secret pf s c)"
  unfolding ensured_secret_def by (auto intro!: finish_ok invalidate_ok initialize_ok)

lemma boot_ok: "conn_ok pf c \<Longrightarrow> conn_ok pf (boot_secret pf u s c)"
  unfolding boot_secret_def by (intro finish_ok invalidate_ok initialize_ok)

lemma only_base_ok: "conn_ok pf c \<Longrightarrow> conn_ok pf (only_base u c)"
  by (erule cong_ok) (simp_all add: only_base_def)

lemma default_ok: "conn_ok pf c \<Longrightarrow> conn_ok pf (default_base w c)"
  by (simp add: default_base_def only_base_ok)

lemma boot_phase_ok: "conn_ok pf c \<Longrightarrow> conn_ok pf (c\<lparr> rt_boot := b \<rparr>)"
  by (erule cong_ok) simp_all

lemmas boot_oks = finish_ok ensured_ok boot_ok default_ok boot_phase_ok

lemma config_answered_ok: "conn_ok pf c \<Longrightarrow> conn_ok pf (config_answered pf w a c)"
  unfolding config_answered_def by (auto intro!: boot_oks split: option.splits)

lemma secret_answered_ok: "conn_ok pf c \<Longrightarrow> conn_ok pf (secret_answered pf s c)"
  unfolding secret_answered_def by (auto intro!: boot_oks split: boot_phase.splits bool.splits)

lemma new_connection_ok: "conn_ok pf new_connection"
  by (simp add: conn_ok_def streams_ok_def current_ok_def safe_def new_connection_def)

lemma try_init_ok: "conn_ok pf c \<Longrightarrow> conn_ok pf (fst (tryInitFromWindow pf w c))"
  unfolding tryInitFromWindow_def Let_def by (auto intro!: initialize_ok only_base_ok split: option.splits)

lemma start_ok: "conn_ok pf (start_service pf w)"
  using try_init_ok [OF new_connection_ok, of pf w]
  unfolding start_service_def Let_def by (auto intro!: boot_oks eager_ok split: option.splits prod.splits)

lemma refreshes_ok: "conn_ok pf c \<Longrightarrow> conn_ok pf ((refreshEventStreamAfterConfig pf ^^ n) c)"
  by (induction n) (auto intro: refresh_ok)

lemma endpoints_ok:
  assumes ok: "conn_ok pf c"
  shows "conn_ok pf (endpoints_answered pf a c)"
proof -
  have "conn_ok pf (c\<lparr> rt_endpointsPromise := None, rt_eager_waiting := 0 \<rparr>)" by (rule cong_ok [OF ok]) simp_all
  moreover have "conn_ok pf (c\<lparr> rt_endpointsPromise := None, rt_eager_waiting := 0, rt_cachedEndpoints := x \<rparr>)" for x
    by (rule cong_ok [OF ok]) simp_all
  ultimately show ?thesis
    using ok unfolding endpoints_answered_def Let_def
    by (auto intro!: refreshes_ok emit_ok simp: list_all_iff safe_effect_def split: option.splits)
qed

lemma message_ok:
  assumes ok: "conn_ok pf c" and i: "i < length (rt_streams c)"
  shows "conn_ok pf (message_arrives i e c)"
proof (cases "rt_internal c = Some i")
  case True
  define s where "s = (case em_sequence e of Some n \<Rightarrow> n | None \<Rightarrow> rt_sequence c)"
  have "conn_ok pf (with_stream i (setSequence s (saw_sequence e (rt_streams c ! i)), []) c)"
    by (intro stream_step_ok [OF ok i]) (simp_all add: saw_keeps set_keeps urls_kept safe_out_def)
  then have "conn_ok pf (c\<lparr> rt_streams := (rt_streams c)[i := setSequence s (saw_sequence e (rt_streams c ! i))], rt_sequence := s \<rparr>)"
    by (rule cong_ok) simp_all
  then show ?thesis
    using True by (auto simp: message_arrives_def Let_def s_def [symmetric] list_all_iff safe_effect_def intro!: emit_ok)
next
  case False
  have "conn_ok pf (with_stream i (saw_sequence e (rt_streams c ! i), []) c)"
    by (intro stream_step_ok [OF ok i]) (simp_all add: saw_keeps urls_kept safe_out_def)
  then have "conn_ok pf (c\<lparr> rt_streams := (rt_streams c)[i := saw_sequence e (rt_streams c ! i)] \<rparr>)" by (rule cong_ok) simp_all
  then show ?thesis using False by (simp add: message_arrives_def Let_def)
qed

lemma step_ok:
  assumes ok: "conn_ok pf c"
  shows "conn_ok pf (rt_step pf c e)"
proof (cases e)
  case (FetchEndpoints x5)
  then show ?thesis by (auto intro!: cong_ok [OF ok] simp: fetchEndpoints_def)
next
  case (Configure x8)
  then show ?thesis by (auto intro!: cong_ok [OF ok] simp: configure_def)
next
  case (SetAgentSecret x9)
  then show ?thesis by (auto intro!: cong_ok [OF ok] simp: setAgentSecret_def)
next
  case (OnStatus f)
  have "conn_ok pf (c\<lparr> rt_statusSubscribers := x \<rparr>)" for x by (rule cong_ok [OF ok]) simp_all
  then show ?thesis using OnStatus by (simp add: onStatusChange_def emit_ok safe_effect_def)
next
  case (DisposeStatus f)
  then show ?thesis by (auto intro!: cong_ok [OF ok] simp: dispose_status_def)
next
  case EagerContinues
  have "conn_ok pf (c\<lparr> rt_eager_ready := x \<rparr>)" for x by (rule cong_ok [OF ok]) simp_all
  then show ?thesis using EagerContinues ok by (auto simp: eager_continues_def intro!: refresh_ok)
next
  case (SocketOpen i k)
  then show ?thesis
    using ok by (auto simp: socket_live_def opened_keeps urls_kept outs_safe intro!: stream_step_ok)
next
  case (SocketMessage i k m)
  then show ?thesis using ok by (auto simp: socket_live_def intro!: message_ok)
next
  case (SocketClose i k)
  then show ?thesis
    using ok by (auto simp: socket_live_def closed_keeps urls_kept closed_safe intro!: stream_step_ok)
next
  case (SocketError i k)
  then show ?thesis
    using ok by (auto simp: socket_live_def failed_keeps urls_kept outs_safe intro!: stream_step_ok)
next
  case (TimerFires i k)
  then show ?thesis
  proof (cases "timer_live i k c")
    case True
    then have i: "i < length (rt_streams c)" and t: "k \<in> fst ` set (es_timers (rt_streams c ! i))"
      by (simp_all add: timer_live_def)
    have "conn_ok pf (with_stream i (timer_fires pf k (rt_streams c ! i)) c)"
      using timer_keeps(1) [OF t, of pf] timer_keeps(2) [OF t] by (intro stream_step_ok [OF ok i]) (simp_all add: urls_kept outs_safe)
    then show ?thesis using TimerFires True by simp
  qed (use ok in simp)
qed (use ok in \<open>auto simp: config_answered_ok secret_answered_ok endpoints_ok invalidate_ok initialize_ok setWorkspace_ok
  subscribe_ok unsubscribe_ok reconnectEventStream_def intro!: ensure_ok close_ok\<close>)

lemma run_ok: "conn_ok pf (rt_run pf w es)"
  unfolding rt_run_def by (induction es rule: rev_induct) (simp_all add: start_ok step_ok)

section \<open>The answer to a pending request for the endpoints\<close>

text \<open>No step but its answer ends the request, replaces it, or forgets a call that waits for it.\<close>

definition waits_for :: "utext \<Rightarrow> nat \<Rightarrow> connection \<Rightarrow> bool" where
  "waits_for q n c \<longleftrightarrow> rt_endpointsPromise c = Some q \<and> n \<le> rt_eager_waiting c"

lemma waits_for_cong:
  "rt_endpointsPromise d = rt_endpointsPromise c \<Longrightarrow> rt_eager_waiting d = rt_eager_waiting c \<Longrightarrow> waits_for q n d = waits_for q n c"
  by (simp add: waits_for_def)

lemma waits_for_emit [simp]: "waits_for q n (emit_effects es c) = waits_for q n c"
  by (simp add: waits_for_def emit_effects_def)

lemma waits_for_with [simp]: "waits_for q n (with_stream i r c) = waits_for q n c"
  by (simp add: waits_for_def with_stream_def emit_effects_def)

lemma waits_for_close [simp]: "waits_for q n (closeEventStream c) = waits_for q n c"
  by (simp add: waits_for_def closeEventStream_def with_stream_def emit_effects_def split: option.splits)

lemma waits_for_ensure [simp]: "waits_for q n (ensureEventStream pf c) = waits_for q n c"
  by (simp add: waits_for_def ensureEventStream_def emit_effects_def Let_def split: option.splits prod.splits)

lemma waits_for_refresh [simp]: "waits_for q n (refreshEventStreamAfterConfig pf c) = waits_for q n c"
  by (simp add: refreshEventStreamAfterConfig_def Let_def)

lemma waits_for_fields [simp]:
  "waits_for q n (c\<lparr> rt_workspaceId := w \<rparr>) = waits_for q n c" "waits_for q n (c\<lparr> rt_subscribers := x \<rparr>) = waits_for q n c"
  "waits_for q n (c\<lparr> rt_boot := b \<rparr>) = waits_for q n c" "waits_for q n (c\<lparr> rt_config := f \<rparr>) = waits_for q n c"
  "waits_for q n (c\<lparr> rt_cachedEndpoints := ep \<rparr>) = waits_for q n c" "waits_for q n (c\<lparr> rt_eager_ready := k \<rparr>) = waits_for q n c"
  "waits_for q n (c\<lparr> rt_statusSubscribers := fs \<rparr>) = waits_for q n c" "waits_for q n (c\<lparr> rt_streams := ss \<rparr>) = waits_for q n c"
  "waits_for q n (c\<lparr> rt_sequence := k \<rparr>) = waits_for q n c"
  by (simp_all add: waits_for_def)

lemma waits_for_initialize [simp]: "waits_for q n (initialize pf u s c) = waits_for q n c"
  by (simp add: initialize_def invalidateEndpoints_def Let_def)

lemma waits_for_fetch: "waits_for q n c \<Longrightarrow> waits_for q n (fetchEndpoints force c)"
  by (simp add: fetchEndpoints_def waits_for_def)

lemma waits_for_eager: "waits_for q n c \<Longrightarrow> waits_for q n (eagerFetchEndpoints c)"
  by (auto simp: eagerFetchEndpoints_def fetchEndpoints_def waits_for_def)

lemma waits_for_finish: "waits_for q n c \<Longrightarrow> waits_for q n (finishBootstrap pf c)"
  by (simp add: finishBootstrap_def waits_for_eager)

lemma waits_for_boot:
  assumes "waits_for q n c"
  shows "waits_for q n (ensured_secret pf s c)" "waits_for q n (boot_secret pf u s c)" "waits_for q n (finishBootstrap pf (default_base w c))"
  using assms by (auto simp: ensured_secret_def boot_secret_def default_base_def only_base_def invalidateEndpoints_def intro!: waits_for_finish)

lemma step_waits:
  assumes "waits_for q n c" and "\<And>status body. e \<noteq> EndpointsAnswered status body"
  shows "waits_for q n (rt_step pf c e)"
proof (cases e)
  case (ConfigAnswered w answer)
  then show ?thesis using assms by (auto simp: config_answered_def intro: waits_for_boot split: option.splits)
next
  case (SecretAnswered s)
  then show ?thesis using assms by (auto simp: secret_answered_def intro: waits_for_boot split: boot_phase.splits bool.splits)
next
  case (SocketMessage i k e)
  then show ?thesis using assms by (simp add: message_arrives_def Let_def)
next
  case (Unsubscribe w f)
  then show ?thesis using assms by (simp add: unsubscribe_def Let_def split: option.splits)
next
  case (SetWorkspace w)
  then show ?thesis using assms by (simp add: setWorkspace_def Let_def)
next
  case (Subscribe w f)
  then show ?thesis using assms by (simp add: subscribeEvents_def Let_def)
next
  case (FetchEndpoints b)
  then show ?thesis using assms by (simp add: waits_for_fetch)
qed (use assms in \<open>auto simp: eager_continues_def configure_def setAgentSecret_def onStatusChange_def dispose_status_def
  reconnectEventStream_def invalidateEndpoints_def\<close>)

lemma run_waits:
  "waits_for q n c \<Longrightarrow> \<forall>e\<in>set ms. \<forall>status body. e \<noteq> EndpointsAnswered status body \<Longrightarrow> waits_for q n (foldl (rt_step pf) c ms)"
  by (induction ms rule: rev_induct) (auto intro!: step_waits)

lemma close_keeps [simp]:
  "rt_cachedEndpoints (closeEventStream c) = rt_cachedEndpoints c" "rt_sequence (closeEventStream c) = rt_sequence c"
  by (simp_all add: closeEventStream_def with_stream_def split: option.splits)

lemma refresh_simps:
  "rt_config (refreshEventStreamAfterConfig pf c) = rt_config c" "rt_workspaceId (refreshEventStreamAfterConfig pf c) = rt_workspaceId c"
  "rt_subscribers (refreshEventStreamAfterConfig pf c) = rt_subscribers c"
  "rt_cachedEndpoints (refreshEventStreamAfterConfig pf c) = rt_cachedEndpoints c"
  by (simp_all add: refreshEventStreamAfterConfig_def ensureEventStream_def Let_def split: option.splits prod.splits)

lemma refreshes_simps:
  "rt_config ((refreshEventStreamAfterConfig pf ^^ n) c) = rt_config c" "rt_workspaceId ((refreshEventStreamAfterConfig pf ^^ n) c) = rt_workspaceId c"
  "rt_subscribers ((refreshEventStreamAfterConfig pf ^^ n) c) = rt_subscribers c"
  "rt_cachedEndpoints ((refreshEventStreamAfterConfig pf ^^ n) c) = rt_cachedEndpoints c"
  by (induction n) (simp_all add: refresh_simps)

lemma ws_url_cong:
  "rt_config d = rt_config c \<Longrightarrow> rt_workspaceId d = rt_workspaceId c \<Longrightarrow> rt_cachedEndpoints d = rt_cachedEndpoints c \<Longrightarrow> ws_url d = ws_url c"
  by (simp only: ws_url_def ws_base_def)

lemma connect_secret: "es_agentSecret (fst (connect pf s)) = es_agentSecret s"
  by (auto simp: stream_ops split: prod.splits)

text \<open>A refresh with subscribers leaves a stream with the URL and the secret that the service has at the time.\<close>

lemma refresh_moves:
  assumes ok: "conn_ok pf c" and b: "rc_baseUrl (rt_config c) \<noteq> []" and s: "rt_subscribers c \<noteq> []" and u: "ws_url c = Some u"
  defines "d \<equiv> refreshEventStreamAfterConfig pf c"
  shows "\<exists>i. rt_internal d = Some i \<and> es_url (rt_streams d ! i) = u \<and> es_agentSecret (rt_streams d ! i) = rc_agentSecret (rt_config c)"
proof -
  have d: "d = ensureEventStream pf (closeEventStream c)" using b s by (simp add: d_def refreshEventStreamAfterConfig_def Let_def)
  have u': "ws_url (closeEventStream c) = Some u" using u ws_url_cong [of "closeEventStream c" c] by simp
  have n: "\<not> internal_open (closeEventStream c)" by (simp add: internal_open_def)
  show ?thesis
    unfolding d ensure_opened [OF close_ok [OF ok] _ n u', simplified, OF b]
    by (simp add: nth_append new_url) (simp add: new_event_stream_def connect_secret)
qed

lemma answer_moves:
  fixes ep :: "utext \<times> utext"
  assumes ok: "conn_ok pf c" and w: "waits_for q n c"
  defines "d \<equiv> endpoints_answered pf (Some ep) c"
  shows "rt_config d = rt_config c \<and> rt_cachedEndpoints d = Some ep"
    and "rc_baseUrl (rt_config c) \<noteq> [] \<Longrightarrow> rt_subscribers c \<noteq> [] \<Longrightarrow> 0 < n \<Longrightarrow> encodeURIComponent (rt_workspaceId c) \<noteq> None \<Longrightarrow>
      \<exists>i rest. rt_internal d = Some i \<and> es_url (rt_streams d ! i) = ws_base d @ rest
        \<and> es_agentSecret (rt_streams d ! i) = rc_agentSecret (rt_config c)"
proof -
  define k where "k = rt_eager_waiting c"
  define c1 where "c1 = c\<lparr> rt_endpointsPromise := None, rt_eager_waiting := 0, rt_cachedEndpoints := Some ep \<rparr>"
  have d: "d = (refreshEventStreamAfterConfig pf ^^ k) c1"
    using w by (simp add: d_def endpoints_answered_def waits_for_def k_def c1_def Let_def)
  have c1: "rt_config c1 = rt_config c" "rt_subscribers c1 = rt_subscribers c" "rt_workspaceId c1 = rt_workspaceId c"
    "rt_cachedEndpoints c1 = Some ep" by (simp_all add: c1_def)
  have ok1: "conn_ok pf c1" by (rule cong_ok [OF ok]) (simp_all add: c1_def)
  show "rt_config d = rt_config c \<and> rt_cachedEndpoints d = Some ep" by (simp add: d refreshes_simps c1)
  assume b: "rc_baseUrl (rt_config c) \<noteq> []" and s: "rt_subscribers c \<noteq> []" and n: "0 < n"
    and e: "encodeURIComponent (rt_workspaceId c) \<noteq> None"
  have "0 < k" using n w by (simp add: waits_for_def k_def)
  then obtain m where m: "k = Suc m" using gr0_implies_Suc by blast
  define x where "x = (refreshEventStreamAfterConfig pf ^^ m) c1"
  have x: "rt_config x = rt_config c" "rt_subscribers x = rt_subscribers c" "rt_workspaceId x = rt_workspaceId c"
    "rt_cachedEndpoints x = Some ep" by (simp_all add: x_def refreshes_simps c1)
  have dx: "d = refreshEventStreamAfterConfig pf x" by (simp add: d m x_def)
  have "ws_url x \<noteq> None" using e x by (simp add: ws_url_def Let_def)
  then obtain u where u: "ws_url x = Some u" by blast
  have wb: "ws_base d = ws_base x" by (simp only: ws_base_def dx refresh_simps)
  have "\<exists>rest. u = ws_base x @ rest" using u by (auto simp: ws_url_def Let_def split: if_splits)
  then show "\<exists>i rest. rt_internal d = Some i \<and> es_url (rt_streams d ! i) = ws_base d @ rest
      \<and> es_agentSecret (rt_streams d ! i) = rc_agentSecret (rt_config c)"
    using refresh_moves [of pf x u] refreshes_ok [OF ok1, of m] b s u x unfolding wb dx [symmetric] x_def [symmetric] by auto
qed

section \<open>Subscribers\<close>

lemma ensure_gives_stream:
  assumes ok: "conn_ok pf c" and "rc_baseUrl (rt_config c) \<noteq> []" "ws_url c \<noteq> None"
  shows "rt_internal (ensureEventStream pf c) \<noteq> None"
proof (cases "internal_open c")
  case True
  then show ?thesis by (auto simp: ensureEventStream_def internal_open_def split: option.splits)
next
  case False
  then show ?thesis using assms(2, 3) by (auto simp: ensure_opened [OF ok])
qed

lemma subscribe_workspace:
  "w \<noteq> [] \<Longrightarrow> rt_workspaceId (subscribeEvents pf w f c) = w \<and> rt_config (subscribeEvents pf w f c) = rt_config c
    \<and> (\<exists>s. jm_get (rt_subscribers (subscribeEvents pf w f c)) (subscriber_key w) = Some s \<and> f \<in> set s)"
  by (simp add: subscribeEvents_def Let_def set_insert_def)

lemma subscribe_gives_stream:
  assumes ok: "conn_ok pf c" and b: "rc_baseUrl (rt_config c) \<noteq> []" and w: "w \<noteq> []" "encodeURIComponent w = Some x"
  shows "rt_internal (subscribeEvents pf w f c) \<noteq> None"
proof -
  define d where "d = (let k = subscriber_key w;
         subs = (case jm_get (rt_subscribers c) k of Some s \<Rightarrow> s | None \<Rightarrow> []);
         c1 = c\<lparr> rt_subscribers := jm_set k (set_insert f subs) (rt_subscribers c) \<rparr>
     in (if rt_workspaceId c1 \<noteq> w then (closeEventStream c1)\<lparr> rt_workspaceId := w \<rparr> else c1))"
  have s: "subscribeEvents pf w f c = ensureEventStream pf d" using w by (simp add: subscribeEvents_def d_def Let_def)
  have "conn_ok pf (c\<lparr> rt_subscribers := x \<rparr>)" for x by (rule cong_ok [OF ok]) simp_all
  then have "conn_ok pf d" unfolding d_def Let_def by (auto intro!: workspace_ok close_ok)
  moreover have "rt_workspaceId d = w" "rt_config d = rt_config c" by (auto simp: d_def Let_def)
  ultimately show ?thesis
    unfolding s using b w by (intro ensure_gives_stream) (auto simp: ws_url_def Let_def)
qed

lemma message_heard:
  assumes "rt_internal c = Some i" "jm_get (rt_subscribers c) k = Some s" "f \<in> set s"
  shows "EventTo f e \<in> set (drop (length (rt_effects c)) (rt_effects (message_arrives i e c)))"
proof -
  have "f \<in> set (concat (jm_values (rt_subscribers c)))"
    using assms(2, 3) by (force dest: map_of_SomeD)
  then show ?thesis using assms(1) by (auto simp: message_arrives_def Let_def)
qed

section \<open>Requests\<close>

text \<open>An attempt after which the loop makes another one, and what the last one gives.\<close>

definition try_again :: "utext \<Rightarrow> attempt \<Rightarrow> bool" where
  "try_again fallback a \<longleftrightarrow>
    (case attempt_result fallback (at_answer a) of
       Inl e \<Rightarrow> isTransient e \<and> \<not> at_aborted a \<and> \<not> at_backoff_aborted a
     | Inr v \<Rightarrow> False)"

definition final_result :: "utext \<Rightarrow> bool \<Rightarrow> attempt \<Rightarrow> kairo_error + json option" where
  "final_result fallback is_last a =
    (case attempt_result fallback (at_answer a) of
       Inr v \<Rightarrow> Inr v
     | Inl e \<Rightarrow> if isTransient e \<and> \<not> is_last \<and> \<not> at_aborted a
               then Inl (new_kairo_error ''timeout'' ''Request was aborted during backoff'') else Inl e)"

definition fetches :: "request_effect list \<Rightarrow> nat" where
  "fetches es = length (filter (\<lambda>e. e = Fetch) es)"

fun pauses :: "request_effect list \<Rightarrow> nat list" where
  "pauses [] = []"
| "pauses (Pause n # es) = n # pauses es"
| "pauses (_ # es) = pauses es"

lemma pauses_append [simp]: "pauses (xs @ ys) = pauses xs @ pauses ys"
  by (induction xs rule: pauses.induct) simp_all

definition tries :: "utext \<Rightarrow> int \<Rightarrow> attempt list \<Rightarrow> nat" where
  "tries fallback m as = length (takeWhile (try_again fallback) (take (nat m) as))"

lemma tries_Cons:
  "tries f m (a # as) = (if 0 < m \<and> try_again f a then Suc (tries f (m - 1) as) else 0)"
  by (cases "nat m") (auto simp: tries_def nat_diff_distrib)

lemma loop_result:
  "n \<le> m \<Longrightarrow> snd (request_loop f m n as) =
    (if tries f (m - n) as < length as
     then Some (final_result f (n + int (tries f (m - n) as) = m) (as ! tries f (m - n) as)) else None)"
proof (induction as arbitrary: n)
  case (Cons a as)
  show ?case
  proof (cases "n < m \<and> try_again f a")
    case True
    then obtain e where "attempt_result f (at_answer a) = Inl e" "isTransient e" "\<not> at_aborted a" "\<not> at_backoff_aborted a"
      by (auto simp: try_again_def split: sum.splits)
    then show ?thesis
      using True Cons.IH [of "n + 1"] by (auto simp: tries_Cons Let_def algebra_simps)
  next
    case False
    then show ?thesis
      using Cons.prems by (auto simp: tries_Cons final_result_def try_again_def Let_def split: sum.splits)
  qed
qed (simp add: tries_def)

lemma loop_effects:
  "n \<le> m \<Longrightarrow> fetches (fst (request_loop f m n as)) = Suc (tries f (m - n) as)
    \<and> take (tries f (m - n) as) (pauses (fst (request_loop f m n as))) = map (\<lambda>k. backoff_ms (n + int k)) [0..<tries f (m - n) as]"
proof (induction as arbitrary: n)
  case (Cons a as)
  show ?case
  proof (cases "n < m \<and> try_again f a")
    case True
    then obtain e where "attempt_result f (at_answer a) = Inl e" "isTransient e" "\<not> at_aborted a" "\<not> at_backoff_aborted a"
      by (auto simp: try_again_def split: sum.splits)
    then show ?thesis
      using True Cons.IH [of "n + 1"]
      by (simp add: tries_Cons Let_def fetches_def upt_rec [of 0 "Suc _"] map_Suc_upt [symmetric] algebra_simps del: upt_Suc)
  next
    case False
    then show ?thesis
      using Cons.prems by (auto simp: tries_Cons fetches_def try_again_def Let_def split: sum.splits)
  qed
qed (simp add: tries_def fetches_def)

end
