(* ===== verification/RuntimeProperties.thy ===== *)
theory RuntimeProperties
  imports RuntimeFacts
begin

text \<open>
  The properties of the connection to the runtime agent: event streams, the secret, requests and the trust in workspaces.
\<close>

section \<open>A sample platform\<close>

text \<open>The parser takes every text for a URL of this machine, but for those that begin with \<open>x\<close>.\<close>

definition sample_platform :: platform where
  "sample_platform = \<lparr> pf_parse = (\<lambda>u. Some \<lparr> pu_hostname = (if take 1 u = units ''x'' then ''evil.example'' else ''127.0.0.1''),
      pu_port = ''1'', pu_protocol = ''http:'' \<rparr>), pf_origin = None, pf_refuses = (\<lambda>u ps. False) \<rparr>"

definition sample_window :: window_env where
  "sample_window = \<lparr> we_agentBaseUrl = Some (units ''http://a''), we_getSecret = Some (units ''s''), we_agentUrl = None,
      we_fromQuery = None, we_injected = None, we_agentPort = None \<rparr>"

definition sample_endpoints :: "string \<Rightarrow> json option" where
  "sample_endpoints h = Some (JObj [(units ''http'', JStr (units h)), (units ''events'', JStr (units h))])"

section \<open>Event streams\<close>

text \<open>A subscription, a second agent, and an answer of the first one; the state in which this ends.\<close>

definition late_endpoints :: "connection_event list" where
  "late_endpoints = [Subscribe (units ''w'') 0, Initialize (units ''http://b'') (units ''t''),
     EndpointsAnswered 200 (sample_endpoints ''a'')]"

definition sample_stream :: "string \<Rightarrow> string \<Rightarrow> bool \<Rightarrow> link_status \<Rightarrow> event_stream" where
  "sample_stream u s closed status = \<lparr> es_url = units u, es_agentSecret = Some (units s), es_sockets = [True], es_ws = Some 0,
      es_backoffMs = 250, es_closedByCaller = closed, es_timers = [], es_next_timer = 0, es_reconnectTimer = None,
      es_currentStatus = status, es_sequence = 0 \<rparr>"

lemma late_run:
  "rt_run sample_platform sample_window late_endpoints =
    \<lparr> rt_config = \<lparr> rc_baseUrl = units ''http://b'', rc_csrfToken = None, rc_agentSecret = Some (units ''t''),
        rc_defaultTimeoutMs = None, rc_maxRetries = None \<rparr>,
      rt_workspaceId = units ''w'', rt_subscribers = [(units ''w'', [0])], rt_cachedEndpoints = Some (units ''a'', units ''a''),
      rt_endpointsPromise = None, rt_eager_waiting = 0, rt_eager_ready = 0, rt_boot = NotBooting,
      rt_streams =
        [sample_stream ''ws://a/api/v1/events?workspaceId=w'' ''s'' True Closed,
         sample_stream ''ws://b/api/v1/events?workspaceId=w'' ''t'' True Closed,
         sample_stream ''ws://a/api/v1/events?workspaceId=w'' ''t'' False Connecting],
      rt_internal = Some 2, rt_statusSubscribers = [], rt_sequence = 0,
      rt_effects =
        [SocketOpened (units ''ws://a/api/v1/events?workspaceId=w'') [KAIRO_WS_SUBPROTOCOL, units ''s''],
         SocketOpened (units ''ws://b/api/v1/events?workspaceId=w'') [KAIRO_WS_SUBPROTOCOL, units ''t''],
         SocketOpened (units ''ws://a/api/v1/events?workspaceId=w'') [KAIRO_WS_SUBPROTOCOL, units ''t'']] \<rparr>"
  by code_simp

text \<open>
  C10. After every sequence of events the current stream has exactly one connection to come or to lose: one
  socket that has not closed and no timer, or no such socket and one timer that connects again within fifteen
  seconds. Every stream that is no longer the current one was closed and has no timer left that could connect it
  again; and the URL of the current stream names the workspace that the service is set to.
\<close>

theorem streams_never_leak:
  "(\<forall>i. rt_internal (rt_run pf w es) = Some i \<longrightarrow>
      i < length (rt_streams (rt_run pf w es))
      \<and> \<not> es_closedByCaller (rt_streams (rt_run pf w es) ! i)
      \<and> live (rt_streams (rt_run pf w es) ! i) + length (es_timers (rt_streams (rt_run pf w es) ! i)) = 1
      \<and> (\<forall>(t, b) \<in> set (es_timers (rt_streams (rt_run pf w es) ! i)). b \<le> 15000)
      \<and> url_of_workspace (rt_run pf w es) (es_url (rt_streams (rt_run pf w es) ! i)))
    \<and> (\<forall>i<length (rt_streams (rt_run pf w es)). rt_internal (rt_run pf w es) \<noteq> Some i \<longrightarrow>
      es_closedByCaller (rt_streams (rt_run pf w es) ! i) \<and> es_timers (rt_streams (rt_run pf w es) ! i) = [])"
proof -
  have ok: "conn_ok pf (rt_run pf w es)" by (rule run_ok)
  have a: "stream_alive s \<Longrightarrow> \<not> es_closedByCaller s \<and> live s + length (es_timers s) = 1 \<and> (\<forall>(t, b) \<in> set (es_timers s). b \<le> 15000)" for s
    by (auto simp: stream_alive_def armed_def maxBackoffMs_def)
  show ?thesis
    using ok a by (auto simp: conn_ok_def streams_ok_def current_ok_def stream_done_def split: if_splits)
qed

lemma streams_never_leak_witness:
  "es_timers (rt_streams (rt_run sample_platform sample_window late_endpoints) ! 1) = []
    \<and> live (rt_streams (rt_run sample_platform sample_window late_endpoints) ! 2) = 1"
proof -
  let ?c = "rt_run sample_platform sample_window late_endpoints"
  have r: "rt_internal ?c = Some 2" "length (rt_streams ?c) = 3" "es_timers (rt_streams ?c ! 2) = []"
    by (simp_all add: late_run sample_stream_def)
  show ?thesis
    using streams_never_leak [of sample_platform sample_window late_endpoints] r by (auto simp del: One_nat_def)
qed

text \<open>
  C15. In every state of the service that has a base URL, a subscription for a workspace whose name can be
  encoded leaves a current stream for this workspace, that is connected or about to be, and every message that a socket
  of the stream then delivers is passed to the new subscriber.
\<close>

theorem subscriber_gets_events:
  assumes "c = rt_run pf w es" and "rc_baseUrl (rt_config c) \<noteq> []"
    and "workspace \<noteq> []" and "encodeURIComponent workspace = Some x"
    and "c1 = rt_step pf c (Subscribe workspace f)"
  shows "\<exists>i. rt_internal c1 = Some i \<and> stream_alive (rt_streams c1 ! i)
    \<and> (\<exists>base. es_url (rt_streams c1 ! i) = base @ units ''/api/v1/events'' @ units ''?workspaceId='' @ x)
    \<and> (\<forall>k e. socket_live i k c1 \<longrightarrow>
         EventTo f e \<in> set (drop (length (rt_effects c1)) (rt_effects (rt_step pf c1 (SocketMessage i k e)))))"
proof -
  have ok: "conn_ok pf c" "conn_ok pf c1" unfolding assms(5) unfolding assms(1) by (intro step_ok run_ok)+
  obtain i where i: "rt_internal c1 = Some i"
    using subscribe_gives_stream [OF ok(1) assms(2-4), of f] assms(5) by auto
  have w: "rt_workspaceId c1 = workspace" using subscribe_workspace [OF assms(3), of pf f c] assms(5) by simp
  obtain s where s: "jm_get (rt_subscribers c1) (subscriber_key workspace) = Some s" "f \<in> set s"
    using subscribe_workspace [OF assms(3), of pf f c] assms(5) by auto
  have "i < length (rt_streams c1)" "url_of_workspace c1 (es_url (rt_streams c1 ! i))" "stream_alive (rt_streams c1 ! i)"
    using ok(2) i by (auto simp: conn_ok_def current_ok_def streams_ok_def)
  then show ?thesis
    using i w assms(3, 4) message_heard [OF i s] by (auto simp: url_of_workspace_def)
qed

lemma subscriber_gets_events_witness:
  "rt_internal (rt_step sample_platform (rt_run sample_platform sample_window []) (Subscribe (units ''w'') 7)) \<noteq> None"
proof -
  have b: "rc_baseUrl (rt_config (rt_run sample_platform sample_window [])) \<noteq> []" by code_simp
  have e: "units ''w'' \<noteq> []" "encodeURIComponent (units ''w'') = Some (units ''w'')" by code_simp+
  show ?thesis using subscriber_gets_events [OF refl b e refl, of 7] by auto
qed

text \<open>
  C39. A request for the endpoints that is under way stays under way through everything that happens but its
  own answer, also when the service is initialised with another agent meanwhile. Whenever it is answered with endpoints, the
  service keeps these endpoints, whatever its base URL is by then; and if a call of \<open>eagerFetchEndpoints\<close> waited for the answer,
  the service has a base URL and subscribers and the workspace can be encoded, then the event stream is the one of these
  endpoints, with the secret that the service has by then. So an answer of an old agent moves the event stream back to it and
  sends it the secret of the new one; nothing compares the base URL with the one that was asked.
\<close>

theorem stale_endpoints_win:
  assumes "c = rt_run pf w es" and "rt_endpointsPromise c = Some q"
    and "\<forall>e\<in>set ms. \<forall>status body. e \<noteq> EndpointsAnswered status body"
    and "c1 = foldl (rt_step pf) c ms" and "endpoints_of status body = Some (http, events)"
    and "c2 = rt_step pf c1 (EndpointsAnswered status body)"
  shows "rt_endpointsPromise c1 = Some q
    \<and> rt_config c2 = rt_config c1 \<and> rt_cachedEndpoints c2 = Some (http, events)
    \<and> (0 < rt_eager_waiting c \<and> rc_baseUrl (rt_config c1) \<noteq> [] \<and> rt_subscribers c1 \<noteq> []
       \<and> encodeURIComponent (rt_workspaceId c1) \<noteq> None \<longrightarrow>
        (\<exists>i rest. rt_internal c2 = Some i
          \<and> es_url (rt_streams c2 ! i) =
              (if take 5 events = units ''ws://'' \<or> take 6 events = units ''wss://'' then events else units ''ws://'' @ events) @ rest
          \<and> es_agentSecret (rt_streams c2 ! i) = rc_agentSecret (rt_config c1)))"
proof -
  have w: "waits_for q (rt_eager_waiting c) c1"
    unfolding assms(4) by (rule run_waits [OF _ assms(3)]) (simp add: waits_for_def assms(2))
  have ok: "conn_ok pf c1" using run_ok [of pf w "es @ ms"] by (simp add: assms(1, 4) rt_run_def)
  have c2: "c2 = endpoints_answered pf (Some (http, events)) c1" by (simp add: assms(5, 6))
  note m = answer_moves [OF ok w, of "(http, events)", folded c2]
  have b: "ws_base c2 = (if take 5 events = units ''ws://'' \<or> take 6 events = units ''wss://'' then events else units ''ws://'' @ events)"
    using m(1) by (simp add: ws_base_def)
  show ?thesis using m w unfolding b by (auto simp: waits_for_def)
qed

lemma stale_endpoints_win_witness:
  "rc_baseUrl (rt_config (rt_run sample_platform sample_window late_endpoints)) = units ''http://b''
    \<and> rt_cachedEndpoints (rt_run sample_platform sample_window late_endpoints) = Some (units ''a'', units ''a'')
    \<and> (\<exists>i rest. rt_internal (rt_run sample_platform sample_window late_endpoints) = Some i
        \<and> es_url (rt_streams (rt_run sample_platform sample_window late_endpoints) ! i) = units ''ws://a'' @ rest
        \<and> es_agentSecret (rt_streams (rt_run sample_platform sample_window late_endpoints) ! i) = Some (units ''t''))"
proof -
  let ?c = "rt_run sample_platform sample_window []"
  let ?ms = "[Subscribe (units ''w'') 0, Initialize (units ''http://b'') (units ''t'')]"
  let ?c1 = "foldl (rt_step sample_platform) ?c ?ms"
  have p: "rt_endpointsPromise ?c = Some (units ''http://a/api/v1/endpoints'')" "0 < rt_eager_waiting ?c" by code_simp+
  have b: "rc_baseUrl (rt_config ?c1) = units ''http://b''" "rc_agentSecret (rt_config ?c1) = Some (units ''t'')"
    "rt_subscribers ?c1 = [(units ''w'', [0])]" "rt_workspaceId ?c1 = units ''w''" by code_simp+
  have e: "endpoints_of 200 (sample_endpoints ''a'') = Some (units ''a'', units ''a'')" by code_simp
  have u: "encodeURIComponent (units ''w'') = Some (units ''w'')" by code_simp
  have n: "units ''http://b'' \<noteq> []" by code_simp
  have r: "rt_step sample_platform ?c1 (EndpointsAnswered 200 (sample_endpoints ''a'')) = rt_run sample_platform sample_window late_endpoints"
    by (simp add: rt_run_def late_endpoints_def)
  have a: "(if take 5 (units ''a'') = units ''ws://'' \<or> take 6 (units ''a'') = units ''wss://'' then units ''a''
      else units ''ws://'' @ units ''a'') = units ''ws://a''" by code_simp
  show ?thesis
    using stale_endpoints_win [OF refl p(1) _ refl e r [symmetric], unfolded a] p(2) b u n
    by (simp del: foldl_Cons foldl_Nil)
qed

section \<open>The secret\<close>

text \<open>
  C11. Whatever happens to the service, a socket that it opens carries a secret only if the URL of its
  stream is on the list of allowed hosts, and a request carries the secret only if its own URL is.
\<close>

theorem secret_only_to_allowed:
  "(SocketOpened u ps \<in> set (rt_effects (rt_run pf w es)) \<longrightarrow> ps = [] \<or> (\<exists>s. allowed_url pf (es_url s) \<and> u = connect_url s))
    \<and> ((''X-Kairo-Secret'', x) \<in> set (request_headers (allowed_url pf) cfg workspaceId requestId m url) \<longrightarrow>
      allowed_url pf url \<and> rc_agentSecret cfg = Some x)"
proof (intro conjI impI)
  assume "SocketOpened u ps \<in> set (rt_effects (rt_run pf w es))"
  then have "safe_effect pf (SocketOpened u ps)"
    using run_ok [of pf w es] by (simp add: conn_ok_def safe_def list_all_iff)
  then show "ps = [] \<or> (\<exists>s. allowed_url pf (es_url s) \<and> u = connect_url s)" by (simp add: safe_effect_def)
qed (auto simp: request_headers_def non_empty_def split: if_splits option.splits list.splits)

lemma secret_only_to_allowed_witness:
  "(\<exists>s. allowed_url sample_platform (es_url s) \<and> units ''ws://a/api/v1/events?workspaceId=w'' = connect_url s)"
proof -
  have "rt_effects (rt_run sample_platform sample_window [Subscribe (units ''w'') 0]) ! 0 =
      SocketOpened (units ''ws://a/api/v1/events?workspaceId=w'') [KAIRO_WS_SUBPROTOCOL, units ''s'']
    \<and> length (rt_effects (rt_run sample_platform sample_window [Subscribe (units ''w'') 0])) = 1" by code_simp
  then have "SocketOpened (units ''ws://a/api/v1/events?workspaceId=w'') [KAIRO_WS_SUBPROTOCOL, units ''s'']
    \<in> set (rt_effects (rt_run sample_platform sample_window [Subscribe (units ''w'') 0]))" by (metis less_one nth_mem)
  then show ?thesis using secret_only_to_allowed by blast
qed

section \<open>Requests\<close>

text \<open>
  C16. With a limit of \<open>m\<close> retries a request tries again after each transient error of its first \<open>m\<close> attempts, as
  long as nobody aborts it. Its result is that of the first attempt after which it does not: the payload, the error of
  this attempt, or the abort in its pause. There are at most \<open>m + 1\<close> calls of \<open>fetch\<close>, one for each attempt, and
  the pauses between them are 100, 200, 400 and so on up to 2000 milliseconds.
\<close>

theorem request_retries:
  assumes "0 \<le> m"
  shows "snd (request_loop fallback m 0 as) =
      (if tries fallback m as < length as
       then Some (final_result fallback (int (tries fallback m as) = m) (as ! tries fallback m as)) else None)
    \<and> fetches (fst (request_loop fallback m 0 as)) = tries fallback m as + 1
    \<and> int (tries fallback m as) \<le> m
    \<and> take (tries fallback m as) (pauses (fst (request_loop fallback m 0 as))) =
        map (\<lambda>k. min 2000 (100 * 2 ^ k)) [0..<tries fallback m as]"
proof -
  have "tries fallback m as \<le> nat m"
    unfolding tries_def by (rule le_trans [OF length_takeWhile_le]) simp
  then have "int (tries fallback m as) \<le> m" using assms by linarith
  then show ?thesis
    using loop_result [OF assms, of fallback as] loop_effects [OF assms, of fallback as] by (simp add: backoff_ms_def)
qed

definition network_error :: attempt where
  "network_error = \<lparr> at_answer = FetchThrew (ThrownType []), at_aborted = False, at_backoff_aborted = False \<rparr>"

lemma request_retries_witness:
  "fetches (fst (request_loop [] 2 0 [network_error, network_error, network_error, network_error])) = 3"
proof -
  have "tries [] 2 [network_error, network_error, network_error, network_error] = 2" by code_simp
  then show ?thesis using request_retries [of 2 "[]" "[network_error, network_error, network_error, network_error]"] by simp
qed

section \<open>Trust\<close>

text \<open>
  C17. A sensitive operation may run in a workspace exactly if the last thing that was decided about
  the normal form of its URI was to grant trust, and nothing was cleared since; the check that throws agrees.
\<close>

theorem trust_is_last_decision:
  "canExecute lc uri op (foldl (trust_step lc) new_trust_manager es) = last_trust lc (normalizeUri lc uri) (rev es)
    \<and> (assertOperationAllowed lc uri op (foldl (trust_step lc) new_trust_manager es) = Inr ()) = last_trust lc (normalizeUri lc uri) (rev es)"
  using trusted_last [of lc es "normalizeUri lc uri"]
  by (auto simp: canExecute_trusted assertOperationAllowed_def isWorkspaceTrusted_def getTrustState_def split: option.splits)

lemma sample_units:
  "units ''/w/a#b'' = [0x2F, 0x77, 0x2F, 0x61, 0x23, 0x62]"
  "units ''/w/a%23b'' = [0x2F, 0x77, 0x2F, 0x61, 0x25, 0x32, 0x33, 0x62]"
  "units ''file:///w/a%23b'' = [0x66, 0x69, 0x6C, 0x65, 0x3A, 0x2F, 0x2F, 0x2F, 0x77, 0x2F, 0x61, 0x25, 0x32, 0x33, 0x62]"
  "units ''file:///w/a%2523b'' = [0x66, 0x69, 0x6C, 0x65, 0x3A, 0x2F, 0x2F, 0x2F, 0x77, 0x2F, 0x61, 0x25, 0x32, 0x35, 0x32, 0x33, 0x62]"
  by code_simp+

lemma encode_samples:
  "encode_char 0x25 = Some [0x25, 0x32, 0x35]" "encode_char 0x23 = Some [0x25, 0x32, 0x33]"
  "encode_char 0x77 = Some [0x77]" "encode_char 0x61 = Some [0x61]" "encode_char 0x62 = Some [0x62]"
  "encode_char 0x32 = Some [0x32]" "encode_char 0x33 = Some [0x33]"
  by (simp_all add: encode_char_def unreserved_def units_def unit_of_def percent_byte_def utf8_bytes_def HEX_def)

lemma sample_uris:
  "pathToFileUri (units ''/w/a#b'') = Some (units ''file:///w/a%23b'')"
  "pathToFileUri (units ''/w/a%23b'') = Some (units ''file:///w/a%2523b'')"
  unfolding sample_units
  by (simp_all add: pathToFileUri_def encode_segments_def drive_parts_def normalized_path_def encodeURIComponent_def encode_samples
    is_lead_def is_trail_def units_def unit_of_def)

text \<open>
  C40. The directories \<open>a#b\<close> and \<open>a%23b\<close> have different URIs, but the normal form is the same: trust
  in the first one is trust in the second.
\<close>

theorem trust_confuses_workspaces:
  "pathToFileUri (units ''/w/a#b'') = Some (units ''file:///w/a%23b'')
    \<and> pathToFileUri (units ''/w/a%23b'') = Some (units ''file:///w/a%2523b'')
    \<and> canExecute lc (units ''file:///w/a%2523b'') BuildScript (grantTrust lc (units ''file:///w/a%23b'') new_trust_manager)"
proof (intro conjI)
  show "pathToFileUri (units ''/w/a#b'') = Some (units ''file:///w/a%23b'')" by (rule sample_uris)
  show "pathToFileUri (units ''/w/a%23b'') = Some (units ''file:///w/a%2523b'')" by (rule sample_uris)
  have "decodeURI (units ''file:///w/a%2523b'') = Some (units ''file:///w/a%23b'')"
    "decodeURI (units ''file:///w/a%23b'') = Some (units ''file:///w/a%23b'')" by code_simp+
  then have "normalizeUri lc (units ''file:///w/a%2523b'') = normalizeUri lc (units ''file:///w/a%23b'')"
    by (simp only: normalizeUri_def option.case)
  then show "canExecute lc (units ''file:///w/a%2523b'') BuildScript (grantTrust lc (units ''file:///w/a%23b'') new_trust_manager)"
    by (simp add: canExecute_trusted isWorkspaceTrusted_def getTrustState_def grantTrust_def set_trust_def fireChange_def Let_def)
qed

end
