(* ===== verification/LogBuffer.thy ===== *)
theory LogBuffer
  imports RuntimeRequest
begin

text \<open>
  \<open>tomcat-extension/src/browser/log-buffer.ts\<close>: the bounded buffer of a log, the entries that a poll of the history adds, and
  the merge of history and live lines. Lower-casing, \<open>JSON.stringify\<close>, \<open>String\<close> of a time stamp and the clock are arguments.
\<close>

section \<open>Entries\<close>

datatype log_stream = Stdout | Stderr | Structured

datatype log_level = LevelError | LevelWarning | LevelInfo

record log_line =
  ll_line :: utext
  ll_ts :: utext
  ll_stream :: log_stream
  ll_level :: log_level
  ll_source :: "utext option"
  ll_ordinal :: "int option"

fun stream_name :: "log_stream \<Rightarrow> utext" where
  "stream_name Stdout = units ''stdout''"
| "stream_name Stderr = units ''stderr''"
| "stream_name Structured = units ''structured''"

fun includes_text :: "utext \<Rightarrow> utext \<Rightarrow> bool" where
  "includes_text p [] = (p = [])"
| "includes_text p (u # us) = (take (length p) (u # us) = p \<or> includes_text p us)"

text \<open>Bytes of a text in UTF-8; half a surrogate pair becomes a replacement character of three bytes, as long as its own code.\<close>

definition text_bytes :: "utext \<Rightarrow> nat" where
  "text_bytes s = sum_list (map (\<lambda>cp. length (utf8_bytes cp)) (code_points s))"

definition entry_bytes :: "log_line \<Rightarrow> nat" where
  "entry_bytes e = text_bytes (ll_ts e @ [9] @ stream_name (ll_stream e) @ [9] @ ll_line e @ [10])"

definition nullish :: "json option \<Rightarrow> json option \<Rightarrow> json option" where
  "nullish a b = (case a of None \<Rightarrow> b | Some JNull \<Rightarrow> b | Some v \<Rightarrow> Some v)"

definition field_of :: "string \<Rightarrow> json option \<Rightarrow> json option" where
  "field_of k v = (case v of Some j \<Rightarrow> json_field k j | None \<Rightarrow> None)"

definition stream_of :: "json option \<Rightarrow> json option \<Rightarrow> log_stream" where
  "stream_of entry raw =
    (if field_of ''stream'' entry = Some (JStr (units ''stderr'')) \<or> field_of ''level'' entry = Some (JStr (units ''stderr''))
     then Stderr
     else case raw of
         Some JNull \<Rightarrow> Structured
       | Some (JArr _) \<Rightarrow> Structured
       | Some (JObj _) \<Rightarrow> Structured
       | _ \<Rightarrow> Stdout)"

definition level_of :: "(utext \<Rightarrow> utext) \<Rightarrow> log_stream \<Rightarrow> utext \<Rightarrow> log_level" where
  "level_of lower_case s line =
    (let l = lower_case line
     in if s = Stderr \<or> (\<exists>w \<in> set [''error'', ''exception'', ''fatal'', ''severe'', ''fail'']. includes_text (units w) l) then LevelError
        else if (\<exists>w \<in> set [''warn'', ''warning'']. includes_text (units w) l) then LevelWarning else LevelInfo)"

text \<open>\<open>None\<close>: \<open>JSON.stringify(undefined)\<close> is not a text, and \<open>toLowerCase\<close> throws. \<open>to_int\<close> reads the text of a number.\<close>

definition normalizeLogEntry ::
    "(utext \<Rightarrow> utext) \<Rightarrow> (json \<Rightarrow> utext) \<Rightarrow> (json \<Rightarrow> utext) \<Rightarrow> (utext \<Rightarrow> int) \<Rightarrow> utext \<Rightarrow> json option \<Rightarrow> log_line option" where
  "normalizeLogEntry lower_case stringify to_text to_int now entry =
    (case nullish (field_of ''line'' entry) (nullish (field_of ''message'' entry) entry) of
       None \<Rightarrow> None
     | Some raw \<Rightarrow>
         (let line = (case raw of JStr s \<Rightarrow> s | _ \<Rightarrow> stringify raw);
              stream = stream_of entry (Some raw)
          in Some \<lparr> ll_line = line,
                    ll_ts = (case nullish (field_of ''ts'' entry) None of Some t \<Rightarrow> to_text t | None \<Rightarrow> now),
                    ll_stream = stream, ll_level = level_of lower_case stream line,
                    ll_source = (case field_of ''source'' entry of Some (JStr s) \<Rightarrow> Some s | _ \<Rightarrow> None),
                    ll_ordinal = (case field_of ''ordinal'' entry of Some (JNum n) \<Rightarrow> Some (to_int n) | _ \<Rightarrow> None) \<rparr>))"

section \<open>The bounded buffer\<close>

record log_buffer =
  lb_maxLines :: nat
  lb_maxBytes :: nat
  lb_lines :: "log_line list"
  lb_bytes :: nat

definition new_log_buffer :: "nat \<Rightarrow> nat \<Rightarrow> log_buffer" where
  "new_log_buffer maxLines maxBytes = \<lparr> lb_maxLines = maxLines, lb_maxBytes = maxBytes, lb_lines = [], lb_bytes = 0 \<rparr>"

text \<open>The inner loop: it drops the first line as long as a bound is exceeded.\<close>

fun trim_lines :: "nat \<Rightarrow> nat \<Rightarrow> log_line list \<Rightarrow> nat \<Rightarrow> log_line list \<times> nat" where
  "trim_lines maxLines maxBytes [] n = ([], n)"
| "trim_lines maxLines maxBytes (e # es) n =
     (if maxLines < length (e # es) \<or> maxBytes < n then trim_lines maxLines maxBytes es (n - entry_bytes e) else (e # es, n))"

definition append_entry :: "log_buffer \<Rightarrow> log_line \<Rightarrow> log_buffer" where
  "append_entry b e =
    (let size = entry_bytes e
     in if lb_maxBytes b < size then b
        else let (ls, n) = trim_lines (lb_maxLines b) (lb_maxBytes b) (lb_lines b @ [e]) (lb_bytes b + size)
             in b\<lparr> lb_lines := ls, lb_bytes := n \<rparr>)"

definition append_entries :: "log_line list \<Rightarrow> log_buffer \<Rightarrow> log_buffer" where
  "append_entries es b = foldl append_entry b es"

definition clear_buffer :: "log_buffer \<Rightarrow> log_buffer" where
  "clear_buffer b = b\<lparr> lb_lines := [], lb_bytes := 0 \<rparr>"

definition replace_entries :: "log_line list \<Rightarrow> log_buffer \<Rightarrow> log_buffer" where
  "replace_entries es b = append_entries es (clear_buffer b)"

datatype buffer_call = Append "log_line list" | Replace "log_line list" | Clear

fun buffer_step :: "log_buffer \<Rightarrow> buffer_call \<Rightarrow> log_buffer" where
  "buffer_step b (Append es) = append_entries es b"
| "buffer_step b (Replace es) = replace_entries es b"
| "buffer_step b Clear = clear_buffer b"

section \<open>Histories\<close>

definition source_of :: "log_line \<Rightarrow> (utext \<times> int) option" where
  "source_of e =
    (case (ll_source e, ll_ordinal e) of
       (Some s, Some n) \<Rightarrow> if s \<noteq> [] then Some (s, n) else None
     | _ \<Rightarrow> None)"

text \<open>A number in the identity of an entry is its decimal text.\<close>

definition int_text :: "int \<Rightarrow> utext" where
  "int_text n = (if n < 0 then units ''-'' @ units (digits_of (nat (- n))) else units (digits_of (nat n)))"

definition logIdentity :: "log_line \<Rightarrow> utext" where
  "logIdentity e =
    (case source_of e of
       Some (s, n) \<Rightarrow> s @ [0] @ int_text n @ [0] @ stream_name (ll_stream e) @ [0] @ ll_line e
     | None \<Rightarrow> ll_ts e @ [0] @ stream_name (ll_stream e) @ [0] @ ll_line e)"

record delta_tracker =
  dt_initialized :: bool
  dt_seen :: "utext list"
  dt_maxOrdinal :: "(utext, int) jsmap"

definition new_tracker :: delta_tracker where
  "new_tracker = \<lparr> dt_initialized = False, dt_seen = [], dt_maxOrdinal = [] \<rparr>"

definition add_to_set :: "'a \<Rightarrow> 'a list \<Rightarrow> 'a list" where
  "add_to_set x xs = (if x \<in> set xs then xs else xs @ [x])"

definition max_ordinal :: "(utext, int) jsmap \<Rightarrow> log_line \<Rightarrow> (utext, int) jsmap" where
  "max_ordinal m e =
    (case source_of e of
       Some (s, n) \<Rightarrow> jm_set s (max (case jm_get m s of Some k \<Rightarrow> k | None \<Rightarrow> -1) n) m
     | None \<Rightarrow> m)"

definition forget_source :: "(utext, int) jsmap \<Rightarrow> utext list \<Rightarrow> utext \<times> int \<Rightarrow> utext list" where
  "forget_source previous seen sm =
    (case jm_get previous (fst sm) of
       Some k \<Rightarrow> if snd sm < k then filter (\<lambda>key. take (length (fst sm) + 1) key \<noteq> fst sm @ [0]) seen else seen
     | None \<Rightarrow> seen)"

definition next_history :: "log_line list \<Rightarrow> delta_tracker \<Rightarrow> delta_tracker \<times> bool \<times> log_line list" where
  "next_history history t =
    (let initial = (\<not> dt_initialized t);
         currentMax = foldl max_ordinal [] history;
         seen = foldl (forget_source (dt_maxOrdinal t)) (dt_seen t) currentMax;
         additions = (if initial then history else filter (\<lambda>e. logIdentity e \<notin> set seen) history);
         seen1 = foldl (\<lambda>s e. add_to_set (logIdentity e) s) seen history;
         seen2 = (if 10000 < length seen1 then foldl (\<lambda>s e. add_to_set (logIdentity e) s) [] history else seen1)
     in (\<lparr> dt_initialized = True, dt_seen = seen2, dt_maxOrdinal = currentMax \<rparr>, initial, additions))"

definition reset_tracker :: "delta_tracker \<Rightarrow> delta_tracker" where
  "reset_tracker t = \<lparr> dt_initialized = False, dt_seen = [], dt_maxOrdinal = [] \<rparr>"

text \<open>The additions of successive polls.\<close>

fun polls :: "log_line list list \<Rightarrow> delta_tracker \<Rightarrow> log_line list list" where
  "polls [] t = []"
| "polls (h # hs) t = snd (snd (next_history h t)) # polls hs (fst (next_history h t))"

fun merge_from :: "utext list \<Rightarrow> log_line list \<Rightarrow> log_line list" where
  "merge_from seen [] = []"
| "merge_from seen (e # es) =
     (if logIdentity e \<in> set seen then merge_from seen es else e # merge_from (add_to_set (logIdentity e) seen) es)"

definition mergeLogHistory :: "log_line list \<Rightarrow> log_line list \<Rightarrow> log_line list" where
  "mergeLogHistory history live = merge_from [] (history @ live)"

definition filterLogLines :: "(utext \<Rightarrow> utext) \<Rightarrow> log_line list \<Rightarrow> utext \<Rightarrow> log_stream option \<Rightarrow> log_line list" where
  "filterLogLines lower_case ls text stream =
    (let needle = lower_case (trim_text text)
     in filter (\<lambda>l. (stream = None \<or> stream = Some (ll_stream l)) \<and> (needle = [] \<or> includes_text needle (lower_case (ll_line l)))) ls)"

text \<open>\<open>/[^a-z0-9_-]/gi\<close>.\<close>

definition safe_unit :: "code_unit \<Rightarrow> bool" where
  "safe_unit u \<longleftrightarrow> letter_unit u \<or> 0x30 \<le> u \<and> u \<le> 0x39 \<or> u = 0x5F \<or> u = 0x2D"

definition safeLogFilename :: "utext \<Rightarrow> utext" where
  "safeLogFilename serverId =
    (let s = take 80 (map (\<lambda>u. if safe_unit u then u else 0x5F) (trim_text serverId))
     in units ''kairo-tomcat-'' @ (if s \<noteq> [] then s else units ''logs'') @ units ''.log'')"

section \<open>Facts\<close>

definition total_bytes :: "log_line list \<Rightarrow> nat" where
  "total_bytes es = sum_list (map entry_bytes es)"

text \<open>The longest end of a list that keeps the bounds.\<close>

fun longest_fit :: "nat \<Rightarrow> nat \<Rightarrow> log_line list \<Rightarrow> log_line list" where
  "longest_fit maxLines maxBytes [] = []"
| "longest_fit maxLines maxBytes (e # es) =
     (if length (e # es) \<le> maxLines \<and> total_bytes (e # es) \<le> maxBytes then e # es else longest_fit maxLines maxBytes es)"

lemma total_simps [simp]:
  "total_bytes [] = 0" "total_bytes (e # es) = entry_bytes e + total_bytes es" "total_bytes (xs @ ys) = total_bytes xs + total_bytes ys"
  by (simp_all add: total_bytes_def)

lemma trim_lines_fit: "trim_lines L B es (total_bytes es) = (longest_fit L B es, total_bytes (longest_fit L B es))"
  by (induction es) auto

lemma fit_bounds: "length (longest_fit L B es) \<le> L \<and> total_bytes (longest_fit L B es) \<le> B"
  by (induction es) auto

lemma fit_suffix: "\<exists>xs. es = xs @ longest_fit L B es"
proof (induction es)
  case (Cons e es)
  then obtain xs where "es = xs @ longest_fit L B es" ..
  then have "e # es = (e # xs) @ longest_fit L B es" by simp
  then show ?case by (metis append_Nil longest_fit.simps(2))
qed simp

lemma fit_id: "length es \<le> L \<Longrightarrow> total_bytes es \<le> B \<Longrightarrow> longest_fit L B es = es"
  by (cases es) simp_all

lemma fit_longest:
  "length ys \<le> L \<Longrightarrow> total_bytes ys \<le> B \<Longrightarrow> length ys \<le> length (longest_fit L B (xs @ ys))"
  by (induction xs) (simp_all add: fit_id)

lemma fit_append: "longest_fit L B (longest_fit L B es @ [e]) = longest_fit L B (es @ [e])"
  by (induction es) auto

definition buffer_ok :: "log_buffer \<Rightarrow> bool" where
  "buffer_ok b \<longleftrightarrow> lb_bytes b = total_bytes (lb_lines b)"

lemma append_entry_fit:
  assumes "buffer_ok b" and "lb_lines b = longest_fit (lb_maxLines b) (lb_maxBytes b) es"
  shows "append_entry b e =
    (if lb_maxBytes b < entry_bytes e then b
     else b\<lparr> lb_lines := longest_fit (lb_maxLines b) (lb_maxBytes b) (es @ [e]),
             lb_bytes := total_bytes (longest_fit (lb_maxLines b) (lb_maxBytes b) (es @ [e])) \<rparr>)"
  using assms trim_lines_fit [of "lb_maxLines b" "lb_maxBytes b" "lb_lines b @ [e]"]
  by (simp add: append_entry_def Let_def buffer_ok_def fit_append)

lemma append_entries_fit:
  assumes "buffer_ok b" and "lb_lines b = longest_fit (lb_maxLines b) (lb_maxBytes b) old"
  shows "buffer_ok (append_entries es b)
    \<and> lb_maxLines (append_entries es b) = lb_maxLines b \<and> lb_maxBytes (append_entries es b) = lb_maxBytes b
    \<and> lb_lines (append_entries es b) =
        longest_fit (lb_maxLines b) (lb_maxBytes b) (old @ filter (\<lambda>e. entry_bytes e \<le> lb_maxBytes b) es)"
  using assms
proof (induction es arbitrary: b old)
  case (Cons e es)
  show ?case
  proof (cases "lb_maxBytes b < entry_bytes e")
    case True
    then show ?thesis using Cons by (simp add: append_entries_def append_entry_fit [OF Cons.prems])
  next
    case False
    let ?b = "append_entry b e"
    have b: "buffer_ok ?b" "lb_lines ?b = longest_fit (lb_maxLines ?b) (lb_maxBytes ?b) (old @ [e])"
      using False by (simp_all add: append_entry_fit [OF Cons.prems] buffer_ok_def)
    have m: "lb_maxLines ?b = lb_maxLines b" "lb_maxBytes ?b = lb_maxBytes b"
      by (simp_all add: append_entry_fit [OF Cons.prems])
    show ?thesis using Cons.IH [OF b] m False by (simp add: append_entries_def)
  qed
qed (simp add: append_entries_def)

text \<open>What has been appended since the last \<open>replace\<close> or \<open>clear\<close>.\<close>

fun kept_calls :: "log_line list \<Rightarrow> buffer_call list \<Rightarrow> log_line list" where
  "kept_calls es [] = es"
| "kept_calls es (Append fs # cs) = kept_calls (es @ fs) cs"
| "kept_calls es (Replace fs # cs) = kept_calls fs cs"
| "kept_calls es (Clear # cs) = kept_calls [] cs"

lemma buffer_run:
  assumes "buffer_ok b" and "lb_lines b = longest_fit (lb_maxLines b) (lb_maxBytes b) (filter (\<lambda>e. entry_bytes e \<le> lb_maxBytes b) old)"
  shows "buffer_ok (foldl buffer_step b cs)
    \<and> lb_lines (foldl buffer_step b cs) =
        longest_fit (lb_maxLines b) (lb_maxBytes b) (filter (\<lambda>e. entry_bytes e \<le> lb_maxBytes b) (kept_calls old cs))"
  using assms
proof (induction cs arbitrary: b old)
  case (Cons c cs)
  show ?case
  proof (cases c)
    case (Append es)
    have e: "buffer_ok (append_entries es b) \<and> lb_maxLines (append_entries es b) = lb_maxLines b
      \<and> lb_maxBytes (append_entries es b) = lb_maxBytes b \<and> lb_lines (append_entries es b) =
        longest_fit (lb_maxLines b) (lb_maxBytes b) (filter (\<lambda>e. entry_bytes e \<le> lb_maxBytes b) (old @ es))"
      using append_entries_fit [OF Cons.prems, of es] by simp
    then show ?thesis using Cons.IH [of "append_entries es b" "old @ es"] Append by simp
  next
    case (Replace es)
    have c: "buffer_ok (clear_buffer b)" "lb_lines (clear_buffer b) = longest_fit (lb_maxLines (clear_buffer b)) (lb_maxBytes (clear_buffer b)) []"
      by (simp_all add: clear_buffer_def buffer_ok_def)
    have e: "buffer_ok (replace_entries es b) \<and> lb_maxLines (replace_entries es b) = lb_maxLines b
      \<and> lb_maxBytes (replace_entries es b) = lb_maxBytes b \<and> lb_lines (replace_entries es b) =
        longest_fit (lb_maxLines b) (lb_maxBytes b) (filter (\<lambda>e. entry_bytes e \<le> lb_maxBytes b) es)"
      using append_entries_fit [OF c, of es] by (simp add: replace_entries_def clear_buffer_def)
    then show ?thesis using Cons.IH [of "replace_entries es b" es] Replace by simp
  next
    case Clear
    then show ?thesis using Cons.IH [of "clear_buffer b" "[]"] by (simp add: clear_buffer_def buffer_ok_def)
  qed
qed simp

lemma buffer_limits_kept:
  "lb_maxLines (foldl buffer_step b cs) = lb_maxLines b \<and> lb_maxBytes (foldl buffer_step b cs) = lb_maxBytes b"
proof (induction cs arbitrary: b)
  case (Cons c cs)
  have a: "lb_maxLines (append_entries es d) = lb_maxLines d \<and> lb_maxBytes (append_entries es d) = lb_maxBytes d" for es d
    by (induction es arbitrary: d) (auto simp: append_entries_def append_entry_def Let_def split: prod.splits)
  show ?case using Cons [of "buffer_step b c"] a by (cases c) (simp_all add: replace_entries_def clear_buffer_def)
qed simp

section \<open>Polls of the history\<close>

fun fresh_lines :: "utext list \<Rightarrow> log_line list list \<Rightarrow> log_line list list" where
  "fresh_lines ids [] = []"
| "fresh_lines ids (h # hs) = filter (\<lambda>e. logIdentity e \<notin> set ids) h # fresh_lines (ids @ map logIdentity h) hs"

text \<open>The highest ordinal of no source is lower than in the poll before.\<close>

fun ordinals_grow :: "log_line list list \<Rightarrow> bool" where
  "ordinals_grow (g # h # hs) =
     (list_all (\<lambda>(s, m). case jm_get (foldl max_ordinal [] g) s of Some k \<Rightarrow> k \<le> m | None \<Rightarrow> True) (foldl max_ordinal [] h)
      \<and> ordinals_grow (h # hs))"
| "ordinals_grow _ = True"

lemma set_add_to_set [simp]: "set (add_to_set x xs) = insert x (set xs)"
  by (auto simp: add_to_set_def)

lemma distinct_add_to_set: "distinct xs \<Longrightarrow> distinct (add_to_set x xs)"
  by (simp add: add_to_set_def)

lemma set_adds: "set (foldl (\<lambda>s e. add_to_set (logIdentity e) s) xs es) = set xs \<union> logIdentity ` set es"
  by (induction es arbitrary: xs) auto

lemma distinct_adds: "distinct xs \<Longrightarrow> distinct (foldl (\<lambda>s e. add_to_set (logIdentity e) s) xs es)"
  by (induction es arbitrary: xs) (auto simp: distinct_add_to_set)

lemma forget_nothing:
  "list_all (\<lambda>(s, m). case jm_get prev s of Some k \<Rightarrow> k \<le> m | None \<Rightarrow> True) cur \<Longrightarrow> foldl (forget_source prev) seen cur = seen"
  by (induction cur) (auto simp: forget_source_def split: option.splits)

lemma polls_fresh:
  assumes "dt_initialized t" "distinct (dt_seen t)" "set (dt_seen t) = set ids" "dt_maxOrdinal t = foldl max_ordinal [] g"
    and "ordinals_grow (g # hs)" "card (set ids \<union> logIdentity ` set (concat hs)) \<le> 10000"
  shows "polls hs t = fresh_lines ids hs"
  using assms
proof (induction hs arbitrary: t ids g)
  case (Cons h hs)
  have f: "foldl (forget_source (dt_maxOrdinal t)) (dt_seen t) (foldl max_ordinal [] h) = dt_seen t"
    using Cons.prems(4, 5) by (simp add: forget_nothing)
  let ?seen = "foldl (\<lambda>s e. add_to_set (logIdentity e) s) (dt_seen t) h"
  have d: "distinct ?seen" and s: "set ?seen = set (ids @ map logIdentity h)"
    using Cons.prems(2, 3) by (simp_all add: distinct_adds set_adds)
  have sub: "set ids \<union> logIdentity ` set h \<subseteq> set ids \<union> logIdentity ` set (concat (h # hs))" by auto
  have "card (set ids \<union> logIdentity ` set h) \<le> 10000"
    using card_mono [OF _ sub] Cons.prems(6) by (meson List.finite_set finite_UnI finite_imageI le_trans)
  then have l: "\<not> 10000 < length ?seen" using distinct_card [OF d] s by simp
  have n: "next_history h t = (\<lparr> dt_initialized = True, dt_seen = ?seen, dt_maxOrdinal = foldl max_ordinal [] h \<rparr>, False,
      filter (\<lambda>e. logIdentity e \<notin> set ids) h)"
    using Cons.prems(1, 3) f l by (simp add: next_history_def Let_def)
  have "polls hs (fst (next_history h t)) = fresh_lines (ids @ map logIdentity h) hs"
    by (rule Cons.IH [where g = h]) (use Cons.prems d s in \<open>simp_all add: n Un_assoc image_Un\<close>)
  then show ?case by (simp add: n)
qed simp

lemma polls_from_start:
  assumes "ordinals_grow hs" "card (logIdentity ` set (concat hs)) \<le> 10000"
  shows "polls hs new_tracker = fresh_lines [] hs"
proof (cases hs)
  case (Cons h hs')
  let ?seen = "foldl (\<lambda>s e. add_to_set (logIdentity e) s) [] h"
  have sub: "logIdentity ` set h \<subseteq> logIdentity ` set (concat hs)" using Cons by auto
  have "card (logIdentity ` set h) \<le> 10000"
    using card_mono [OF _ sub] assms(2) by (meson List.finite_set finite_imageI le_trans)
  then have l: "\<not> 10000 < length ?seen"
    using distinct_card [OF distinct_adds [of "[]" h]] set_adds [of "[]" h] by simp
  have f: "foldl (forget_source []) [] m = []" for m by (induction m) (simp_all add: forget_source_def)
  have n: "next_history h new_tracker = (\<lparr> dt_initialized = True, dt_seen = ?seen, dt_maxOrdinal = foldl max_ordinal [] h \<rparr>, True, h)"
    using l by (simp add: next_history_def new_tracker_def Let_def f)
  have "polls hs' (fst (next_history h new_tracker)) = fresh_lines ([] @ map logIdentity h) hs'"
    by (rule polls_fresh [where g = h]) (use assms Cons in \<open>simp_all add: n distinct_adds set_adds image_Un\<close>)
  then show ?thesis using Cons by (simp add: n)
qed simp

lemma fresh_nth:
  "k < length hs \<Longrightarrow> fresh_lines ids hs ! k = filter (\<lambda>e. logIdentity e \<notin> set ids \<union> logIdentity ` set (concat (take k hs))) (hs ! k)"
proof (induction hs arbitrary: ids k)
  case (Cons h hs)
  then show ?case by (cases k) (auto intro!: filter_cong)
qed simp

section \<open>Merging\<close>

lemma merge_from_ids:
  "distinct (map logIdentity (merge_from seen es)) \<and> set (map logIdentity (merge_from seen es)) = logIdentity ` set es - set seen"
  by (induction seen es rule: merge_from.induct) auto

end
