(* ===== verification/ServerStore.thy ===== *)
theory ServerStore
  imports Prelude
begin

text \<open>
  \<open>tomcat-extension/src/browser/server-store.ts\<close>: the servers that the views show. The store loads a snapshot from the agent and
  follows its events. What follows an \<open>await\<close> is a step of its own: the answer to a request for the snapshot, the rest of
  a bootstrap. The subscriptions of the store at the runtime have numbers. A URL is given by its port, the clock is an
  argument, and what the emitters fire is recorded. The states of the events are the ones that the protocol names.
\<close>

section \<open>States of a server\<close>

datatype server_state = SrvStopped | SrvStarting | SrvRunning | SrvStopping | SrvError | SrvCrashed

datatype server_summary = SumStopped | SumStarting | SumRunning | SumStopping | SumFailed

fun ALLOWED_TRANSITIONS :: "server_state \<Rightarrow> server_state list" where
  "ALLOWED_TRANSITIONS SrvStopped = [SrvStarting]"
| "ALLOWED_TRANSITIONS SrvStarting = [SrvRunning, SrvStopped, SrvError, SrvCrashed]"
| "ALLOWED_TRANSITIONS SrvRunning = [SrvStopping, SrvError, SrvCrashed]"
| "ALLOWED_TRANSITIONS SrvStopping = [SrvStopped, SrvError, SrvCrashed]"
| "ALLOWED_TRANSITIONS SrvError = [SrvStarting, SrvStopped]"
| "ALLOWED_TRANSITIONS SrvCrashed = [SrvStarting, SrvStopped]"

fun summarizeState :: "server_state \<Rightarrow> server_summary" where
  "summarizeState SrvStopped = SumStopped"
| "summarizeState SrvStarting = SumStarting"
| "summarizeState SrvRunning = SumRunning"
| "summarizeState SrvStopping = SumStopping"
| "summarizeState SrvError = SumFailed"
| "summarizeState SrvCrashed = SumFailed"

definition isValidTransition :: "server_state \<Rightarrow> server_state \<Rightarrow> bool" where
  "isValidTransition s t = (if s = t then True else t \<in> set (ALLOWED_TRANSITIONS s))"

section \<open>The store\<close>

record server_instance =
  si_id :: string
  si_workspaceId :: string
  si_projectId :: string
  si_state :: server_state
  si_httpPort :: nat
  si_debugPort :: "nat option"
  si_pid :: nat
  si_startTime :: string
  si_url :: "nat option"

text \<open>A server in the answer of the agent.\<close>

record protocol_server =
  ps_id :: string
  ps_projectId :: string
  ps_state :: server_state
  ps_http :: "nat option"
  ps_debug :: "nat option"
  ps_pid :: "nat option"
  ps_startedAt :: "string option"

datatype connection_state = ConnLoading | ConnConnected | ConnDisconnected | ConnEmpty

datatype hot_reload_status = Synced | Compiling | RestartRequired

datatype store_fired = ServersChanged "server_instance list" | ConnectionChanged connection_state | HotReloadChanged hot_reload_status

text \<open>A request for the snapshot: the generation that it expects, its workspace, and whether a bootstrap awaits it.\<close>

record snapshot_request =
  sr_expected :: "nat option"
  sr_workspace :: string
  sr_boot :: bool

record server_store =
  sv_servers :: "server_instance list"
  sv_connectionState :: connection_state
  sv_hotReloadStatus :: hot_reload_status
  sv_context :: "string option"
  sv_generation :: nat
  sv_requests :: "(nat \<times> snapshot_request) list"
  sv_next_request :: nat
  sv_boots :: "(nat \<times> string) list"
  sv_subscriptions :: "(nat \<times> string) list"
  sv_next_subscription :: nat
  sv_eventsUnsubscribe :: "nat option"
  sv_disposed :: bool
  sv_fired :: "store_fired list"

definition new_server_store :: server_store where
  "new_server_store = \<lparr> sv_servers = [], sv_connectionState = ConnLoading, sv_hotReloadStatus = Synced, sv_context = None,
    sv_generation = 0, sv_requests = [], sv_next_request = 0, sv_boots = [], sv_subscriptions = [], sv_next_subscription = 0,
    sv_eventsUnsubscribe = None, sv_disposed = False, sv_fired = [] \<rparr>"

text \<open>A disposed emitter fires nothing.\<close>

definition fire :: "store_fired \<Rightarrow> server_store \<Rightarrow> server_store" where
  "fire f st = (if sv_disposed st then st else st\<lparr> sv_fired := sv_fired st @ [f] \<rparr>)"

definition setConnectionState :: "connection_state \<Rightarrow> server_store \<Rightarrow> server_store" where
  "setConnectionState s st =
    (if sv_connectionState st = s then st else fire (ConnectionChanged s) (st\<lparr> sv_connectionState := s \<rparr>))"

definition setHotReloadStatus :: "hot_reload_status \<Rightarrow> server_store \<Rightarrow> server_store" where
  "setHotReloadStatus s st =
    (if sv_hotReloadStatus st = s then st else fire (HotReloadChanged s) (st\<lparr> sv_hotReloadStatus := s \<rparr>))"

definition connected_or_empty :: "server_instance list \<Rightarrow> connection_state" where
  "connected_or_empty servers = (if servers = [] then ConnEmpty else ConnConnected)"

text \<open>The listener of the connection: open, closed or disconnected, connecting.\<close>

datatype runtime_status = RtOpen | RtDown | RtConnecting

definition status_changed :: "runtime_status \<Rightarrow> server_store \<Rightarrow> server_store" where
  "status_changed s st =
    (if sv_disposed st then st
     else case s of
         RtOpen \<Rightarrow> setConnectionState (connected_or_empty (sv_servers st)) st
       | RtDown \<Rightarrow> setConnectionState ConnDisconnected st
       | RtConnecting \<Rightarrow> setConnectionState ConnLoading st)"

definition find_server :: "string \<Rightarrow> server_instance list \<Rightarrow> server_instance option" where
  "find_server i servers = find (\<lambda>s. si_id s = i) servers"

definition last_servers :: "nat \<Rightarrow> 'a list \<Rightarrow> 'a list" where
  "last_servers n xs = drop (length xs - n) xs"

fun replace_server :: "server_instance \<Rightarrow> server_instance list \<Rightarrow> server_instance list" where
  "replace_server x [] = []"
| "replace_server x (s # ss) = (if si_id s = si_id x then x # ss else s # replace_server x ss)"

definition upsertServer :: "bool \<Rightarrow> server_instance \<Rightarrow> server_store \<Rightarrow> server_store" where
  "upsertServer force x st =
    (case find_server (si_id x) (sv_servers st) of
       Some old \<Rightarrow>
         if \<not> force \<and> \<not> isValidTransition (si_state old) (si_state x) then st
         else let servers = replace_server x (sv_servers st) in fire (ServersChanged servers) (st\<lparr> sv_servers := servers \<rparr>)
     | None \<Rightarrow> let servers = last_servers 16 (sv_servers st @ [x]) in fire (ServersChanged servers) (st\<lparr> sv_servers := servers \<rparr>))"

definition removeServer :: "string \<Rightarrow> server_store \<Rightarrow> server_store" where
  "removeServer i st =
    (let servers = filter (\<lambda>s. si_id s \<noteq> i) (sv_servers st) in fire (ServersChanged servers) (st\<lparr> sv_servers := servers \<rparr>))"

section \<open>Snapshots\<close>

definition or_zero :: "nat option \<Rightarrow> nat" where
  "or_zero n = (case n of Some k \<Rightarrow> k | None \<Rightarrow> 0)"

definition server_of :: "string \<Rightarrow> protocol_server \<Rightarrow> server_instance" where
  "server_of ws s =
    \<lparr> si_id = ps_id s, si_workspaceId = ws, si_projectId = ps_projectId s, si_state = ps_state s, si_httpPort = or_zero (ps_http s),
      si_debugPort = Some (or_zero (ps_debug s)), si_pid = or_zero (ps_pid s),
      si_startTime = (case ps_startedAt s of Some t \<Rightarrow> t | None \<Rightarrow> []),
      si_url = (if or_zero (ps_http s) \<noteq> 0 then Some (or_zero (ps_http s)) else None) \<rparr>"

text \<open>\<open>refetchServersSnapshot\<close> up to its request.\<close>

definition refetch :: "nat option \<Rightarrow> bool \<Rightarrow> server_store \<Rightarrow> server_store" where
  "refetch expected boot st =
    (case sv_context st of
       None \<Rightarrow> st
     | Some ws \<Rightarrow> st\<lparr> sv_requests := sv_requests st @ [(sv_next_request st, \<lparr> sr_expected = expected, sr_workspace = ws, sr_boot = boot \<rparr>)],
                     sv_next_request := Suc (sv_next_request st) \<rparr>)"

text \<open>What an answer can be: an exception, something that is not an array, servers.\<close>

datatype snapshot_answer = Failed | NotArray | Servers "protocol_server list"

definition stale_answer :: "nat option \<Rightarrow> server_store \<Rightarrow> bool" where
  "stale_answer expected st = (case expected of Some g \<Rightarrow> g \<noteq> sv_generation st | None \<Rightarrow> False)"

definition apply_snapshot :: "snapshot_request \<Rightarrow> snapshot_answer \<Rightarrow> server_store \<Rightarrow> server_store" where
  "apply_snapshot r answer st =
    (if stale_answer (sr_expected r) st then st
     else case answer of
         Failed \<Rightarrow> setConnectionState ConnDisconnected st
       | NotArray \<Rightarrow> st
       | Servers ps \<Rightarrow>
           let servers = map (server_of (sr_workspace r)) ps
           in setConnectionState (connected_or_empty servers) (fire (ServersChanged servers) (st\<lparr> sv_servers := servers \<rparr>)))"

definition snapshot_answered :: "nat \<Rightarrow> snapshot_answer \<Rightarrow> server_store \<Rightarrow> server_store" where
  "snapshot_answered n answer st =
    (case map_of (sv_requests st) n of
       None \<Rightarrow> st
     | Some r \<Rightarrow>
         (let st1 = apply_snapshot r answer (st\<lparr> sv_requests := filter (\<lambda>x. fst x \<noteq> n) (sv_requests st) \<rparr>)
          in case (sr_boot r, sr_expected r) of
               (True, Some g) \<Rightarrow> st1\<lparr> sv_boots := sv_boots st1 @ [(g, sr_workspace r)] \<rparr>
             | _ \<Rightarrow> st1))"

section \<open>Bootstrap\<close>

definition unsubscribe_events :: "server_store \<Rightarrow> server_store" where
  "unsubscribe_events st =
    (case sv_eventsUnsubscribe st of
       Some k \<Rightarrow> st\<lparr> sv_eventsUnsubscribe := None, sv_subscriptions := filter (\<lambda>x. fst x \<noteq> k) (sv_subscriptions st) \<rparr>
     | None \<Rightarrow> st)"

definition bootstrap :: "server_store \<Rightarrow> server_store" where
  "bootstrap st =
    (let st1 = unsubscribe_events (st\<lparr> sv_generation := Suc (sv_generation st) \<rparr>)
     in refetch (Some (sv_generation st1)) True st1)"

text \<open>The rest of a bootstrap, after its snapshot.\<close>

definition bootstrap_continues :: "nat \<Rightarrow> server_store \<Rightarrow> server_store" where
  "bootstrap_continues j st =
    (if \<not> j < length (sv_boots st) then st
     else let (g, ws) = sv_boots st ! j;
              st1 = st\<lparr> sv_boots := take j (sv_boots st) @ drop (Suc j) (sv_boots st) \<rparr>
          in if g \<noteq> sv_generation st1 then st1
             else st1\<lparr> sv_subscriptions := sv_subscriptions st1 @ [(sv_next_subscription st1, ws)],
                       sv_eventsUnsubscribe := Some (sv_next_subscription st1),
                       sv_next_subscription := Suc (sv_next_subscription st1) \<rparr>)"

definition context_changed :: "string option \<Rightarrow> server_store \<Rightarrow> server_store" where
  "context_changed ctx st =
    (let st1 = st\<lparr> sv_context := ctx \<rparr> in if ctx \<noteq> None \<and> \<not> sv_disposed st then bootstrap st1 else st1)"

text \<open>\<open>init\<close>, with the context and the status of the connection at that moment.\<close>

definition init_store :: "string option \<Rightarrow> runtime_status \<Rightarrow> server_store" where
  "init_store ctx status =
    (let st = status_changed status (new_server_store\<lparr> sv_context := ctx \<rparr>) in if ctx \<noteq> None then bootstrap st else st)"

definition dispose_store :: "server_store \<Rightarrow> server_store" where
  "dispose_store st = (unsubscribe_events (st\<lparr> sv_generation := Suc (sv_generation st) \<rparr>))\<lparr> sv_disposed := True \<rparr>"

section \<open>Events of the agent\<close>

record state_event =
  ev_serverId :: string
  ev_state :: server_state
  ev_http :: "nat option"
  ev_debug :: "nat option"
  ev_pid :: "nat option"

datatype agent_event =
    ServerStateEvent state_event
  | HotReloadEvent hot_reload_status
  | OtherEvent string

definition compat_types :: "string list" where
  "compat_types = [''server.started'', ''server.stopped'', ''server.error'', ''build.progress'', ''build.completed'', ''build.failed'',
    ''deployment.progress'', ''deploy.completed'', ''deploy.started'']"

definition first_nonzero :: "nat option \<Rightarrow> nat option \<Rightarrow> nat" where
  "first_nonzero a b = (if or_zero a \<noteq> 0 then or_zero a else or_zero b)"

definition non_empty_of :: "string option \<Rightarrow> string \<Rightarrow> string" where
  "non_empty_of s d = (case s of Some (c # cs) \<Rightarrow> c # cs | _ \<Rightarrow> d)"

definition server_after :: "string \<Rightarrow> string \<Rightarrow> state_event \<Rightarrow> server_instance option \<Rightarrow> server_instance" where
  "server_after now ws e old =
    \<lparr> si_id = ev_serverId e, si_workspaceId = non_empty_of (map_option si_workspaceId old) ws,
      si_projectId = non_empty_of (map_option si_projectId old) [], si_state = ev_state e,
      si_httpPort = first_nonzero (ev_http e) (map_option si_httpPort old),
      si_debugPort = Some (first_nonzero (ev_debug e) (case old of Some s \<Rightarrow> si_debugPort s | None \<Rightarrow> None)),
      si_pid = first_nonzero (ev_pid e) (map_option si_pid old),
      si_startTime = non_empty_of (map_option si_startTime old) now,
      si_url = (if or_zero (ev_http e) \<noteq> 0 then Some (or_zero (ev_http e)) else (case old of Some s \<Rightarrow> si_url s | None \<Rightarrow> None)) \<rparr>"

definition on_event :: "string \<Rightarrow> string \<Rightarrow> agent_event \<Rightarrow> server_store \<Rightarrow> server_store" where
  "on_event now ws e st =
    (case e of
       ServerStateEvent ev \<Rightarrow>
         (let old = find_server (ev_serverId ev) (sv_servers st)
          in if (case old of Some s \<Rightarrow> \<not> isValidTransition (si_state s) (ev_state ev) | None \<Rightarrow> False)
             then refetch None False st
             else upsertServer False (server_after now ws ev old) st)
     | HotReloadEvent s \<Rightarrow> setHotReloadStatus s st
     | OtherEvent t \<Rightarrow> if t \<in> set compat_types then refetch None False st else st)"

text \<open>The runtime passes an event to every subscription.\<close>

definition event_arrives :: "string \<Rightarrow> agent_event \<Rightarrow> server_store \<Rightarrow> server_store" where
  "event_arrives now e st = foldl (\<lambda>s k. on_event now (snd k) e s) st (sv_subscriptions st)"

datatype store_event =
    ContextChanged "string option"
  | StatusChanged runtime_status
  | SnapshotAnswered nat snapshot_answer
  | BootstrapContinues nat
  | EventArrives string agent_event
  | Upsert bool server_instance
  | Remove string
  | SetConnection connection_state
  | SetHotReload hot_reload_status
  | Dispose

fun store_step :: "server_store \<Rightarrow> store_event \<Rightarrow> server_store" where
  "store_step st (ContextChanged ctx) = context_changed ctx st"
| "store_step st (StatusChanged s) = status_changed s st"
| "store_step st (SnapshotAnswered n a) = snapshot_answered n a st"
| "store_step st (BootstrapContinues j) = bootstrap_continues j st"
| "store_step st (EventArrives now e) = event_arrives now e st"
| "store_step st (Upsert force x) = upsertServer force x st"
| "store_step st (Remove i) = removeServer i st"
| "store_step st (SetConnection s) = setConnectionState s st"
| "store_step st (SetHotReload s) = setHotReloadStatus s st"
| "store_step st Dispose = dispose_store st"

definition store_run :: "server_store \<Rightarrow> store_event list \<Rightarrow> server_store" where
  "store_run st es = foldl store_step st es"

end
