(* ===== verification/ServerStoreFacts.thy ===== *)
theory ServerStoreFacts
  imports ServerStore
begin

text \<open>
  Facts about the store of servers: at most one subscription, because at most one bootstrap belongs to the current generation;
  servers have different ids; what an event does to the state of a server.
\<close>

section \<open>What the small operations keep\<close>

text \<open>The fields that the subscriptions depend on.\<close>

definition same_links :: "server_store \<Rightarrow> server_store \<Rightarrow> bool" where
  "same_links a b \<longleftrightarrow> sv_generation a = sv_generation b \<and> sv_boots a = sv_boots b \<and> sv_subscriptions a = sv_subscriptions b
    \<and> sv_eventsUnsubscribe a = sv_eventsUnsubscribe b \<and> sv_disposed a = sv_disposed b"

lemma same_links_refl [simp]: "same_links a a"
  by (simp add: same_links_def)

lemma same_links_trans: "same_links a b \<Longrightarrow> same_links b c \<Longrightarrow> same_links a c"
  by (simp add: same_links_def)

lemma fire_simps [simp]:
  "sv_servers (fire f st) = sv_servers st" "sv_requests (fire f st) = sv_requests st" "sv_context (fire f st) = sv_context st"
  "same_links (fire f st) st" "sv_generation (fire f st) = sv_generation st"
  by (simp_all add: fire_def same_links_def)

lemma set_state_simps [simp]:
  "sv_servers (setConnectionState s st) = sv_servers st" "sv_requests (setConnectionState s st) = sv_requests st"
  "same_links (setConnectionState s st) st" "sv_generation (setConnectionState s st) = sv_generation st"
  "sv_servers (setHotReloadStatus h st) = sv_servers st" "sv_requests (setHotReloadStatus h st) = sv_requests st"
  "same_links (setHotReloadStatus h st) st"
  by (simp_all add: setConnectionState_def setHotReloadStatus_def fire_def same_links_def)

lemma fire_servers_links: "same_links (fire f (st\<lparr> sv_servers := x \<rparr>)) st"
  by (simp add: fire_def same_links_def)

lemma upsert_links [simp]: "same_links (upsertServer force x st) st" "sv_requests (upsertServer force x st) = sv_requests st"
  by (auto simp: upsertServer_def Let_def fire_servers_links split: option.splits)

lemma remove_links [simp]: "same_links (removeServer i st) st" "sv_requests (removeServer i st) = sv_requests st"
  by (simp_all add: removeServer_def Let_def fire_servers_links)

lemma status_links [simp]: "same_links (status_changed s st) st" "sv_requests (status_changed s st) = sv_requests st"
  by (auto simp: status_changed_def split: runtime_status.splits)

lemma apply_links [simp]: "same_links (apply_snapshot r a st) st" "sv_requests (apply_snapshot r a st) = sv_requests st"
  by (auto simp: apply_snapshot_def Let_def split: snapshot_answer.splits
      intro: same_links_trans [OF set_state_simps(3) fire_servers_links])

section \<open>At most one subscription\<close>

definition boot_request :: "nat \<Rightarrow> nat \<times> snapshot_request \<Rightarrow> bool" where
  "boot_request g x \<longleftrightarrow> sr_boot (snd x) \<and> sr_expected (snd x) = Some g"

definition old_request :: "nat \<Rightarrow> nat \<times> snapshot_request \<Rightarrow> bool" where
  "old_request g x \<longleftrightarrow> (case sr_expected (snd x) of Some h \<Rightarrow> h \<le> g | None \<Rightarrow> True)"

text \<open>The bootstraps of the current generation that have not ended.\<close>

definition running_boots :: "server_store \<Rightarrow> nat" where
  "running_boots st = length (filter (boot_request (sv_generation st)) (sv_requests st))
    + length (filter (\<lambda>b. fst b = sv_generation st) (sv_boots st))"

definition links_ok :: "server_store \<Rightarrow> bool" where
  "links_ok st \<longleftrightarrow>
    list_all (old_request (sv_generation st)) (sv_requests st) \<and> list_all (\<lambda>b. fst b \<le> sv_generation st) (sv_boots st)
    \<and> map fst (sv_subscriptions st) = (case sv_eventsUnsubscribe st of Some k \<Rightarrow> [k] | None \<Rightarrow> [])
    \<and> running_boots st + length (sv_subscriptions st) \<le> 1
    \<and> (sv_disposed st \<longrightarrow> running_boots st + length (sv_subscriptions st) = 0)"

lemma links_ok_cong:
  "same_links a b \<Longrightarrow> sv_requests a = sv_requests b \<Longrightarrow> links_ok a = links_ok b"
  by (simp add: links_ok_def running_boots_def same_links_def)

lemma links_keep: "links_ok b \<Longrightarrow> same_links a b \<Longrightarrow> sv_requests a = sv_requests b \<Longrightarrow> links_ok a"
  by (simp add: links_ok_cong)

text \<open>A request that no bootstrap awaits.\<close>

lemma refetch_links: "links_ok st \<Longrightarrow> links_ok (refetch None False st)"
  by (auto simp: refetch_def links_ok_def running_boots_def boot_request_def old_request_def split: option.splits)

lemma no_future:
  assumes "links_ok st"
  shows "filter (boot_request (Suc (sv_generation st))) (sv_requests st) = []"
    and "filter (\<lambda>b. fst b = Suc (sv_generation st)) (sv_boots st) = []"
  using assms by (auto simp: links_ok_def list_all_iff old_request_def boot_request_def filter_empty_conv split: option.splits)

lemma unsubscribed:
  assumes "links_ok st"
  shows "sv_subscriptions (unsubscribe_events st) = []" "sv_eventsUnsubscribe (unsubscribe_events st) = None"
proof -
  have m: "map fst (sv_subscriptions st) = (case sv_eventsUnsubscribe st of Some k \<Rightarrow> [k] | None \<Rightarrow> [])"
    using assms by (simp add: links_ok_def)
  then show "sv_subscriptions (unsubscribe_events st) = []"
    by (auto simp: unsubscribe_events_def filter_empty_conv split: option.splits)
  show "sv_eventsUnsubscribe (unsubscribe_events st) = None"
    by (auto simp: unsubscribe_events_def split: option.splits)
qed

lemma unsubscribe_simps [simp]:
  "sv_generation (unsubscribe_events st) = sv_generation st" "sv_requests (unsubscribe_events st) = sv_requests st"
  "sv_boots (unsubscribe_events st) = sv_boots st" "sv_disposed (unsubscribe_events st) = sv_disposed st"
  "sv_context (unsubscribe_events st) = sv_context st" "sv_servers (unsubscribe_events st) = sv_servers st"
  by (simp_all add: unsubscribe_events_def split: option.splits)

lemma unsubscribe_generation:
  "unsubscribe_events (st\<lparr> sv_generation := g \<rparr>) = (unsubscribe_events st)\<lparr> sv_generation := g \<rparr>"
  by (simp add: unsubscribe_events_def split: option.splits)

lemma older:
  assumes "links_ok st"
  shows "list_all (old_request (Suc (sv_generation st))) (sv_requests st)" "list_all (\<lambda>b. fst b \<le> Suc (sv_generation st)) (sv_boots st)"
  using assms by (auto simp: links_ok_def list_all_iff old_request_def le_SucI split: option.splits)

lemma bootstrap_links:
  assumes ok: "links_ok st" and d: "\<not> sv_disposed st"
  shows "links_ok (bootstrap st)"
  using no_future [OF ok] unsubscribed [OF ok] older [OF ok] d
  by (auto simp: bootstrap_def Let_def refetch_def unsubscribe_generation links_ok_def running_boots_def old_request_def boot_request_def
      split: option.splits)

lemma dispose_links:
  assumes ok: "links_ok st"
  shows "links_ok (dispose_store st)"
  using no_future [OF ok] unsubscribed [OF ok] older [OF ok]
  by (simp add: dispose_store_def unsubscribe_generation links_ok_def running_boots_def)

lemma context_links: "links_ok st \<Longrightarrow> links_ok (context_changed ctx st)"
  unfolding context_changed_def Let_def by (auto intro!: bootstrap_links elim: links_keep simp: same_links_def)

lemma removed_filter:
  "(n, r) \<in> set xs \<Longrightarrow> length (filter P (filter (\<lambda>x. fst x \<noteq> n) xs)) + (if P (n, r) then 1 else 0) \<le> length (filter P xs)"
proof (induction xs)
  case (Cons x xs)
  have "length (filter P (filter (\<lambda>x. fst x \<noteq> n) xs)) \<le> length (filter P xs)"
    by (induction xs) auto
  then show ?case using Cons by (cases "x = (n, r)") auto
qed simp

lemma answered_links:
  assumes ok: "links_ok st"
  shows "links_ok (snapshot_answered n a st)"
proof (cases "map_of (sv_requests st) n")
  case None
  then show ?thesis using ok by (simp add: snapshot_answered_def)
next
  case (Some r)
  define st0 where "st0 = st\<lparr> sv_requests := filter (\<lambda>x. fst x \<noteq> n) (sv_requests st) \<rparr>"
  define st1 where "st1 = apply_snapshot r a st0"
  have s: "same_links st1 st0" "sv_requests st1 = filter (\<lambda>x. fst x \<noteq> n) (sv_requests st)"
    by (simp_all add: st1_def st0_def)
  then have l: "sv_generation st1 = sv_generation st" "sv_boots st1 = sv_boots st" "sv_subscriptions st1 = sv_subscriptions st"
    "sv_eventsUnsubscribe st1 = sv_eventsUnsubscribe st" "sv_disposed st1 = sv_disposed st"
    by (simp_all add: same_links_def st0_def)
  have mem: "(n, r) \<in> set (sv_requests st)" using Some by (rule map_of_SomeD)
  note c = removed_filter [OF mem, of "boot_request (sv_generation st)"]
  have o: "list_all (old_request (sv_generation st)) (filter (\<lambda>x. fst x \<noteq> n) (sv_requests st))"
    "old_request (sv_generation st) (n, r)"
    using ok mem by (auto simp: links_ok_def list_all_iff)
  have "links_ok st1"
    using ok c o by (auto simp: links_ok_def running_boots_def l s(2) split: if_splits)
  moreover have "links_ok (st1\<lparr> sv_boots := sv_boots st1 @ [(g, sr_workspace r)] \<rparr>)" if "sr_boot r" "sr_expected r = Some g" for g
  proof -
    have "boot_request (sv_generation st) (n, r) = (g = sv_generation st)" "g \<le> sv_generation st"
      using that o(2) by (auto simp: boot_request_def old_request_def)
    then show ?thesis
      using ok c o(1) by (auto simp: links_ok_def running_boots_def l s(2) simp del: length_0_conv split: if_splits)
  qed
  ultimately show ?thesis
    using Some by (auto simp: snapshot_answered_def Let_def st0_def [symmetric] st1_def [symmetric] split: option.splits bool.splits)
qed

lemma filter_without:
  "j < length xs \<Longrightarrow>
     length (filter P (take j xs @ drop (Suc j) xs)) + (if P (xs ! j) then 1 else 0) = length (filter P xs)"
  by (subst (4) id_take_nth_drop [of j]) simp_all

lemma continues_links:
  assumes ok: "links_ok st"
  shows "links_ok (bootstrap_continues j st)"
proof (cases "j < length (sv_boots st)")
  case True
  obtain g ws where b: "sv_boots st ! j = (g, ws)" by fastforce
  have c: "length (filter (\<lambda>b. fst b = sv_generation st) (take j (sv_boots st) @ drop (Suc j) (sv_boots st)))
    + (if g = sv_generation st then 1 else 0) = length (filter (\<lambda>b. fst b = sv_generation st) (sv_boots st))"
    using filter_without [OF True, of "\<lambda>b. fst b = sv_generation st"] b by simp
  have o: "list_all (\<lambda>b. fst b \<le> sv_generation st) (take j (sv_boots st) @ drop (Suc j) (sv_boots st))"
    using ok by (auto simp: links_ok_def list_all_iff dest: in_set_takeD in_set_dropD)
  show ?thesis
  proof (cases "g = sv_generation st")
    case True
    then have "0 < length (filter (\<lambda>b. fst b = sv_generation st) (sv_boots st))" using c by (simp del: length_greater_0_conv)
    then have "length (sv_subscriptions st) = 0" "running_boots st = 1" "\<not> sv_disposed st"
      using ok by (auto simp: links_ok_def running_boots_def simp del: length_0_conv length_greater_0_conv)
    moreover have "length (filter (boot_request (sv_generation st)) (sv_requests st)) = 0"
      "length (filter (\<lambda>b. fst b = sv_generation st) (take j (sv_boots st) @ drop (Suc j) (sv_boots st))) = 0"
      using calculation(2) c True unfolding running_boots_def by (simp_all del: length_0_conv length_append filter_append)
    ultimately show ?thesis
      using ok o True \<open>j < _\<close> b
      by (auto simp: bootstrap_continues_def Let_def links_ok_def running_boots_def)
  next
    case False
    then show ?thesis
      using ok c o \<open>j < _\<close> b by (auto simp: bootstrap_continues_def Let_def links_ok_def running_boots_def)
  qed
qed (use ok in \<open>simp add: bootstrap_continues_def\<close>)

lemma on_event_links: "links_ok st \<Longrightarrow> links_ok (on_event now ws e st)"
  unfolding on_event_def Let_def
  by (auto intro: refetch_links links_keep split: agent_event.splits option.splits)

lemma arrives_links:
  assumes "links_ok st"
  shows "links_ok (event_arrives now e st)"
proof -
  have "links_ok (foldl (\<lambda>s k. on_event now (snd k) e s) st ks)" for ks
    using assms by (induction ks arbitrary: st) (simp_all add: on_event_links)
  then show ?thesis by (simp add: event_arrives_def)
qed

lemma step_links: "links_ok st \<Longrightarrow> links_ok (store_step st ev)"
  by (cases ev) (auto intro: context_links answered_links continues_links arrives_links dispose_links links_keep)

lemma init_links: "links_ok (init_store ctx s)"
proof -
  have n: "links_ok (new_server_store\<lparr> sv_context := ctx \<rparr>)" by (simp add: new_server_store_def links_ok_def running_boots_def)
  have d: "\<not> sv_disposed (status_changed s (new_server_store\<lparr> sv_context := ctx \<rparr>))"
    using status_links(1) [of s "new_server_store\<lparr> sv_context := ctx \<rparr>"] by (simp add: same_links_def new_server_store_def)
  show ?thesis
    unfolding init_store_def Let_def using links_keep [OF n status_links, of s] d by (auto simp: bootstrap_links)
qed

lemma run_links: "links_ok (store_run (init_store ctx s) es)"
  unfolding store_run_def by (induction es rule: rev_induct) (simp_all add: init_links step_links)

section \<open>Ids and states\<close>

definition ids_ok :: "server_store \<Rightarrow> bool" where
  "ids_ok st \<longleftrightarrow> distinct (map si_id (sv_servers st))"

text \<open>The agent names each server once.\<close>

fun named_once :: "store_event \<Rightarrow> bool" where
  "named_once (SnapshotAnswered n (Servers ps)) = distinct (map ps_id ps)"
| "named_once _ = True"

lemma find_server_Some: "find_server i ss = Some s \<Longrightarrow> s \<in> set ss \<and> si_id s = i"
  by (auto simp: find_server_def find_Some_iff)

lemma find_server_None: "find_server i ss = None \<longleftrightarrow> i \<notin> si_id ` set ss"
  by (auto simp: find_server_def find_None_iff)

lemma find_server_unique:
  "distinct (map si_id ss) \<Longrightarrow> s \<in> set ss \<Longrightarrow> find_server (si_id s) ss = Some s"
  by (induction ss) (auto simp: find_server_def)

lemma replace_ids [simp]: "map si_id (replace_server x ss) = map si_id ss"
  by (induction ss) auto

lemma find_replace:
  "find_server (si_id x) ss \<noteq> None \<Longrightarrow> find_server i (replace_server x ss) = (if i = si_id x then Some x else find_server i ss)"
  by (induction ss) (auto simp: find_server_def)

lemma upsert_servers:
  "sv_servers (upsertServer force x st) =
    (case find_server (si_id x) (sv_servers st) of
       Some old \<Rightarrow> if \<not> force \<and> \<not> isValidTransition (si_state old) (si_state x) then sv_servers st else replace_server x (sv_servers st)
     | None \<Rightarrow> last_servers 16 (sv_servers st @ [x]))"
  by (simp add: upsertServer_def Let_def split: option.splits)

lemma upsert_ids: "ids_ok st \<Longrightarrow> ids_ok (upsertServer force x st)"
  by (auto simp: ids_ok_def upsert_servers last_servers_def find_server_None drop_map [symmetric] distinct_drop split: option.splits dest: in_set_dropD)

lemma upsert_transition:
  assumes ok: "ids_ok st" and a: "find_server i (sv_servers st) = Some a"
    and b: "find_server i (sv_servers (upsertServer False x st)) = Some b"
  shows "isValidTransition (si_state a) (si_state b)"
proof (cases "find_server (si_id x) (sv_servers st)")
  case (Some old)
  then show ?thesis
    using a b by (auto simp: upsert_servers find_replace isValidTransition_def split: if_splits)
next
  case None
  then have "b \<in> set (sv_servers st) \<or> b = x" "si_id b = i" "i \<noteq> si_id x"
    using b a find_server_Some [OF b] by (auto simp: upsert_servers last_servers_def dest: in_set_dropD)
  then have "b \<in> set (sv_servers st)" by auto
  then have "a = b" using find_server_unique ok a \<open>si_id b = i\<close> by (auto simp: ids_ok_def)
  then show ?thesis by (simp add: isValidTransition_def)
qed

lemma refetch_servers [simp]: "sv_servers (refetch e b st) = sv_servers st"
  by (simp add: refetch_def split: option.splits)

lemma event_servers:
  "sv_servers (on_event now ws e st) = sv_servers st \<or> (\<exists>x. sv_servers (on_event now ws e st) = sv_servers (upsertServer False x st))"
  by (auto simp: on_event_def Let_def split: agent_event.splits)

lemma arrives_one:
  assumes "links_ok st"
  shows "event_arrives now e st = st \<or> (\<exists>ws. event_arrives now e st = on_event now ws e st)"
proof (cases "sv_subscriptions st")
  case (Cons k ks)
  then have "ks = []" using assms by (cases ks) (auto simp: links_ok_def)
  then show ?thesis using Cons by (auto simp: event_arrives_def)
qed (simp add: event_arrives_def)

lemma arrives_ids: "links_ok st \<Longrightarrow> ids_ok st \<Longrightarrow> ids_ok (event_arrives now e st)"
  using arrives_one [of st now e] event_servers [of now _ e st] upsert_ids [of st False]
  by (metis ids_ok_def)

lemma boots_servers [simp]:
  "sv_servers (bootstrap st) = sv_servers st" "sv_servers (bootstrap_continues j st) = sv_servers st"
  "sv_servers (context_changed ctx st) = sv_servers st" "sv_servers (dispose_store st) = sv_servers st"
  "sv_servers (status_changed s st) = sv_servers st"
  by (auto simp: bootstrap_def bootstrap_continues_def context_changed_def dispose_store_def status_changed_def Let_def
      split: prod.splits runtime_status.splits)

lemma answered_ids:
  assumes "ids_ok st" "named_once (SnapshotAnswered n a)"
  shows "ids_ok (snapshot_answered n a st)"
proof -
  have "ids_ok (apply_snapshot r a st1)" if "ids_ok st1" for r st1
    using that assms(2) by (cases a) (auto simp: apply_snapshot_def ids_ok_def Let_def comp_def server_of_def)
  moreover have "ids_ok (st\<lparr> sv_requests := x \<rparr>)" for x using assms(1) by (simp add: ids_ok_def)
  ultimately have "ids_ok (apply_snapshot r a (st\<lparr> sv_requests := x \<rparr>))" for r x by blast
  then show ?thesis
    using assms(1) by (auto simp: snapshot_answered_def Let_def ids_ok_def split: option.splits bool.splits)
qed

lemma remove_ids: "ids_ok st \<Longrightarrow> ids_ok (removeServer i st)"
  by (simp add: ids_ok_def removeServer_def Let_def distinct_map_filter)

lemma step_ids: "links_ok st \<Longrightarrow> ids_ok st \<Longrightarrow> named_once ev \<Longrightarrow> ids_ok (store_step st ev)"
  using answered_ids arrives_ids upsert_ids remove_ids by (cases ev) (auto simp: ids_ok_def)

lemma run_ids: "list_all named_once es \<Longrightarrow> ids_ok (store_run (init_store ctx s) es)"
proof (induction es rule: rev_induct)
  case Nil
  show ?case by (simp add: store_run_def init_store_def Let_def ids_ok_def new_server_store_def)
next
  case (snoc e es)
  then show ?case using step_ids [OF run_links, of ctx s es e] by (simp add: store_run_def)
qed

lemma arrives_transition:
  assumes "links_ok st" "ids_ok st" "find_server i (sv_servers st) = Some a" "find_server i (sv_servers (event_arrives now e st)) = Some b"
  shows "isValidTransition (si_state a) (si_state b)"
proof -
  have "sv_servers (event_arrives now e st) = sv_servers st \<or> (\<exists>x. sv_servers (event_arrives now e st) = sv_servers (upsertServer False x st))"
    using arrives_one [OF assms(1), of now e] event_servers [of now _ e st] by metis
  then show ?thesis
  proof
    assume "sv_servers (event_arrives now e st) = sv_servers st"
    then show ?thesis using assms(3, 4) by (simp add: isValidTransition_def)
  next
    assume "\<exists>x. sv_servers (event_arrives now e st) = sv_servers (upsertServer False x st)"
    then show ?thesis using upsert_transition [OF assms(2, 3)] assms(4) by auto
  qed
qed

end
