(* ===== verification/TomcatProperties.thy ===== *)
theory TomcatProperties
  imports LogBuffer ServerStoreFacts
begin

text \<open>
  The properties of the logs and of the store of servers.
\<close>

section \<open>Logs\<close>

definition sample_line :: "string \<Rightarrow> log_line" where
  "sample_line s = \<lparr> ll_line = units s, ll_ts = [], ll_stream = Stdout, ll_level = LevelInfo, ll_source = None, ll_ordinal = None \<rparr>"

definition file_line :: "int \<Rightarrow> string \<Rightarrow> log_line" where
  "file_line n s = (sample_line s)\<lparr> ll_source := Some (units ''f''), ll_ordinal := Some n \<rparr>"

text \<open>
  C26. After every sequence of calls the buffer holds the longest end, within both bounds, of what has
  been appended since the last \<open>replace\<close> or \<open>clear\<close>, without the entries that exceed the bound of bytes alone; and its count
  of bytes is right.
\<close>

theorem log_buffer_is_longest_end:
  assumes "b = foldl buffer_step (new_log_buffer maxLines maxBytes) cs"
    and "kept = filter (\<lambda>e. entry_bytes e \<le> maxBytes) (kept_calls [] cs)"
  shows "(\<exists>dropped. kept = dropped @ lb_lines b) \<and> length (lb_lines b) \<le> maxLines \<and> lb_bytes b \<le> maxBytes
    \<and> lb_bytes b = sum_list (map entry_bytes (lb_lines b))
    \<and> (\<forall>xs ys. kept = xs @ ys \<and> length ys \<le> maxLines \<and> sum_list (map entry_bytes ys) \<le> maxBytes \<longrightarrow> length ys \<le> length (lb_lines b))"
proof -
  have r: "buffer_ok b \<and> lb_lines b = longest_fit maxLines maxBytes kept"
    using buffer_run [of "new_log_buffer maxLines maxBytes" "[]" cs] assms by (simp add: new_log_buffer_def buffer_ok_def)
  then show ?thesis
    using fit_suffix [of kept maxLines maxBytes] fit_bounds [of maxLines maxBytes kept] fit_longest [of _ maxLines maxBytes]
    by (simp add: buffer_ok_def total_bytes_def)
qed

lemma log_buffer_is_longest_end_witness:
  "length (lb_lines (foldl buffer_step (new_log_buffer 2 100) [Append [sample_line ''a'', sample_line ''b'', sample_line ''c'']])) \<le> 2"
  using log_buffer_is_longest_end [where maxLines = 2 and maxBytes = 100 and cs = "[Append [sample_line ''a'', sample_line ''b'', sample_line ''c'']]", OF refl refl] by simp

text \<open>
  C31. As long as the ordinals of no source go back and there are at most ten thousand different lines, each
  poll of the history gives exactly its lines that were in no earlier poll, in their order, and the first one gives all.
\<close>

theorem polls_deliver_new_lines:
  assumes "ordinals_grow hs" and "card (logIdentity ` set (concat hs)) \<le> 10000" and "k < length hs"
  shows "polls hs new_tracker ! k = filter (\<lambda>e. logIdentity e \<notin> logIdentity ` set (concat (take k hs))) (hs ! k)"
  using fresh_nth [OF assms(3), of "[]"] polls_from_start [OF assms(1, 2)] by simp

lemma polls_deliver_new_lines_witness:
  "polls [[file_line 1 ''a''], [file_line 1 ''a'', file_line 2 ''a'']] new_tracker ! 1 = [file_line 2 ''a'']"
proof -
  let ?hs = "[[file_line 1 ''a''], [file_line 1 ''a'', file_line 2 ''a'']]"
  have g: "ordinals_grow ?hs" by code_simp
  have "card (logIdentity ` set (concat ?hs)) \<le> length (map logIdentity (concat ?hs))"
    by (metis card_length list.set_map)
  then have c: "card (logIdentity ` set (concat ?hs)) \<le> 10000" by simp
  have i: "logIdentity (file_line 2 ''a'') \<noteq> logIdentity (file_line 1 ''a'')" by code_simp
  show ?thesis using polls_deliver_new_lines [OF g c, of 1] i by simp
qed

text \<open>
  A source that one poll does not mention is forgotten: when it starts again from lower ordinals afterwards, its lines
  count as seen and are not delivered, although they would be if the poll between had not come.
\<close>

lemma forgotten_source:
  "polls [[file_line 1 ''a'', file_line 2 ''b''], [], [file_line 1 ''a'']] new_tracker ! 2 = []
    \<and> polls [[file_line 1 ''a'', file_line 2 ''b''], [file_line 1 ''a'']] new_tracker ! 1 = [file_line 1 ''a'']"
  by (simp add: next_history_def new_tracker_def file_line_def sample_line_def logIdentity_def source_of_def max_ordinal_def
    forget_source_def add_to_set_def int_text_def digits_of.simps units_def unit_of_def Let_def)

section \<open>Servers\<close>

definition sample_server :: "string \<Rightarrow> server_state \<Rightarrow> protocol_server" where
  "sample_server i s = \<lparr> ps_id = i, ps_projectId = ''p'', ps_state = s, ps_http = None, ps_debug = None, ps_pid = None, ps_startedAt = None \<rparr>"

definition state_event_of :: "string \<Rightarrow> server_state \<Rightarrow> agent_event" where
  "state_event_of i s = ServerStateEvent \<lparr> ev_serverId = i, ev_state = s, ev_http = None, ev_debug = None, ev_pid = None \<rparr>"

text \<open>The store has loaded its snapshot and subscribed.\<close>

definition loaded :: "protocol_server list \<Rightarrow> store_event list" where
  "loaded ps = [SnapshotAnswered 0 (Servers ps), BootstrapContinues 0]"

text \<open>
  C25. However contexts change and answers come late, the store has at most one subscription at the runtime, the one
  that it can end; at most one bootstrap can still subscribe, and only when there is no subscription; after it was disposed
  there is none, and none can come.
\<close>

theorem one_subscription:
  "map fst (sv_subscriptions (store_run (init_store ctx s) es)) =
      (case sv_eventsUnsubscribe (store_run (init_store ctx s) es) of Some k \<Rightarrow> [k] | None \<Rightarrow> [])
    \<and> running_boots (store_run (init_store ctx s) es) + length (sv_subscriptions (store_run (init_store ctx s) es)) \<le> 1
    \<and> (sv_disposed (store_run (init_store ctx s) es) \<longrightarrow>
        sv_subscriptions (store_run (init_store ctx s) es) = [] \<and> running_boots (store_run (init_store ctx s) es) = 0)"
  using run_links [of ctx s es] by (simp add: links_ok_def)

lemma one_subscription_witness:
  "sv_subscriptions (store_run (init_store (Some ''w'') RtOpen) (loaded [] @ [ContextChanged (Some ''v''), Dispose])) = []"
proof -
  have "sv_disposed (store_run (init_store (Some ''w'') RtOpen) (loaded [] @ [ContextChanged (Some ''v''), Dispose]))" by code_simp
  then show ?thesis using one_subscription [of "Some ''w''" RtOpen "loaded [] @ [ContextChanged (Some ''v''), Dispose]"] by blast
qed

text \<open>
  C30. If the agent names each server once, then in every state of the store an event of the agent, and an update that
  is not forced, changes the state of a shown server only along the table of transitions.
\<close>

theorem states_follow_table:
  assumes "list_all named_once past" and "st = store_run (init_store ctx s) past"
    and "ev = EventArrives now e \<or> ev = Upsert False x"
    and "find_server i (sv_servers st) = Some a" and "find_server i (sv_servers (store_step st ev)) = Some b"
  shows "si_state a = si_state b \<or> si_state b \<in> set (ALLOWED_TRANSITIONS (si_state a))"
proof -
  have ok: "links_ok st" "ids_ok st" using run_links run_ids [OF assms(1)] assms(2) by simp_all
  have "isValidTransition (si_state a) (si_state b)"
    using assms(3, 5) arrives_transition [OF ok assms(4)] upsert_transition [OF ok(2) assms(4)] by auto
  then show ?thesis by (auto simp: isValidTransition_def split: if_splits)
qed

lemma states_follow_table_witness:
  "map si_state (sv_servers (store_run (init_store (Some ''w'') RtOpen)
     (loaded [sample_server ''1'' SrvRunning] @ [EventArrives [] (state_event_of ''1'' SrvStopping)]))) = [SrvStopping]
    \<and> SrvStopping \<in> set (ALLOWED_TRANSITIONS SrvRunning)"
proof -
  let ?past = "loaded [sample_server ''1'' SrvRunning]"
  let ?st = "store_run (init_store (Some ''w'') RtOpen) ?past"
  let ?ev = "EventArrives [] (state_event_of ''1'' SrvStopping)"
  let ?a = "server_of ''w'' (sample_server ''1'' SrvRunning)"
  let ?b = "?a\<lparr> si_state := SrvStopping \<rparr>"
  have n: "list_all named_once ?past" by code_simp
  have f: "find_server ''1'' (sv_servers ?st) = Some ?a" by code_simp
  have g: "find_server ''1'' (sv_servers (store_step ?st ?ev)) = Some ?b" by code_simp
  have "si_state ?a = si_state ?b \<or> si_state ?b \<in> set (ALLOWED_TRANSITIONS (si_state ?a))"
    by (rule states_follow_table [OF n refl disjI1 [OF refl] f g])
  then have "SrvStopping \<in> set (ALLOWED_TRANSITIONS SrvRunning)" by (simp add: server_of_def sample_server_def)
  then show ?thesis by code_simp
qed

text \<open>
  Two events ask for the snapshot; the later request is answered first, with the running server, and the earlier one afterwards, without it: the older
  snapshot stays. And an event that brings the first server leaves the connection state empty.
\<close>

lemma stale_snapshot_wins:
  "sv_servers (store_run (init_store (Some ''w'') RtOpen)
     (loaded [] @ [EventArrives [] (OtherEvent ''deploy.started''), EventArrives [] (OtherEvent ''server.started''),
        SnapshotAnswered 2 (Servers [sample_server ''1'' SrvRunning]), SnapshotAnswered 1 (Servers [])])) = []"
  by code_simp

lemma empty_with_server:
  "length (sv_servers (store_run (init_store (Some ''w'') RtOpen) (loaded [] @ [EventArrives [] (state_event_of ''1'' SrvStarting)]))) = 1
    \<and> sv_connectionState (store_run (init_store (Some ''w'') RtOpen) (loaded [] @ [EventArrives [] (state_event_of ''1'' SrvStarting)])) = ConnEmpty"
  by code_simp

end
