(* ===== verification/Spec2Isabelle.thy ===== *)
theory Spec2Isabelle
  imports HighlightingService LexerFacts ScannerFacts JspDiagnostics JspServletLines PropertiesEscape
    SearchProperties ToolProperties ServerProperties RuntimeProperties TomcatProperties
begin

text \<open>
  Kairo IDE: syntax highlighting, the Java tools of JSP pages, search and replace, the life cycle of the language
  server and the texts that it sees, and the connection to the runtime agent. All sources below are in \<open>src/packages\<close>.

  THE PROGRAM. The parts form eight groups.

  (1) The highlighting pipeline (\<open>highlighting-extension/src\<close>). Monaco models are tracked by
  \<open>HighlightingService\<close>, which sends snapshots, edits and viewports to a worker (\<open>HighlightingWorkerInstance\<close>).
  Its \<open>HighlightingScheduler\<close> keeps one \<open>IncrementalTokenizer\<close> with a \<open>ModelTokenCache\<close> per model and works in slices of
  a timer; each slice gives a batch of tokens, which the service hands to the \<open>MonacoTokenizationAdapter\<close> of
  the language, which stores them in Monaco's token store. The line lexer and the \<open>JspRegionScanner\<close> know the
  syntax of pages.

  (2) The JSP tools (\<open>jsp-extension/src/browser\<close>). A page with its static includes is turned into one Java file
  (\<open>JspPageModelBuilder\<close>) with a source map (\<open>JspSourceMap\<close>), or, when this fails, each block into a file of its own
  (\<open>jsp-virtual-java.ts\<close>). These virtual documents live at the language server; the \<open>VirtualDocumentManager\<close> opens,
  changes and closes them and hands out leases with generations. The \<open>JspDiagnosticsEngine\<close> runs the page model
  after edits, keeps the documents of each page, and maps the diagnostics that come back to markers in the page.
  For debugging, \<open>JspDebugBreakpointMapper\<close> maps lines of a page to those of the servlet that Tomcat generates, and back.

  (3) Texts for the language server and for disk: \<open>JavaDocumentSync\<close> (\<open>java-extension/src/browser\<close>) sends
  \<open>didOpen\<close>, \<open>didChange\<close> and \<open>didClose\<close> for Java editors, with a debounce timer and ranged changes; the escapes of
  properties files (\<open>encoding-extension/src/browser\<close>).

  (4) Search (\<open>search-extension/src/browser\<close>). The replace service plans edits from search matches, applies them to all
  files or to none, and undoes the last transaction. The finders of files, classes, actions and everything score and sort
  what matches a query; the search view shows the session model, which runs a search over the stream service or, when it
  fails, by a plain request. A newer query makes the answers of the older ones void in all of them.

  (5) Texts of other tools: the output of git (\<open>git-extension/src\<close>) and the names of encodings
  (\<open>encoding-extension/src/browser\<close>).

  (6) The life cycle of the Java language server (\<open>java-extension/src/browser/java-ls-lifecycle.ts\<close>): activation of a
  project with retries, one transition at a time that starts or stops the client, restarts after a crash with a budget.

  (7) The connection to the runtime agent (\<open>runtime-extension/src/browser\<close>): the service finds the address and the secret of the
  agent, sends requests with retries, keeps one \<open>EventStream\<close> that reconnects by itself for all subscribers, and
  sends the secret to allowed hosts only; the trust manager says in which workspaces sensitive operations may run.

  (8) Servers (\<open>tomcat-extension/src/browser\<close>): the store of the servers, which loads snapshots and follows the events of the
  connection, and the buffer and history of their logs.

  THE THEORIES, and the file each models (definitions have the names of the code; state is a record, an operation
  a function that returns the new state; object identity, where the code relies on it, is an index in a store).
  \<^item> \<open>Prelude\<close>: JavaScript maps in insertion order, strings, slices, words; collections of rules.
  \<^item> \<open>RegionScanner\<close>, \<open>ScannerFacts\<close>: \<open>common/jsp-region-scanner.ts\<close>, its regions as a partition of the page, the
    end of a scriptlet by the lexemes of its Java code, lines and columns.
  \<^item> \<open>LineLexer\<close>, \<open>LexerFacts\<close>: \<open>common/lexer-state.ts\<close> and the line lexer of \<open>worker/incremental-tokenizer.ts\<close>; bounds of
    the tokens, the modes a line can end in.
  \<^item> \<open>TokenCache\<close>: \<open>common/token-cache.ts\<close>; checkpoints as a map with a greatest-below query.
  \<^item> \<open>TextLines\<close>, \<open>IncrementalTokenizer\<close>: lines, edits and slices of \<open>worker/incremental-tokenizer.ts\<close>; the coherence invariant
    (what is cached is what a tokenization from the first line computes) and that every operation keeps it.
  \<^item> \<open>CoveredRanges\<close>, \<open>Scheduler\<close>: \<open>worker/highlighting-scheduler.ts\<close> and \<open>worker/highlighting-worker-core.ts\<close>; ranges as
    sets of lines, the work left as a measure, timers as pending events.
  \<^item> \<open>LanguageCoverage\<close>, \<open>MonacoAdapter\<close>, \<open>HighlightingService\<close>: \<open>common/language-coverage.ts\<close>,
    \<open>browser/monaco-tokenization-adapter.ts\<close>, \<open>browser/tokenizer-owner-registry.ts\<close>, \<open>browser/highlighting-service.ts\<close>;
    the composed system with reachability by rule induction and a refinement of the worker by the Monaco models.
  \<^item> \<open>Positions\<close>: texts, lines and columns: splitting and joining at line breaks, the offset of a line, the position of an
    offset, and how positions add. Shared by the theories below.
  \<^item> \<open>JsRegex\<close>: the regular expressions the JSP tools use, as a datatype with a backtracking matcher in the order of the
    language standard (greedy and optional parts, classes, captures), \<open>exec\<close> from an index, the loop over all matches,
    and \<open>trim\<close> and \<open>split\<close>.
  \<^item> \<open>JspJavaNav\<close>: \<open>jsp-java-nav.ts\<close>; the blocks of a page, and the agreement of its search with the scanner of (1) where no
    line break and no escaped delimiter occurs.
  \<^item> \<open>JspVirtualJava\<close>: \<open>jsp-virtual-java.ts\<close>; URIs and positions of the files of single blocks.
  \<^item> \<open>JspSourceMap\<close>: \<open>jsp-sourcemap.ts\<close>; what the two directions of the map do inside a span with texts.
  \<^item> \<open>JspPageModel\<close>, \<open>JspPageFacts\<close>: \<open>jsp-page-model.ts\<close>; the emitted file line by line with the invariant that every span
    added so far covers the characters it claims, and the recursion over includes.
  \<^item> \<open>VirtualDocuments\<close>: \<open>virtual-document-manager.ts\<close>; the manager against a specification (open documents with generations
    and texts, and a counter), and the server's view.
  \<^item> \<open>JspCompletion\<close>: of \<open>jsp-scriptlet-java-completion.ts\<close> the cursor and the virtual document that a completion opens.
  \<^item> \<open>JspDiagnostics\<close>: \<open>jsp-scriptlet-diagnostics-core.ts\<close> with the other user of the shared manager, the completion; the invariant
    that every open document is an active one of an attached page, one of a completion there, or about to be closed.
  \<^item> \<open>JspServletLines\<close>: \<open>jsp-debug-breakpoint.ts\<close>; a servlet line belongs to the nearest marker at or above it, the two
    directions agree on marked lines, what is cached stays, and which page names survive the way back.
  \<^item> \<open>DocumentSync\<close>: \<open>java-document-sync-core.ts\<close>; the mirror invariant between an editor and the server.
  \<^item> \<open>PropertiesEscape\<close>: \<open>properties-escape.ts\<close> over 16-bit code units.
  \<^item> \<open>Results\<close>, \<open>SearchReplace\<close>, \<open>SearchReplaceFacts\<close>: \<open>search-replace-service.ts\<close>, \<open>search-path.ts\<close>; located edits as simultaneous
    splices, plans against a file service that may fail, the compensation of a failed write.
  \<^item> \<open>StableSort\<close>, \<open>NewestWins\<close>: the sort of the language, and the rule that the newest request wins.
  \<^item> \<open>FindFile\<close>, \<open>FindFileFacts\<close>, \<open>FindSymbols\<close>: \<open>find-file-model.ts\<close>, \<open>search-everywhere-model.ts\<close>, \<open>find-action-model.ts\<close>,
    \<open>find-class-model.ts\<close>, \<open>file-index-service.ts\<close>; the bounded selection as a cut of the sorted list.
  \<^item> \<open>SearchStream\<close>, \<open>SearchSession\<close>: \<open>search-stream-service.ts\<close> and \<open>search-session-model.ts\<close>; sockets, timers and shared match buffers.
  \<^item> \<open>GitPaths\<close>, \<open>EncodingIds\<close>: \<open>git-path-utils.ts\<close>, \<open>git-diff-parse.ts\<close>, \<open>encoding-utils.ts\<close>, \<open>reopen-strategy.ts\<close>.
  \<^item> \<open>FileUris\<close>: \<open>pathToFileUri\<close> of \<open>java-ls-lifecycle.ts\<close> with \<open>encodeURIComponent\<close>, UTF-8 and, as the reference, its inverse.
  \<^item> \<open>LanguageServer\<close>, \<open>LanguageServerFacts\<close>: the rest of \<open>java-ls-lifecycle.ts\<close>; which steps change what, the budget of restarts,
    the runs in which nothing can start any more.
  \<^item> \<open>RuntimeSecurity\<close>, \<open>RuntimeRequest\<close>, \<open>RuntimeEvents\<close>, \<open>RuntimeFacts\<close>: \<open>runtime-security.ts\<close>, \<open>runtime-errors.ts\<close> and
    \<open>runtime-connection-service.ts\<close>; sockets and timers of every stream, the attempts of a request.
  \<^item> \<open>LogBuffer\<close>, \<open>ServerStore\<close>, \<open>ServerStoreFacts\<close>: \<open>log-buffer.ts\<close> and \<open>server-store.ts\<close>; the generations of bootstraps.
  \<^item> \<open>SearchProperties\<close>, \<open>ToolProperties\<close>, \<open>ServerProperties\<close>, \<open>RuntimeProperties\<close>, \<open>TomcatProperties\<close>: the properties of groups (4) to (8); those of
    the other groups are in this theory.

  TEXT. A text is a list of characters and an index counts them. The sources only compare units with ASCII characters,
  so the characters of HOL stand for UTF-16 units; where their values matter (escapes, URIs, requests to the agent), a unit is a 16-bit word.

  INTERFACES. The store of checkpoints (\<open>checkpoint_store\<close>), incremental lexing over such a store (\<open>incremental_lexing\<close>), the
  covered lines (\<open>line_cover\<close>) and the language server are locales, interpreted on the operations of the model. A language
  server (\<open>lsp_server\<close>) is any function that replaces the whole text on a change without a range and applies a ranged change
  to the text it has; the interpretation \<open>shadow\<close> is the function by which the code itself tracks the text. Facts about
  what the server holds are proved once in the locale, and used by \<open>VirtualDocuments\<close> for another client. The locale
  \<open>newest_wins\<close> has a step function with a counter of requests and the events that answer one; it is interpreted on the file
  finder, on Search Everywhere, on the search session and on its stream.

  PARAMETERS. What is not in the sources is an argument: the file service of replacements (\<open>file_service\<close> says that a write that
  succeeds can be read back and changes nothing else), \<open>localeCompare\<close> (\<open>comparator\<close>: a total preorder), the URI library, the paths
  of the file system, the decoder of UTF-8, the constructor \<open>URL\<close>, the arguments for which \<open>WebSocket\<close> throws, clocks.

  ASYNCHRONY. An \<open>await\<close> splits an operation into steps, and other operations may come in between: the steps of a lease
  (\<open>ensureOpenedOrUpdated\<close>, \<open>acquire_resume\<close>), the closings of a detached page (\<open>closeAll_next\<close>, one document a step), a
  diagnostics run (its part after the page model returned), timers (an event that fires). What follows an \<open>await\<close> of a search, of an activation or of a transition names its request; the answer of the service
  is an argument of the step. A socket is a number in a store, and its events are steps that happen only while the
  platform may still deliver them. The properties quantify over all sequences of such events. Calls of the client that may throw are
  a predicate \<open>throws\<close> on the calls.

  BOUNDS. Loops over an index are functions with a measure, so they are total. The matcher of \<open>JsRegex\<close> takes a fuel of the
  length of the text, since a repetition that consumes nothing stops. The recursion over
  includes of \<open>resolveIncludeTree\<close> may run forever in the code and takes a fuel: running out is the result \<open>None\<close>, more fuel never
  changes a result, and one more than the number of URIs that can be reached is enough. The recursion of
  \<open>collectExpandedBodyBlocks\<close> is bounded by the depth test of the code, which the counter of 21 levels (depth 0 to 20) is. The loops
  of an activation (thirteen attempts) and of a request are recursions over the answers that they get: an empty list of
  answers leaves them waiting. Walks over directories are bounded by the limits that the code counts.

  WHAT THE PROPERTIES SHOW. In this theory: tokens stored in Monaco are those of the current text and every model is
  completed; the regions and lines of pages; user code of a page is in the virtual file where the map says and
  maps back; the manager implements its specification, leaks nothing and its server has its texts; flushing sends the text of the
  editor; round trips of URIs, of metadata and of properties files; termination and divergence of includes; and
  inputs on which the code does what it should not. In \<open>SearchProperties\<close>: a plan is applied wholly or not at all, edits are
  splices, undo restores; the best files are the first of the sorted list; the newest request is the one that is shown, and
  a stream ends with all its matches. In \<open>ToolProperties\<close>: quoted paths, the status and the diff of git, names of encodings. In
  \<open>ServerProperties\<close>: the budget of restarts, at most one restart at a time, nothing starts without a project, a crash is
  answered, a file URI names its path (but for one lost slash). In \<open>RuntimeProperties\<close>: no stream is leaked or stuck, a subscriber gets the events of its
  workspace, the secret goes to allowed hosts only, requests retry as they should, trust is what was decided last. In
  \<open>TomcatProperties\<close>: the buffer is the longest end of the log, polls give the new lines, the store of servers has one subscription and
  its states follow the table.

  NOT MODELLED. Of the modelled files: the error message of the worker, which no message of the protocol triggers; loading
  Monaco's classes; the include resolver, which reads files through the workbench (a parameter); listeners and debounce of
  \<open>jsp-scriptlet-diagnostics.ts\<close>; the redaction of logs in \<open>runtime-security.ts\<close>; the port diagnosis of the agent; texts of
  log lines and of interruptions; properties that every object inherits, where the code uses an object as a table; console output.
  Callbacks of listeners do not call back. The time of a slice is a parameter. Of the other files: the views, providers and
  scopes of the search; the JSON-RPC client and the registration of the Java language; the process that runs the language
  server; the editors of XML, JSON and \<open>web.xml\<close>; the parser of Subversion output; the stores and views of builds, of deployments, of
  projects, of databases and of remote machines, which mostly render what the agent answers; the desktop shell; translations,
  which are tables; the runtime agent, a Go program; scripts and end-to-end tests.
\<close>

section \<open>Concrete inputs of the witnesses\<close>

definition example_ops :: "tk_op list" where
  "example_ops =
    [SetFullText [CHR ''a'', NL, CHR ''<'', CHR ''%'', NL, CHR ''b''] 1,
     TokenizeSlice 1 3 (\<lambda>line. line = 3),
     ApplyEdits [\<lparr>te_rangeOffset = 3, te_rangeLength = 1, te_text = ''p>''\<rparr>] 2 None,
     TokenizeSlice 2 3 (\<lambda>line. False)]"

definition example_service :: hl_service where
  "example_service = onDidCreateModel ''a.jsp''
     \<lparr>mm_languageId = ''jsp'', mm_versionId = 1, mm_text = ''<p>''\<rparr> onStart"

text \<open>An insertion and a replacement at the same place, in one event.\<close>

definition touching_edits :: "text_edit list" where
  "touching_edits = [\<lparr>te_rangeOffset = 1, te_rangeLength = 1, te_text = ''q''\<rparr>,
     \<lparr>te_rangeOffset = 1, te_rangeLength = 0, te_text = ''Y''\<rparr>]"

definition edited_model :: monaco_model where
  "edited_model = \<lparr>mm_languageId = ''jsp'', mm_versionId = 2, mm_text = ''<Yq>''\<rparr>"

definition edited_service :: hl_service where
  "edited_service = onDidChangeContent ''a.jsp'' touching_edits edited_model example_service"

definition small_page :: string where
  "small_page = ''a<% x%>''"

definition small_session :: document_sync where
  "small_session = changeDocument ''u'' 2 ''b'' (openDocument (\<lambda>_. False) ''u'' ''java'' 1 ''a'' (new_document_sync ''ready''))"

section \<open>The highlighting pipeline\<close>

text \<open>C7: whatever texts, edits and slices a tokenizer has gone through, in
  any order and with any clock, a cached line of tokens is the one a tokenization of the
  current text from its first line computes.\<close>

theorem incremental_equals_full:
  assumes "getLineTokens n (tk_cache (tk_run (new_tokenizer m lang dialect) ops)) = Some p"
  shows "p = line_tokens (tokenizeSingleLine lang dialect)
      (new_lexer_state ''root'' None [] (Some dialect)) (lines_of (foldl text_step [] ops)) n
    \<and> 1 \<le> n \<and> n \<le> length (lines_of (foldl text_step [] ops))"
proof -
  let ?t = "new_tokenizer m lang dialect"
  have "tk_fullText ?t = []" "tk_languageId ?t = lang" "tk_dialect ?t = dialect"
    by (simp_all add: new_tokenizer_def)
  with tk_coherent_tokens [OF _ assms] tk_run_correct [OF tk_coherent_new, of m lang dialect ops]
  show ?thesis by (simp add: tk_init_def)
qed

theorem incremental_equals_full_witness:
  "getLineTokens 3 (tk_cache (tk_run (new_tokenizer ''m'' ''jsp'' ''jsp'') example_ops)) = Some [1, 0]
   \<and> [1, 0] = line_tokens (tokenizeSingleLine ''jsp'' ''jsp'')
        (new_lexer_state ''root'' None [] (Some ''jsp'')) (lines_of (foldl text_step [] example_ops)) 3"
proof -
  have "getLineTokens 3 (tk_cache (tk_run (new_tokenizer ''m'' ''jsp'' ''jsp'') example_ops)) = Some [1, 0]"
    by code_simp
  with incremental_equals_full [OF this] show ?thesis by simp
qed

text \<open>C22: a slice of a tokenizer that any operations have led to starts at the
  requested line, ends at most at the target, makes progress whatever the clock, and returns
  the tokens of its lines and the state after the last one, those of a tokenization from the
  first line; it says that it is completed exactly when it reached the last line.\<close>

theorem slice_is_correct:
  fixes ops m lang dialect
  defines "t \<equiv> tk_run (new_tokenizer m lang dialect) ops"
  assumes "tokenizeSlice (int a) target slow t = (r, t')"
    and "1 \<le> a" and "a \<le> length (tk_lines t)" and "int a \<le> target"
  shows "sr_startLine r = a \<and> a \<le> sr_endLine r
    \<and> int (sr_endLine r) \<le> min target (int (length (tk_lines t)))
    \<and> sr_lineTokens r = map (line_tokens (tokenizeSingleLine lang dialect)
        (new_lexer_state ''root'' None [] (Some dialect)) (lines_of (foldl text_step [] ops)))
        [a..<Suc (sr_endLine r)]
    \<and> sr_endState r = Some (state_after (tokenizeSingleLine lang dialect)
        (new_lexer_state ''root'' None [] (Some dialect)) (lines_of (foldl text_step [] ops)) (sr_endLine r))
    \<and> (sr_isCompleted r \<longleftrightarrow> sr_endLine r = length (lines_of (foldl text_step [] ops)))"
proof -
  have "tk_fullText (new_tokenizer m lang dialect) = []"
    "tk_languageId (new_tokenizer m lang dialect) = lang" "tk_dialect (new_tokenizer m lang dialect) = dialect"
    by (simp_all add: new_tokenizer_def)
  note run = tk_run_correct [OF tk_coherent_new, of m lang dialect ops, folded t_def, unfolded this]
  have ne: "tk_lines t \<noteq> []" using assms(3,4) by auto
  then have lines: "tk_lines t = lines_of (foldl text_step [] ops)"
    using run by (auto simp: tk_coherent_def)
  have "nat (max 1 (min (int a) (int (length (tk_lines t))))) = a" using assms(3,4) by simp
  note S = tokenizeSlice_correct [OF _ ne assms(2), unfolded this]
  from S run assms(5) lines show ?thesis by (simp add: tk_lex_def tk_init_def)
qed

theorem slice_is_correct_witness:
  "let r = fst (tokenizeSlice 2 3 (\<lambda>line. False) (tk_run (new_tokenizer ''m'' ''jsp'' ''jsp'')
        [SetFullText [CHR ''a'', NL, CHR ''<'', CHR ''%'', NL, CHR ''b''] 1]))
   in sr_startLine r = 2 \<and> sr_isCompleted r"
proof -
  let ?t = "tk_run (new_tokenizer ''m'' ''jsp'' ''jsp'')
        [SetFullText [CHR ''a'', NL, CHR ''<'', CHR ''%'', NL, CHR ''b''] 1]"
  obtain r t' where r: "tokenizeSlice (int 2) 3 (\<lambda>line. False) ?t = (r, t')" by (metis surj_pair)
  have len: "length (tk_lines ?t) = 3" by code_simp
  have fin: "sr_isCompleted (fst (tokenizeSlice 2 3 (\<lambda>line. False) ?t))" by code_simp
  show ?thesis using slice_is_correct [OF r] len r fin by (simp add: Let_def)
qed

text \<open>C9: from any state the scheduler's events lead to, one timer
  callback more than there is work left, whatever their clocks, complete every model: the timer stops
  and every line of every model has the tokens of its current text.\<close>

theorem every_model_completes:
  fixes es clocks
  defines "s \<equiv> sched_run new_scheduler es"
  defines "s' \<equiv> sched_run s (map RunStep clocks)"
  assumes "sched_work s < length clocks"
  shows "\<not> hs_isProcessing s' \<and> hs_timers s' = 0
    \<and> (\<forall>k m. jm_get (hs_models s') k = Some m \<longrightarrow> mt_isCompleted m
        \<and> (\<forall>n. 1 \<le> n \<and> n \<le> length (lines_of (tk_fullText (mt_tokenizer m))) \<longrightarrow>
            getLineTokens n (tk_cache (mt_tokenizer m)) =
              Some (line_tokens (tk_lex (mt_tokenizer m)) (tk_init (mt_tokenizer m))
                (lines_of (tk_fullText (mt_tokenizer m))) n)))"
proof -
  have ok: "sched_ok s" unfolding s_def by (rule sched_ok_run [OF sched_ok_new])
  then have ok': "sched_ok s'" unfolding s'_def by (rule sched_ok_run)
  have "\<not> hasPendingWork s' \<and> \<not> hs_isProcessing s'"
    unfolding s'_def by (rule sched_drain [OF ok assms(3)])
  moreover from ok' have "tasks_ok (hs_models s')" by (simp add: sched_ok_def)
  ultimately show ?thesis
    using ok' hasPendingWork_get completed_task_tokens tasks_ok_get by (auto simp: sched_ok_def)
qed

theorem every_model_completes_witness:
  "\<not> hs_isProcessing (sched_run (sched_run new_scheduler
      [Register ''m'' ''jsp'' ''jsp'' 1 [CHR ''a'', NL, CHR ''b''] None])
      (map RunStep (replicate 4 (\<lambda>_. True))))"
proof -
  have "sched_work (sched_run new_scheduler
      [Register ''m'' ''jsp'' ''jsp'' 1 [CHR ''a'', NL, CHR ''b''] None])
      < length (replicate 4 (\<lambda>_ :: nat. True))"
    by code_simp (simp add: ranges.left_def)
  from every_model_completes [OF this] show ?thesis by blast
qed

text \<open>When a timer callback emits a batch, the batch names a model of
  the scheduler and its current version, and carries the tokens of its lines in the model's
  current text.\<close>

theorem batch_is_for_current_text:
  fixes es slow
  defines "s \<equiv> sched_run new_scheduler es"
  defines "s' \<equiv> runStep slow s"
  assumes "hs_timers s \<noteq> 0" and "hs_batches s' \<noteq> hs_batches s"
  shows "\<exists>m b. hs_batches s' = b # hs_batches s
    \<and> jm_get (hs_models s') (tb_modelInstanceId b) = Some m
    \<and> tb_documentVersion b = mt_documentVersion m
    \<and> 1 \<le> tb_startLineNumber b \<and> tb_startLineNumber b \<le> tb_endLineNumber b
    \<and> tb_endLineNumber b \<le> length (lines_of (tk_fullText (mt_tokenizer m)))
    \<and> tb_lineTokens b = map (line_tokens (tk_lex (mt_tokenizer m)) (tk_init (mt_tokenizer m))
        (lines_of (tk_fullText (mt_tokenizer m)))) [tb_startLineNumber b..<Suc (tb_endLineNumber b)]"
proof -
  have ok: "sched_ok s" unfolding s_def by (rule sched_ok_run [OF sched_ok_new])
  from runStep_batch [OF ok assms(3,4) [unfolded s'_def]] show ?thesis
    unfolding s'_def .
qed

theorem batch_is_for_current_text_witness:
  "\<exists>b. hs_batches (runStep (\<lambda>_. False) (sched_run new_scheduler
      [Register ''m'' ''jsp'' ''jsp'' 1 [CHR ''a'', NL, CHR ''b''] None])) = [b]
    \<and> tb_startLineNumber b \<le> tb_endLineNumber b"
proof -
  let ?s = "sched_run new_scheduler [Register ''m'' ''jsp'' ''jsp'' 1 [CHR ''a'', NL, CHR ''b''] None]"
  have t: "hs_timers ?s \<noteq> 0" "hs_batches ?s = []" by code_simp+
  have "length (hs_batches (runStep (\<lambda>_. False) ?s)) = 1" by code_simp
  then have "hs_batches (runStep (\<lambda>_. False) ?s) \<noteq> hs_batches ?s" using t(2) by auto
  from batch_is_for_current_text [OF t(1) this] t(2) show ?thesis by auto
qed

text \<open>C35: after any sequence of events the scheduler has at most one timer pending,
  it has one exactly when it is processing, and it is processing whenever some model is not
  completed: no registered work is ever left without a callback.\<close>

theorem no_lost_wakeup:
  fixes es
  defines "s \<equiv> sched_run new_scheduler es"
  shows "hs_timers s = (if hs_isProcessing s then 1 else 0)
    \<and> hs_status s = (if hs_isProcessing s then Busy else Idle)
    \<and> ((\<exists>m\<in>set (jm_values (hs_models s)). \<not> mt_isCompleted m) \<longrightarrow> hs_timers s = 1)"
proof -
  have "sched_ok s" unfolding s_def by (rule sched_ok_run [OF sched_ok_new])
  then show ?thesis by (auto simp: sched_ok_def hasPendingWork_def)
qed

theorem no_lost_wakeup_witness:
  "hs_timers (sched_run new_scheduler
      [Register ''m'' ''jsp'' ''jsp'' 1 [CHR ''a'', NL, CHR ''b''] None, Viewport ''m'' 1 2]) = 1"
proof -
  let ?s = "sched_run new_scheduler
      [Register ''m'' ''jsp'' ''jsp'' 1 [CHR ''a'', NL, CHR ''b''] None, Viewport ''m'' 1 2]"
  have "\<exists>m\<in>set (jm_values (hs_models ?s)). \<not> mt_isCompleted m" by code_simp
  with no_lost_wakeup [of "[Register ''m'' ''jsp'' ''jsp'' 1 [CHR ''a'', NL, CHR ''b''] None, Viewport ''m'' 1 2]"]
  show ?thesis by blast
qed

lemma edited_reach: "hl_reach edited_service"
proof -
  have m: "jm_get (sv_models example_service) ''a.jsp'' = Some \<lparr>mm_languageId = ''jsp'', mm_versionId = 1, mm_text = ''<p>''\<rparr>"
    by code_simp
  have c: "monaco_change ''<p>'' touching_edits ''<Yq>''" by code_simp
  have r: "hl_reach example_service"
    unfolding example_service_def by (rule hl_reach.create [OF hl_reach.start]) (simp add: onStart_def)
  show ?thesis
    unfolding edited_service_def by (rule hl_reach.content [OF r m]) (use c in \<open>simp_all add: edited_model_def\<close>)
qed

text \<open>C18: in every reachable state of the service, for each uri it tracks the
  worker has exactly the text and version of Monaco's model and the dialect of the uri, and for
  a language that has an adapter also Monaco's language; it has no other model.\<close>

theorem worker_mirrors_monaco:
  assumes "hl_reach s"
  shows "case jm_get (hs_models (sv_worker s)) uri of
      None \<Rightarrow> jm_get (sv_tracked s) uri = None
    | Some t \<Rightarrow> \<exists>m. jm_get (sv_models s) uri = Some m
        \<and> jm_get (sv_tracked s) uri = Some (mm_versionId m)
        \<and> tk_fullText (mt_tokenizer t) = mm_text m \<and> mt_documentVersion t = mm_versionId m
        \<and> tk_dialect (mt_tokenizer t) = di_dialect (detectLanguageAndDialect uri)
        \<and> (mm_languageId m \<in> {''jsp'', ''java''} \<longrightarrow> tk_languageId (mt_tokenizer t) = mm_languageId m)"
proof (cases "jm_get (hs_models (sv_worker s)) uri")
  case None
  with hl_okD(2) [OF hl_ok_reach [OF assms], of uri] show ?thesis by (simp add: view_def)
next
  case (Some t)
  then have "view (sv_worker s) uri = Some (task_view t)" by (simp add: view_def)
  from hl_okD(3) [OF hl_ok_reach [OF assms] this] Some show ?thesis
    by (auto simp: mirror_of_def task_view_def)
qed

theorem worker_mirrors_monaco_witness:
  "case jm_get (hs_models (sv_worker edited_service)) ''a.jsp'' of
      None \<Rightarrow> False
    | Some t \<Rightarrow> tk_fullText (mt_tokenizer t) = ''<Yq>'' \<and> mt_documentVersion t = 2"
proof -
  have t: "jm_get (hs_models (sv_worker edited_service)) ''a.jsp'' \<noteq> None" by code_simp
  have m: "jm_get (sv_models edited_service) ''a.jsp'' = Some edited_model" by code_simp
  show ?thesis using worker_mirrors_monaco [OF edited_reach, of "''a.jsp''"] t m by (auto simp: edited_model_def split: option.splits)
qed

text \<open>C1: a timer callback leaves the token store of every session as it
  was, or appends the calls of one batch for the session's model; the lines of that batch are
  lines of Monaco's current text and their tokens are those of that text, in the language and
  dialect of the model.\<close>

theorem stored_tokens_are_current:
  assumes "hl_reach s" and "jm_get (sv_adapters (timerFires ml slow s)) l = Some a'"
    and "jm_get (ad_sessions a') uri = Some session'"
  shows "\<exists>a session. jm_get (sv_adapters s) l = Some a \<and> jm_get (ad_sessions a) uri = Some session
    \<and> (as_store session' = as_store session
      \<or> (\<exists>m b. jm_get (sv_models s) uri = Some m \<and> mm_languageId m = l
          \<and> as_store session' = as_store session @ batch_calls ml b
          \<and> 1 \<le> tb_startLineNumber b \<and> tb_startLineNumber b \<le> tb_endLineNumber b
          \<and> tb_endLineNumber b \<le> length (lines_of (mm_text m))
          \<and> tb_lineTokens b = map (line_tokens
                (tokenizeSingleLine l (di_dialect (detectLanguageAndDialect uri)))
                (new_lexer_state ''root'' None [] (Some (di_dialect (detectLanguageAndDialect uri))))
                (lines_of (mm_text m))) [tb_startLineNumber b..<Suc (tb_endLineNumber b)]))"
  using assms by (rule timerFires_store)

theorem stored_tokens_are_current_witness:
  "\<exists>a' session' b.
    jm_get (sv_adapters (timerFires True (\<lambda>_. False) (attachTokenizer ''jsp'' ''a.jsp'' example_service))) ''jsp'' = Some a'
    \<and> jm_get (ad_sessions a') ''a.jsp'' = Some session' \<and> as_store session' \<noteq> []
    \<and> as_store session' = batch_calls True b \<and> tb_startLineNumber b = 1 \<and> tb_endLineNumber b = 1"
proof -
  let ?s = "attachTokenizer ''jsp'' ''a.jsp'' example_service"
  let ?s' = "timerFires True (\<lambda>_. False) ?s"
  have r: "hl_reach ?s"
    unfolding example_service_def
    by (rule hl_reach.attach [OF hl_reach.create [OF hl_reach.start]]) (simp add: onStart_def)
  have "case jm_get (sv_adapters ?s') ''jsp'' of None \<Rightarrow> False
      | Some a' \<Rightarrow> (case jm_get (ad_sessions a') ''a.jsp'' of Some s \<Rightarrow> as_store s \<noteq> [] | None \<Rightarrow> False)" by code_simp
  then obtain a' session' where a': "jm_get (sv_adapters ?s') ''jsp'' = Some a'"
    and s': "jm_get (ad_sessions a') ''a.jsp'' = Some session'" "as_store session' \<noteq> []"
    by (auto split: option.splits)
  have m: "map_option mm_text (jm_get (sv_models ?s) ''a.jsp'') = Some ''<p>''" by code_simp
  have l: "length (lines_of ''<p>'') = 1" by code_simp
  have e: "as_store session = []"
    if "jm_get (sv_adapters ?s) ''jsp'' = Some a" "jm_get (ad_sessions a) ''a.jsp'' = Some session" for a session
  proof -
    have "case jm_get (sv_adapters ?s) ''jsp'' of None \<Rightarrow> False
        | Some a \<Rightarrow> (case jm_get (ad_sessions a) ''a.jsp'' of Some s \<Rightarrow> as_store s = [] | None \<Rightarrow> False)" by code_simp
    then show ?thesis using that by simp
  qed
  from stored_tokens_are_current [OF r a' s'(1)] obtain m b where b: "as_store session' = batch_calls True b"
    "jm_get (sv_models ?s) ''a.jsp'' = Some m" "1 \<le> tb_startLineNumber b" "tb_startLineNumber b \<le> tb_endLineNumber b"
    "tb_endLineNumber b \<le> length (lines_of (mm_text m))"
    using e s'(2) by (metis append_Nil)
  then have "tb_endLineNumber b \<le> 1" using m l by simp
  then have "tb_startLineNumber b = 1 \<and> tb_endLineNumber b = 1" using b(3,4) by simp
  then show ?thesis using a' s' b(1) by blast
qed

text \<open>The metadata word of a token kind gives back the language id and the kind:
  two kinds of the lexer with the same metadata are the same kind, and every field that
  \<open>packMonacoMetadata\<close> packs can be read at its bit offset.\<close>

theorem metadata_roundtrip:
  assumes "k \<le> 11" and "k' \<le> 11"
  shows "(kindIdToMetadata k l = kindIdToMetadata k' l' \<longleftrightarrow> k = k' \<and> l AND 0xff = l' AND 0xff)
    \<and> packMonacoMetadata l t f g b AND 0xff = l AND 0xff
    \<and> drop_bit 8 (packMonacoMetadata l t f g b) AND 0x03 = t AND 0x03
    \<and> drop_bit 11 (packMonacoMetadata l t f g b) AND 0x0f = f AND 0x0f
    \<and> drop_bit 15 (packMonacoMetadata l t f g b) AND 0x1ff = g AND 0x1ff
    \<and> drop_bit 24 (packMonacoMetadata l t f g b) = b AND 0xff"
proof -
  have "kindIdToMetadata k l = kindIdToMetadata k l'" if "l AND 0xff = l' AND 0xff"
    using that by (simp only: kindIdToMetadata_def packMonacoMetadata_def)
  then have "kindIdToMetadata k l = kindIdToMetadata k' l' \<longleftrightarrow> k = k' \<and> l AND 0xff = l' AND 0xff"
    using metadata_kind [OF assms, of l l'] metadata_language [of k l] metadata_language [of k' l']
    by metis
  then show ?thesis by (simp only: metadata_fields simp_thms)
qed

theorem metadata_roundtrip_witness:
  "kindIdToMetadata 7 1 \<noteq> kindIdToMetadata 8 1"
  using metadata_roundtrip [of 7 8 1 1] by simp

text \<open>For every token list of the lexer, the layout for \<open>tokenizeEncoded\<close> gives
  each token the end of the one before it as its start, the layout for the store gives its own
  end, and both give the metadata of its kind; the scopes of \<open>tokenize\<close> follow the same starts.\<close>

theorem token_layouts_agree:
  "convertLexicalToProviderTokens (pack_tokens ts) l
     = concat (map2 (\<lambda>s (e, k). [s, kindIdToMetadata (word_of_nat k) l])
         (0 # map (\<lambda>(e, k). word_of_nat e) ts) ts)
   \<and> convertLexicalToStoredTokens (pack_tokens ts) l
     = concat (map (\<lambda>(e, k). [word_of_nat e, kindIdToMetadata (word_of_nat k) l]) ts)
   \<and> scope_loop 0 (pack_tokens ts)
     = map2 (\<lambda>s (e, k). (s, typeNumToScope (word_of_nat k)))
         (0 # map (\<lambda>(e, k). word_of_nat e) ts) ts"
  by (simp only: convertLexicalToProviderTokens_def provider_loop_pack stored_pack scope_loop_pack)

section \<open>Regions of a JSP page\<close>

text \<open>C36: the regions of a page are non-empty, start where the last one ended and
  end with the text: put together they are the page; each has its inner range inside it, the
  delimiters of its kind, and is closed or reaches the end of the page.\<close>

theorem regions_partition_page:
  "tiles 0 (scanRegions s d) (length s)
   \<and> concat (map (\<lambda>r. js_slice s (rg_startOffset r) (rg_endOffset r)) (scanRegions s d)) = s
   \<and> list_all (region_ok s) (scanRegions s d)"
proof -
  have t: "tiles 0 (scanRegions s d) (length s)" "list_all (region_ok s) (scanRegions s d)"
    using scan_loop_ok [of 0 s "computeLineOffsets s" "d = DialectJspx \<or> d = DialectTagx"]
    by (simp_all add: scanRegions_def list_all_iff)
  with tiles_concat [OF t(1)] show ?thesis by (simp add: js_slice_def)
qed

text \<open>The line and column a region reports for its start and its end are those
  reached by walking over the page to its offsets.\<close>

theorem region_positions:
  "list_all (\<lambda>r. (rg_startLine r, rg_startCol r) = pos_of s (rg_startOffset r)
      \<and> (rg_endLine r, rg_endCol r) = pos_of s (rg_endOffset r)) (scanRegions s d)"
proof -
  have ok: "region_ok s r" if "r \<in> set (scanRegions s d)" for r
    using scan_loop_ok [of 0 s "computeLineOffsets s" "d = DialectJspx \<or> d = DialectTagx"] that
    by (simp add: scanRegions_def)
  have "(rg_startLine r, rg_startCol r) = pos_of s (rg_startOffset r)
      \<and> (rg_endLine r, rg_endCol r) = pos_of s (rg_endOffset r)" if "r \<in> set (scanRegions s d)" for r
    using placed_scan_loop [of r "computeLineOffsets s" s "d = DialectJspx \<or> d = DialectTagx" 0] that
      ok [OF that] getPos_line_table [OF line_table_computeLineOffsets, of _ s]
    by (simp add: scanRegions_def placed_def region_ok_def)
  then show ?thesis by (simp add: list_all_iff)
qed

text \<open>C37: the search for the end of a scriptlet finds the first \<open>%>\<close> that stands
  in code: from where the search begins, the text up to it is a sequence of complete Java literals,
  complete Java comments, escapes \<open>%\>\<close>, and single characters at which none of these and no \<open>%>\<close>
  begins. Where the text has no such place the search reports none. So a \<open>%>\<close> in a literal or in a
  comment does not end the scriptlet, although the comment above the search says that every unescaped
  one does.\<close>

theorem scriptlet_close_is_lexer:
  "findScriptletClose s from = Some j \<longleftrightarrow> (\<exists>n. j = from + n \<and> code_ends (drop from s) n)"
  using close_loop_is_lexer [of s "from" InCode] by (auto simp: findScriptletClose_def code_ends_iff)

text \<open>The Java blocks of a page come in page order without overlap, each lies in
  the page and ends before a \<open>%>\<close> or with the page.\<close>

theorem java_blocks_ordered:
  "sorted_wrt (\<lambda>a b. jb_end a \<le> jb_start b) (extractJavaBlocks s d)
   \<and> list_all (\<lambda>b. jb_start b \<le> jb_end b \<and> jb_end b \<le> length s
       \<and> (jb_end b = length s \<or> starts_with_at s ''%>'' (jb_end b))) (extractJavaBlocks s d)"
proof -
  have "tiles 0 (scanRegions s d) (length s) \<and> (\<forall>r\<in>set (scanRegions s d). region_ok s r)"
    unfolding scanRegions_def by (rule scan_loop_ok) simp
  then show ?thesis
    unfolding extractJavaBlocks_def list_all_iff using java_blocks_of_tiles by blast
qed

section \<open>Lines and their tokens\<close>

text \<open>The end offsets of a line's tokens never go back, stay in the line (one
  past its end at most, and only for a line with a backslash), and the kinds are the eleven of the
  theme.\<close>

theorem line_tokens_bounded:
  "toks_ok 0 (length s + (if BSL \<in> set s then 1 else 0)) (fst (single_line_tokens lang dialect s st))"
  by (rule single_line_tokens_ok) auto

text \<open>Whatever the lines, the state after any of them is in one of the seven modes
  that the continuation of a line knows.\<close>

theorem lexer_mode_closed:
  "ls_mode (state_after (tokenizeSingleLine lang dialect)
      (new_lexer_state ''root'' None [] (Some dialect)) ls n) \<in> lexer_modes"
proof -
  have "ls_mode (foldl (\<lambda>s l. snd (tokenizeSingleLine lang dialect l s)) st xs) \<in> lexer_modes"
    if "ls_mode st \<in> lexer_modes" for st xs
    using that
  proof (induction xs arbitrary: st)
    case Nil
    then show ?case by simp
  next
    case (Cons x xs)
    then show ?case
      using single_line_tokens_mode [OF Cons.prems, of lang dialect x]
      by (simp add: tokenizeSingleLine_def case_prod_beta)
  qed
  then show ?thesis by (simp add: state_after_def lexer_modes_def)
qed

text \<open>A comment or directive that a line does not close covers the whole
  line with one token and leaves the lexer state as it was.\<close>

theorem open_construct_stays_open:
  assumes "s \<noteq> []" and "lang \<noteq> ''java''"
    and "(ls_mode st, closer, k) \<in> {(''jsp-comment'', ''--%>'', 1), (''html-comment'', ''-->'', 1),
           (mode_java_comment, ''*/'', 1), (''directive'', ''%>'', 3)}"
    and "\<And>i. \<not> starts_with_at s closer i"
  shows "single_line_tokens lang dialect s st = ([(length s, k)], st)"
  using assms by (rule open_construct_continues)

theorem open_construct_stays_open_witness:
  "single_line_tokens ''jsp'' ''jsp'' ''ab''
     (new_lexer_state ''jsp-comment'' None [] (Some ''jsp''))
   = ([(2, 1)], new_lexer_state ''jsp-comment'' None [] (Some ''jsp''))"
proof -
  have "\<not> starts_with_at ''ab'' ''--%>'' i" for i
    by (cases i; cases "i - 1") (auto simp: starts_with_at_def)
  with open_construct_stays_open [of "''ab''" "''jsp''"
      "new_lexer_state ''jsp-comment'' None [] (Some ''jsp'')" "''--%>''" 1 "''jsp''"]
  show ?thesis by simp
qed

text \<open>A scriptlet that is closed on the line on which one of its block
  comments ends is not seen as closed: the state after the line is still \<open>scriptlet\<close>, so a word of
  the template text on the next line gets the kind of a Java identifier; without the comment the
  same closer brings the lexer back to the template text.\<close>

theorem comment_end_loses_scriptlet_close:
  "let in_comment = new_lexer_state mode_java_comment (Some ''java'') [] (Some ''jsp'');
       in_scriptlet = new_lexer_state ''scriptlet'' (Some ''java'') [] (Some ''jsp'')
   in snd (single_line_tokens ''jsp'' ''jsp'' ''*/ %>'' in_comment) = in_scriptlet
    \<and> fst (single_line_tokens ''jsp'' ''jsp'' ''word'' in_scriptlet) = [(4, 10)]
    \<and> ls_mode (snd (single_line_tokens ''jsp'' ''jsp'' ''x; %>'' in_scriptlet)) = ''root''
    \<and> fst (single_line_tokens ''jsp'' ''jsp'' ''word''
          (snd (single_line_tokens ''jsp'' ''jsp'' ''x; %>'' in_scriptlet))) = [(4, 0)]"
  by code_simp

text \<open>The index loop of \<open>rebuildFromFullText\<close> cuts a text at \<open>\r\n\<close>, \<open>\r\<close> and \<open>\n\<close> as the
  structural definition does, with one line start per line, and the binary search of
  \<open>getLineFromOffset\<close> counts the line starts at or before an offset.\<close>

theorem lines_of_text:
  "rebuild_lines s = (lines_of s, 0 # starts_of s)
   \<and> length (lines_of s) = length (0 # starts_of s)
   \<and> getLineFromOffset (0 # starts_of s) off
       = max 1 (int (length (filter (\<lambda>p. int p \<le> off) (0 # starts_of s))))"
  by (simp add: rebuild_lines_eq length_lines_of getLineFromOffset_count [OF sorted_starts_of])

text \<open>Splicing the changes of one event in descending order of their offsets
  is applying them all at once to the old text, whatever the order they come in.\<close>

theorem edits_are_simultaneous:
  assumes "separate_edits 0 cs (length s)" and "distinct (map te_rangeOffset cs)" and "mset changes = mset cs"
  shows "apply_changes changes s = patch 0 cs s"
  using apply_changes_patch [of changes s] descending_separate [OF assms] assms(1) by simp

theorem edits_are_simultaneous_witness:
  "apply_changes [\<lparr>te_rangeOffset = 3, te_rangeLength = 1, te_text = ''X''\<rparr>,
      \<lparr>te_rangeOffset = 0, te_rangeLength = 0, te_text = ''Y''\<rparr>] ''abcd'' = ''YabcX''"
  using edits_are_simultaneous [of "[\<lparr>te_rangeOffset = 0, te_rangeLength = 0, te_text = ''Y''\<rparr>,
      \<lparr>te_rangeOffset = 3, te_rangeLength = 1, te_text = ''X''\<rparr>]" "''abcd''"
      "[\<lparr>te_rangeOffset = 3, te_rangeLength = 1, te_text = ''X''\<rparr>,
      \<lparr>te_rangeOffset = 0, te_rangeLength = 0, te_text = ''Y''\<rparr>]"]
  by (simp add: js_slice_def)

section \<open>Caches and ranges\<close>

text \<open>The closest checkpoint before a line is the one with the greatest line
  below it, replacing and adding a checkpoint is an update of the map of states, and
  invalidation keeps exactly the states and tokens of the lines before the given one.\<close>

theorem checkpoints_are_a_map:
  "(case getClosestCheckpoint n c of
      None \<Rightarrow> {..<n} \<inter> dom (checkpoint_map c) = {}
    | Some cp \<Rightarrow> cp_lineNumber cp < n
        \<and> checkpoint_map c (cp_lineNumber cp) = Some (cp_state cp)
        \<and> {cp_lineNumber cp<..<n} \<inter> dom (checkpoint_map c) = {})
   \<and> checkpoint_map (addCheckpoint k st v c) = (checkpoint_map c)(k \<mapsto> st)
   \<and> checkpoint_map (invalidateFrom n c) = checkpoint_map c |` {..<n}
   \<and> (\<lambda>l. getLineTokens l (invalidateFrom n c)) = (\<lambda>l. getLineTokens l c) |` {..<n}"
  using getClosestCheckpoint_spec [of n c] mtc.cps_add [of k st v c] mtc.cps_invalidate [of n c]
    mtc.toks_invalidate [of n c]
  by (simp add: token_map_def)

text \<open>After any operations of a tokenizer its checkpoints are in strictly ascending line
  order, one per line, and each line has one token array.\<close>

theorem cache_shape:
  "sorted_wrt (<) (map cp_lineNumber (tc_checkpoints (tk_cache (tk_run (new_tokenizer m lang dialect) ops))))
   \<and> distinct (jm_keys (tc_lineTokensMap (tk_cache (tk_run (new_tokenizer m lang dialect) ops))))"
  using tk_run_correct [OF tk_coherent_new, of m lang dialect ops]
  by (simp add: tk_coherent_def cache_wf_def strict_sorted_iff)

text \<open>Adding a range to sorted, separated ranges keeps them so and covers exactly the
  lines of both; cutting them at a dirty line keeps exactly the covered lines before it.\<close>

theorem ranges_merge:
  assumes "separated rs"
  shows "separated (addCoveredRange a b rs)
    \<and> covered_lines (addCoveredRange a b rs) = covered_lines rs \<union> {a..b}
    \<and> separated (cutCovered d rs) \<and> covered_lines (cutCovered d rs) = covered_lines rs \<inter> {..<d}"
  using assms
  by (simp add: ranges.valid_add ranges.covered_add ranges.valid_cut ranges.covered_cut)

theorem ranges_merge_witness:
  "separated (addCoveredRange 3 6 [\<lparr>rn_start = 1, rn_end = 2\<rparr>, \<lparr>rn_start = 7, rn_end = 9\<rparr>])"
  using ranges_merge [of "[\<lparr>rn_start = 1, rn_end = 2\<rparr>, \<lparr>rn_start = 7, rn_end = 9\<rparr>]" 3 6]
  by (simp add: separated_def)

text \<open>The range chosen for the next slice is a non-empty range of lines of the
  document, at most \<open>maxSliceLines\<close> long, none of them covered; none is chosen only when every
  line is covered.\<close>

theorem next_range_is_uncovered:
  assumes "separated rs" and "1 \<le> maxSliceLines"
  shows "case findUncoveredRange rs p q totalLines maxSliceLines of
      None \<Rightarrow> {1..totalLines} \<subseteq> covered_lines rs
    | Some (a, b) \<Rightarrow> 1 \<le> a \<and> a \<le> b \<and> b \<le> totalLines \<and> b - a < maxSliceLines
        \<and> {a..b} \<inter> covered_lines rs = {}"
  using findUncoveredRange_Some [OF assms] findUncoveredRange_None
  by (auto split: option.split)

theorem next_range_is_uncovered_witness:
  "findUncoveredRange [\<lparr>rn_start = 1, rn_end = 4\<rparr>] 1 9 9 3 = Some (5, 7)
   \<and> {5..7} \<inter> covered_lines [\<lparr>rn_start = 1, rn_end = 4\<rparr>] = {}"
proof -
  have "findUncoveredRange [\<lparr>rn_start = 1, rn_end = 4\<rparr>] 1 9 9 3 = Some (5, 7)" by code_simp
  with next_range_is_uncovered [of "[\<lparr>rn_start = 1, rn_end = 4\<rparr>]" 3 1 9 9] show ?thesis
    by (simp add: separated_def)
qed

text \<open>Registering an owner leaves the registry consistent with that owner in
  place for the language and every other language as it was; the registration it replaces, and
  only that one, is disposed, once.\<close>

theorem one_owner_per_language:
  assumes "registry_ok r" and "registerOwner l owner d r = (reg, r')"
  shows "registry_ok r' \<and> getOwner l r' = Some reg \<and> tr_ownerId reg = owner
    \<and> (\<forall>k. k \<noteq> l \<longrightarrow> getOwner k r' = getOwner k r)
    \<and> or_disposed r' = or_disposed r @
        (case getOwner l r of Some q \<Rightarrow> if tr_ownerId q = owner then [] else [tr_id q] | None \<Rightarrow> [])
    \<and> distinct (or_disposed r')"
  using registerOwner_ok [OF assms] unfolding getOwner_def registry_ok_def by blast

theorem one_owner_per_language_witness:
  "or_disposed (snd (registerOwner ''jsp'' ''b'' [] (snd (registerOwner ''jsp'' ''a'' [] new_owner_registry)))) = [0]"
proof -
  let ?r = "snd (registerOwner ''jsp'' ''a'' [] new_owner_registry)"
  have ok: "registry_ok ?r" "getOwner ''jsp'' ?r = Some \<lparr>tr_id = 0, tr_languageId = ''jsp'', tr_ownerId = ''a'', tr_description = []\<rparr>"
    "or_disposed ?r = []"
    by (simp_all add: registerOwner_def new_owner_registry_def registry_ok_def getOwner_def Let_def)
  show ?thesis
    using one_owner_per_language [OF ok(1) prod.collapse [symmetric], of "''jsp''" "''b''" "[]"] ok
    by simp
qed

text \<open>The language and dialect of a file name depend on its extension only,
  whatever the case of its letters, and a JSP dialect is what makes a name of the JSP family.\<close>

theorem extension_decides_dialect:
  assumes "CHR ''.'' \<notin> set e"
  shows "detectLanguageAndDialect (base @ CHR ''.'' # e) = detectLanguageAndDialect (CHR ''.'' # map lower e)
    \<and> (isJspFamily (di_languageId (detectLanguageAndDialect (base @ CHR ''.'' # e)))
          (Some (di_dialect (detectLanguageAndDialect (base @ CHR ''.'' # e))))
        \<longleftrightarrow> map lower e \<in> {''jsp'', ''jspf'', ''jspx'', ''tag'', ''tagx''})"
  by (rule detect_extension [OF assms])

theorem extension_decides_dialect_witness:
  "isJspFamily (di_languageId (detectLanguageAndDialect ''WEB-INF/a.JSPF''))
     (Some (di_dialect (detectLanguageAndDialect ''WEB-INF/a.JSPF'')))"
proof -
  have m: "map lower ''JSPF'' = ''jspf''" by code_simp
  have b: "''WEB-INF/a.JSPF'' = ''WEB-INF/a'' @ CHR ''.'' # ''JSPF''" and d: "CHR ''.'' \<notin> set ''JSPF''"
    by simp_all
  show ?thesis
    unfolding b extension_decides_dialect [OF d, THEN conjunct2] m by simp
qed


section \<open>The JSP tools\<close>

text \<open>C3: take any page with its static includes. Every character of user
  code in it, in a declaration, a scriptlet or the kept part of an expression, of the page or of
  an included one, is sent by the source map to a line and column of the virtual Java file that
  hold this very character, and the way back from there gives its page, line, column and offset
  as a position in user code. The hypotheses: the text of an included page depends on its URI,
  and no name of an import directive contains a line break.\<close>

theorem page_characters_map_both_ways:
  assumes "buildPageVirtualJava fuel resolver root (cof root) = Some r" and "resolver_ok cof resolver"
    and "resolveIncludeTree fuel resolver root (cof root) = Some pages"
    and "\<forall>p\<in>set pages. \<forall>imp\<in>set (pg_imports p). NL \<notin> set imp"
    and "(uri, b) \<in> set (page_blocks pages (collectExpandedBodyBlocks resolver root (cof root)))"
    and "nb_start b \<le> i" and "i < nb_start b + user_length (cof uri) b" and "cof uri ! i \<noteq> NL"
  shows "\<exists>v j. mapJspPositionToVirtual (pv_sourceMap r) uri (line_at (cof uri) i) (col_at (cof uri) i) = Some v
    \<and> mp_line v < length (split_nl (pv_virtualJava r))
    \<and> char_at (split_nl (pv_virtualJava r) ! mp_line v) (mp_character v) = Some (cof uri ! i)
    \<and> mapVirtualPositionToJsp (pv_sourceMap r) (mp_line v) (mp_character v) = Some j
    \<and> mj_sourceUri j = uri \<and> mp_line j = line_at (cof uri) i \<and> mp_character j = col_at (cof uri) i
    \<and> mp_offset j = int i \<and> mj_inUserCode j"
  by (rule page_positions_lemma [OF assms])

lemma small_page_parts:
  "pg_includes (parsePage u small_page) = []" "pg_imports (parsePage u small_page) = []"
  "map (\<lambda>i. (bb_pageUri i, bb_block i)) (collectExpandedBodyBlocks (\<lambda>_ _. None) ''/p.jsp'' small_page)
    = [(''/p.jsp'', \<lparr>nb_start = 3, nb_end = 5, nb_kind = NScriptlet\<rparr>)]"
  by code_simp+

lemma small_page_tree:
  "resolveIncludeTree 1 (\<lambda>_ _. None) ''/p.jsp'' small_page = Some [parsePage ''/p.jsp'' small_page]"
  by (simp add: resolveIncludeTree_def Let_def sequence_opt_def small_page_parts)

theorem page_characters_map_both_ways_witness:
  "\<exists>r v j. buildPageVirtualJava 1 (\<lambda>_ _. None) ''/p.jsp'' small_page = Some r
    \<and> mapJspPositionToVirtual (pv_sourceMap r) ''/p.jsp'' 0 4 = Some v
    \<and> char_at (split_nl (pv_virtualJava r) ! mp_line v) (mp_character v) = Some (CHR ''x'')
    \<and> mapVirtualPositionToJsp (pv_sourceMap r) (mp_line v) (mp_character v) = Some j
    \<and> mp_line j = 0 \<and> mp_character j = 4"
proof -
  obtain r where r: "buildPageVirtualJava 1 (\<lambda>_ _. None) ''/p.jsp'' small_page = Some r"
    using small_page_tree by (simp add: buildPageVirtualJava_def)
  have b: "(''/p.jsp'', \<lparr>nb_start = 3, nb_end = 5, nb_kind = NScriptlet\<rparr>)
      \<in> set (page_blocks [parsePage ''/p.jsp'' small_page] (collectExpandedBodyBlocks (\<lambda>_ _. None) ''/p.jsp'' small_page))"
    unfolding page_blocks_def small_page_parts(3) by simp
  have p: "line_at small_page 4 = 0" "col_at small_page 4 = 4" "small_page ! 4 = CHR ''x''"
    by (simp_all add: line_at_def col_at_def small_page_def)
  show ?thesis
    using page_characters_map_both_ways [of 1 "\<lambda>_ _. None" "''/p.jsp''" "\<lambda>_. small_page" r _ "''/p.jsp''" _ 4,
        OF r _ small_page_tree _ b] r p
    by (auto simp: resolver_ok_def small_page_parts user_length_def)
qed

text \<open>C23: when the files that the resolver finds from a set of URIs stay in the set
  and the set is finite, the recursion over the static includes returns: there are pages that
  every sufficient fuel gives, and one more than the number of URIs is sufficient.\<close>

theorem include_tree_terminates:
  assumes "finite U" and "root \<in> U"
    and "\<And>u file c. u \<in> U \<Longrightarrow> resolver file u = Some c \<Longrightarrow> resolveRelativeUri u file \<in> U"
  shows "\<exists>pages. \<forall>fuel \<ge> Suc (card U). resolveIncludeTree fuel resolver root content = Some pages"
proof -
  have "traverse_pages (Suc (card U)) resolver [] root content \<noteq> None"
    by (rule traverse_pages_total [OF assms(1,3,2)]) simp_all
  then show ?thesis unfolding resolveIncludeTree_def using traverse_pages_mono by (metis option.exhaust)
qed

text \<open>Two pages that include each other.\<close>

definition include_page :: "string \<Rightarrow> string" where
  "include_page file = ''<%@ include file='' @ [DQ] @ file @ [DQ] @ ''%>''"

definition mutual_resolver :: include_resolver where
  "mutual_resolver file u =
    (if file = ''q.jsp'' then Some (include_page ''p.jsp'') else if file = ''p.jsp'' then Some (include_page ''q.jsp'') else None)"

theorem include_tree_terminates_witness:
  "\<exists>pages. \<forall>fuel \<ge> 3. resolveIncludeTree fuel mutual_resolver ''/p.jsp'' (include_page ''q.jsp'') = Some pages"
proof -
  have r: "resolveRelativeUri ''/p.jsp'' ''q.jsp'' = ''/q.jsp''" "resolveRelativeUri ''/q.jsp'' ''q.jsp'' = ''/q.jsp''"
    "resolveRelativeUri ''/p.jsp'' ''p.jsp'' = ''/p.jsp''" "resolveRelativeUri ''/q.jsp'' ''p.jsp'' = ''/p.jsp''" by code_simp+
  have u: "resolveRelativeUri u f \<in> {''/p.jsp'', ''/q.jsp''}"
    if "u \<in> {''/p.jsp'', ''/q.jsp''}" "mutual_resolver f u = Some c" for u f c
    using that r by (auto simp: mutual_resolver_def split: if_splits)
  show ?thesis using include_tree_terminates [of "{''/p.jsp'', ''/q.jsp''}" "''/p.jsp''" mutual_resolver "include_page ''q.jsp''", OF _ _ u]
    by (simp add: numeral_3_eq_3)
qed

text \<open>URIs are compared as they are written. A page \<open>/x/a.jsp\<close> that includes
  \<open>./a.jsp\<close> gets the new URI \<open>/x/./a.jsp\<close> and is read again: whatever the fuel, with a resolver that
  finds the file under each of its names the recursion does not return, although the cycle is a
  direct one.\<close>

theorem self_include_diverges:
  "\<forall>fuel. resolveIncludeTree fuel (\<lambda>_ _. Some self_page) ''/x/a.jsp'' self_page = None"
  using traverse_self [of "[]" "''/x''"] by (simp add: resolveIncludeTree_def)

text \<open>C8: whatever models are attached, edited, disposed and detached, whatever
  diagnostics runs return or throw, whatever the server reports, whatever the completion of a page asks the shared
  manager for, and however the closings of detached pages go on between all that: as long as no run ends on
  a state that was detached while its model lives and no completion asks for its lease after its page was detached,
  every virtual document open at the manager names a page, and this page is attached and has it as an active
  document or from a completion, or the document is about to be closed. The completion opens documents that only
  the detachment of the page closes. The active documents of an attached page name the page; and they are all
  open, unless a run ended while an earlier closing of the same page was still under way, which can close what
  the run has opened.\<close>

theorem no_leaked_virtual_documents:
  assumes "engine_events_ok throws events (new_engine client)"
    and "e = fold (engine_step throws) events (new_engine client)"
  shows "(\<forall>u. isDocumentOpen u (en_manager e) \<longrightarrow>
        (\<exists>uri. map_option pu_jspUri (parseVirtualUri u) = Some uri
          \<and> (getModelState e uri \<noteq> None \<and> (u \<in> active_of e uri \<or> (\<exists>ev\<in>set events. u \<in> completion_docs ev))
             \<or> u \<in> pending_closings e)))
    \<and> (\<forall>uri. \<forall>u\<in>active_of e uri. map_option pu_jspUri (parseVirtualUri u) = Some uri)
    \<and> (runs_settled throws events (new_engine client) \<longrightarrow> (\<forall>uri. \<forall>u\<in>active_of e uri. isDocumentOpen u (en_manager e)))"
proof -
  let ?C = "\<Union>ev\<in>set events. completion_docs ev"
  have ok: "engine_ok ?C e"
    and s: "runs_settled throws events (new_engine client) \<Longrightarrow> engine_settled e"
    using engine_run_ok [OF new_engine_ok(1) assms(1) subset_refl] new_engine_ok(2) unfolding assms(2) by blast+
  have m: "isDocumentOpen u (en_manager e) \<longleftrightarrow> u \<in> opened (en_manager e)" for u
    using engine_okD(1) [OF ok] by (intro isDocumentOpen_opened) (simp add: manager_named_def)
  have j: "map_option pu_jspUri (parseVirtualUri u) = jsp_of u" for u by (simp add: jsp_of_def)
  show ?thesis
    using engine_okD(4,5) [OF ok] s unfolding m j accounted_def engine_settled_def by blast
qed

definition shared_session :: "engine_event list" where
  "shared_session = [Attach ''p'' ''<%x%>'' 0, Complete ''p'' ''<%x%>'' 0 2 2 (\<lambda>_ _. None),
     Run 0 0 ''<%x%>'' True 0 (\<lambda>_ _. None), Attach ''q'' [] 0, Detach ''q'']"

theorem no_leaked_virtual_documents_witness:
  "isDocumentOpen (virtualUriForBlock ''p'' 0) (en_manager (fold (engine_step (\<lambda>_. False)) shared_session (new_engine FullClient)))"
proof -
  let ?e = "fold (engine_step (\<lambda>_. False)) shared_session (new_engine FullClient)"
  have b: "findJavaBlocks ''<%x%>'' = [\<lparr> nb_start = 2, nb_end = 3, nb_kind = NScriptlet \<rparr>]" by code_simp
  note defs = shared_session_def attachModel_def new_engine_def attached_def getModelState_def runDiagnostics_def Let_def
    put_object_def pending_closings_def detachModel_def setModelMarkers_def split_beta
  have h: "engine_events_ok (\<lambda>_. False) shared_session (new_engine FullClient)" by (simp add: defs)
  have s: "runs_settled (\<lambda>_. False) shared_session (new_engine FullClient)" by (simp add: defs)
  have "virtualUriForBlock ''p'' 0 \<in> active_of ?e ''p''" by (simp add: defs active_of_def b block_uris_def add_new_def)
  then show ?thesis using no_leaked_virtual_documents [OF h refl] s by blast
qed

text \<open>A run that is pending while its state is detached, as happens when the
  language of the model changes, ends with the same sequence number on a model that is not disposed: it opens a
  virtual document again that belongs to no page, and detaching the page once more does not close it.\<close>

theorem detached_run_leaks:
  "let e = fold (engine_step (\<lambda>_. False))
         [Attach ''p'' ''<%x%>'' 0, Detach ''p'', Run 0 0 ''<%x%>'' True 0 (\<lambda>_ _. None), Detach ''p'']
         (new_engine FullClient)
   in isDocumentOpen (virtualUriForBlock ''p'' 0) (en_manager e) \<and> en_states e = []"
  by code_simp

text \<open>C33: between any two moments of a run of the document manager, with any
  interleaving of acquisitions, releases and closings in between: a generation that was handed out
  before the first and is current at the second was current at the first, of the same text. So a lease that
  is not current never becomes current again, and one that is still current has its text.\<close>

theorem stale_lease_stays_stale:
  assumes "g < dm_monotonicGeneration (manager_run throws es (new_doc_manager client))"
    and "isGenerationCurrent u g (manager_run throws es' (manager_run throws es (new_doc_manager client)))"
  shows "isGenerationCurrent u g (manager_run throws es (new_doc_manager client))
    \<and> map_option de_text (doc_get (manager_run throws es' (manager_run throws es (new_doc_manager client))) u)
      = map_option de_text (doc_get (manager_run throws es (new_doc_manager client)) u)"
proof -
  let ?m = "manager_run throws es (new_doc_manager client)"
  let ?n = "manager_run throws es' ?m"
  have ok: "manager_ok ?m" by (rule manager_run_ok) simp
  then have ok': "manager_ok ?n" by (rule manager_run_ok)
  from assms(2) obtain t where t: "open_docs ?n u = Some (g, t)"
    by (auto simp: isGenerationCurrent_view [OF ok'])
  have "fst (fold spec_step es' (manager_spec ?m)) u = Some (g, t)"
    using t manager_run_ok(2) [OF ok, of throws es'] by (metis fst_conv manager_spec_def)
  then have v: "open_docs ?m u = Some (g, t)"
    using spec_run_old [of g "manager_spec ?m"] assms(1) by (simp add: manager_spec_def)
  from v t have "map_option de_text (doc_get ?n u) = map_option de_text (doc_get ?m u)"
    by (auto simp: open_docs_def doc_view_def)
  with v show ?thesis by (simp add: isGenerationCurrent_view [OF ok])
qed

theorem stale_lease_stays_stale_witness:
  "isGenerationCurrent ''u'' 1 (manager_run (\<lambda>_. False) [Ensure ''u'' ''t'' ''java'' None] (new_doc_manager FullClient))"
  using stale_lease_stays_stale [of 1 "\<lambda>_. False" "[Ensure ''u'' ''t'' ''java'' None]" FullClient "''u''"
      "[Ensure ''v'' ''t'' ''java'' None, Ensure ''u'' ''t'' ''java'' None]"]
  by (simp add: manager_run_def new_doc_manager_def ensureOpenedOrUpdated_def find_or_create_def Let_def
      set_entry_def next_generation_def tell_def isGenerationCurrent_def doc_get_def)

text \<open>C5: every run of the document manager, whatever calls the client refuses, is
  the run of a small specification: a map from open documents to generations and texts with a
  counter. Opening or changing a document gives it a fresh generation, and no two open documents
  ever share one.\<close>

theorem manager_implements_spec:
  "manager_spec (manager_run throws es (new_doc_manager client)) = fold spec_step es (\<lambda>_. None, 1)
   \<and> spec_ok (fold spec_step es (\<lambda>_. None, 1))"
proof -
  have "manager_spec (new_doc_manager client) = (\<lambda>_. None, 1)"
    by (simp add: manager_spec_def fun_eq_iff open_docs_None) (simp add: new_doc_manager_def)
  moreover have "spec_ok (\<lambda>_. None, 1)" by (simp add: spec_ok_def)
  ultimately show ?thesis using manager_run_ok(2) spec_ok_run by simp
qed

text \<open>C32: with a client that accepts every call, the language server has exactly the open
  virtual documents, each with the text the manager holds, after any interleaving.
  The server is any that replaces the whole text on a change without a range.\<close>

theorem server_has_virtual_texts:
  assumes "lsp_server srv" and "client \<noteq> NoClient"
  shows "manager_server srv (manager_run (\<lambda>_. False) es (new_doc_manager client)) u =
    map_option de_text (doc_get (manager_run (\<lambda>_. False) es (new_doc_manager client)) u)"
proof -
  let ?m = "manager_run (\<lambda>_. False) es (new_doc_manager client)"
  have "manager_server srv ?m = map_option snd \<circ> open_docs ?m"
    by (rule lsp_server.manager_server_run [OF assms(1)])
      (use assms(2) in \<open>simp_all add: new_doc_manager_def manager_server_def open_docs_def doc_get_def fun_eq_iff\<close>,
       simp add: manager_ok_def)
  then show ?thesis by (simp add: open_docs_def option.map_comp comp_def doc_view_def)
qed

theorem server_has_virtual_texts_witness:
  "manager_server apply_ranged (manager_run (\<lambda>_. False)
     [Ensure ''u'' ''t'' ''java'' None, Ensure ''u'' ''s'' ''java'' None] (new_doc_manager FullClient)) ''u'' = Some ''s''"
  using server_has_virtual_texts [OF shadow.lsp_server_axioms, of FullClient
      "[Ensure ''u'' ''t'' ''java'' None, Ensure ''u'' ''s'' ''java'' None]" "''u''"]
  by (simp add: manager_run_def new_doc_manager_def ensureOpenedOrUpdated_def find_or_create_def Let_def
      set_entry_def next_generation_def tell_def doc_get_def)

text \<open>Two acquisitions of one document that overlap. The first asks for the text
  \<open>a\<close> and waits for the client, the second asks for \<open>b\<close>; then the first goes on. Its lease is
  current although the document, at the manager and at the server, has the text of the other.\<close>

theorem lease_captures_later_text:
  "let (m1, i) = ensureOpenedOrUpdated (\<lambda>_. False) ''u'' ''a'' ''java'' None (new_doc_manager FullClient);
       (m2, j) = ensureOpenedOrUpdated (\<lambda>_. False) ''u'' ''b'' ''java'' None m1;
       (m3, l) = acquire_resume ''u'' i m2
   in lease_isCurrent l m3 \<and> map_option de_text (doc_get m3 ''u'') = Some ''b''"
  by code_simp

text \<open>A diagnostic of the virtual file of one block that starts where a
  character of the block lies gives a marker that starts at the line and column of this
  character in the page (from 1), for every kind of block.\<close>

theorem block_marker_position:
  assumes "nb_start b \<le> i" and "i \<le> nb_end b" and "nb_end b \<le> length content"
    and "mapOffsetToVirtualPosition (js_slice content (nb_start b) (nb_end b)) (int (i - nb_start b)) kind = (l, ch)"
    and "ra_start (dg_range d) = \<lparr> po_line = int l, po_character = int ch \<rparr>"
  shows "let m = mapDiagnosticToJsp content (nb_start b) (js_slice content (nb_start b) (nb_end b)) d kind
    in mk_startLineNumber m = int (line_at content i) + 1 \<and> mk_startColumn m = int (col_at content i) + 1"
  unfolding Let_def using block_marker_start [OF assms] by (rule conjI)

theorem block_marker_position_witness:
  "mk_startLineNumber (mapDiagnosticToJsp (''a'' @ [NL] @ ''<%=x%>'') 5 ''x''
     \<lparr> dg_severity = None, dg_message = [], dg_source = None, dg_code = None,
       dg_range = \<lparr> ra_start = \<lparr> po_line = 11, po_character = 16 \<rparr>, ra_end = \<lparr> po_line = 11, po_character = 17 \<rparr> \<rparr> \<rparr>
     VExpression) = 2"
  using block_marker_position [of "\<lparr> nb_start = 5, nb_end = 6, nb_kind = NExpression \<rparr>" 5 "''a'' @ [NL] @ ''<%=x%>''"
      VExpression 11 16 "\<lparr> dg_severity = None, dg_message = [], dg_source = None, dg_code = None,
       dg_range = \<lparr> ra_start = \<lparr> po_line = 11, po_character = 16 \<rparr>, ra_end = \<lparr> po_line = 11, po_character = 17 \<rparr> \<rparr> \<rparr>"]
  by (simp add: js_slice_def mapOffsetToVirtualPosition_def virtualWrapperLineCount_def JSP_EXPRESSION_PREFIX_def
      Let_def line_at_def)

text \<open>In the virtual Java file of a block, the position computed for an offset of the
  block (of the kept part, for an expression) holds the character of this offset, and the
  inverse gives back the line and column of the offset in the block and, from them, the offset.\<close>

theorem virtual_file_holds_block:
  assumes "i < length c" and "c ! i \<noteq> NL" and "kind = VExpression \<Longrightarrow> i < length (strip_semicolon c)"
  shows "case mapOffsetToVirtualPosition c (int i) kind of (l, ch) \<Rightarrow>
      char_at (split_nl (buildVirtualJavaFile c kind) ! l) ch = Some (c ! i)
      \<and> mapVirtualPositionToBlockOffset c (int l) (int ch) kind = Some (line_at c i, int (col_at c i))
      \<and> nav_positionToOffset c (line_at c i) (col_at c i) = i"
  using virtual_holds [OF assms] virtual_roundtrip [of i c kind] line_start_at [of i c] assms(1)
  by (simp add: split_beta nav_positionToOffset_start)

theorem virtual_file_holds_block_witness:
  "char_at (split_nl (buildVirtualJavaFile ''x;'' VScriptlet) ! 11) 1 = Some (CHR '';'')"
  using virtual_file_holds_block [of 1 "''x;''" VScriptlet]
  by (simp add: mapOffsetToVirtualPosition_def virtualWrapperLineCount_def Let_def)

text \<open>The URI of a virtual document gives back the page and the block
  number, or the page and that it is the whole page, whatever the URI of the page contains.\<close>

theorem virtual_uri_roundtrip:
  "parseVirtualUri (virtualUriForBlock uri n) =
     Some \<lparr> pu_jspUri = uri, pu_blockIndex = Some (int n), pu_isPage = False \<rparr>
   \<and> parseVirtualUri (virtualUriForPage uri) = Some \<lparr> pu_jspUri = uri, pu_blockIndex = None, pu_isPage = True \<rparr>"
  using parse_block_uri parse_page_uri by blast

text \<open>C38: the blocks that the JSP parser finds lie in the page behind the opener of their kind and
  before a closing delimiter, do not overlap, and come in order: the final sort does nothing.\<close>

theorem java_blocks_well_formed:
  "list_all (block_ok s 0) (findJavaBlocks s)
   \<and> sorted_wrt (\<lambda>a b. nb_end a + 4 \<le> nb_start b) (findJavaBlocks s)
   \<and> findJavaBlocks s = find_blocks_loop s 0"
  using find_blocks_ok [of s 0] by (simp add: findJavaBlocks_loop list_all_iff)

section \<open>Java documents and properties files\<close>

text \<open>C6: after any session, with openings of untracked documents and changes that are
  consistent, and with a client that may refuse only \<open>didOpen\<close>: flushing an opened document leaves
  the language server with the text of the editor. The server is any that keeps the protocol.\<close>

theorem flushed_text_reaches_server:
  assumes "lsp_server srv" and "sync_reach throws cs s" and "\<forall>c. throws c \<longrightarrow> (\<exists>u l v t. c = DidOpen u l v t)"
    and "jm_get (ds_docs s) u = Some d" and "td_openSent d" and "u \<noteq> []"
  shows "server srv (flushPending throws (Some u) s) u = Some (td_text d)"
proof -
  have "sync_reach throws cs (flushPending throws (Some u) s)"
    using sync_reach.step [OF assms(2), where e = "FlushPending (Some u)"] by simp
  with assms(3) have m: "mirror srv (flushPending throws (Some u) s)"
    by (intro lsp_server.mirror_reach [OF assms(1), of throws cs]) auto
  obtain e where "jm_get (ds_docs (flushPending throws (Some u) s)) u = Some e" "td_openSent e"
    "td_text e = td_text d" "\<not> td_timer e"
    by (rule flushPending_doc [OF assms(4-6)])
  with lsp_server.mirror_synced [OF assms(1) m] show ?thesis by metis
qed

theorem flushed_text_reaches_server_witness:
  "server apply_ranged (flushPending (\<lambda>_. False) (Some ''u'') small_session) ''u'' = Some ''b''"
proof -
  have "sync_reach (\<lambda>_. False) ''ready'' small_session"
    using sync_reach.step [OF sync_reach.step [OF sync_reach.start [of "\<lambda>_. False" "''ready''"],
        where e = "OpenDocument ''u'' ''java'' 1 ''a''"], where e = "ChangeDocument ''u'' 2 ''b''"]
    by (simp add: small_session_def new_document_sync_def)
  moreover obtain d where "jm_get (ds_docs small_session) ''u'' = Some d" "td_openSent d" "td_text d = ''b''"
    by (simp add: small_session_def changeDocument_def openDocument_def new_document_sync_def flushOpen_def put_doc_def
        call_client_def ready_def effectiveState_def)
  ultimately show ?thesis
    using flushed_text_reaches_server [OF shadow.lsp_server_axioms, of "\<lambda>_. False" "''ready''" small_session "''u''" d] by simp
qed

text \<open>The escaped form of a text is 7-bit and escaping it again changes nothing; and for a text
  without a backslash, with any units, lone surrogates included, unescaping gives the text back.\<close>

theorem properties_roundtrip:
  assumes "BS \<notin> set us"
  shows "unescapeProperties (escapeProperties us) = us
    \<and> (\<forall>u\<in>set (escapeProperties us). u < 0x80) \<and> escapeProperties (escapeProperties us) = escapeProperties us"
  using unescape_escape [OF assms] escape_ascii escape_id by blast

theorem properties_roundtrip_witness:
  "unescapeProperties (escapeProperties [0x41, 0xE9, 0xD83D, 0xDE00, 0xD800]) = [0x41, 0xE9, 0xD83D, 0xDE00, 0xD800]"
  using properties_roundtrip [of "[0x41, 0xE9, 0xD83D, 0xDE00, 0xD800]"] by simp

end
